(* ===== verification/Js_Prelude.thy ===== *)
theory Js_Prelude
  imports Main "HOL-Library.Monad_Syntax"
begin

text \<open>
  What the scripts of the two web front ends use of JavaScript, shared by every component:
  JSON values and the conversions \<open>String(v)\<close> and \<open>==\<close>, decimal numerals, plain
  objects as ordered association lists, and statements that may throw. The string methods are in
  \<open>Js_Strings\<close>.

  Numbers are integers: the configuration schema gives every number the scripts compute with
  (\<open>chid\<close>, \<open>port\<close>, canvas coordinates) the type integer. An absent property (\<open>undefined\<close>) is
  \<open>None\<close>; a statement that throws returns the error together with the state reached so far,
  because JavaScript does not roll back.
\<close>

named_theorems js_defs \<open>definitions of the statement combinators\<close>

section \<open>Statements that may throw\<close>

datatype js_error = TypeError | JsError string

type_synonym 's stmt = "'s \<Rightarrow> js_error option \<times> 's"

definition skip :: "'s stmt" where
  "skip s = (None, s)"

definition throw :: "js_error \<Rightarrow> 's stmt" where
  "throw e s = (Some e, s)"

definition upd :: "('s \<Rightarrow> 's) \<Rightarrow> 's stmt" where
  "upd f s = (None, f s)"

definition andThen :: "'s stmt \<Rightarrow> 's stmt \<Rightarrow> 's stmt" where
  "andThen a b s = (case a s of (Some e, s') \<Rightarrow> (Some e, s') | (None, s') \<Rightarrow> b s')"

text \<open>\<open>readThen g k\<close> evaluates an expression on the current state and continues with it.\<close>

definition readThen :: "('s \<Rightarrow> 'a) \<Rightarrow> ('a \<Rightarrow> 's stmt) \<Rightarrow> 's stmt" where
  "readThen g k s = k (g s) s"

definition onlyIf :: "bool \<Rightarrow> 's stmt \<Rightarrow> 's stmt" where
  "onlyIf b a = (if b then a else skip)"

fun forEach :: "'a list \<Rightarrow> ('a \<Rightarrow> 's stmt) \<Rightarrow> 's stmt" where
  "forEach [] f s = (None, s)"
| "forEach (x # xs) f s =
     (case f x s of (Some e, s') \<Rightarrow> (Some e, s') | (None, s') \<Rightarrow> forEach xs f s')"

declare skip_def [js_defs] throw_def [js_defs] upd_def [js_defs] andThen_def [js_defs]
  readThen_def [js_defs] onlyIf_def [js_defs]

lemma andThen_assoc: "andThen (andThen a b) c = andThen a (andThen b c)"
  by (auto simp: js_defs fun_eq_iff split: prod.splits option.splits)

lemma forEach_append:
  "forEach (xs @ ys) f s =
     (case forEach xs f s of (Some e, s') \<Rightarrow> (Some e, s') | (None, s') \<Rightarrow> forEach ys f s')"
  by (induction xs arbitrary: s) (auto split: prod.splits option.splits)

text \<open>The rule for loops: an invariant kept by every iteration that does not throw.\<close>

lemma forEach_invariant:
  assumes "forEach xs f s = (None, s')" and "I s"
    and "\<And>x t t'. x \<in> set xs \<Longrightarrow> I t \<Longrightarrow> f x t = (None, t') \<Longrightarrow> I t'"
  shows "I s'"
  using assms
proof (induction xs arbitrary: s)
  case Nil
  then show ?case by simp
next
  case (Cons x xs)
  from Cons.prems(1) obtain t where t: "f x s = (None, t)" "forEach xs f t = (None, s')"
    by (auto split: prod.splits option.splits)
  then have "I t" using Cons.prems(2,3) by (meson list.set_intros(1))
  with t(2) show ?case using Cons.IH Cons.prems(3) by (meson list.set_intros(2))
qed

text \<open>A loop whose body cannot throw while its invariant holds does not throw.\<close>

lemma forEach_total:
  assumes "I s"
    and "\<And>x t. x \<in> set xs \<Longrightarrow> I t \<Longrightarrow> \<exists>t'. f x t = (None, t') \<and> I t'"
  shows "\<exists>s'. forEach xs f s = (None, s') \<and> I s'"
  using assms
proof (induction xs arbitrary: s)
  case Nil
  then show ?case by simp
next
  case (Cons x xs)
  from Cons.prems obtain t where "f x s = (None, t)" "I t" by (meson list.set_intros(1))
  then show ?case using Cons.IH [of t] Cons.prems(2) by auto
qed

section \<open>Decimal numerals: \<open>String(n)\<close>\<close>

definition digit :: "nat \<Rightarrow> char" where
  "digit d = ''0123456789'' ! d"

fun nat_str :: "nat \<Rightarrow> string" where
  "nat_str n = (if n < 10 then [digit n] else nat_str (n div 10) @ [digit (n mod 10)])"

declare nat_str.simps [simp del]

definition int_str :: "int \<Rightarrow> string" where
  "int_str i = (if i < 0 then CHR ''-'' # nat_str (nat (- i)) else nat_str (nat i))"

definition digit_val :: "char \<Rightarrow> nat option" where
  "digit_val c = (let k = (of_char c :: nat) in if 48 \<le> k \<and> k \<le> 57 then Some (k - 48) else None)"

definition is_digit :: "char \<Rightarrow> bool" where
  "is_digit c = (digit_val c \<noteq> None)"

text \<open>The value of a digit string, most significant digit first.\<close>

definition digits_nat :: "string \<Rightarrow> nat" where
  "digits_nat s = foldl (\<lambda>acc c. 10 * acc + (case digit_val c of Some d \<Rightarrow> d | None \<Rightarrow> 0)) 0 s"

lemma less_10_cases: "n < (10::nat) \<Longrightarrow>
  n = 0 \<or> n = 1 \<or> n = 2 \<or> n = 3 \<or> n = 4 \<or> n = 5 \<or> n = 6 \<or> n = 7 \<or> n = 8 \<or> n = 9"
  by arith

lemma digit_val_digit [simp]: "d < 10 \<Longrightarrow> digit_val (digit d) = Some d"
  by (auto dest!: less_10_cases simp: digit_def digit_val_def)

lemma is_digit_digit [simp]: "d < 10 \<Longrightarrow> is_digit (digit d)"
  by (simp add: is_digit_def)

lemma nat_str_small: "n < 10 \<Longrightarrow> nat_str n = [digit n]"
  by (subst nat_str.simps) simp

lemma nat_str_big: "\<not> n < 10 \<Longrightarrow> nat_str n = nat_str (n div 10) @ [digit (n mod 10)]"
  by (subst nat_str.simps) simp

lemma nat_str_nonempty [simp]: "nat_str n \<noteq> []"
  by (subst nat_str.simps) simp

lemma nat_str_digits: "c \<in> set (nat_str n) \<Longrightarrow> is_digit c"
proof (induction n rule: nat_str.induct)
  case (1 n)
  then show ?case by (cases "n < 10") (auto simp: nat_str_small nat_str_big)
qed

lemma digits_nat_nat_str [simp]: "digits_nat (nat_str n) = n"
proof (induction n rule: nat_str.induct)
  case (1 n)
  then show ?case by (cases "n < 10") (simp_all add: nat_str_small nat_str_big digits_nat_def)
qed

lemma nat_str_inject [simp]: "nat_str m = nat_str n \<longleftrightarrow> m = n"
  by (metis digits_nat_nat_str)

lemma length_nat_str_small: "length (nat_str n) = 1 \<longleftrightarrow> n < 10"
proof (cases "n < 10")
  case True
  then show ?thesis by (simp add: nat_str_small)
next
  case False
  then show ?thesis by (simp add: nat_str_big)
qed

section \<open>JSON values\<close>

datatype json =
    JNull
  | JBool bool
  | JNum int
  | JStr string
  | JArr "json list"
  | JObj "(string \<times> json) list"

text \<open>Plain objects: properties in insertion order, each name once.\<close>

type_synonym obj = "(string \<times> json) list"

definition obj_get :: "obj \<Rightarrow> string \<Rightarrow> json option" where
  "obj_get ob k = map_of ob k"

fun alist_put :: "'k \<Rightarrow> 'v \<Rightarrow> ('k \<times> 'v) list \<Rightarrow> ('k \<times> 'v) list" where
  "alist_put k v [] = [(k, v)]"
| "alist_put k v ((k', v') # ps) = (if k' = k then (k, v) # ps else (k', v') # alist_put k v ps)"

definition alist_del :: "'k \<Rightarrow> ('k \<times> 'v) list \<Rightarrow> ('k \<times> 'v) list" where
  "alist_del k ps = filter (\<lambda>p. fst p \<noteq> k) ps"

text \<open>
  Assigning \<open>undefined\<close> leaves a property that reads as \<open>undefined\<close> and that
  \<open>JSON.stringify\<close> drops: the model removes it.
\<close>

definition obj_set :: "string \<Rightarrow> json option \<Rightarrow> obj \<Rightarrow> obj" where
  "obj_set k v ob = (case v of None \<Rightarrow> alist_del k ob | Some j \<Rightarrow> alist_put k j ob)"

lemma map_of_alist_put [simp]: "map_of (alist_put k v ps) = (map_of ps)(k \<mapsto> v)"
  by (induction ps) (auto simp: fun_eq_iff)

lemma map_of_alist_del [simp]: "map_of (alist_del k ps) = (map_of ps)(k := None)"
  unfolding alist_del_def by (induction ps) (auto simp: fun_eq_iff)

lemma keys_alist_put:
  "map fst (alist_put k v ps) = (if k \<in> set (map fst ps) then map fst ps else map fst ps @ [k])"
proof (induction ps)
  case (Cons p ps)
  then show ?case by (cases p) simp
qed simp

lemma keys_alist_del: "map fst (alist_del k ps) = filter (\<lambda>x. x \<noteq> k) (map fst ps)"
  unfolding alist_del_def by (induction ps) auto

lemma distinct_keys_put: "distinct (map fst ps) \<Longrightarrow> distinct (map fst (alist_put k v ps))"
  by (auto simp: keys_alist_put)

lemma distinct_keys_del: "distinct (map fst ps) \<Longrightarrow> distinct (map fst (alist_del k ps))"
  by (auto simp: keys_alist_del)

lemma obj_get_set [simp]: "obj_get (obj_set k v ob) k' = (if k' = k then v else obj_get ob k')"
  by (auto simp: obj_get_def obj_set_def split: option.splits)

lemma obj_get_Nil [simp]: "obj_get [] k = None"
  by (simp add: obj_get_def)

section \<open>Conversions\<close>

fun join :: "string \<Rightarrow> string list \<Rightarrow> string" where
  "join sep [] = ''''"
| "join sep [x] = x"
| "join sep (x # y # xs) = x @ sep @ join sep (y # xs)"

text \<open>\<open>String(v)\<close>; inside an array \<open>null\<close> prints as the empty string.\<close>

fun js_string :: "json \<Rightarrow> string" and js_elem_string :: "json \<Rightarrow> string" where
  "js_string JNull = ''null''"
| "js_string (JBool b) = (if b then ''true'' else ''false'')"
| "js_string (JNum i) = int_str i"
| "js_string (JStr s) = s"
| "js_string (JArr xs) = join '','' (map js_elem_string xs)"
| "js_string (JObj ps) = ''[object Object]''"
| "js_elem_string v = (if v = JNull then '''' else js_string v)"

definition String :: "json option \<Rightarrow> string" where
  "String v = (case v of None \<Rightarrow> ''undefined'' | Some j \<Rightarrow> js_string j)"

definition is_space :: "char \<Rightarrow> bool" where
  "is_space c = (of_char c \<in> {9, 10, 11, 12, 13, 32, 160 :: nat})"

definition trim_left :: "string \<Rightarrow> string" where
  "trim_left s = dropWhile is_space s"

definition trim :: "string \<Rightarrow> string" where
  "trim s = rev (trim_left (rev (trim_left s)))"

text \<open>
  \<open>Number(s)\<close> for integer literals in decimal with an optional sign, the empty literal being
  zero; \<open>None\<close> is \<open>NaN\<close>. Fractions, exponents and \<open>0x\<close> forms are outside the model.
\<close>

definition to_number :: "string \<Rightarrow> int option" where
  "to_number s =
     (case trim s of
        [] \<Rightarrow> Some 0
      | c # cs \<Rightarrow>
          (let ds = (if c = CHR ''-'' \<or> c = CHR ''+'' then cs else c # cs)
           in if ds \<noteq> [] \<and> list_all is_digit ds
              then Some (if c = CHR ''-'' then - int (digits_nat ds) else int (digits_nat ds))
              else None))"

text \<open>\<open>v == n\<close> for a number \<open>n\<close>: booleans and strings convert to numbers, objects to strings first.\<close>

definition eq_num :: "json option \<Rightarrow> int \<Rightarrow> bool" where
  "eq_num v n =
     (case v of
        None \<Rightarrow> False
      | Some JNull \<Rightarrow> False
      | Some (JBool b) \<Rightarrow> (if b then 1 else 0) = n
      | Some (JNum i) \<Rightarrow> i = n
      | Some (JStr s) \<Rightarrow> to_number s = Some n
      | Some (JArr xs) \<Rightarrow> to_number (js_string (JArr xs)) = Some n
      | Some (JObj ps) \<Rightarrow> False)"

text \<open>\<open>v == s\<close> for a string \<open>s\<close>.\<close>

definition eq_str :: "json option \<Rightarrow> string \<Rightarrow> bool" where
  "eq_str v s =
     (case v of
        None \<Rightarrow> False
      | Some JNull \<Rightarrow> False
      | Some (JBool b) \<Rightarrow> to_number s = Some (if b then 1 else 0)
      | Some (JNum i) \<Rightarrow> to_number s = Some i
      | Some (JStr t) \<Rightarrow> t = s
      | Some (JArr xs) \<Rightarrow> js_string (JArr xs) = s
      | Some (JObj ps) \<Rightarrow> js_string (JObj ps) = s)"

lemma String_simps [simp]:
  "String None = ''undefined''" "String (Some j) = js_string j"
  by (simp_all add: String_def)

lemma is_digit_not_space: "is_digit c \<Longrightarrow> \<not> is_space c"
  by (auto simp: is_digit_def digit_val_def is_space_def Let_def split: if_splits)

lemma is_digit_not_sign: "is_digit c \<Longrightarrow> c \<noteq> CHR ''-'' \<and> c \<noteq> CHR ''+'' \<and> c \<noteq> CHR '':''"
  by (auto simp: is_digit_def digit_val_def Let_def split: if_splits)

lemma dropWhile_none: "(\<And>c. c \<in> set s \<Longrightarrow> \<not> P c) \<Longrightarrow> dropWhile P s = s"
  by (cases s) auto

lemma trim_digits:
  assumes "\<forall>c \<in> set s. is_digit c"
  shows "trim s = s"
proof -
  have "dropWhile is_space s = s" and "dropWhile is_space (rev s) = rev s"
    using assms by (auto intro!: dropWhile_none dest: is_digit_not_space)
  then show ?thesis by (simp add: trim_def trim_left_def)
qed

lemma to_number_nat_str [simp]: "to_number (nat_str n) = Some (int n)"
proof (cases "nat_str n")
  case Nil
  then show ?thesis by simp
next
  case (Cons c cs)
  have ds: "\<forall>x \<in> set (c # cs). is_digit x" using nat_str_digits Cons by metis
  then have "c \<noteq> CHR ''-''" and "c \<noteq> CHR ''+''" using is_digit_not_sign by auto
  moreover have "trim (c # cs) = c # cs" using ds by (rule trim_digits)
  moreover have "digits_nat (c # cs) = n" using Cons digits_nat_nat_str by metis
  moreover have "list_all is_digit (c # cs)" using ds by (simp add: list_all_iff)
  ultimately show ?thesis
    using Cons by (simp add: to_number_def)
qed

lemma eq_str_num [simp]: "eq_str (Some (JNum i)) (nat_str n) \<longleftrightarrow> i = int n"
  by (auto simp: eq_str_def)

lemma int_str_of_nat [simp]: "int_str (int n) = nat_str n"
  by (simp add: int_str_def)

end
