(* ===== verification/Conn_Names.thy ===== *)
theory Conn_Names
  imports Js_Prelude
begin

text \<open>
  The names of connections (\<open>drag.js\<close>): four parts joined with colons, "module ID
  sender:sender ID:module ID receiver:receiver ID", which the code later takes apart with
  \<open>split(":")\<close>. The locale states what the parts have to satisfy for the names to be read
  back; numerals do.
\<close>

section \<open>Splitting at a separator\<close>

fun split_on :: "char \<Rightarrow> string \<Rightarrow> string list" where
  "split_on c [] = [[]]"
| "split_on c (x # xs) =
     (if x = c then [] # split_on c xs
      else (case split_on c xs of [] \<Rightarrow> [[x]] | w # ws \<Rightarrow> (x # w) # ws))"

lemma split_on_nonempty [simp]: "split_on c s \<noteq> []"
  by (induction s) (auto split: list.splits)

lemma split_on_free: "c \<notin> set s \<Longrightarrow> split_on c s = [s]"
  by (induction s) auto

lemma split_on_append: "c \<notin> set s \<Longrightarrow> split_on c (s @ c # t) = s # split_on c t"
  by (induction s) auto

text \<open>\<open>up.split(":")[k]\<close>, \<open>None\<close> when the name has no such part.\<close>

definition name_part :: "nat \<Rightarrow> string \<Rightarrow> string option" where
  "name_part k s =
     (let ps = split_on (CHR '':'') s in if k < length ps then Some (ps ! k) else None)"

section \<open>Connection names\<close>

definition conn_name :: "string \<Rightarrow> string \<Rightarrow> string \<Rightarrow> string \<Rightarrow> string" where
  "conn_name mSend ioSend mReceive ioReceive =
     mSend @ '':'' @ ioSend @ '':'' @ mReceive @ '':'' @ ioReceive"

lemma split_conn_name:
  assumes "CHR '':'' \<notin> set a" "CHR '':'' \<notin> set b" "CHR '':'' \<notin> set c" "CHR '':'' \<notin> set d"
  shows "split_on (CHR '':'') (conn_name a b c d) = [a, b, c, d]"
  using assms by (simp add: conn_name_def split_on_append split_on_free)

section \<open>What an identifier encoding promises\<close>

locale id_text =
  fixes enc :: "'a \<Rightarrow> string"
  assumes enc_inject: "enc x = enc y \<Longrightarrow> x = y"
    and enc_no_colon: "CHR '':'' \<notin> set (enc x)"
begin

lemma split_name:
  "split_on (CHR '':'') (conn_name (enc a) (enc b) (enc c) (enc d)) = [enc a, enc b, enc c, enc d]"
  by (rule split_conn_name) (rule enc_no_colon)+

lemma parts:
  "name_part 0 (conn_name (enc a) (enc b) (enc c) (enc d)) = Some (enc a)"
  "name_part 1 (conn_name (enc a) (enc b) (enc c) (enc d)) = Some (enc b)"
  "name_part 2 (conn_name (enc a) (enc b) (enc c) (enc d)) = Some (enc c)"
  "name_part 3 (conn_name (enc a) (enc b) (enc c) (enc d)) = Some (enc d)"
  by (simp_all add: name_part_def split_name)

lemma name_inject:
  "conn_name (enc a) (enc b) (enc c) (enc d) = conn_name (enc a') (enc b') (enc c') (enc d')
   \<longleftrightarrow> a = a' \<and> b = b' \<and> c = c' \<and> d = d'"
proof
  assume "conn_name (enc a) (enc b) (enc c) (enc d) = conn_name (enc a') (enc b') (enc c') (enc d')"
  then have "[enc a, enc b, enc c, enc d] = [enc a', enc b', enc c', enc d']"
    by (metis split_name)
  then show "a = a' \<and> b = b' \<and> c = c' \<and> d = d'" using enc_inject by auto
qed simp

end

lemma colon_not_in_nat_str: "CHR '':'' \<notin> set (nat_str n)"
  using nat_str_digits is_digit_not_sign by blast

interpretation num: id_text nat_str
  by unfold_locales (auto simp: colon_not_in_nat_str)

text \<open>The name of the connection from sender \<open>i\<close> of module \<open>m\<close> to receiver \<open>j\<close> of module \<open>r\<close>.\<close>

definition edge_name :: "nat \<times> nat \<times> nat \<times> nat \<Rightarrow> string" where
  "edge_name = (\<lambda>(m, i, r, j). conn_name (nat_str m) (nat_str i) (nat_str r) (nat_str j))"

lemma edge_name_inject [simp]: "edge_name e = edge_name e' \<longleftrightarrow> e = e'"
  by (cases e; cases e') (simp add: edge_name_def num.name_inject)

lemma name_part_edge:
  "name_part 0 (edge_name (m, i, r, j)) = Some (nat_str m)"
  "name_part (Suc 0) (edge_name (m, i, r, j)) = Some (nat_str i)"
  "name_part 2 (edge_name (m, i, r, j)) = Some (nat_str r)"
  "name_part 3 (edge_name (m, i, r, j)) = Some (nat_str j)"
  using num.parts [of m i r j] by (simp_all add: edge_name_def)

text \<open>
  C19. A connection name determines its four parts: splitting the name the code builds from two
  module IDs and two connector indices gives exactly these four numerals back, so distinct
  connections have distinct names (the keys of \<open>overallConnections\<close>).
\<close>

theorem connection_name_roundtrip:
  "split_on (CHR '':'') (conn_name (nat_str m) (nat_str i) (nat_str r) (nat_str j)) =
     [nat_str m, nat_str i, nat_str r, nat_str j]
   \<and> (conn_name (nat_str m) (nat_str i) (nat_str r) (nat_str j) =
        conn_name (nat_str m') (nat_str i') (nat_str r') (nat_str j')
      \<longleftrightarrow> (m, i, r, j) = (m', i', r', j'))"
  by (simp add: num.split_name num.name_inject)

end
