(* ===== verification/Ports.thy ===== *)
theory Ports
  imports Js_Prelude
begin

text \<open>
  The port generator of the configuration canvas (\<open>drag.js\<close>, \<open>portRange\<close>): two global
  counters, one for module ports and one for connection ports. Calling it with \<open>-1\<close> draws
  the next port, calling it with a port continues after this port.
\<close>

record ports =
  PORTMODULE :: int
  PORTCONNECTION :: int

definition init_ports :: ports where
  "init_ports = \<lparr>PORTMODULE = 5000, PORTCONNECTION = 8000\<rparr>"

definition portRange :: "string \<Rightarrow> int \<Rightarrow> ports \<Rightarrow> (js_error + int) \<times> ports" where
  "portRange ty port s =
     (if ty = ''module'' \<and> port = -1 then
        (let s' = s\<lparr>PORTMODULE := PORTMODULE s + 1\<rparr> in (Inr (PORTMODULE s' - 1), s'))
      else if ty = ''module'' \<and> port \<noteq> -1 then
        (let s' = s\<lparr>PORTMODULE := port + 1\<rparr> in (Inr (PORTMODULE s' - 1), s'))
      else if ty = ''connection'' \<and> port = -1 then
        (let s' = s\<lparr>PORTCONNECTION := PORTCONNECTION s + 1\<rparr> in (Inr (PORTCONNECTION s' - 1), s'))
      else if ty = ''connection'' \<and> port \<noteq> -1 then
        (let s' = s\<lparr>PORTCONNECTION := port + 1\<rparr> in (Inr (PORTCONNECTION s' - 1), s'))
      else (Inl (JsError ''Invalid type value(module or connection)''), s))"

lemma portRange_simps [simp]:
  "portRange ''module'' (-1) s = (Inr (PORTMODULE s), s\<lparr>PORTMODULE := PORTMODULE s + 1\<rparr>)"
  "portRange ''connection'' (-1) s
     = (Inr (PORTCONNECTION s), s\<lparr>PORTCONNECTION := PORTCONNECTION s + 1\<rparr>)"
  "p \<noteq> -1 \<Longrightarrow> portRange ''module'' p s = (Inr p, s\<lparr>PORTMODULE := p + 1\<rparr>)"
  "p \<noteq> -1 \<Longrightarrow> portRange ''connection'' p s = (Inr p, s\<lparr>PORTCONNECTION := p + 1\<rparr>)"
  by (simp_all add: portRange_def Let_def)

text \<open>Drawing \<open>n\<close> ports one after the other, stopping at an error.\<close>

fun draw_ports :: "nat \<Rightarrow> string \<Rightarrow> ports \<Rightarrow> (js_error + int list) \<times> ports" where
  "draw_ports 0 ty s = (Inr [], s)"
| "draw_ports (Suc n) ty s =
     (case portRange ty (-1) s of
        (Inl e, s') \<Rightarrow> (Inl e, s')
      | (Inr p, s') \<Rightarrow>
          (case draw_ports n ty s' of (Inl e, t) \<Rightarrow> (Inl e, t) | (Inr ps, t) \<Rightarrow> (Inr (p # ps), t)))"

section \<open>What a port supply promises\<close>

locale port_supply =
  fixes draw :: "'s \<Rightarrow> (js_error + int) \<times> 's"
    and next_port :: "'s \<Rightarrow> int"
    and draws :: "nat \<Rightarrow> 's \<Rightarrow> (js_error + int list) \<times> 's"
  assumes draw_val: "fst (draw s) = Inr (next_port s)"
    and draw_next: "next_port (snd (draw s)) = next_port s + 1"
    and draws_0: "draws 0 s = (Inr [], s)"
    and draws_Suc: "draws (Suc n) s =
          (case draw s of (Inl e, s') \<Rightarrow> (Inl e, s')
           | (Inr p, s') \<Rightarrow>
               (case draws n s' of (Inl e, t) \<Rightarrow> (Inl e, t) | (Inr ps, t) \<Rightarrow> (Inr (p # ps), t)))"
begin

lemma draws_upto:
  "fst (draws n s) = Inr [next_port s .. next_port s + int n - 1]
   \<and> next_port (snd (draws n s)) = next_port s + int n"
proof (induction n arbitrary: s)
  case 0
  then show ?case by (simp add: draws_0)
next
  case (Suc n)
  obtain s' where d: "draw s = (Inr (next_port s), s')"
    using draw_val by (metis prod.collapse)
  have nx: "next_port s' = next_port s + 1" using draw_next [of s] d by simp
  obtain t where t: "draws n s' = (Inr [next_port s' .. next_port s' + int n - 1], t)"
    "next_port t = next_port s' + int n"
    using Suc [of s'] by (metis prod.collapse)
  have "[next_port s .. next_port s + int (Suc n) - 1]
      = next_port s # [next_port s' .. next_port s' + int n - 1]"
    by (simp add: nx upto_rec1 algebra_simps)
  with d t nx show ?case by (simp add: draws_Suc)
qed

lemma draws_distinct: "fst (draws n s) = Inr ps \<Longrightarrow> distinct ps \<and> length ps = n"
  using draws_upto [of n s] by auto

lemma draws_fresh: "fst (draws n s) = Inr ps \<Longrightarrow> p \<in> set ps \<Longrightarrow> next_port s \<le> p"
  using draws_upto [of n s] by auto

end

interpretation modules: port_supply "portRange ''module'' (-1)" PORTMODULE "\<lambda>n. draw_ports n ''module''"
  by unfold_locales simp_all

interpretation conns: port_supply "portRange ''connection'' (-1)" PORTCONNECTION
    "\<lambda>n. draw_ports n ''connection''"
  by unfold_locales simp_all


text \<open>
  Automatic ports never repeat: \<open>n\<close> draws of one kind succeed, give \<open>n\<close> pairwise different
  consecutive ports, the first being the counter's value, and all later draws lie above them.
\<close>

theorem auto_ports_consecutive:
  "fst (draw_ports n ''module'' s) = Inr [PORTMODULE s .. PORTMODULE s + int n - 1]
   \<and> PORTMODULE (snd (draw_ports n ''module'' s)) = PORTMODULE s + int n
   \<and> fst (draw_ports n ''connection'' s) = Inr [PORTCONNECTION s .. PORTCONNECTION s + int n - 1]
   \<and> PORTCONNECTION (snd (draw_ports n ''connection'' s)) = PORTCONNECTION s + int n"
  using modules.draws_upto conns.draws_upto by blast

text \<open>A call changes at most the counter of its own kind.\<close>

lemma portRange_kinds:
  "PORTCONNECTION (snd (portRange ''module'' p s)) = PORTCONNECTION s
   \<and> PORTMODULE (snd (portRange ''connection'' p s)) = PORTMODULE s
   \<and> fst (portRange ''module'' p s) = Inr (if p = -1 then PORTMODULE s else p)
   \<and> fst (portRange ''connection'' p s) = Inr (if p = -1 then PORTCONNECTION s else p)
   \<and> (ty \<notin> {''module'', ''connection''} \<longrightarrow>
        portRange ty p s = (Inl (JsError ''Invalid type value(module or connection)''), s))"
  by (cases "p = -1") (auto simp: portRange_def Let_def)

end
