(* ===== verification/Canvas.thy ===== *)
theory Canvas
  imports Complex_Main Conn_Names Ports
begin

text \<open>
  The state of the configuration canvas (\<open>drag.js\<close>) and the construction of modules and
  connectors: the globals of the script, the class \<open>Module\<close>, the display objects it builds
  and the hover listeners. \<open>createjs\<close> is a third-party library: its \<open>getBounds\<close> and the
  window's \<open>name\<close> are fields of the parameter \<open>env\<close>; the shapes it draws are kept as the list
  of graphics commands the script issued since the last \<open>clear()\<close>. An object \<open>this\<close> of class
  \<open>Module\<close> is its position in \<open>moduleArray\<close>, from which nothing is ever removed.
\<close>

section \<open>Display objects\<close>

datatype gfx =
    BeginStroke string
  | SetStrokeStyle int
  | BeginFill string
  | DrawRect int int int int
  | DrawRoundRectComplex int int int int int int int int
  | MoveTo rat rat
  | CurveTo rat rat rat rat
  | EndFill
  | EndStroke

text \<open>\<open>Shape name graphics bounds alpha\<close>, \<open>Label text x y\<close>, \<open>Cont name x y children\<close>.\<close>

datatype node =
    Shape string "gfx list" "(int \<times> int \<times> int \<times> int) option" rat
  | Label string rat rat
  | Cont string rat rat "node list"

record env =
  getBounds :: "node \<Rightarrow> rat \<times> rat"
  windowName :: string

definition bounds_width :: "env \<Rightarrow> node \<Rightarrow> rat" where
  "bounds_width E n = fst (getBounds E n)"

definition bounds_height :: "env \<Rightarrow> node \<Rightarrow> rat" where
  "bounds_height E n = snd (getBounds E n)"

section \<open>State\<close>

text \<open>A connector: its container and the start point of the line being drawn from it.\<close>

record connector_box =
  ct_name :: string
  ct_x :: rat
  ct_y :: rat
  ct_square :: "gfx list"
  ct_label :: node
  ct_init :: "(rat \<times> rat) option"

datatype side = Sender | Receiver

record gui_module =
  m_ID :: nat
  m_name :: string
  m_host :: string
  m_type :: string
  m_port :: json
  contName :: string
  cont_x :: int
  cont_y :: int
  dX :: int
  dY :: int
  topSquare :: "gfx list"
  topAlpha :: rat
  labels :: "node list"
  bottom_y :: rat
  bottomParts :: "node list"
  senders :: "string list list"
  receivers :: "string list list"
  chidSendArray :: "connector_box list"
  chidReceiveArray :: "connector_box list"
  dragHooks :: "(side \<times> nat) list"
  connectionLine :: "gfx list"

text \<open>The children of the stage: module containers, their temporary lines, connection lines.\<close>

datatype stage_child = ModCont nat | TempLine nat | ConnLine nat

record canvas =
  moduleID :: nat
  moduleArray :: "gui_module list"
  overallConnections :: "(string \<times> nat) list"
  shapes :: "gfx list list"
  stage :: "stage_child list"
  prt :: ports
  ABOVESENDER :: bool
  ABOVERECEIVER :: bool
  ABOVEINFO :: "(nat \<times> string \<times> string) option"
  TEMPORARYINFO :: "(string \<times> string \<times> string \<times> string) option"

definition init_canvas :: canvas where
  "init_canvas = \<lparr>moduleID = 0, moduleArray = [], overallConnections = [], shapes = [],
     stage = [], prt = init_ports, ABOVESENDER = False, ABOVERECEIVER = False,
     ABOVEINFO = None, TEMPORARYINFO = None\<rparr>"

definition ioSize :: int where
  "ioSize = 30"

definition upd_module :: "nat \<Rightarrow> (gui_module \<Rightarrow> gui_module) \<Rightarrow> canvas \<Rightarrow> canvas" where
  "upd_module p f s = s\<lparr>moduleArray := (moduleArray s)[p := f (moduleArray s ! p)]\<rparr>"

section \<open>Drawing the parts of a module\<close>

definition drawTopSquare :: "gfx list" where
  "drawTopSquare = [BeginStroke ''#000'', SetStrokeStyle 1, BeginFill ''#e85600'',
     DrawRoundRectComplex 0 0 200 80 20 20 0 0, EndFill]"

definition topBounds :: "int \<times> int \<times> int \<times> int" where
  "topBounds = (0, 0, 200, 80)"

definition drawSendSquare :: "string \<Rightarrow> gfx list" where
  "drawSendSquare color =
     [BeginStroke ''#000'', SetStrokeStyle 1, BeginFill color, DrawRect 0 0 40 ioSize, EndFill]"

definition drawReceiveSquare :: "string \<Rightarrow> gfx list" where
  "drawReceiveSquare color =
     [BeginStroke ''#000'', SetStrokeStyle 1, BeginFill color, DrawRect 0 0 40 ioSize, EndFill]"

definition dragNode :: "gui_module \<Rightarrow> node" where
  "dragNode m = Cont ''drag'' 0 0
     (Shape '''' (topSquare m) (Some topBounds) (topAlpha m) # labels m)"

definition boxNode :: "connector_box \<Rightarrow> node" where
  "boxNode b = Cont (ct_name b) (ct_x b) (ct_y b) [Shape '''' (ct_square b) None 1, ct_label b]"

definition bottomNode :: "gui_module \<Rightarrow> node" where
  "bottomNode m = Cont ''bottomBlock'' 0 (bottom_y m)
     (bottomParts m @ map boxNode (chidSendArray m) @ map boxNode (chidReceiveArray m))"

definition moduleNode :: "gui_module \<Rightarrow> node" where
  "moduleNode m = Cont (contName m) (of_int (cont_x m)) (of_int (cont_y m))
     [bottomNode m, dragNode m]"

text \<open>The bottom block: a square and the two buttons with their letters.\<close>

definition widthButtons :: int where "widthButtons = 60"
definition heightButtons :: int where "heightButtons = 40"
definition space :: int where "space = 7"

definition botSquare :: node where
  "botSquare = Shape ''botSquare''
     [BeginFill ''#5755d9'', BeginStroke ''#000'', SetStrokeStyle 1, DrawRect 0 0 200 150, EndFill]
     (Some (0, 0, 200, 150)) 1"

definition addSenderButton :: node where
  "addSenderButton = Shape ''''
     [BeginFill ''#32b643'',
      DrawRoundRectComplex 0 space widthButtons heightButtons 10 10 10 10, EndFill] None 1"

definition addReceiverButton :: node where
  "addReceiverButton = Shape ''''
     [BeginFill ''#ffb700'',
      DrawRoundRectComplex 0 (heightButtons + 2 * space) widthButtons heightButtons 10 10 10 10,
      EndFill] None 1"

definition buttonsContainer :: "env \<Rightarrow> node" where
  "buttonsContainer E = Cont ''buttonsContainer''
     (bounds_width E botSquare / 2 - of_int widthButtons / 2) 0
     [addSenderButton, addReceiverButton,
      Label ''S'' (of_int widthButtons / 2) (of_int space + 15),
      Label ''R'' (of_int widthButtons / 2) (of_int heightButtons + of_int space + 20)]"

definition labelName :: "string \<Rightarrow> nat \<Rightarrow> string" where
  "labelName nm ID = (if nm = ''null'' then ''Module '' @ nat_str ID else nm)"

section \<open>Creating modules\<close>

definition base_module :: "nat \<Rightarrow> string \<Rightarrow> string \<Rightarrow> string \<Rightarrow> json \<Rightarrow> gui_module" where
  "base_module ID nm host ty port = \<lparr>m_ID = ID, m_name = nm, m_host = host, m_type = ty,
     m_port = port, contName = '''', cont_x = 0, cont_y = 0, dX = 0, dY = 0, topSquare = [],
     topAlpha = 1, labels = [], bottom_y = 0, bottomParts = [], senders = [], receivers = [],
     chidSendArray = [], chidReceiveArray = [], dragHooks = [], connectionLine = []\<rparr>"

definition initModule :: "env \<Rightarrow> int \<times> int \<Rightarrow> gui_module \<Rightarrow> gui_module" where
  "initModule E position m =
     (let m1 = m\<lparr>contName := ''module'' @ windowName E, cont_x := fst position,
                 cont_y := snd position, topSquare := drawTopSquare,
                 labels := [Label (labelName (m_name m) (m_ID m)) 100 20,
                            Label (''Host:'' @ m_host m) 100 50]\<rparr>
      in m1\<lparr>bottom_y := bounds_height E (dragNode m1),
            bottomParts := [botSquare, buttonsContainer E]\<rparr>)"

text \<open>\<open>new Module(name, host, type, port, position)\<close>; a port that is null or absent is generated.\<close>

definition new_Module ::
  "env \<Rightarrow> string option \<Rightarrow> json option \<Rightarrow> json option \<Rightarrow> json option \<Rightarrow> int \<times> int
   \<Rightarrow> canvas \<Rightarrow> (js_error + gui_module) \<times> canvas" where
  "new_Module E name host ty port position s =
     (let ID = moduleID s;
          nm = (case name of None \<Rightarrow> nat_str ID | Some n \<Rightarrow> n);
          (drawn, prt') = (if port = None \<or> port = Some JNull
             then (case portRange ''module'' (-1) (prt s) of (r, p') \<Rightarrow> (map_sum id JNum r, p'))
             else (Inr (the port), prt s))
      in case drawn of
           Inl e \<Rightarrow> (Inl e, s\<lparr>prt := prt'\<rparr>)
         | Inr pj \<Rightarrow>
             (Inr (initModule E position (base_module ID nm (String host) (String ty) pj)),
              s\<lparr>moduleID := ID + 1, prt := prt', stage := stage s @ [ModCont ID, TempLine ID]\<rparr>))"

definition dragAndDrop ::
  "env \<Rightarrow> string option \<Rightarrow> json option \<Rightarrow> json option \<Rightarrow> json option \<Rightarrow> (int \<times> int) option
   \<Rightarrow> canvas stmt" where
  "dragAndDrop E name host ty port position s =
     (case new_Module E name host ty port
             (case position of None \<Rightarrow> (0, 0) | Some xy \<Rightarrow> xy) s of
        (Inl e, s') \<Rightarrow> (Some e, s')
      | (Inr m, s') \<Rightarrow> (None, s'\<lparr>moduleArray := moduleArray s' @ [m]\<rparr>))"

section \<open>Creating connectors\<close>

text \<open>
  The check of the S and R buttons: every earlier connector of the kind has a connection.
  Reading a connector that does not exist throws.
\<close>

fun check_used :: "string list list \<Rightarrow> nat list \<Rightarrow> js_error + bool" where
  "check_used conns [] = Inr True"
| "check_used conns (i # is) =
     (if i < length conns then (if conns ! i = [] then Inr False else check_used conns is)
      else Inl TypeError)"

definition find_ID :: "gui_module list \<Rightarrow> nat \<Rightarrow> nat option" where
  "find_ID ms k = find (\<lambda>i. m_ID (ms ! i) = k) [0..<length ms]"

definition checkAddInOut :: "gui_module list \<Rightarrow> nat \<Rightarrow> nat \<Rightarrow> string \<Rightarrow> js_error + bool" where
  "checkAddInOut ms currentM connectNum ty =
     (case find_ID ms currentM of
        None \<Rightarrow> (if connectNum = 0 then Inr True else Inl TypeError)
      | Some posM \<Rightarrow>
          (if ty = ''send'' then check_used (senders (ms ! posM)) [0..<connectNum]
           else check_used (receivers (ms ! posM)) [0..<connectNum]))"

text \<open>\<open>connections[kind][index] = []\<close>; the index is at most the number of slots.\<close>

definition put_slot :: "nat \<Rightarrow> string list list \<Rightarrow> string list list" where
  "put_slot i xs = (if i < length xs then xs[i := []] else xs @ [[]])"

definition initDrawingSend :: "nat \<Rightarrow> gui_module \<Rightarrow> gui_module" where
  "initDrawingSend index m = m\<lparr>senders := put_slot index (senders m),
     dragHooks := dragHooks m @ [(Sender, index)]\<rparr>"

definition initDrawingReceive :: "nat \<Rightarrow> gui_module \<Rightarrow> gui_module" where
  "initDrawingReceive index m = m\<lparr>receivers := put_slot index (receivers m),
     dragHooks := dragHooks m @ [(Receiver, index)]\<rparr>"

definition connector_label :: "nat \<Rightarrow> node" where
  "connector_label index = Label (nat_str index) 20 (of_int ioSize / 2 - 5)"

definition add_sender :: "env \<Rightarrow> gui_module \<Rightarrow> gui_module" where
  "add_sender E m =
     (let index = length (chidSendArray m);
          box = \<lparr>ct_name = ''sender'' @ nat_str index,
                 ct_x = bounds_width E (moduleNode m) - 40,
                 ct_y = of_nat index * of_int ioSize,
                 ct_square = drawSendSquare ''#32b643'',
                 ct_label = connector_label index,
                 ct_init = None\<rparr>
      in initDrawingSend index (m\<lparr>chidSendArray := chidSendArray m @ [box]\<rparr>))"

definition add_receiver :: "gui_module \<Rightarrow> gui_module" where
  "add_receiver m =
     (let index = length (chidReceiveArray m);
          box = \<lparr>ct_name = ''receiver'' @ nat_str index,
                 ct_x = 0,
                 ct_y = of_nat index * of_int ioSize,
                 ct_square = drawReceiveSquare ''#ffb700'',
                 ct_label = connector_label index,
                 ct_init = None\<rparr>
      in initDrawingReceive index (m\<lparr>chidReceiveArray := chidReceiveArray m @ [box]\<rparr>))"

definition makeSenderContainerREADINGONLY :: "env \<Rightarrow> nat \<Rightarrow> canvas stmt" where
  "makeSenderContainerREADINGONLY E p = upd (upd_module p (add_sender E))"

definition makeReceiverContainerREADINGONLY :: "nat \<Rightarrow> canvas stmt" where
  "makeReceiverContainerREADINGONLY p = upd (upd_module p add_receiver)"

definition makeSenderContainer :: "env \<Rightarrow> nat \<Rightarrow> canvas stmt" where
  "makeSenderContainer E p = readThen (\<lambda>s. let m = moduleArray s ! p in
       checkAddInOut (moduleArray s) (m_ID m) (length (chidSendArray m)) ''send'')
     (\<lambda>ok. case ok of
         Inl e \<Rightarrow> throw e
       | Inr b \<Rightarrow> onlyIf b (upd (upd_module p (add_sender E))))"

definition makeReceiverContainer :: "nat \<Rightarrow> canvas stmt" where
  "makeReceiverContainer p = readThen (\<lambda>s. let m = moduleArray s ! p in
       checkAddInOut (moduleArray s) (m_ID m) (length (chidReceiveArray m)) ''receiver'')
     (\<lambda>ok. case ok of
         Inl e \<Rightarrow> throw e
       | Inr b \<Rightarrow> onlyIf b (upd (upd_module p add_receiver)))"

section \<open>Hovering over connectors\<close>

text \<open>\<open>name[k]\<close>: one character, or \<open>undefined\<close> past the end.\<close>

definition char_at :: "nat \<Rightarrow> string \<Rightarrow> string" where
  "char_at k nm = (if k < length nm then [nm ! k] else ''undefined'')"

definition recolor_sender :: "nat \<Rightarrow> string \<Rightarrow> gui_module \<Rightarrow> gui_module" where
  "recolor_sender index color m = m\<lparr>chidSendArray := (chidSendArray m)
     [index := (chidSendArray m ! index)\<lparr>ct_square := drawSendSquare color\<rparr>]\<rparr>"

definition recolor_receiver :: "nat \<Rightarrow> string \<Rightarrow> gui_module \<Rightarrow> gui_module" where
  "recolor_receiver index color m = m\<lparr>chidReceiveArray := (chidReceiveArray m)
     [index := (chidReceiveArray m ! index)\<lparr>ct_square := drawReceiveSquare color\<rparr>]\<rparr>"

definition sender_mouseover :: "nat \<Rightarrow> nat \<Rightarrow> canvas \<Rightarrow> canvas" where
  "sender_mouseover p index s =
     (let m = moduleArray s ! p in
      (upd_module p (recolor_sender index ''#8AF598'') s)
        \<lparr>ABOVEINFO := Some (m_ID m, char_at 6 (ct_name (chidSendArray m ! index)), m_host m),
         ABOVESENDER := True\<rparr>)"

definition sender_mouseout :: "nat \<Rightarrow> nat \<Rightarrow> canvas \<Rightarrow> canvas" where
  "sender_mouseout p index s =
     (upd_module p (recolor_sender index ''#32b643'') s)\<lparr>ABOVEINFO := None, ABOVESENDER := False\<rparr>"

definition receiver_mouseover :: "nat \<Rightarrow> nat \<Rightarrow> canvas \<Rightarrow> canvas" where
  "receiver_mouseover p index s =
     (let m = moduleArray s ! p in
      (upd_module p (recolor_receiver index ''#E0D5B8'') s)
        \<lparr>ABOVEINFO := Some (m_ID m, char_at 8 (ct_name (chidReceiveArray m ! index)), m_host m),
         ABOVERECEIVER := True\<rparr>)"

definition receiver_mouseout :: "nat \<Rightarrow> nat \<Rightarrow> canvas \<Rightarrow> canvas" where
  "receiver_mouseout p index s =
     (upd_module p (recolor_receiver index ''#ffb700'') s)
       \<lparr>ABOVEINFO := None, ABOVERECEIVER := False\<rparr>"

text \<open>Hovering over and leaving the top square of a module.\<close>

definition drag_mouseover :: "nat \<Rightarrow> canvas \<Rightarrow> canvas" where
  "drag_mouseover p = upd_module p (\<lambda>m. m\<lparr>topSquare := drawTopSquare, topAlpha := 1 / 2\<rparr>)"

definition drag_mouseout :: "nat \<Rightarrow> canvas \<Rightarrow> canvas" where
  "drag_mouseout p = upd_module p (\<lambda>m. m\<lparr>topSquare := drawTopSquare, topAlpha := 1\<rparr>)"

section \<open>Well-formed modules\<close>

text \<open>
  What the code relies on: the ID of a module is its position in \<open>moduleArray\<close> (it indexes the
  array with IDs), and the connection lists and containers of a module correspond one to one.
\<close>

definition ids_ok :: "canvas \<Rightarrow> bool" where
  "ids_ok s \<longleftrightarrow> moduleID s = length (moduleArray s)
     \<and> (\<forall>k < length (moduleArray s). m_ID (moduleArray s ! k) = k)"

definition boxes_ok :: "string \<Rightarrow> connector_box list \<Rightarrow> bool" where
  "boxes_ok pre bs \<longleftrightarrow>
     (\<forall>i < length bs. ct_name (bs ! i) = pre @ nat_str i \<and> ct_y (bs ! i) = of_nat i * of_int ioSize)"

definition module_ok :: "gui_module \<Rightarrow> bool" where
  "module_ok m \<longleftrightarrow> length (senders m) = length (chidSendArray m)
     \<and> length (receivers m) = length (chidReceiveArray m)
     \<and> boxes_ok ''sender'' (chidSendArray m) \<and> boxes_ok ''receiver'' (chidReceiveArray m)
     \<and> set (dragHooks m) = {Sender} \<times> {..<length (senders m)} \<union> {Receiver} \<times> {..<length (receivers m)}"

definition canvas_ok :: "canvas \<Rightarrow> bool" where
  "canvas_ok s \<longleftrightarrow> ids_ok s \<and> (\<forall>m \<in> set (moduleArray s). module_ok m)"

lemma canvas_ok_init: "canvas_ok init_canvas"
  by (simp add: canvas_ok_def ids_ok_def init_canvas_def)

lemma canvas_ok_nth: "canvas_ok s \<Longrightarrow> p < length (moduleArray s) \<Longrightarrow> module_ok (moduleArray s ! p)"
  by (simp add: canvas_ok_def)

lemma canvas_ok_ID: "canvas_ok s \<Longrightarrow> p < length (moduleArray s) \<Longrightarrow> m_ID (moduleArray s ! p) = p"
  by (simp add: canvas_ok_def ids_ok_def)

lemma upd_module_array [simp]:
  "moduleArray (upd_module p f s) = (moduleArray s)[p := f (moduleArray s ! p)]"
  "moduleID (upd_module p f s) = moduleID s" "prt (upd_module p f s) = prt s"
  "overallConnections (upd_module p f s) = overallConnections s"
  "shapes (upd_module p f s) = shapes s" "stage (upd_module p f s) = stage s"
  "TEMPORARYINFO (upd_module p f s) = TEMPORARYINFO s"
  "ABOVEINFO (upd_module p f s) = ABOVEINFO s"
  by (simp_all add: upd_module_def)

lemma canvas_ok_upd_module:
  assumes "canvas_ok s" and "p < length (moduleArray s)"
    and "module_ok (f (moduleArray s ! p))" and "m_ID (f (moduleArray s ! p)) = m_ID (moduleArray s ! p)"
  shows "canvas_ok (upd_module p f s)"
  using assms by (auto simp: canvas_ok_def ids_ok_def nth_list_update set_update_subset_insert
      dest!: set_update_subset_insert [THEN subsetD])

lemma canvas_ok_cong:
  "moduleArray s = moduleArray t \<Longrightarrow> moduleID s = moduleID t \<Longrightarrow> canvas_ok s = canvas_ok t"
  by (simp add: canvas_ok_def ids_ok_def)

lemma find_ID_ok:
  assumes "ids_ok s"
  shows "find_ID (moduleArray s) k = (if k < length (moduleArray s) then Some k else None)"
proof -
  let ?ms = "moduleArray s"
  have *: "find (\<lambda>i. m_ID (?ms ! i) = k) [0..<n] = (if k < n then Some k else None)"
    if "n \<le> length ?ms" for n
    using that
  proof (induction n)
    case (Suc n)
    have "m_ID (?ms ! n) = n" using assms Suc.prems by (simp add: ids_ok_def)
    moreover have "find P (xs @ ys) = (case find P xs of None \<Rightarrow> find P ys | Some x \<Rightarrow> Some x)"
      for P and xs ys :: "nat list" by (induction xs) auto
    ultimately show ?case using Suc by auto
  qed simp
  then show ?thesis by (simp add: find_ID_def)
qed

lemma check_used_all:
  "check_used conns [k..<length conns] = Inr ([] \<notin> set (drop k conns))"
proof (induction "length conns - k" arbitrary: k)
  case 0
  then show ?case by simp
next
  case (Suc n)
  then have k: "k < length conns" by simp
  then have "drop k conns = conns ! k # drop (Suc k) conns" by (simp add: Cons_nth_drop_Suc)
  moreover have "check_used conns [Suc k..<length conns] = Inr ([] \<notin> set (drop (Suc k) conns))"
    using Suc by simp
  ultimately show ?case using k by (auto simp: upt_conv_Cons)
qed

lemma checkAddInOut_send:
  assumes "canvas_ok s" "p < length (moduleArray s)"
  shows "checkAddInOut (moduleArray s) p (length (chidSendArray (moduleArray s ! p))) ''send''
    = Inr ([] \<notin> set (senders (moduleArray s ! p)))"
proof -
  have "length (chidSendArray (moduleArray s ! p)) = length (senders (moduleArray s ! p))"
    using canvas_ok_nth [OF assms] by (simp add: module_ok_def)
  then show ?thesis
    using assms check_used_all [of "senders (moduleArray s ! p)" 0]
    by (simp add: checkAddInOut_def find_ID_ok canvas_ok_def)
qed

lemma checkAddInOut_receive:
  assumes "canvas_ok s" "p < length (moduleArray s)"
  shows "checkAddInOut (moduleArray s) p (length (chidReceiveArray (moduleArray s ! p))) ''receiver''
    = Inr ([] \<notin> set (receivers (moduleArray s ! p)))"
proof -
  have "length (chidReceiveArray (moduleArray s ! p)) = length (receivers (moduleArray s ! p))"
    using canvas_ok_nth [OF assms] by (simp add: module_ok_def)
  then show ?thesis
    using assms check_used_all [of "receivers (moduleArray s ! p)" 0]
    by (simp add: checkAddInOut_def find_ID_ok canvas_ok_def)
qed

section \<open>Every construction step keeps the modules well formed\<close>

lemma boxes_ok_snoc:
  "boxes_ok pre bs \<Longrightarrow> ct_name b = pre @ nat_str (length bs)
   \<Longrightarrow> ct_y b = of_nat (length bs) * of_int ioSize \<Longrightarrow> boxes_ok pre (bs @ [b])"
  by (auto simp: boxes_ok_def nth_append less_Suc_eq)

lemma boxes_ok_update:
  "boxes_ok pre bs \<Longrightarrow> ct_name b = ct_name (bs ! i) \<Longrightarrow> ct_y b = ct_y (bs ! i)
   \<Longrightarrow> boxes_ok pre (bs[i := b])"
  by (cases "i < length bs") (auto simp: boxes_ok_def nth_list_update list_update_beyond)

lemma add_sender_fields:
  assumes "module_ok m"
  shows "senders (add_sender E m) = senders m @ [[]]" "receivers (add_sender E m) = receivers m"
    "m_ID (add_sender E m) = m_ID m" "m_name (add_sender E m) = m_name m"
    "length (chidSendArray (add_sender E m)) = Suc (length (chidSendArray m))"
    "chidReceiveArray (add_sender E m) = chidReceiveArray m"
  using assms by (simp_all add: add_sender_def initDrawingSend_def put_slot_def module_ok_def Let_def)

lemma add_receiver_fields:
  assumes "module_ok m"
  shows "receivers (add_receiver m) = receivers m @ [[]]" "senders (add_receiver m) = senders m"
    "m_ID (add_receiver m) = m_ID m" "m_name (add_receiver m) = m_name m"
    "length (chidReceiveArray (add_receiver m)) = Suc (length (chidReceiveArray m))"
    "chidSendArray (add_receiver m) = chidSendArray m"
  using assms by (simp_all add: add_receiver_def initDrawingReceive_def put_slot_def module_ok_def Let_def)

lemma boxes_ok_add_sender: "module_ok m \<Longrightarrow> boxes_ok ''sender'' (chidSendArray (add_sender E m))"
  unfolding add_sender_def initDrawingSend_def Let_def module_ok_def
  by (simp add: boxes_ok_snoc)

lemma boxes_ok_add_receiver: "module_ok m \<Longrightarrow> boxes_ok ''receiver'' (chidReceiveArray (add_receiver m))"
  unfolding add_receiver_def initDrawingReceive_def Let_def module_ok_def
  by (simp add: boxes_ok_snoc)

lemma hooks_add_sender:
  "module_ok m \<Longrightarrow> set (dragHooks (add_sender E m)) = insert (Sender, length (senders m)) (set (dragHooks m))"
  by (simp add: add_sender_def initDrawingSend_def module_ok_def Let_def)

lemma hooks_add_receiver:
  "module_ok m \<Longrightarrow> set (dragHooks (add_receiver m)) = insert (Receiver, length (receivers m)) (set (dragHooks m))"
  by (simp add: add_receiver_def initDrawingReceive_def module_ok_def Let_def)

lemma module_ok_add_sender: "module_ok m \<Longrightarrow> module_ok (add_sender E m)"
  using add_sender_fields [of m E] boxes_ok_add_sender [of m E] hooks_add_sender [of m E]
  unfolding module_ok_def by (simp add: lessThan_Suc)

lemma module_ok_add_receiver: "module_ok m \<Longrightarrow> module_ok (add_receiver m)"
  using add_receiver_fields [of m] boxes_ok_add_receiver [of m] hooks_add_receiver [of m]
  unfolding module_ok_def by (simp add: lessThan_Suc)

lemma module_ok_recolor:
  assumes "module_ok m"
  shows "module_ok (recolor_sender i c m)" and "module_ok (recolor_receiver i c m)"
  using assms unfolding module_ok_def recolor_sender_def recolor_receiver_def
  by (simp_all add: boxes_ok_update)

lemma module_ok_new: "module_ok (initModule E pos (base_module ID nm host ty port))"
  by (simp add: module_ok_def initModule_def base_module_def boxes_ok_def Let_def)

lemma new_module_fields [simp]:
  "m_ID (initModule E pos (base_module ID nm host ty port)) = ID"
  "m_name (initModule E pos (base_module ID nm host ty port)) = nm"
  "m_host (initModule E pos (base_module ID nm host ty port)) = host"
  "m_type (initModule E pos (base_module ID nm host ty port)) = ty"
  "m_port (initModule E pos (base_module ID nm host ty port)) = port"
  "cont_x (initModule E pos (base_module ID nm host ty port)) = fst pos"
  "cont_y (initModule E pos (base_module ID nm host ty port)) = snd pos"
  "senders (initModule E pos (base_module ID nm host ty port)) = []"
  "receivers (initModule E pos (base_module ID nm host ty port)) = []"
  "chidSendArray (initModule E pos (base_module ID nm host ty port)) = []"
  "chidReceiveArray (initModule E pos (base_module ID nm host ty port)) = []"
  by (simp_all add: initModule_def base_module_def Let_def)

text \<open>What \<open>dragAndDrop\<close> does: it never throws and appends one module without connectors.\<close>

lemma dragAndDrop_result:
  "dragAndDrop E name host ty port position s =
     (None, s\<lparr>moduleID := Suc (moduleID s),
        moduleArray := moduleArray s @
          [initModule E (case position of None \<Rightarrow> (0, 0) | Some xy \<Rightarrow> xy)
             (base_module (moduleID s) (case name of None \<Rightarrow> nat_str (moduleID s) | Some n \<Rightarrow> n)
                (String host) (String ty)
                (if port = None \<or> port = Some JNull then JNum (PORTMODULE (prt s)) else the port))],
        prt := (if port = None \<or> port = Some JNull
                then (prt s)\<lparr>PORTMODULE := PORTMODULE (prt s) + 1\<rparr> else prt s),
        stage := stage s @ [ModCont (moduleID s), TempLine (moduleID s)]\<rparr>)"
  by (simp add: dragAndDrop_def new_Module_def Let_def)

lemma canvas_ok_dragAndDrop:
  "canvas_ok s \<Longrightarrow> canvas_ok (snd (dragAndDrop E name host ty port position s))"
  by (auto simp: canvas_ok_def ids_ok_def dragAndDrop_result module_ok_new nth_append less_Suc_eq)

lemma makeSenderContainer_result:
  assumes "canvas_ok s" "p < length (moduleArray s)"
  shows "makeSenderContainer E p s =
    (None, if [] \<in> set (senders (moduleArray s ! p)) then s else upd_module p (add_sender E) s)"
  using assms by (simp add: makeSenderContainer_def js_defs checkAddInOut_send canvas_ok_ID Let_def)

lemma makeReceiverContainer_result:
  assumes "canvas_ok s" "p < length (moduleArray s)"
  shows "makeReceiverContainer p s =
    (None, if [] \<in> set (receivers (moduleArray s ! p)) then s else upd_module p add_receiver s)"
  using assms
  by (simp add: makeReceiverContainer_def js_defs checkAddInOut_receive canvas_ok_ID Let_def)

lemma canvas_ok_add_sender:
  "canvas_ok s \<Longrightarrow> p < length (moduleArray s) \<Longrightarrow> canvas_ok (upd_module p (add_sender E) s)"
  by (rule canvas_ok_upd_module)
    (auto simp: module_ok_add_sender canvas_ok_nth add_sender_fields)

lemma canvas_ok_add_receiver:
  "canvas_ok s \<Longrightarrow> p < length (moduleArray s) \<Longrightarrow> canvas_ok (upd_module p add_receiver s)"
  by (rule canvas_ok_upd_module)
    (auto simp: module_ok_add_receiver canvas_ok_nth add_receiver_fields)

end
