(* ===== verification/Lines.thy ===== *)
theory Lines
  imports Canvas
begin

text \<open>
  Finding the two modules of a connection and drawing its line (\<open>drag.js\<close>, \<open>updateLines\<close>,
  \<open>drawLine\<close>), and moving a module with its lines (the drag listeners of \<open>initModule\<close> and
  of the connectors).
\<close>

section \<open>Finding the modules of a connection\<close>

text \<open>\<open>moduleArray[i].ID == v\<close> for a string \<open>v\<close>.\<close>

definition id_is :: "gui_module \<Rightarrow> string \<Rightarrow> bool" where
  "id_is m v = (to_number v = Some (int (m_ID m)))"

text \<open>
  The search loop with the flag \<open>keepGoing\<close>, which stops at the second hit; the same loop
  stands in \<open>updateLines\<close>, \<open>submitNewConnection\<close> and \<open>copyConnectors\<close>.
\<close>

fun find_two :: "('a \<Rightarrow> bool) \<Rightarrow> ('a \<Rightarrow> bool) \<Rightarrow> bool \<Rightarrow> nat \<Rightarrow> 'a list
    \<Rightarrow> nat option \<times> nat option \<Rightarrow> nat option \<times> nat option" where
  "find_two P Q keepGoing i [] acc = acc"
| "find_two P Q keepGoing i (m # ms) (p, q) =
     (let hit1 = P m;
          p1 = (if hit1 then Some i else p)
      in if hit1 \<and> \<not> keepGoing then (p1, q)
         else
           let kg1 = (keepGoing \<and> \<not> hit1);
               hit2 = Q m;
               q1 = (if hit2 then Some i else q)
           in if hit2 \<and> \<not> kg1 then (p1, q1)
              else find_two P Q (kg1 \<and> \<not> hit2) (Suc i) ms (p1, q1))"

definition find_ends :: "string \<Rightarrow> string \<Rightarrow> bool \<Rightarrow> nat \<Rightarrow> gui_module list
    \<Rightarrow> nat option \<times> nat option \<Rightarrow> nat option \<times> nat option" where
  "find_ends a b = find_two (\<lambda>m. id_is m a) (\<lambda>m. id_is m b)"

lemma id_is_nat_str [simp]: "id_is m (nat_str k) \<longleftrightarrow> m_ID m = k"
  by (auto simp: id_is_def)

text \<open>When each test holds at one position only, the loop finds both, in whatever order.\<close>

definition in_range :: "nat \<Rightarrow> nat \<Rightarrow> nat \<Rightarrow> nat option" where
  "in_range i n a = (if i \<le> a \<and> a < i + n then Some a else None)"

definition hits :: "nat \<Rightarrow> ('a \<Rightarrow> bool) \<Rightarrow> 'a list \<Rightarrow> nat \<Rightarrow> bool" where
  "hits i P xs a \<longleftrightarrow> (\<forall>k < length xs. P (xs ! k) \<longleftrightarrow> i + k = a)"

lemma hits_Cons: "hits i P (x # xs) a \<longleftrightarrow> (P x \<longleftrightarrow> i = a) \<and> hits (Suc i) P xs a"
  unfolding hits_def by (auto simp: nth_Cons less_Suc_eq_0_disj split: nat.splits)

lemma find_two_none:
  assumes "hits i P xs a" "hits i Q xs b" "a < i" "b < i"
  shows "find_two P Q kg i xs acc = acc"
  using assms
proof (induction xs arbitrary: i acc)
  case (Cons x xs)
  then show ?case by (cases acc) (auto simp: hits_Cons Let_def)
qed (cases acc, simp)

lemma find_two_second:
  assumes "hits i P xs a" "hits i Q xs b" "a < i"
  shows "find_two P Q False i xs (Some a, q)
    = (Some a, if in_range i (length xs) b = None then q else Some b)"
  using assms
proof (induction xs arbitrary: i)
  case (Cons x xs)
  then show ?case
    by (cases "b = i") (auto simp: hits_Cons Let_def in_range_def find_two_none)
qed (auto simp: in_range_def)

lemma find_two_first:
  assumes "hits i P xs a" "hits i Q xs b" "b < i"
  shows "find_two P Q False i xs (p, Some b)
    = (if in_range i (length xs) a = None then p else Some a, Some b)"
  using assms
proof (induction xs arbitrary: i)
  case (Cons x xs)
  then show ?case
    by (cases "a = i") (auto simp: hits_Cons Let_def in_range_def find_two_none)
qed (auto simp: in_range_def)

lemma find_two_hits:
  assumes "hits i P xs a" "hits i Q xs b"
  shows "find_two P Q True i xs (None, None) = (in_range i (length xs) a, in_range i (length xs) b)"
  using assms
proof (induction xs arbitrary: i)
  case Nil
  then show ?case by (simp add: in_range_def)
next
  case (Cons x xs)
  then have m: "P x \<longleftrightarrow> i = a" "Q x \<longleftrightarrow> i = b" and xs: "hits (Suc i) P xs a" "hits (Suc i) Q xs b"
    by (auto simp: hits_Cons)
  consider "a = i" "b = i" | "a = i" "b \<noteq> i" | "a \<noteq> i" "b = i" | "a \<noteq> i" "b \<noteq> i" by blast
  then show ?case
  proof cases
    case 1
    then show ?thesis using m by (simp add: Let_def in_range_def)
  next
    case 2
    then show ?thesis using m xs by (auto simp: Let_def in_range_def find_two_second)
  next
    case 3
    then show ?thesis using m xs by (auto simp: Let_def in_range_def find_two_first)
  next
    case 4
    then show ?thesis using m Cons.IH [OF xs] by (auto simp: Let_def in_range_def)
  qed
qed

text \<open>With IDs counting up, the loop over \<open>moduleArray\<close> finds each module at its ID.\<close>

definition counted :: "nat \<Rightarrow> gui_module list \<Rightarrow> bool" where
  "counted i ms \<longleftrightarrow> (\<forall>k < length ms. m_ID (ms ! k) = i + k)"

lemma counted_Cons: "counted i (m # ms) \<longleftrightarrow> m_ID m = i \<and> counted (Suc i) ms"
  unfolding counted_def by (auto simp: nth_Cons less_Suc_eq_0_disj split: nat.splits)

lemma counted_array: "ids_ok s \<Longrightarrow> counted 0 (moduleArray s)"
  by (simp add: ids_ok_def counted_def)

lemma find_ends_array:
  assumes "ids_ok s" "a < length (moduleArray s)" "b < length (moduleArray s)"
  shows "find_ends (nat_str a) (nat_str b) True 0 (moduleArray s) (None, None) = (Some a, Some b)"
proof -
  have "hits 0 (\<lambda>m. id_is m (nat_str k)) (moduleArray s) k" for k
    using counted_array [OF assms(1)] by (simp add: hits_def counted_def)
  from find_two_hits [OF this this] show ?thesis
    using assms(2,3) by (simp add: find_ends_def in_range_def)
qed

section \<open>Drawing a line\<close>

definition drawLine :: "rat \<Rightarrow> rat \<Rightarrow> rat \<Rightarrow> rat \<Rightarrow> gfx list" where
  "drawLine fromX fromY toX toY =
     [SetStrokeStyle 2, BeginStroke ''#000000'', MoveTo fromX fromY,
      CurveTo ((fromX + toX) / 2) ((fromY + toY) / 2 + 100) toX toY, EndStroke]"

text \<open>The points where lines start and end, for a connector index read from a name.\<close>

definition sendPoint :: "env \<Rightarrow> gui_module \<Rightarrow> int \<Rightarrow> rat \<times> rat" where
  "sendPoint E m io = (of_int (cont_x m) + bounds_width E (dragNode m),
     of_int (cont_y m) + bounds_height E (dragNode m) + of_int (io * ioSize) + of_int ioSize / 2)"

definition receivePoint :: "env \<Rightarrow> gui_module \<Rightarrow> int \<Rightarrow> rat \<times> rat" where
  "receivePoint E m io = (of_int (cont_x m),
     of_int (cont_y m) + bounds_height E (dragNode m) + of_int (io * ioSize) + of_int ioSize / 2)"

definition lineBetween :: "rat \<times> rat \<Rightarrow> rat \<times> rat \<Rightarrow> gfx list" where
  "lineBetween a b = drawLine (fst a) (snd a) (fst b) (snd b)"

text \<open>
  \<open>updateLines\<close> throws when a module is not found, or when it is handed no shape (reading
  \<open>graphics\<close> of \<open>undefined\<close>). A connector part that is no number would make the coordinates
  NaN, which the model reports as an error of its own; the names the code builds have numerals.
\<close>

definition updateLines ::
  "env \<Rightarrow> nat option \<Rightarrow> string \<Rightarrow> string \<Rightarrow> string \<Rightarrow> string \<Rightarrow> canvas stmt" where
  "updateLines E line mSend ioSend mReceive ioReceive s =
     (case find_ends mSend mReceive True 0 (moduleArray s) (None, None) of
        (Some p, Some q) \<Rightarrow>
          (case (to_number ioSend, to_number ioReceive) of
             (Some i, Some j) \<Rightarrow>
               (case line of
                  None \<Rightarrow> (Some TypeError, s)
                | Some l \<Rightarrow>
                    (None, s\<lparr>shapes := (shapes s)[l := lineBetween (sendPoint E (moduleArray s ! p) i)
                                                       (receivePoint E (moduleArray s ! q) j)]\<rparr>))
           | _ \<Rightarrow> (Some (JsError ''NaN''), s))
      | _ \<Rightarrow> (Some TypeError, s))"

lemma updateLines_result:
  assumes "ids_ok s" "m < length (moduleArray s)" "r < length (moduleArray s)"
  shows "updateLines E (Some l) (nat_str m) (nat_str i) (nat_str r) (nat_str j) s =
    (None, s\<lparr>shapes := (shapes s)[l := lineBetween (sendPoint E (moduleArray s ! m) (int i))
                                       (receivePoint E (moduleArray s ! r) (int j))]\<rparr>)"
  using assms by (simp add: updateLines_def find_ends_array)

section \<open>Dragging a module\<close>

text \<open>\<open>Math.floor(event.stageX)\<close> on the event's coordinates.\<close>

definition drag_mousedown :: "nat \<Rightarrow> rat \<times> rat \<Rightarrow> canvas \<Rightarrow> canvas" where
  "drag_mousedown p ev s = upd_module p (\<lambda>m. m\<lparr>dX := \<lfloor>fst ev\<rfloor> - cont_x m, dY := \<lfloor>snd ev\<rfloor> - cont_y m\<rparr>) s"

definition move_module :: "rat \<times> rat \<Rightarrow> gui_module \<Rightarrow> gui_module" where
  "move_module ev m = m\<lparr>cont_x := \<lfloor>fst ev\<rfloor> - dX m, cont_y := \<lfloor>snd ev\<rfloor> - dY m\<rparr>"

text \<open>The listener a connector adds to the drag area: redraw each of its lines.\<close>

definition redraw_name :: "env \<Rightarrow> string \<Rightarrow> canvas stmt" where
  "redraw_name E up s =
     (case (name_part 0 up, name_part 1 up, name_part 2 up, name_part 3 up) of
        (Some a, Some b, Some c, Some d) \<Rightarrow>
          updateLines E (map_of (overallConnections s) up) a b c d s
      | _ \<Rightarrow> (Some TypeError, s))"

definition hook_names :: "gui_module \<Rightarrow> side \<times> nat \<Rightarrow> string list" where
  "hook_names m h = (case h of (Sender, i) \<Rightarrow> senders m ! i | (Receiver, i) \<Rightarrow> receivers m ! i)"

text \<open>
  Dragging: the listener of \<open>initModule\<close> moves the container, then the listeners of the
  connectors run in the order they were added. An exception in one of them ends the dispatch:
  the model assumes that the event dispatcher of \<open>createjs\<close> does not catch it.
\<close>

definition drag_pressmove :: "env \<Rightarrow> nat \<Rightarrow> rat \<times> rat \<Rightarrow> canvas stmt" where
  "drag_pressmove E p ev =
     andThen (upd (upd_module p (move_module ev)))
       (readThen (\<lambda>s. concat (map (hook_names (moduleArray s ! p)) (dragHooks (moduleArray s ! p))))
          (\<lambda>names. forEach names (redraw_name E)))"

section \<open>Pressing on a connector and pulling a line\<close>

definition send_mousedown :: "env \<Rightarrow> nat \<Rightarrow> nat \<Rightarrow> canvas \<Rightarrow> canvas" where
  "send_mousedown E p index = upd_module p (\<lambda>m. m\<lparr>chidSendArray := (chidSendArray m)
     [index := (chidSendArray m ! index)\<lparr>ct_init := Some
        (of_int (cont_x m) + bounds_width E (dragNode m),
         of_int (cont_y m) + bounds_height E (dragNode m) + of_int (int index * ioSize) + 15)\<rparr>]\<rparr>)"

definition receive_mousedown :: "env \<Rightarrow> nat \<Rightarrow> nat \<Rightarrow> canvas \<Rightarrow> canvas" where
  "receive_mousedown E p index = upd_module p (\<lambda>m. m\<lparr>chidReceiveArray := (chidReceiveArray m)
     [index := (chidReceiveArray m ! index)\<lparr>ct_init := Some
        (of_int (cont_x m),
         of_int (cont_y m) + bounds_height E (dragNode m) + of_int (int index * ioSize) + 15)\<rparr>]\<rparr>)"

text \<open>A press-move follows a press on the same connector, which has set its start point.\<close>

definition pull_line :: "(rat \<times> rat) option \<Rightarrow> rat \<times> rat \<Rightarrow> gui_module \<Rightarrow> gui_module" where
  "pull_line start ev m =
     (case start of
        None \<Rightarrow> m
      | Some (x, y) \<Rightarrow>
          m\<lparr>connectionLine := drawLine x y (of_int \<lfloor>fst ev\<rfloor>) (of_int \<lfloor>snd ev\<rfloor>)\<rparr>)"

definition send_pressmove :: "nat \<Rightarrow> nat \<Rightarrow> rat \<times> rat \<Rightarrow> canvas \<Rightarrow> canvas" where
  "send_pressmove p index ev =
     upd_module p (\<lambda>m. pull_line (ct_init (chidSendArray m ! index)) ev m)"

definition receive_pressmove :: "nat \<Rightarrow> nat \<Rightarrow> rat \<times> rat \<Rightarrow> canvas \<Rightarrow> canvas" where
  "receive_pressmove p index ev =
     upd_module p (\<lambda>m. pull_line (ct_init (chidReceiveArray m ! index)) ev m)"

text \<open>
  The line pulled from a connector starts where the line of a connection starts: the press
  position and the connection's end are the same point.
\<close>

lemma pulled_line_start:
  "ct_init (chidSendArray (moduleArray (send_mousedown E p i s) ! p) ! i)
     = Some (sendPoint E (moduleArray s ! p) (int i))"
  if "p < length (moduleArray s)" "i < length (chidSendArray (moduleArray s ! p))"
  using that by (simp add: send_mousedown_def sendPoint_def ioSize_def)

end
