(* ===== verification/Connections.thy ===== *)
theory Connections
  imports Lines
begin

text \<open>
  The connections of the canvas (\<open>drag.js\<close>): \<open>connectLines\<close>, \<open>deleteConnection\<close>,
  \<open>cancelConnection\<close> and \<open>checkConnection\<close>. A connection is kept three times, in the list of
  its sender, in the list of its receiver and as a key of \<open>overallConnections\<close>; the abstract
  view is the set of edges, and the lemmas show that the operations keep the three copies equal
  and act on the edges as insertion, deletion and lookup.
\<close>

section \<open>Editing the list of one connector\<close>

text \<open>The slot a property key names: \<open>connections[kind][key]\<close>.\<close>

definition slot_of :: "string \<Rightarrow> 'a list \<Rightarrow> nat option" where
  "slot_of key xs = find (\<lambda>i. nat_str i = key) [0..<length xs]"

lemma find_upt_eq: "find (\<lambda>i. f i = f k) [0..<n] = (if k < n then Some k else None)" if "inj f"
proof (induction n)
  case (Suc n)
  have "find P (xs @ ys) = (case find P xs of None \<Rightarrow> find P ys | Some x \<Rightarrow> Some x)"
    for P and xs ys :: "nat list" by (induction xs) auto
  then show ?case using Suc that by (auto simp: inj_eq)
qed simp

lemma slot_of_nat_str [simp]: "slot_of (nat_str i) xs = (if i < length xs then Some i else None)"
  unfolding slot_of_def by (rule find_upt_eq) (simp add: inj_def)

definition edit_slot :: "(string list \<Rightarrow> string list) \<Rightarrow> string \<Rightarrow> string list list \<Rightarrow> string list list option" where
  "edit_slot f key xs = map_option (\<lambda>i. xs[i := f (xs ! i)]) (slot_of key xs)"

text \<open>
  The loop of \<open>connectLines\<close> and \<open>deleteConnection\<close> over \<open>moduleArray\<close>: at the receiver's module
  edit its list, at the sender's module edit its list, stop at the second hit. A list that does
  not exist throws, and the edits made before stay.
\<close>

fun edge_loop :: "(string list \<Rightarrow> string list) \<Rightarrow> string \<Rightarrow> string \<Rightarrow> string \<Rightarrow> string \<Rightarrow> bool
    \<Rightarrow> gui_module list \<Rightarrow> js_error option \<times> gui_module list" where
  "edge_loop f mSend ioSend mReceive ioReceive keepGoing [] = (None, [])"
| "edge_loop f mSend ioSend mReceive ioReceive keepGoing (m # ms) =
     (let hit1 = id_is m mReceive in
      case (if hit1 then edit_slot f ioReceive (receivers m) else Some (receivers m)) of
        None \<Rightarrow> (Some TypeError, m # ms)
      | Some rs \<Rightarrow>
          let m1 = m\<lparr>receivers := rs\<rparr> in
          if hit1 \<and> \<not> keepGoing then (None, m1 # ms)
          else
            let kg1 = (keepGoing \<and> \<not> hit1); hit2 = id_is m mSend in
            case (if hit2 then edit_slot f ioSend (senders m1) else Some (senders m1)) of
              None \<Rightarrow> (Some TypeError, m1 # ms)
            | Some ss \<Rightarrow>
                let m2 = m1\<lparr>senders := ss\<rparr> in
                if hit2 \<and> \<not> kg1 then (None, m2 # ms)
                else (case edge_loop f mSend ioSend mReceive ioReceive (kg1 \<and> \<not> hit2) ms of
                        (e, ms') \<Rightarrow> (e, m2 # ms')))"

section \<open>The operations\<close>

definition connectLines :: "env \<Rightarrow> string \<Rightarrow> string \<Rightarrow> string \<Rightarrow> string \<Rightarrow> canvas stmt" where
  "connectLines E mSend ioSend mReceive ioReceive s =
     (let connectName = conn_name mSend ioSend mReceive ioReceive in
      case edge_loop (\<lambda>ns. ns @ [connectName]) mSend ioSend mReceive ioReceive True (moduleArray s) of
        (Some e, ms) \<Rightarrow> (Some e, s\<lparr>moduleArray := ms\<rparr>)
      | (None, ms) \<Rightarrow>
          (let l = length (shapes s);
               s' = s\<lparr>moduleArray := ms,
                      overallConnections := alist_put connectName l (overallConnections s),
                      shapes := shapes s @ [[]],
                      stage := stage s @ [ConnLine l]\<rparr>
           in updateLines E (map_of (overallConnections s') connectName)
                mSend ioSend mReceive ioReceive s'))"

definition deleteConnection :: "string \<Rightarrow> string \<Rightarrow> string \<Rightarrow> string \<Rightarrow> canvas stmt" where
  "deleteConnection mSend ioSend mReceive ioReceive s =
     (let connectName = conn_name mSend ioSend mReceive ioReceive in
      case edge_loop (remove1 connectName) mSend ioSend mReceive ioReceive True (moduleArray s) of
        (Some e, ms) \<Rightarrow> (Some e, s\<lparr>moduleArray := ms\<rparr>)
      | (None, ms) \<Rightarrow>
          (None, s\<lparr>moduleArray := ms,
                   stage := (case map_of (overallConnections s) connectName of
                       None \<Rightarrow> stage s | Some l \<Rightarrow> remove1 (ConnLine l) (stage s)),
                   overallConnections := alist_del connectName (overallConnections s)\<rparr>))"

definition cancelConnection :: "canvas stmt" where
  "cancelConnection s =
     (case TEMPORARYINFO s of
        None \<Rightarrow> (Some TypeError, s)
      | Some (a, b, c, d) \<Rightarrow> deleteConnection a b c d s)"

text \<open>The comparison of two parts, \<open>connectName[i].split(":")[k] == v\<close> on strings.\<close>

fun check_names :: "string \<Rightarrow> string \<Rightarrow> string \<Rightarrow> string \<Rightarrow> string \<Rightarrow> string list \<Rightarrow> string" where
  "check_names tempName mSend ioSend mRec ioRec [] = ''new''"
| "check_names tempName mSend ioSend mRec ioRec (nm # nms) =
     (if tempName = nm then ''exists''
      else if name_part 2 nm = Some mRec \<and> name_part 3 nm = Some ioRec then ''receiver_full''
      else if name_part 0 nm = Some mSend \<and> name_part 1 nm = Some ioSend then ''sender_full''
      else check_names tempName mSend ioSend mRec ioRec nms)"

definition checkConnection :: "string \<Rightarrow> string \<Rightarrow> string \<Rightarrow> string \<Rightarrow> canvas \<Rightarrow> string" where
  "checkConnection mSend ioSend mRec ioRec s =
     check_names (conn_name mSend ioSend mRec ioRec) mSend ioSend mRec ioRec
       (map fst (overallConnections s))"

section \<open>What the loop does\<close>

text \<open>With counted IDs the loop edits the two lists at their places, if both exist.\<close>

definition on_receiver :: "(string list \<Rightarrow> string list) \<Rightarrow> nat \<Rightarrow> gui_module \<Rightarrow> gui_module" where
  "on_receiver f j m = m\<lparr>receivers := (receivers m)[j := f (receivers m ! j)]\<rparr>"

definition on_sender :: "(string list \<Rightarrow> string list) \<Rightarrow> nat \<Rightarrow> gui_module \<Rightarrow> gui_module" where
  "on_sender f i m = m\<lparr>senders := (senders m)[i := f (senders m ! i)]\<rparr>"

definition edit_ends :: "(string list \<Rightarrow> string list) \<Rightarrow> nat \<times> nat \<times> nat \<times> nat
    \<Rightarrow> gui_module list \<Rightarrow> gui_module list" where
  "edit_ends f = (\<lambda>(m, i, r, j) ms.
     (let ms1 = ms[r := on_receiver f j (ms ! r)] in ms1[m := on_sender f i (ms1 ! m)]))"

definition slots_exist :: "gui_module list \<Rightarrow> nat \<times> nat \<times> nat \<times> nat \<Rightarrow> bool" where
  "slots_exist ms = (\<lambda>(m, i, r, j). m < length ms \<and> i < length (senders (ms ! m))
     \<and> r < length ms \<and> j < length (receivers (ms ! r)))"

lemma edit_slot_nat_str:
  "i < length xs \<Longrightarrow> edit_slot f (nat_str i) xs = Some (xs[i := f (xs ! i)])"
  by (simp add: edit_slot_def)

lemma edge_loop_sender:
  assumes "counted k ms" "r < k" "m - k < length ms" "k \<le> m" "i < length (senders (ms ! (m - k)))"
  shows "edge_loop f (nat_str m) (nat_str i) (nat_str r) jr False ms
     = (None, ms[m - k := on_sender f i (ms ! (m - k))])"
  using assms
proof (induction ms arbitrary: k)
  case (Cons a ms)
  show ?case
  proof (cases "m = k")
    case True
    then show ?thesis using Cons.prems
      by (simp add: counted_Cons Let_def edit_slot_nat_str on_sender_def)
  next
    case False
    then have "m - k = Suc (m - Suc k)" using Cons.prems by simp
    then show ?thesis using Cons.prems Cons.IH [of "Suc k"] False
      by (simp add: counted_Cons Let_def)
  qed
qed simp

lemma edge_loop_receiver:
  assumes "counted k ms" "m < k" "r - k < length ms" "k \<le> r" "j < length (receivers (ms ! (r - k)))"
  shows "edge_loop f (nat_str m) is (nat_str r) (nat_str j) False ms
     = (None, ms[r - k := on_receiver f j (ms ! (r - k))])"
  using assms
proof (induction ms arbitrary: k)
  case (Cons a ms)
  show ?case
  proof (cases "r = k")
    case True
    then show ?thesis using Cons.prems
      by (simp add: counted_Cons Let_def edit_slot_nat_str on_receiver_def)
  next
    case False
    then have "r - k = Suc (r - Suc k)" using Cons.prems by simp
    then show ?thesis using Cons.prems Cons.IH [of "Suc k"] False
      by (simp add: counted_Cons Let_def)
  qed
qed simp

lemma edge_loop_both:
  assumes "counted k ms" "k \<le> m" "k \<le> r" "slots_exist ms (m - k, i, r - k, j)"
  shows "edge_loop f (nat_str m) (nat_str i) (nat_str r) (nat_str j) True ms
     = (None, edit_ends f (m - k, i, r - k, j) ms)"
  using assms
proof (induction ms arbitrary: k)
  case Nil
  then show ?case by (simp add: slots_exist_def)
next
  case (Cons a ms)
  then have a: "m_ID a = k" and ms: "counted (Suc k) ms" by (auto simp: counted_Cons)
  consider "m = k" "r = k" | "m = k" "Suc k \<le> r" | "Suc k \<le> m" "r = k" | "Suc k \<le> m" "Suc k \<le> r"
    using Cons.prems by linarith
  then show ?case
  proof cases
    case 1
    then show ?thesis using a Cons.prems
      by (simp add: slots_exist_def edit_slot_nat_str edit_ends_def on_sender_def on_receiver_def Let_def)
  next
    case 2
    then have "r - k = Suc (r - Suc k)" by simp
    then show ?thesis using 2 a Cons.prems edge_loop_receiver [OF ms, of m r j]
      by (simp add: slots_exist_def edit_slot_nat_str edit_ends_def on_sender_def Let_def)
  next
    case 3
    then have "m - k = Suc (m - Suc k)" by simp
    then show ?thesis using 3 a Cons.prems edge_loop_sender [OF ms, of r m i]
      by (simp add: slots_exist_def edit_slot_nat_str edit_ends_def on_receiver_def Let_def)
  next
    case 4
    then have d: "m - k = Suc (m - Suc k)" "r - k = Suc (r - Suc k)" by simp_all
    then have "slots_exist ms (m - Suc k, i, r - Suc k, j)"
      using Cons.prems(4) by (simp add: slots_exist_def)
    then show ?thesis using 4 d a Cons.IH [OF ms]
      by (simp add: edit_ends_def Let_def)
  qed
qed

lemma edge_loop_array:
  assumes "ids_ok s" "slots_exist (moduleArray s) (m, i, r, j)"
  shows "edge_loop f (nat_str m) (nat_str i) (nat_str r) (nat_str j) True (moduleArray s)
     = (None, edit_ends f (m, i, r, j) (moduleArray s))"
  using edge_loop_both [OF counted_array [OF assms(1)], of m r i j f] assms(2) by simp

lemma edit_ends_props:
  assumes "slots_exist ms e"
  shows "length (edit_ends f e ms) = length ms"
    and "\<And>k. k < length ms \<Longrightarrow> edit_ends f e ms ! k =
      (ms ! k)\<lparr>senders := (case e of (m, i, r, j) \<Rightarrow>
                 if k = m then (senders (ms ! k))[i := f (senders (ms ! k) ! i)] else senders (ms ! k)),
              receivers := (case e of (m, i, r, j) \<Rightarrow>
                 if k = r then (receivers (ms ! k))[j := f (receivers (ms ! k) ! j)]
                 else receivers (ms ! k))\<rparr>"
  using assms
  by (auto simp: edit_ends_def slots_exist_def on_sender_def on_receiver_def Let_def nth_list_update
      split: prod.splits)

section \<open>What the loop leaves alone\<close>

text \<open>Every field of a module but its two tables of lists.\<close>

definition strip :: "gui_module \<Rightarrow> gui_module" where
  "strip m = m\<lparr>senders := [], receivers := []\<rparr>"

lemma strip_fields:
  assumes "strip m = strip m'"
  shows "m_ID m = m_ID m'" "m_name m = m_name m'" "m_host m = m_host m'" "m_type m = m_type m'"
    "m_port m = m_port m'" "cont_x m = cont_x m'" "cont_y m = cont_y m'"
    "chidSendArray m = chidSendArray m'" "chidReceiveArray m = chidReceiveArray m'"
    "dragHooks m = dragHooks m'"
  using assms [THEN arg_cong, of m_ID] assms [THEN arg_cong, of m_name]
    assms [THEN arg_cong, of m_host] assms [THEN arg_cong, of m_type]
    assms [THEN arg_cong, of m_port] assms [THEN arg_cong, of cont_x]
    assms [THEN arg_cong, of cont_y] assms [THEN arg_cong, of chidSendArray]
    assms [THEN arg_cong, of chidReceiveArray] assms [THEN arg_cong, of dragHooks]
  by (simp_all add: strip_def)

definition same_slots :: "gui_module \<Rightarrow> gui_module \<Rightarrow> bool" where
  "same_slots m m' \<longleftrightarrow> strip m = strip m' \<and> length (senders m) = length (senders m')
     \<and> length (receivers m) = length (receivers m')"

lemma same_slots_refl [simp]: "same_slots m m"
  by (simp add: same_slots_def)

lemma same_slots_trans: "same_slots a b \<Longrightarrow> same_slots b c \<Longrightarrow> same_slots a c"
  by (simp add: same_slots_def)

lemma same_slots_set:
  "length rs = length (receivers m) \<Longrightarrow> same_slots m (m\<lparr>receivers := rs\<rparr>)"
  "length ss = length (senders m) \<Longrightarrow> same_slots m (m\<lparr>senders := ss\<rparr>)"
  by (simp_all add: same_slots_def strip_def)

lemma edit_slot_length: "edit_slot f key xs = Some ys \<Longrightarrow> length ys = length xs"
  by (auto simp: edit_slot_def)

lemma module_ok_same_slots: "same_slots m m' \<Longrightarrow> module_ok m \<Longrightarrow> module_ok m'"
  using strip_fields(8-10) [of m m'] by (simp add: same_slots_def module_ok_def)

text \<open>Whatever the arguments, and even when it throws, the loop edits lists only.\<close>

lemma edge_loop_slots: "list_all2 same_slots ms (snd (edge_loop f a b c d kg ms))"
proof (induction ms arbitrary: kg)
  case (Cons m ms)
  define hit1 where "hit1 = id_is m c"
  have refl: "list_all2 same_slots ms ms" by (simp add: list_all2_refl)
  show ?case
  proof (cases "if hit1 then edit_slot f d (receivers m) else Some (receivers m)")
    case None
    then show ?thesis using refl by (simp add: hit1_def [symmetric] Let_def)
  next
    case (Some rs)
    define m1 where "m1 = m\<lparr>receivers := rs\<rparr>"
    define hit2 where "hit2 = id_is m a"
    have m1: "same_slots m m1" unfolding m1_def
      using Some edit_slot_length by (intro same_slots_set) (auto split: if_splits)
    show ?thesis
    proof (cases "hit1 \<and> \<not> kg")
      case True
      then show ?thesis using Some refl m1
        by (simp add: hit1_def [symmetric] m1_def [symmetric] Let_def)
    next
      case False
      show ?thesis
      proof (cases "if hit2 then edit_slot f b (senders m1) else Some (senders m1)")
        case None
        then show ?thesis using Some False refl m1
          by (simp add: hit1_def [symmetric] hit2_def [symmetric] m1_def [symmetric] Let_def)
      next
        case (Some ss)
        have "same_slots m (m1\<lparr>senders := ss\<rparr>)"
          using m1 same_slots_set(2) [of ss m1] Some edit_slot_length
          by (auto intro: same_slots_trans split: if_splits)
        then show ?thesis
          using \<open>(if hit1 then _ else _) = Some rs\<close> Some False refl Cons m1
          by (cases "hit2 \<and> \<not> (kg \<and> \<not> hit1)")
            (simp_all add: hit1_def [symmetric] hit2_def [symmetric] m1_def [symmetric] Let_def
              case_prod_beta')
      qed
    qed
  qed
qed simp

lemma canvas_ok_slots:
  assumes "canvas_ok s" "list_all2 same_slots (moduleArray s) ms"
  shows "canvas_ok (s\<lparr>moduleArray := ms\<rparr>)"
proof -
  have len: "length ms = length (moduleArray s)" using assms(2) by (simp add: list_all2_lengthD)
  have k: "same_slots (moduleArray s ! k) (ms ! k)" if "k < length ms" for k
    using that len assms(2) by (simp add: list_all2_nthD)
  have "m_ID (ms ! k) = k" if "k < length ms" for k
    using k [OF that] strip_fields(1) [of "moduleArray s ! k" "ms ! k"]
      canvas_ok_ID [OF assms(1), of k] that len
    by (simp add: same_slots_def)
  moreover have "module_ok (ms ! k)" if "k < length ms" for k
    using module_ok_same_slots [OF k [OF that]] canvas_ok_nth [OF assms(1), of k] that len by simp
  ultimately show ?thesis
    using assms(1) len by (simp add: canvas_ok_def ids_ok_def all_set_conv_all_nth)
qed

section \<open>The graph of connections\<close>

text \<open>
  The edges a canvas holds, and the invariant: the keys of \<open>overallConnections\<close> are distinct,
  each is the name of an edge between existing connectors, and the list of a connector holds,
  once each, exactly the names of the edges that end there. Every line shape on the stage
  belongs to a key.
\<close>

definition edges :: "canvas \<Rightarrow> (nat \<times> nat \<times> nat \<times> nat) set" where
  "edges s = {e. edge_name e \<in> fst ` set (overallConnections s)}"

definition sender_list :: "canvas \<Rightarrow> nat \<Rightarrow> nat \<Rightarrow> string list" where
  "sender_list s m i = senders (moduleArray s ! m) ! i"

definition receiver_list :: "canvas \<Rightarrow> nat \<Rightarrow> nat \<Rightarrow> string list" where
  "receiver_list s r j = receivers (moduleArray s ! r) ! j"

definition names_ok :: "canvas \<Rightarrow> bool" where
  "names_ok s \<longleftrightarrow> distinct (map fst (overallConnections s))
     \<and> (\<forall>nm \<in> fst ` set (overallConnections s).
          \<exists>e. nm = edge_name e \<and> slots_exist (moduleArray s) e)"

definition lists_ok :: "canvas \<Rightarrow> bool" where
  "lists_ok s \<longleftrightarrow>
     (\<forall>m < length (moduleArray s). \<forall>i < length (senders (moduleArray s ! m)).
        distinct (sender_list s m i)
        \<and> set (sender_list s m i) = {edge_name (m, i, r, j) | r j. (m, i, r, j) \<in> edges s})
     \<and> (\<forall>r < length (moduleArray s). \<forall>j < length (receivers (moduleArray s ! r)).
        distinct (receiver_list s r j)
        \<and> set (receiver_list s r j) = {edge_name (m, i, r, j) | m i. (m, i, r, j) \<in> edges s})"

definition lines_ok :: "canvas \<Rightarrow> bool" where
  "lines_ok s \<longleftrightarrow> distinct (map snd (overallConnections s))
     \<and> (\<forall>l \<in> snd ` set (overallConnections s). l < length (shapes s))
     \<and> (\<forall>l. count_list (stage s) (ConnLine l) = (if l \<in> snd ` set (overallConnections s) then 1 else 0))"

definition graph_ok :: "canvas \<Rightarrow> bool" where
  "graph_ok s \<longleftrightarrow> canvas_ok s \<and> names_ok s \<and> lists_ok s \<and> lines_ok s"

subsection \<open>Editing both ends of an edge\<close>

lemma edit_ends_nth_fields:
  assumes "slots_exist ms e" "k < length ms"
  shows "m_ID (edit_ends f e ms ! k) = m_ID (ms ! k)" "m_name (edit_ends f e ms ! k) = m_name (ms ! k)"
    "chidSendArray (edit_ends f e ms ! k) = chidSendArray (ms ! k)"
    "chidReceiveArray (edit_ends f e ms ! k) = chidReceiveArray (ms ! k)"
    "dragHooks (edit_ends f e ms ! k) = dragHooks (ms ! k)"
    "length (senders (edit_ends f e ms ! k)) = length (senders (ms ! k))"
    "length (receivers (edit_ends f e ms ! k)) = length (receivers (ms ! k))"
    "sendPoint E (edit_ends f e ms ! k) = sendPoint E (ms ! k)"
    "receivePoint E (edit_ends f e ms ! k) = receivePoint E (ms ! k)"
  using assms
  by (simp_all add: edit_ends_props sendPoint_def receivePoint_def dragNode_def fun_eq_iff
      split: prod.splits)

lemma slots_exist_edit [simp]:
  assumes "slots_exist ms e"
  shows "slots_exist (edit_ends f e ms) e' = slots_exist ms e'"
proof (cases e')
  case (fields m i r j)
  then show ?thesis
    using edit_ends_props(1) [OF assms] edit_ends_nth_fields(6,7) [OF assms]
    unfolding slots_exist_def by auto
qed

lemma canvas_ok_edit:
  assumes "canvas_ok s" "slots_exist (moduleArray s) e"
    and "moduleArray t = edit_ends f e (moduleArray s)" "moduleID t = moduleID s"
  shows "canvas_ok t"
proof -
  have "module_ok (edit_ends f e (moduleArray s) ! k)" if k: "k < length (moduleArray s)" for k
    using canvas_ok_nth [OF assms(1) k] edit_ends_nth_fields [OF assms(2) k]
    by (simp add: module_ok_def)
  moreover have "\<forall>k < length (moduleArray s). m_ID (edit_ends f e (moduleArray s) ! k) = k"
    using canvas_ok_ID [OF assms(1)] edit_ends_nth_fields(1) [OF assms(2)] by simp
  ultimately show ?thesis
    using assms edit_ends_props(1) [OF assms(2)]
    by (auto simp: canvas_ok_def ids_ok_def in_set_conv_nth)
qed

lemma lists_edit:
  assumes "slots_exist (moduleArray s) (m, i, r, j)"
    and "moduleArray t = edit_ends f (m, i, r, j) (moduleArray s)"
  shows "\<And>m' i'. m' < length (moduleArray s) \<Longrightarrow> i' < length (senders (moduleArray s ! m')) \<Longrightarrow>
      sender_list t m' i' = (if (m', i') = (m, i) then f (sender_list s m i) else sender_list s m' i')"
    and "\<And>r' j'. r' < length (moduleArray s) \<Longrightarrow> j' < length (receivers (moduleArray s ! r')) \<Longrightarrow>
      receiver_list t r' j' = (if (r', j') = (r, j) then f (receiver_list s r j) else receiver_list s r' j')"
  using assms by (auto simp: sender_list_def receiver_list_def edit_ends_props nth_list_update)

text \<open>
  The invariant on the lists after an edit \<open>f\<close> at the two ends, when \<open>f\<close> turns a list that
  holds the names of a set of edges into one that holds the names of the edges afterwards.
\<close>

lemma edited_list:
  assumes ns: "distinct ns" "set ns = edge_name ` (A \<inter> S)" and e: "e \<in> S"
    and B: "B = (if e \<in> B then insert e A else A - {e})"
    and f: "\<And>ns. distinct ns \<Longrightarrow> (edge_name e \<in> set ns \<longleftrightarrow> e \<in> A) \<Longrightarrow>
       distinct (f ns) \<and> set (f ns) = (if e \<in> B then insert (edge_name e) (set ns) else set ns - {edge_name e})"
  shows "distinct (f ns) \<and> set (f ns) = edge_name ` (B \<inter> S)"
proof -
  have "edge_name e \<in> set ns \<longleftrightarrow> e \<in> A" using ns(2) e by (auto simp: image_iff)
  note r = f [OF ns(1) this]
  show ?thesis
  proof (cases "e \<in> B")
    case True
    then have "B = insert e A" using B by simp
    then show ?thesis using r True e ns(2) by (simp add: Int_insert_left)
  next
    case False
    then have "B = A - {e}" using B by simp
    moreover have "edge_name ` ((A - {e}) \<inter> S) = edge_name ` (A \<inter> S) - {edge_name e}" by auto
    ultimately show ?thesis using r False ns(2) by simp
  qed
qed

definition at_sender :: "nat \<Rightarrow> nat \<Rightarrow> (nat \<times> nat \<times> nat \<times> nat) set" where
  "at_sender m i = {(m, i, r, j) | r j. True}"

definition at_receiver :: "nat \<Rightarrow> nat \<Rightarrow> (nat \<times> nat \<times> nat \<times> nat) set" where
  "at_receiver r j = {(m, i, r, j) | m i. True}"

lemma lists_ok_iff:
  "lists_ok s \<longleftrightarrow>
     (\<forall>m < length (moduleArray s). \<forall>i < length (senders (moduleArray s ! m)).
        distinct (sender_list s m i) \<and> set (sender_list s m i) = edge_name ` (edges s \<inter> at_sender m i)) \<and>
     (\<forall>r < length (moduleArray s). \<forall>j < length (receivers (moduleArray s ! r)).
        distinct (receiver_list s r j) \<and> set (receiver_list s r j) = edge_name ` (edges s \<inter> at_receiver r j))"
proof -
  have "{edge_name (m, i, r, j) | r j. (m, i, r, j) \<in> A} = edge_name ` (A \<inter> at_sender m i)"
    "{edge_name (m, i, r, j) | m i. (m, i, r, j) \<in> A} = edge_name ` (A \<inter> at_receiver r j)" for A m i r j
    by (auto simp: at_sender_def at_receiver_def)
  then show ?thesis unfolding lists_ok_def by simp
qed

lemma lists_ok_edit:
  assumes "lists_ok s" "slots_exist (moduleArray s) (m, i, r, j)"
    and t: "moduleArray t = edit_ends f (m, i, r, j) (moduleArray s)"
    and other: "\<And>e. e \<noteq> (m, i, r, j) \<Longrightarrow> e \<in> edges t \<longleftrightarrow> e \<in> edges s"
    and f: "\<And>ns. distinct ns \<Longrightarrow> (edge_name (m, i, r, j) \<in> set ns \<longleftrightarrow> (m, i, r, j) \<in> edges s) \<Longrightarrow>
       distinct (f ns) \<and> set (f ns) = (if (m, i, r, j) \<in> edges t
          then insert (edge_name (m, i, r, j)) (set ns) else set ns - {edge_name (m, i, r, j)})"
  shows "lists_ok t"
proof -
  let ?e = "(m, i, r, j)"
  have len: "length (moduleArray t) = length (moduleArray s)"
    using edit_ends_props(1) [OF assms(2)] t by simp
  have slots: "length (senders (moduleArray t ! k)) = length (senders (moduleArray s ! k))"
      "length (receivers (moduleArray t ! k)) = length (receivers (moduleArray s ! k))"
    if "k < length (moduleArray s)" for k
    using edit_ends_nth_fields [OF assms(2) that] t by simp_all
  have B: "edges t = (if ?e \<in> edges t then insert ?e (edges s) else edges s - {?e})"
  proof (rule set_eqI)
    fix x
    show "x \<in> edges t \<longleftrightarrow> x \<in> (if ?e \<in> edges t then insert ?e (edges s) else edges s - {?e})"
      using other [of x] by (cases "x = ?e") (simp_all split: if_split)
  qed
  have away: "edges t \<inter> S = edges s \<inter> S" if "?e \<notin> S" for S
  proof (rule set_eqI)
    fix x
    show "x \<in> edges t \<inter> S \<longleftrightarrow> x \<in> edges s \<inter> S"
      using other [of x] that by (cases "x = ?e") simp_all
  qed
  have mem: "?e \<in> at_sender m' i' \<longleftrightarrow> (m', i') = (m, i)" "?e \<in> at_receiver r' j' \<longleftrightarrow> (r', j') = (r, j)"
    for m' i' r' j' by (auto simp: at_sender_def at_receiver_def)
  have "distinct (sender_list t m' i') \<and>
        set (sender_list t m' i') = edge_name ` (edges t \<inter> at_sender m' i')"
    if a: "m' < length (moduleArray s)" "i' < length (senders (moduleArray s ! m'))" for m' i'
  proof -
    have l: "distinct (sender_list s m' i')" "set (sender_list s m' i') = edge_name ` (edges s \<inter> at_sender m' i')"
      using assms(1) a unfolding lists_ok_iff by blast+
    show ?thesis
    proof (cases "(m', i') = (m, i)")
      case True
      then have "?e \<in> at_sender m' i'" using mem(1) by blast
      from edited_list [OF l this B f] show ?thesis
        using lists_edit(1) [OF assms(2) t a] True by simp
    next
      case False
      then have "edges t \<inter> at_sender m' i' = edges s \<inter> at_sender m' i'"
        using away mem(1) by blast
      then show ?thesis
        unfolding lists_edit(1) [OF assms(2) t a] if_not_P [OF False] using l by simp
    qed
  qed
  moreover have "distinct (receiver_list t r' j') \<and>
        set (receiver_list t r' j') = edge_name ` (edges t \<inter> at_receiver r' j')"
    if a: "r' < length (moduleArray s)" "j' < length (receivers (moduleArray s ! r'))" for r' j'
  proof -
    have l: "distinct (receiver_list s r' j')" "set (receiver_list s r' j') = edge_name ` (edges s \<inter> at_receiver r' j')"
      using assms(1) a unfolding lists_ok_iff by blast+
    show ?thesis
    proof (cases "(r', j') = (r, j)")
      case True
      then have "?e \<in> at_receiver r' j'" using mem(2) by blast
      from edited_list [OF l this B f] show ?thesis
        using lists_edit(2) [OF assms(2) t a] True by simp
    next
      case False
      then have "edges t \<inter> at_receiver r' j' = edges s \<inter> at_receiver r' j'"
        using away mem(2) by blast
      then show ?thesis
        unfolding lists_edit(2) [OF assms(2) t a] if_not_P [OF False] using l by simp
    qed
  qed
  ultimately show ?thesis unfolding lists_ok_iff using len slots by simp
qed

section \<open>Connecting\<close>

lemma edges_put:
  "fst ` set (overallConnections t) = insert (edge_name e) (fst ` set (overallConnections s))
   \<Longrightarrow> edges t = insert e (edges s)"
  by (auto simp: edges_def)

lemma edges_del:
  "fst ` set (overallConnections t) = fst ` set (overallConnections s) - {edge_name e}
   \<Longrightarrow> edges t = edges s - {e}"
  by (auto simp: edges_def)

lemma edge_name_conn: "conn_name (nat_str m) (nat_str i) (nat_str r) (nat_str j) = edge_name (m, i, r, j)"
  by (simp add: edge_name_def)

lemma keys_put_set: "fst ` set (alist_put k v ps) = insert k (fst ` set ps)"
  by (metis keys_alist_put image_set insert_absorb list.simps(15) list.set(1) set_append
      Un_insert_right sup_bot.right_neutral)

lemma keys_del_set: "fst ` set (alist_del k ps) = fst ` set ps - {k}"
  by (auto simp: alist_del_def)

text \<open>Connecting existing connectors never throws; this is what it does.\<close>

lemma connectLines_result:
  assumes "canvas_ok s" "slots_exist (moduleArray s) (m, i, r, j)"
  shows "connectLines E (nat_str m) (nat_str i) (nat_str r) (nat_str j) s =
    (None, s\<lparr>moduleArray := edit_ends (\<lambda>ns. ns @ [edge_name (m, i, r, j)]) (m, i, r, j) (moduleArray s),
       overallConnections := alist_put (edge_name (m, i, r, j)) (length (shapes s)) (overallConnections s),
       shapes := shapes s @ [lineBetween (sendPoint E (moduleArray s ! m) (int i))
                                          (receivePoint E (moduleArray s ! r) (int j))],
       stage := stage s @ [ConnLine (length (shapes s))]\<rparr>)"
proof -
  let ?f = "\<lambda>ns. ns @ [edge_name (m, i, r, j)]"
  let ?t = "s\<lparr>moduleArray := edit_ends ?f (m, i, r, j) (moduleArray s),
     overallConnections := alist_put (edge_name (m, i, r, j)) (length (shapes s)) (overallConnections s),
     shapes := shapes s @ [[]], stage := stage s @ [ConnLine (length (shapes s))]\<rparr>"
  have ids: "ids_ok s" using assms(1) by (simp add: canvas_ok_def)
  have "canvas_ok ?t" by (rule canvas_ok_edit [OF assms, of _ ?f]) simp_all
  then have t: "ids_ok ?t" by (simp add: canvas_ok_def)
  have b: "m < length (moduleArray s)" "r < length (moduleArray s)"
    using assms(2) by (simp_all add: slots_exist_def)
  have "updateLines E (Some (length (shapes s))) (nat_str m) (nat_str i) (nat_str r) (nat_str j) ?t
     = (None, ?t\<lparr>shapes := shapes s @ [lineBetween (sendPoint E (moduleArray s ! m) (int i))
                                          (receivePoint E (moduleArray s ! r) (int j))]\<rparr>)"
    using b edit_ends_props(1) [OF assms(2)] edit_ends_nth_fields [OF assms(2)]
    by (subst updateLines_result [OF t]) simp_all
  then show ?thesis
    by (simp add: connectLines_def edge_name_conn edge_loop_array [OF ids assms(2)] Let_def)
qed

lemma count_list_snoc: "count_list (xs @ [x]) y = count_list xs y + (if x = y then 1 else 0)"
  by simp

lemma alist_put_new: "k \<notin> fst ` set ps \<Longrightarrow> alist_put k v ps = ps @ [(k, v)]"
  by (induction ps) auto

lemma graph_ok_connect:
  assumes g: "graph_ok s" and sl: "slots_exist (moduleArray s) (m, i, r, j)"
    and new: "(m, i, r, j) \<notin> edges s"
    and t: "t = snd (connectLines E (nat_str m) (nat_str i) (nat_str r) (nat_str j) s)"
  shows "graph_ok t" and "edges t = insert (m, i, r, j) (edges s)"
proof -
  let ?e = "(m, i, r, j)" let ?l = "length (shapes s)"
  have ok: "canvas_ok s" and nm: "names_ok s" and ls: "lists_ok s" and li: "lines_ok s"
    using g by (simp_all add: graph_ok_def)
  have key: "edge_name ?e \<notin> fst ` set (overallConnections s)" using new by (simp add: edges_def)
  have t': "moduleArray t = edit_ends (\<lambda>ns. ns @ [edge_name ?e]) ?e (moduleArray s)"
    "moduleID t = moduleID s"
    "overallConnections t = overallConnections s @ [(edge_name ?e, ?l)]"
    "length (shapes t) = Suc ?l" "stage t = stage s @ [ConnLine ?l]"
    using t connectLines_result [OF ok sl] alist_put_new [OF key] by simp_all
  show e: "edges t = insert ?e (edges s)"
    by (rule edges_put) (simp add: t')
  have "canvas_ok t" by (rule canvas_ok_edit [OF ok sl t'(1,2)])
  moreover have "names_ok t"
    using nm sl key unfolding names_ok_def t' by auto
  moreover have "lists_ok t"
  proof (rule lists_ok_edit [OF ls sl t'(1)])
    show "\<And>x. x \<noteq> ?e \<Longrightarrow> x \<in> edges t \<longleftrightarrow> x \<in> edges s" by (simp add: e)
    show "distinct (ns @ [edge_name ?e]) \<and> set (ns @ [edge_name ?e]) =
       (if ?e \<in> edges t then insert (edge_name ?e) (set ns) else set ns - {edge_name ?e})"
      if "distinct ns" "edge_name ?e \<in> set ns \<longleftrightarrow> ?e \<in> edges s" for ns
      using that new e by simp
  qed
  moreover have "lines_ok t"
    using li unfolding lines_ok_def t' by (fastforce simp: image_iff)
  ultimately show "graph_ok t" by (simp add: graph_ok_def)
qed

section \<open>Deleting\<close>

lemma deleteConnection_result:
  assumes "canvas_ok s" "slots_exist (moduleArray s) (m, i, r, j)"
  shows "deleteConnection (nat_str m) (nat_str i) (nat_str r) (nat_str j) s =
    (None, s\<lparr>moduleArray := edit_ends (remove1 (edge_name (m, i, r, j))) (m, i, r, j) (moduleArray s),
       stage := (case map_of (overallConnections s) (edge_name (m, i, r, j)) of
                   None \<Rightarrow> stage s | Some l \<Rightarrow> remove1 (ConnLine l) (stage s)),
       overallConnections := alist_del (edge_name (m, i, r, j)) (overallConnections s)\<rparr>)"
  using assms
  by (simp add: deleteConnection_def edge_name_conn edge_loop_array canvas_ok_def Let_def)

lemma count_list_remove1:
  "count_list (remove1 x xs) y = count_list xs y - (if x = y then 1 else 0)"
  by (induction xs) auto

lemma distinct_snd_unique:
  "distinct (map snd ps) \<Longrightarrow> (a, l) \<in> set ps \<Longrightarrow> (b, l) \<in> set ps \<Longrightarrow> a = b"
  by (induction ps) (auto simp: image_iff)

lemma distinct_snd_del: "distinct (map snd ps) \<Longrightarrow> distinct (map snd (alist_del k ps))"
  unfolding alist_del_def by (induction ps) auto

lemma values_del:
  assumes "distinct (map fst ps)" "distinct (map snd ps)"
  shows "snd ` set (alist_del k ps) =
     (case map_of ps k of None \<Rightarrow> snd ` set ps | Some l \<Rightarrow> snd ` set ps - {l})"
proof (cases "map_of ps k")
  case None
  then have "alist_del k ps = ps" unfolding alist_del_def
    by (induction ps) (auto split: if_splits)
  then show ?thesis using None by simp
next
  case (Some l)
  then have kl: "(k, l) \<in> set ps" by (rule map_of_SomeD)
  have "snd ` set (alist_del k ps) = snd ` set ps - {l}"
  proof -
    have "(a, v) \<in> set ps \<Longrightarrow> a \<noteq> k \<longleftrightarrow> v \<noteq> l" for a v
      using assms kl distinct_snd_unique by (metis eq_key_imp_eq_value)
    then show ?thesis unfolding alist_del_def by (force simp: image_iff)
  qed
  then show ?thesis using Some by simp
qed

lemma graph_ok_delete:
  assumes g: "graph_ok s" and sl: "slots_exist (moduleArray s) (m, i, r, j)"
    and t: "t = snd (deleteConnection (nat_str m) (nat_str i) (nat_str r) (nat_str j) s)"
  shows "graph_ok t" and "edges t = edges s - {(m, i, r, j)}"
proof -
  let ?e = "(m, i, r, j)"
  have ok: "canvas_ok s" and nm: "names_ok s" and ls: "lists_ok s" and li: "lines_ok s"
    using g by (simp_all add: graph_ok_def)
  have t': "moduleArray t = edit_ends (remove1 (edge_name ?e)) ?e (moduleArray s)"
    "moduleID t = moduleID s"
    "overallConnections t = alist_del (edge_name ?e) (overallConnections s)"
    "shapes t = shapes s"
    "stage t = (case map_of (overallConnections s) (edge_name ?e) of
                   None \<Rightarrow> stage s | Some l \<Rightarrow> remove1 (ConnLine l) (stage s))"
    using t deleteConnection_result [OF ok sl] by simp_all
  show e: "edges t = edges s - {?e}"
    by (rule edges_del) (simp add: t' keys_del_set)
  have "canvas_ok t" by (rule canvas_ok_edit [OF ok sl t'(1,2)])
  moreover have "names_ok t"
    using nm sl unfolding names_ok_def t' by (auto simp: keys_del_set intro: distinct_keys_del)
  moreover have "lists_ok t"
  proof (rule lists_ok_edit [OF ls sl t'(1)])
    show "\<And>x. x \<noteq> ?e \<Longrightarrow> x \<in> edges t \<longleftrightarrow> x \<in> edges s" by (simp add: e)
    show "distinct (remove1 (edge_name ?e) ns) \<and> set (remove1 (edge_name ?e) ns) =
       (if ?e \<in> edges t then insert (edge_name ?e) (set ns) else set ns - {edge_name ?e})"
      if "distinct ns" "edge_name ?e \<in> set ns \<longleftrightarrow> ?e \<in> edges s" for ns
      using that e by simp
  qed
  moreover have "lines_ok t"
  proof -
    have d: "distinct (map fst (overallConnections s))" "distinct (map snd (overallConnections s))"
      using nm li by (simp_all add: names_ok_def lines_ok_def)
    show ?thesis
      using li unfolding lines_ok_def t' values_del [OF d]
      by (auto simp: distinct_snd_del count_list_remove1 split: option.splits)
  qed
  ultimately show "graph_ok t" by (simp add: graph_ok_def)
qed

section \<open>Checking\<close>

text \<open>What \<open>checkConnection\<close> answers, over the list of edges in the order of the keys.\<close>

fun check_edges :: "nat \<times> nat \<times> nat \<times> nat \<Rightarrow> (nat \<times> nat \<times> nat \<times> nat) list \<Rightarrow> string" where
  "check_edges e [] = ''new''"
| "check_edges (m, i, r, j) ((m', i', r', j') # es) =
     (if (m, i, r, j) = (m', i', r', j') then ''exists''
      else if r' = r \<and> j' = j then ''receiver_full''
      else if m' = m \<and> i' = i then ''sender_full''
      else check_edges (m, i, r, j) es)"

lemma check_names_edges:
  "check_names (edge_name (m, i, r, j)) (nat_str m) (nat_str i) (nat_str r) (nat_str j)
     (map edge_name es) = check_edges (m, i, r, j) es"
proof (induction es)
  case (Cons e es)
  obtain a b c d where e: "e = (a, b, c, d)" by (cases e)
  show ?case using Cons by (auto simp: e name_part_edge)
qed simp

lemma names_ok_keys:
  assumes "names_ok s"
  obtains es where "map fst (overallConnections s) = map edge_name es" "set es = edges s"
proof -
  have "\<forall>nm \<in> set (map fst (overallConnections s)). \<exists>e. nm = edge_name e"
    using assms by (auto simp: names_ok_def)
  then obtain es where es: "map fst (overallConnections s) = map edge_name es"
    using ex_map_conv [of "map fst (overallConnections s)" edge_name] by blast
  then have "fst ` set (overallConnections s) = edge_name ` set es" by (metis image_set)
  then have "set es = edges s" by (auto simp: edges_def image_iff)
  with es show thesis by (rule that)
qed

lemma checkConnection_edges:
  assumes "names_ok s"
  obtains es where "set es = edges s"
    "checkConnection (nat_str m) (nat_str i) (nat_str r) (nat_str j) s = check_edges (m, i, r, j) es"
  using names_ok_keys [OF assms]
  by (metis checkConnection_def check_names_edges edge_name_conn)

lemma check_edges_Cons:
  "check_edges (m, i, r, j) (e # es) =
     (if e = (m, i, r, j) then ''exists''
      else if snd (snd e) = (r, j) then ''receiver_full''
      else if fst e = m \<and> fst (snd e) = i then ''sender_full''
      else check_edges (m, i, r, j) es)"
  by (cases e) auto

lemma check_edges_new:
  "check_edges (m, i, r, j) es = ''new'' \<longleftrightarrow>
     (\<forall>e \<in> set es. snd (snd e) \<noteq> (r, j) \<and> \<not> (fst e = m \<and> fst (snd e) = i))"
proof (induction es)
  case (Cons e es)
  then show ?case by (simp add: check_edges_Cons del: check_edges.simps)
qed simp

lemma check_edges_exists_in: "check_edges (m, i, r, j) es = ''exists'' \<Longrightarrow> (m, i, r, j) \<in> set es"
proof (induction es)
  case (Cons e es)
  then show ?case by (simp add: check_edges_Cons del: check_edges.simps split: if_split_asm)
qed simp

lemma check_edges_receiver:
  "check_edges (m, i, r, j) es = ''receiver_full'' \<Longrightarrow> \<exists>e \<in> set es. snd (snd e) = (r, j)"
proof (induction es)
  case (Cons e es)
  then show ?case by (simp add: check_edges_Cons del: check_edges.simps split: if_split_asm)
qed simp

lemma check_edges_sender:
  "check_edges (m, i, r, j) es = ''sender_full'' \<Longrightarrow> \<exists>e \<in> set es. fst e = m \<and> fst (snd e) = i"
proof (induction es)
  case (Cons e es)
  then show ?case by (simp add: check_edges_Cons del: check_edges.simps split: if_split_asm)
qed simp

lemma check_edges_range:
  "check_edges e es \<in> {''new'', ''exists'', ''receiver_full'', ''sender_full''}"
proof (induction es)
  case (Cons a es)
  obtain m i r j where "e = (m, i, r, j)" by (cases e)
  then show ?case using Cons by (simp add: check_edges_Cons del: check_edges.simps)
qed simp

text \<open>When no other edge shares an end with it, an existing edge is recognised.\<close>

lemma check_edges_exists:
  assumes "(m, i, r, j) \<in> set es"
    and "\<And>e. e \<in> set es \<Longrightarrow> snd (snd e) = (r, j) \<or> fst e = m \<and> fst (snd e) = i \<Longrightarrow> e = (m, i, r, j)"
  shows "check_edges (m, i, r, j) es = ''exists''"
  using assms
proof (induction es)
  case (Cons e es)
  show ?case
  proof (cases "e = (m, i, r, j)")
    case False
    then have "\<not> (snd (snd e) = (r, j) \<or> fst e = m \<and> fst (snd e) = i)"
      using Cons.prems(2) [of e] by (metis list.set_intros(1))
    moreover have "check_edges (m, i, r, j) es = ''exists''"
      by (rule Cons.IH) (use Cons.prems False in auto)
    ultimately show ?thesis using False by (simp add: check_edges_Cons del: check_edges.simps)
  qed (simp add: check_edges_Cons del: check_edges.simps)
qed simp

section \<open>Canvases without connections\<close>

definition conn_lines :: "canvas \<Rightarrow> stage_child list" where
  "conn_lines s = filter (\<lambda>x. case x of ConnLine l \<Rightarrow> True | _ \<Rightarrow> False) (stage s)"

lemma graph_ok_init: "graph_ok init_canvas"
  using canvas_ok_init
  by (simp add: graph_ok_def names_ok_def lists_ok_def lines_ok_def init_canvas_def)

text \<open>The connectors of the file, all empty, exist before the connections are drawn.\<close>

lemma graph_ok_unconnected:
  assumes "canvas_ok s" "overallConnections s = []" "conn_lines s = []"
    and "\<forall>m \<in> set (moduleArray s). set (senders m) \<subseteq> {[]} \<and> set (receivers m) \<subseteq> {[]}"
  shows "graph_ok s" "edges s = {}"
proof -
  show e: "edges s = {}" using assms(2) by (simp add: edges_def)
  have "sender_list s m i = []" if "m < length (moduleArray s)" "i < length (senders (moduleArray s ! m))"
    for m i using that assms(4) by (metis nth_mem sender_list_def singletonD subsetD)
  moreover have "receiver_list s m i = []"
    if "m < length (moduleArray s)" "i < length (receivers (moduleArray s ! m))"
    for m i using that assms(4) by (metis nth_mem receiver_list_def singletonD subsetD)
  ultimately have "lists_ok s" by (simp add: lists_ok_def e)
  moreover have "ConnLine l \<notin> set (stage s)" for l
    using assms(3) by (auto simp: conn_lines_def filter_empty_conv)
  then have "lines_ok s" using assms(2) by (simp add: lines_ok_def count_list_0_iff)
  moreover have "names_ok s" using assms(2) by (simp add: names_ok_def)
  ultimately show "graph_ok s" using assms(1) by (simp add: graph_ok_def)
qed


end
