(* ===== verification/Dragging.thy ===== *)
theory Dragging
  imports Connections
begin

text \<open>
  Moving a module redraws its lines (\<open>drag.js\<close>): the drag listeners of the connectors call
  \<open>updateLines\<close> for every connection of the module. The lemmas show that the lines of a
  consistent canvas follow the modules, so that the invariant "every line joins the two
  connectors it stands for" survives every drag.
\<close>

definition line_of :: "env \<Rightarrow> gui_module list \<Rightarrow> nat \<times> nat \<times> nat \<times> nat \<Rightarrow> gfx list" where
  "line_of E ms = (\<lambda>(m, i, r, j).
     lineBetween (sendPoint E (ms ! m) (int i)) (receivePoint E (ms ! r) (int j)))"

text \<open>Every connection line is drawn between its two connectors at their present places.\<close>

definition lines_drawn :: "env \<Rightarrow> canvas \<Rightarrow> bool" where
  "lines_drawn E s \<longleftrightarrow>
     (\<forall>e \<in> edges s. \<forall>l. map_of (overallConnections s) (edge_name e) = Some l
        \<longrightarrow> shapes s ! l = line_of E (moduleArray s) e)"

lemma graph_ok_key:
  assumes "graph_ok s" "e \<in> edges s"
  obtains l where "map_of (overallConnections s) (edge_name e) = Some l" "l < length (shapes s)"
    "slots_exist (moduleArray s) e"
proof -
  from assms(2) have "edge_name e \<in> fst ` set (overallConnections s)" by (simp add: edges_def)
  then obtain l where l: "map_of (overallConnections s) (edge_name e) = Some l"
    by (metis map_of_eq_None_iff option.exhaust)
  then have "l \<in> snd ` set (overallConnections s)" by (metis map_of_SomeD image_eqI snd_conv)
  then have "l < length (shapes s)" using assms(1) by (auto simp: graph_ok_def lines_ok_def)
  moreover have "slots_exist (moduleArray s) e"
    using assms \<open>edge_name e \<in> _\<close> by (auto simp: graph_ok_def names_ok_def)
  ultimately show thesis using l that by blast
qed

lemma graph_ok_keys_inj:
  assumes "graph_ok s"
    and "map_of (overallConnections s) a = Some l" "map_of (overallConnections s) b = Some l"
  shows "a = b"
  using assms distinct_snd_unique [of "overallConnections s" a l b]
  by (auto simp: graph_ok_def lines_ok_def dest: map_of_SomeD)

lemma graph_ok_shapes:
  "graph_ok s \<Longrightarrow> length sh = length (shapes s) \<Longrightarrow> graph_ok (s\<lparr>shapes := sh\<rparr>)"
  by (simp add: graph_ok_def canvas_ok_def ids_ok_def names_ok_def lists_ok_def lines_ok_def
      sender_list_def receiver_list_def edges_def)

lemma edges_shapes [simp]: "edges (s\<lparr>shapes := sh\<rparr>) = edges s"
  by (simp add: edges_def)

lemma redraw_name_result:
  assumes "graph_ok s" "e \<in> edges s" "map_of (overallConnections s) (edge_name e) = Some l"
  shows "redraw_name E (edge_name e) s
    = (None, s\<lparr>shapes := (shapes s)[l := line_of E (moduleArray s) e]\<rparr>)"
proof -
  obtain m i r j where e: "e = (m, i, r, j)" by (cases e)
  have "slots_exist (moduleArray s) e" using assms(1,2) by (rule graph_ok_key)
  moreover have "ids_ok s" using assms(1) by (simp add: graph_ok_def canvas_ok_def)
  ultimately show ?thesis using assms(3)
    by (simp add: redraw_name_def e name_part_edge updateLines_result slots_exist_def line_of_def)
qed

text \<open>Redrawing a list of connections sets exactly their lines.\<close>

lemma redraw_names:
  assumes "graph_ok s" "set names \<subseteq> edge_name ` edges s"
  shows "\<exists>sh. forEach names (redraw_name E) s = (None, s\<lparr>shapes := sh\<rparr>)
     \<and> length sh = length (shapes s)
     \<and> (\<forall>e \<in> edges s. \<forall>l. map_of (overallConnections s) (edge_name e) = Some l \<longrightarrow>
          sh ! l = (if edge_name e \<in> set names then line_of E (moduleArray s) e else shapes s ! l))"
  using assms
proof (induction names arbitrary: s)
  case Nil
  show ?case by (rule exI [of _ "shapes s"]) simp
next
  case (Cons nm names)
  from Cons.prems obtain e where e: "nm = edge_name e" "e \<in> edges s" by auto
  obtain l where l: "map_of (overallConnections s) (edge_name e) = Some l" "l < length (shapes s)"
    using Cons.prems(1) e(2) by (rule graph_ok_key)
  let ?s = "s\<lparr>shapes := (shapes s)[l := line_of E (moduleArray s) e]\<rparr>"
  have g: "graph_ok ?s" using Cons.prems(1) by (simp add: graph_ok_shapes)
  have "set names \<subseteq> edge_name ` edges ?s" using Cons.prems(2) by simp
  from Cons.IH [OF g this] obtain sh where
    sh: "forEach names (redraw_name E) ?s = (None, ?s\<lparr>shapes := sh\<rparr>)" "length sh = length (shapes ?s)"
    and v: "\<And>e' l'. e' \<in> edges ?s \<Longrightarrow> map_of (overallConnections ?s) (edge_name e') = Some l' \<Longrightarrow>
       sh ! l' = (if edge_name e' \<in> set names then line_of E (moduleArray ?s) e' else shapes ?s ! l')"
    by blast
  have "forEach (nm # names) (redraw_name E) s = (None, s\<lparr>shapes := sh\<rparr>)"
    using sh redraw_name_result [OF Cons.prems(1) e(2) l(1)] by (simp add: e(1))
  moreover have "sh ! l' = (if edge_name e' \<in> set (nm # names) then line_of E (moduleArray s) e'
      else shapes s ! l')"
    if "e' \<in> edges s" "map_of (overallConnections s) (edge_name e') = Some l'" for e' l'
  proof -
    have "l' = l \<longleftrightarrow> e' = e"
      using graph_ok_keys_inj [OF Cons.prems(1)] l(1) that(2) by (metis edge_name_inject option.inject)
    then show ?thesis using v [of e' l'] that l(2) e(1) by auto
  qed
  ultimately show ?case using sh(2) by auto
qed

section \<open>Dragging a module\<close>

lemma move_module_fields [simp]:
  "senders (move_module ev m) = senders m" "receivers (move_module ev m) = receivers m"
  "dragHooks (move_module ev m) = dragHooks m" "m_ID (move_module ev m) = m_ID m"
  "chidSendArray (move_module ev m) = chidSendArray m"
  "chidReceiveArray (move_module ev m) = chidReceiveArray m"
  "topSquare (move_module ev m) = topSquare m" "topAlpha (move_module ev m) = topAlpha m"
  "labels (move_module ev m) = labels m"
  by (simp_all add: move_module_def)

text \<open>A change of one module that keeps its connectors keeps the graph.\<close>

lemma graph_ok_upd_module:
  assumes "graph_ok s" "p < length (moduleArray s)" "module_ok (f (moduleArray s ! p))"
    and "m_ID (f (moduleArray s ! p)) = m_ID (moduleArray s ! p)"
    and "senders (f (moduleArray s ! p)) = senders (moduleArray s ! p)"
    and "receivers (f (moduleArray s ! p)) = receivers (moduleArray s ! p)"
  shows "graph_ok (upd_module p f s)" and "edges (upd_module p f s) = edges s"
proof -
  let ?t = "upd_module p f s"
  show e: "edges ?t = edges s" by (simp add: edges_def)
  have "canvas_ok ?t" using assms canvas_ok_upd_module by (simp add: graph_ok_def)
  moreover have sl: "slots_exist (moduleArray ?t) x = slots_exist (moduleArray s) x" for x
    using assms(2,5,6) by (cases x) (auto simp: slots_exist_def nth_list_update)
  have "names_ok ?t" using assms(1) sl by (simp add: graph_ok_def names_ok_def)
  moreover have "senders (moduleArray ?t ! k) = senders (moduleArray s ! k)"
      "receivers (moduleArray ?t ! k) = receivers (moduleArray s ! k)" for k
    using assms(2,5,6) by (auto simp: nth_list_update)
  then have "lists_ok ?t"
    using assms(1) e by (simp add: graph_ok_def lists_ok_def sender_list_def receiver_list_def)
  moreover have "lines_ok ?t" using assms(1) by (simp add: graph_ok_def lines_ok_def)
  ultimately show "graph_ok ?t" by (simp add: graph_ok_def)
qed

lemma graph_ok_move:
  assumes "graph_ok s" "p < length (moduleArray s)"
  shows "graph_ok (upd_module p (move_module ev) s)"
    and "edges (upd_module p (move_module ev) s) = edges s"
proof -
  have "module_ok (moduleArray s ! p)" using assms by (simp add: graph_ok_def canvas_ok_nth)
  then have "module_ok (move_module ev (moduleArray s ! p))" by (simp add: module_ok_def)
  then show "graph_ok (upd_module p (move_module ev) s)"
    and "edges (upd_module p (move_module ev) s) = edges s"
    using graph_ok_upd_module [OF assms, of "move_module ev"] by simp_all
qed

text \<open>The names the drag listeners of a module visit are the names of its edges.\<close>

lemma hook_names_edges:
  assumes g: "graph_ok s" and p: "p < length (moduleArray s)"
  shows "set (concat (map (hook_names (moduleArray s ! p)) (dragHooks (moduleArray s ! p))))
     = edge_name ` {e \<in> edges s. fst e = p \<or> fst (snd (snd e)) = p}"
proof -
  let ?m = "moduleArray s ! p"
  have hooks: "set (dragHooks ?m)
      = {Sender} \<times> {..<length (senders ?m)} \<union> {Receiver} \<times> {..<length (receivers ?m)}"
    using g p by (simp add: graph_ok_def canvas_ok_nth [unfolded module_ok_def])
  have sl: "set (senders ?m ! i) = {edge_name (p, i, r, j) | r j. (p, i, r, j) \<in> edges s}"
    if "i < length (senders ?m)" for i
    using g p that unfolding graph_ok_def lists_ok_def sender_list_def by blast
  have rl: "set (receivers ?m ! j) = {edge_name (m, i, p, j) | m i. (m, i, p, j) \<in> edges s}"
    if "j < length (receivers ?m)" for j
    using g p that unfolding graph_ok_def lists_ok_def receiver_list_def by blast
  have ex: "slots_exist (moduleArray s) e" if "e \<in> edges s" for e
    using g that by (rule graph_ok_key)
  have "set (concat (map (hook_names ?m) (dragHooks ?m)))
      = (\<Union>i < length (senders ?m). set (senders ?m ! i))
        \<union> (\<Union>j < length (receivers ?m). set (receivers ?m ! j))"
    by (auto simp: hooks hook_names_def)
  also have "\<dots> = edge_name ` {e \<in> edges s. fst e = p \<or> fst (snd (snd e)) = p}"
  proof (rule set_eqI)
    fix nm
    show "nm \<in> (\<Union>i < length (senders ?m). set (senders ?m ! i))
        \<union> (\<Union>j < length (receivers ?m). set (receivers ?m ! j))
      \<longleftrightarrow> nm \<in> edge_name ` {e \<in> edges s. fst e = p \<or> fst (snd (snd e)) = p}" (is "?L = ?R")
    proof
      assume ?L
      then show ?R using sl rl by force
    next
      assume ?R
      then obtain m i r j where e: "(m, i, r, j) \<in> edges s" "nm = edge_name (m, i, r, j)" "m = p \<or> r = p"
        by auto
      with ex [OF e(1)] show ?L unfolding slots_exist_def using sl rl by fastforce
    qed
  qed
  finally show ?thesis .
qed

lemma line_of_move:
  assumes "slots_exist ms e" "\<not> (fst e = p \<or> fst (snd (snd e)) = p)"
  shows "line_of E (ms[p := x]) e = line_of E ms e"
  using assms by (cases e) (simp add: line_of_def)

lemma drag_pressmove_result:
  assumes g: "graph_ok s" and d: "lines_drawn E s" and p: "p < length (moduleArray s)"
  shows "\<exists>sh. drag_pressmove E p ev s = (None, (upd_module p (move_module ev) s)\<lparr>shapes := sh\<rparr>)
     \<and> graph_ok ((upd_module p (move_module ev) s)\<lparr>shapes := sh\<rparr>)
     \<and> lines_drawn E ((upd_module p (move_module ev) s)\<lparr>shapes := sh\<rparr>)"
proof -
  let ?s = "upd_module p (move_module ev) s"
  let ?names = "concat (map (hook_names (moduleArray ?s ! p)) (dragHooks (moduleArray ?s ! p)))"
  have gs: "graph_ok ?s" and es: "edges ?s = edges s" using graph_ok_move [OF g p] by blast+
  have p': "p < length (moduleArray ?s)" using p by simp
  have names: "set ?names = edge_name ` {e \<in> edges s. fst e = p \<or> fst (snd (snd e)) = p}"
    using hook_names_edges [OF gs p'] es by simp
  then have "set ?names \<subseteq> edge_name ` edges ?s" using es by auto
  from redraw_names [OF gs this] obtain sh where
    sh: "forEach ?names (redraw_name E) ?s = (None, ?s\<lparr>shapes := sh\<rparr>)" "length sh = length (shapes ?s)"
    and v: "\<And>e l. e \<in> edges ?s \<Longrightarrow> map_of (overallConnections ?s) (edge_name e) = Some l \<Longrightarrow>
       sh ! l = (if edge_name e \<in> set ?names then line_of E (moduleArray ?s) e else shapes ?s ! l)"
    by blast
  have "drag_pressmove E p ev s = (None, ?s\<lparr>shapes := sh\<rparr>)"
    using sh(1) by (simp add: drag_pressmove_def js_defs)
  moreover have "graph_ok (?s\<lparr>shapes := sh\<rparr>)" using gs sh(2) by (rule graph_ok_shapes)
  moreover have "sh ! l = line_of E (moduleArray ?s) e"
    if e: "e \<in> edges s" and l: "map_of (overallConnections s) (edge_name e) = Some l" for e l
  proof (cases "fst e = p \<or> fst (snd (snd e)) = p")
    case True
    then have "edge_name e \<in> set ?names" using names e by blast
    then show ?thesis using v [of e l] e l es by simp
  next
    case False
    then have "edge_name e \<notin> set ?names" using names by auto
    then have "sh ! l = shapes s ! l" using v [of e l] e l es by simp
    also have "\<dots> = line_of E (moduleArray s) e" using d e l by (simp add: lines_drawn_def)
    also have "\<dots> = line_of E (moduleArray ?s) e"
      using line_of_move [OF _ False] graph_ok_key [OF g e] by (metis upd_module_array(1))
    finally show ?thesis .
  qed
  ultimately show ?thesis using es by (auto simp: lines_drawn_def)
qed

section \<open>Connecting and deleting\<close>

lemma lines_drawn_connect:
  assumes g: "graph_ok s" and d: "lines_drawn E s" and sl: "slots_exist (moduleArray s) (m, i, r, j)"
    and new: "(m, i, r, j) \<notin> edges s"
    and t: "t = snd (connectLines E (nat_str m) (nat_str i) (nat_str r) (nat_str j) s)"
  shows "lines_drawn E t"
proof -
  let ?e = "(m, i, r, j)"
  have ok: "canvas_ok s" using g by (simp add: graph_ok_def)
  note t' = t [unfolded connectLines_result [OF ok sl]]
  have lo: "line_of E (moduleArray t) e = line_of E (moduleArray s) e" if "slots_exist (moduleArray s) e" for e
    using that edit_ends_nth_fields(8,9) [OF sl] by (cases e) (simp add: t' line_of_def slots_exist_def)
  have "edges t = insert ?e (edges s)" by (rule graph_ok_connect(2) [OF g sl new t])
  moreover have "shapes t ! l = line_of E (moduleArray t) e"
    if es: "e \<in> edges s" and mt: "map_of (overallConnections t) (edge_name e) = Some l" for e l
  proof -
    have "e \<noteq> ?e" using es new by blast
    then have l: "map_of (overallConnections s) (edge_name e) = Some l" using mt by (simp add: t')
    obtain l' where l': "map_of (overallConnections s) (edge_name e) = Some l'" "l' < length (shapes s)"
      "slots_exist (moduleArray s) e" using g es by (rule graph_ok_key)
    have "shapes t ! l = shapes s ! l" using l l'(1,2) by (simp add: t' nth_append)
    then show ?thesis using d es l lo [OF l'(3)] by (simp add: lines_drawn_def)
  qed
  moreover have "shapes t ! l = line_of E (moduleArray t) ?e"
    if "map_of (overallConnections t) (edge_name ?e) = Some l" for l
  proof -
    have "l = length (shapes s)" using that by (simp add: t')
    then have "shapes t ! l = line_of E (moduleArray s) ?e" by (simp add: t' line_of_def)
    then show ?thesis using lo [OF sl] by simp
  qed
  ultimately show ?thesis unfolding lines_drawn_def by (metis insert_iff)
qed

lemma lines_drawn_delete:
  assumes g: "graph_ok s" and d: "lines_drawn E s" and sl: "slots_exist (moduleArray s) (m, i, r, j)"
    and t: "t = snd (deleteConnection (nat_str m) (nat_str i) (nat_str r) (nat_str j) s)"
  shows "lines_drawn E t"
proof -
  let ?e = "(m, i, r, j)"
  have ok: "canvas_ok s" using g by (simp add: graph_ok_def)
  note t' = t [unfolded deleteConnection_result [OF ok sl]]
  have lo: "line_of E (moduleArray t) e = line_of E (moduleArray s) e" if "slots_exist (moduleArray s) e" for e
    using that edit_ends_nth_fields(8,9) [OF sl] by (cases e) (simp add: t' line_of_def slots_exist_def)
  have ed: "edges t = edges s - {?e}" by (rule graph_ok_delete(2) [OF g sl t])
  show ?thesis unfolding lines_drawn_def
  proof (intro ballI allI impI)
    fix e l assume e: "e \<in> edges t" and l: "map_of (overallConnections t) (edge_name e) = Some l"
    then have es: "e \<in> edges s" "e \<noteq> ?e" using ed by auto
    then have l': "map_of (overallConnections s) (edge_name e) = Some l" using l by (simp add: t')
    have "slots_exist (moduleArray s) e" using g es(1) by (rule graph_ok_key)
    then show "shapes t ! l = line_of E (moduleArray t) e"
      using d es(1) l' lo by (simp add: lines_drawn_def t')
  qed
qed

end
