(* ===== verification/Config_File.thy ===== *)
theory Config_File
  imports Connections
begin

text \<open>
  The configuration file the canvas edits (\<open>drag.js\<close>): \<open>writeJSON\<close> merges the modules of the
  canvas into it, \<open>submitNewConnection\<close> fills in a new connection, \<open>copyConnectors\<close> copies the
  data of one end to the other, \<open>saveModulesPosition\<close> records positions. The functions are the
  success callbacks of the requests, from the file's contents to the contents they post back.

  A file is an object with \<open>configuration.components\<close>, an array of objects; names are strings.
  What the scripts never touch is kept in the \<open>rest\<close> fields. A connector entry is an object.
\<close>

record connections =
  snds :: "obj list option"
  rcvs :: "obj list option"

record component =
  c_name :: "string option"
  c_host :: "json option"
  c_type :: "json option"
  c_port :: "json option"
  c_conns :: "connections option"
  c_rest :: obj

record config =
  components :: "component list option"
  cf_rest :: obj

definition no_connections :: connections where
  "no_connections = \<lparr>snds = None, rcvs = None\<rparr>"

definition chid_entry :: "nat \<Rightarrow> obj" where
  "chid_entry k = [(''chid'', JNum (int k))]"

section \<open>Merging the canvas into the file: \<open>writeJSON\<close>\<close>

text \<open>The \<open>while\<close> loop that appends entries until there are as many as connectors.\<close>

function pad :: "nat \<Rightarrow> obj list \<Rightarrow> obj list" where
  "pad n xs = (if length xs < n then pad n (xs @ [chid_entry (length xs)]) else xs)"
  by pat_completeness auto
termination
  by (relation "measure (\<lambda>(n, xs). n - length xs)") auto

declare pad.simps [simp del]

lemma pad_eq: "pad n xs = xs @ map chid_entry [length xs..<n]"
proof (induction n xs rule: pad.induct)
  case (1 n xs)
  show ?case
  proof (cases "length xs < n")
    case True
    then have "pad n xs = pad n (xs @ [chid_entry (length xs)])" by (subst pad.simps) simp
    also have "\<dots> = (xs @ [chid_entry (length xs)]) @ map chid_entry [Suc (length xs)..<n]"
      using 1 True by simp
    finally show ?thesis using True by (simp add: upt_conv_Cons)
  next
    case False
    then show ?thesis by (subst pad.simps) simp
  qed
qed

definition pad_kind :: "nat \<Rightarrow> obj list option \<Rightarrow> obj list option" where
  "pad_kind n xs =
     (let xs1 = (if n \<noteq> 0 \<and> xs = None then Some [] else xs) in map_option (pad n) xs1)"

text \<open>The body of the inner loop, for a module whose name is the component's.\<close>

definition merge_module :: "component \<Rightarrow> gui_module \<Rightarrow> component" where
  "merge_module c m =
     (if c_name c = Some (m_name m)
      then c\<lparr>c_conns := map_option (\<lambda>k. \<lparr>snds = pad_kind (length (chidSendArray m)) (snds k),
                                           rcvs = pad_kind (length (chidReceiveArray m)) (rcvs k)\<rparr>)
                           (c_conns c)\<rparr>
      else c)"

definition merge_component :: "gui_module list \<Rightarrow> component \<Rightarrow> component" where
  "merge_component ms c =
     (let c1 = (if c_conns c = None then c\<lparr>c_conns := Some no_connections\<rparr> else c)
      in foldl merge_module c1 ms)"

definition kind_entries :: "nat \<Rightarrow> obj list option" where
  "kind_entries n = (if n \<noteq> 0 then Some (map chid_entry [0..<n]) else None)"

definition new_component :: "gui_module \<Rightarrow> component" where
  "new_component m = \<lparr>c_name = Some (m_name m), c_host = Some (JStr (m_host m)),
     c_type = Some (JStr (m_type m)), c_port = Some (m_port m),
     c_conns = Some \<lparr>snds = kind_entries (length (chidSendArray m)),
                     rcvs = kind_entries (length (chidReceiveArray m))\<rparr>,
     c_rest = []\<rparr>"

definition writeJSON :: "gui_module list \<Rightarrow> config \<Rightarrow> config" where
  "writeJSON ms cf =
     (let (collectExisting, merged) =
        (case components cf of
           Some cs \<Rightarrow> (map c_name cs, map (merge_component ms) cs)
         | None \<Rightarrow> ([], []))
      in cf\<lparr>components := Some (merged @
            map new_component (filter (\<lambda>m. Some (m_name m) \<notin> set collectExisting) ms))\<rparr>)"

section \<open>Reading and writing one connector entry\<close>

definition comps :: "config \<Rightarrow> component list" where
  "comps cf = (case components cf of None \<Rightarrow> [] | Some cs \<Rightarrow> cs)"

definition kind_list :: "side \<Rightarrow> connections \<Rightarrow> obj list option" where
  "kind_list sd k = (case sd of Sender \<Rightarrow> snds k | Receiver \<Rightarrow> rcvs k)"

definition set_kind :: "side \<Rightarrow> obj list \<Rightarrow> connections \<Rightarrow> connections" where
  "set_kind sd xs k = (case sd of Sender \<Rightarrow> k\<lparr>snds := Some xs\<rparr> | Receiver \<Rightarrow> k\<lparr>rcvs := Some xs\<rparr>)"

text \<open>\<open>components[p]["connections"][kind]\<close>, \<open>None\<close> where reading on would throw.\<close>

definition entry_list :: "side \<Rightarrow> config \<Rightarrow> nat \<Rightarrow> obj list option" where
  "entry_list sd cf p =
     (if p < length (comps cf)
      then (case c_conns (comps cf ! p) of None \<Rightarrow> None | Some k \<Rightarrow> kind_list sd k)
      else None)"

definition entry :: "side \<Rightarrow> config \<Rightarrow> nat option \<Rightarrow> nat option \<Rightarrow> obj option" where
  "entry sd cf pos io =
     (case (pos, io) of
        (Some p, Some k) \<Rightarrow>
          (case entry_list sd cf p of
             None \<Rightarrow> None
           | Some xs \<Rightarrow> if k < length xs then Some (xs ! k) else None)
      | _ \<Rightarrow> None)"

definition upd_comp :: "nat \<Rightarrow> (component \<Rightarrow> component) \<Rightarrow> config \<Rightarrow> config" where
  "upd_comp p f cf = cf\<lparr>components := map_option (\<lambda>cs. cs[p := f (cs ! p)]) (components cf)\<rparr>"

definition set_entry :: "side \<Rightarrow> nat \<Rightarrow> nat \<Rightarrow> (obj \<Rightarrow> obj) \<Rightarrow> config \<Rightarrow> config" where
  "set_entry sd p k f =
     upd_comp p (\<lambda>c. c\<lparr>c_conns := map_option
        (\<lambda>cn. case kind_list sd cn of None \<Rightarrow> cn | Some xs \<Rightarrow> set_kind sd (xs[k := f (xs ! k)]) cn)
        (c_conns c)\<rparr>)"

section \<open>Copying one end to the other\<close>

definition is_tcp :: "json option \<Rightarrow> bool" where
  "is_tcp t \<longleftrightarrow> eq_str t ''tcp'' \<or> eq_str t ''tcp (w/ filter)''"

definition is_ipc :: "json option \<Rightarrow> bool" where
  "is_ipc t \<longleftrightarrow> eq_str t ''ipc''"

text \<open>The four assignments for a TCP connection and the three for an IPC one.\<close>

definition copy_tcp :: "json option \<Rightarrow> obj \<Rightarrow> obj \<Rightarrow> obj" where
  "copy_tcp host src dst =
     obj_set ''port'' (obj_get src ''port'') (obj_set ''host'' host
       (obj_set ''type'' (obj_get src ''type'') (obj_set ''transport'' (obj_get src ''transport'') dst)))"

definition copy_ipc :: "obj \<Rightarrow> obj \<Rightarrow> obj" where
  "copy_ipc src dst =
     obj_set ''path'' (obj_get src ''path'')
       (obj_set ''type'' (obj_get src ''type'') (obj_set ''transport'' (obj_get src ''transport'') dst))"

definition copyFromReceiver ::
  "nat option \<Rightarrow> nat option \<Rightarrow> nat option \<Rightarrow> nat option \<Rightarrow> config \<Rightarrow> js_error + config" where
  "copyFromReceiver posSend posIoSend posRec posIoRec cf =
     (case entry Receiver cf posRec posIoRec of
        None \<Rightarrow> Inl TypeError
      | Some src \<Rightarrow>
          (if is_tcp (obj_get src ''transport'') then
             (case entry Sender cf posSend posIoSend of
                None \<Rightarrow> Inl TypeError
              | Some _ \<Rightarrow> Inr (set_entry Sender (the posSend) (the posIoSend)
                                 (copy_tcp (Some (JStr ''*'')) src) cf))
           else if is_ipc (obj_get src ''transport'') then
             (case entry Sender cf posSend posIoSend of
                None \<Rightarrow> Inl TypeError
              | Some _ \<Rightarrow> Inr (set_entry Sender (the posSend) (the posIoSend) (copy_ipc src) cf))
           else Inr cf))"

definition copyFromSender ::
  "nat option \<Rightarrow> nat option \<Rightarrow> nat option \<Rightarrow> nat option \<Rightarrow> config \<Rightarrow> js_error + config" where
  "copyFromSender posSend posIoSend posRec posIoRec cf =
     (case entry Sender cf posSend posIoSend of
        None \<Rightarrow> Inl TypeError
      | Some src \<Rightarrow>
          (if is_tcp (obj_get src ''transport'') then
             (case entry Receiver cf posRec posIoRec of
                None \<Rightarrow> Inl TypeError
              | Some _ \<Rightarrow> Inr (set_entry Receiver (the posRec) (the posIoRec)
                                 (copy_tcp (c_host (comps cf ! the posRec)) src) cf))
           else if is_ipc (obj_get src ''transport'') then
             (case entry Receiver cf posRec posIoRec of
                None \<Rightarrow> Inl TypeError
              | Some _ \<Rightarrow> Inr (set_entry Receiver (the posRec) (the posIoRec) (copy_ipc src) cf))
           else Inr cf))"

text \<open>The last entry whose \<open>chid\<close> is the one asked for; the search loop does not stop.\<close>

definition last_chid :: "obj list \<Rightarrow> string \<Rightarrow> nat option" where
  "last_chid xs v =
     foldl (\<lambda>acc i. if eq_str (obj_get (xs ! i) ''chid'') v then Some i else acc) None [0..<length xs]"

text \<open>
  The callback of \<open>copyConnectors\<close>: \<open>mSend\<close> and \<open>mRec\<close> were found when the request was sent,
  \<open>TEMPORARYINFO\<close> is read when the answer arrives.
\<close>

definition name_is :: "gui_module list \<Rightarrow> nat option \<Rightarrow> component \<Rightarrow> bool" where
  "name_is ms p c = (case p of None \<Rightarrow> False | Some k \<Rightarrow> c_name c = Some (m_name (ms ! k)))"

definition copyConnectors_success ::
  "string \<Rightarrow> nat option \<Rightarrow> nat option \<Rightarrow> gui_module list
   \<Rightarrow> (string \<times> string \<times> string \<times> string) option \<Rightarrow> config \<Rightarrow> js_error + config" where
  "copyConnectors_success from mSend mRec ms info cf =
     (case (components cf, info) of
        (Some cs, Some (_, ioSend, _, ioRec)) \<Rightarrow>
          if cs \<noteq> [] \<and> (mRec = None \<or> mSend = None) then Inl TypeError
          else
            (let (posRec, posSend) = find_two (name_is ms mRec) (name_is ms mSend) True 0 cs (None, None)
             in case (posSend, posRec) of
                  (Some p, Some q) \<Rightarrow>
                    (case (entry_list Sender cf p, entry_list Receiver cf q) of
                       (Some ss, Some rs) \<Rightarrow>
                         (let posIoSend = last_chid ss ioSend; posIoRec = last_chid rs ioRec in
                          if from = ''receiver''
                          then copyFromReceiver posSend posIoSend posRec posIoRec cf
                          else if from = ''sender''
                          then copyFromSender posSend posIoSend posRec posIoRec cf
                          else Inr cf)
                     | _ \<Rightarrow> Inl TypeError)
                | _ \<Rightarrow> Inl TypeError)
      | _ \<Rightarrow> Inl TypeError)"

section \<open>Filling in a new connection: \<open>submitNewConnection\<close>\<close>

text \<open>\<open>parseInt(s, 10)\<close> on the numerals the code passes; NaN is written as \<open>null\<close>.\<close>

definition parse_chid :: "string \<Rightarrow> json" where
  "parse_chid s = (case to_number s of Some i \<Rightarrow> JNum i | None \<Rightarrow> JNull)"

text \<open>\<open>$.extend(target, target, source)\<close>: the properties of \<open>source\<close> in order.\<close>

definition extend_obj :: "obj \<Rightarrow> obj \<Rightarrow> obj" where
  "extend_obj target source = foldl (\<lambda>t (k, v). alist_put k v t) target source"

definition fill_receiver :: "string \<Rightarrow> obj \<Rightarrow> obj \<Rightarrow> obj" where
  "fill_receiver ioRec json2 e = extend_obj [(''chid'', parse_chid ioRec)] json2"

definition fill_sender :: "string \<Rightarrow> obj \<Rightarrow> obj \<Rightarrow> obj" where
  "fill_sender ioSend json2 e =
     (let e1 = [(''chid'', parse_chid ioSend)] in
      if is_tcp (obj_get json2 ''transport'') then copy_tcp (Some (JStr ''*'')) json2 e1
      else if is_ipc (obj_get json2 ''transport'') then copy_ipc json2 e1
      else e1)"

definition fill_entries :: "string \<Rightarrow> (obj \<Rightarrow> obj) \<Rightarrow> obj list \<Rightarrow> obj list" where
  "fill_entries v f = map (\<lambda>e. if eq_str (obj_get e ''chid'') v then f e else e)"

definition fill_kind :: "side \<Rightarrow> string \<Rightarrow> (obj \<Rightarrow> obj) \<Rightarrow> component \<Rightarrow> js_error + component" where
  "fill_kind sd v f c =
     (case c_conns c of
        None \<Rightarrow> Inl TypeError
      | Some k \<Rightarrow>
          (case kind_list sd k of
             None \<Rightarrow> Inl TypeError
           | Some xs \<Rightarrow> Inr (c\<lparr>c_conns := Some (set_kind sd (fill_entries v f xs) k)\<rparr>)))"

text \<open>The body of the loop over the components: the receiver's module, then the sender's.\<close>

definition submit_component ::
  "gui_module list \<Rightarrow> nat option \<Rightarrow> nat option \<Rightarrow> string \<Rightarrow> string \<Rightarrow> obj
   \<Rightarrow> component \<Rightarrow> js_error + component" where
  "submit_component ms mSend mRec ioSend ioRec json2 c =
     (if mRec = None then Inl TypeError
      else case (if name_is ms mRec c then fill_kind Receiver ioRec (fill_receiver ioRec json2) c else Inr c) of
        Inl e \<Rightarrow> Inl e
      | Inr c1 \<Rightarrow>
          (if mSend = None then Inl TypeError
           else if name_is ms mSend c1 then fill_kind Sender ioSend (fill_sender ioSend json2) c1
           else Inr c1))"

fun map_err :: "('a \<Rightarrow> js_error + 'b) \<Rightarrow> 'a list \<Rightarrow> js_error + 'b list" where
  "map_err f [] = Inr []"
| "map_err f (x # xs) =
     (case f x of Inl e \<Rightarrow> Inl e
      | Inr y \<Rightarrow> (case map_err f xs of Inl e \<Rightarrow> Inl e | Inr ys \<Rightarrow> Inr (y # ys)))"

text \<open>The contents posted when the form validates; a throw posts nothing.\<close>

definition submitNewConnection_success ::
  "nat option \<Rightarrow> nat option \<Rightarrow> gui_module list \<Rightarrow> (string \<times> string \<times> string \<times> string) option
   \<Rightarrow> obj \<Rightarrow> config \<Rightarrow> js_error + config" where
  "submitNewConnection_success mSend mRec ms info json2 cf =
     (case (components cf, info) of
        (Some cs, Some (_, ioSend, _, ioRec)) \<Rightarrow>
          (case map_err (submit_component ms mSend mRec ioSend ioRec json2) cs of
             Inl e \<Rightarrow> Inl e
           | Inr cs' \<Rightarrow> Inr (cf\<lparr>components := Some cs'\<rparr>))
      | _ \<Rightarrow> Inl TypeError)"

section \<open>Saving positions\<close>

definition getPosition :: "gui_module \<Rightarrow> int \<times> int" where
  "getPosition m = (cont_x m, cont_y m)"

definition saveModulesPosition :: "gui_module list \<Rightarrow> (string \<times> int \<times> int) list" where
  "saveModulesPosition ms = map (\<lambda>m. (m_name m, getPosition m)) ms"

end
