(* ===== verification/Gestures.thy ===== *)
theory Gestures
  imports Dragging Config_File
begin

text \<open>
  The gestures of the configuration canvas (\<open>drag.js\<close>) that end in a form or a request:
  releasing a line pulled from a connector, the buttons that add connectors, and the forms for
  new modules and connections. The page is the canvas together with the connection form and
  the requests its handlers have sent.
\<close>

section \<open>The page\<close>

text \<open>
  A request for the working copy, with what its callback closes over: the kind of copying and
  the positions of the two modules, found when the request is sent.
\<close>

datatype job =
    CopyJob string "nat option" "nat option"
  | SubmitJob "nat option" "nat option"
  | WriteJob

text \<open>
  \<open>editorReady\<close>: the connection form has been created (\<open>initConnectionForm\<close> has its schema);
  \<open>form\<close>: the value the form was last filled with when it was opened.
\<close>

record page =
  cv :: canvas
  editorReady :: bool
  form :: "obj option"
  sent :: "job list"

definition on_canvas :: "canvas stmt \<Rightarrow> page stmt" where
  "on_canvas f w = (case f (cv w) of (e, s) \<Rightarrow> (e, w\<lparr>cv := s\<rparr>))"

definition upd_cv :: "(canvas \<Rightarrow> canvas) \<Rightarrow> page stmt" where
  "upd_cv f = on_canvas (upd f)"

definition send_job :: "job \<Rightarrow> page stmt" where
  "send_job j = upd (\<lambda>w. w\<lparr>sent := sent w @ [j]\<rparr>)"

section \<open>Forms and requests\<close>

text \<open>
  \<open>jsoneditor.setValue\<close> on the editor that does not exist yet throws before the port is drawn.
\<close>

definition callConnectForm :: "string \<Rightarrow> string \<Rightarrow> page stmt" where
  "callConnectForm chid host w =
     (if \<not> editorReady w then (Some TypeError, w)
      else case portRange ''connection'' (-1) (prt (cv w)) of
        (Inl e, p) \<Rightarrow> (Some e, w\<lparr>cv := (cv w)\<lparr>prt := p\<rparr>\<rparr>)
      | (Inr n, p) \<Rightarrow>
          (None, w\<lparr>cv := (cv w)\<lparr>prt := p\<rparr>,
             form := Some [(''chid'', JStr chid), (''port'', JNum n), (''host'', JStr host)]\<rparr>))"

text \<open>
  The loop that finds the two modules reads \<open>TEMPORARYINFO\<close> in its body, so it throws on
  \<open>null\<close> unless there is no module at all.
\<close>

definition find_temporary :: "canvas \<Rightarrow> js_error + nat option \<times> nat option" where
  "find_temporary s =
     (case TEMPORARYINFO s of
        None \<Rightarrow> (if moduleArray s = [] then Inr (None, None) else Inl TypeError)
      | Some (a, _, c, _) \<Rightarrow> Inr (find_ends a c True 0 (moduleArray s) (None, None)))"

definition copyConnectors :: "string \<Rightarrow> page stmt" where
  "copyConnectors from = readThen (\<lambda>w. find_temporary (cv w))
     (\<lambda>r. case r of Inl e \<Rightarrow> throw e | Inr (mSend, mRec) \<Rightarrow> send_job (CopyJob from mSend mRec))"

definition submitNewConnection :: "page stmt" where
  "submitNewConnection = readThen (\<lambda>w. find_temporary (cv w))
     (\<lambda>r. case r of Inl e \<Rightarrow> throw e | Inr (mSend, mRec) \<Rightarrow> send_job (SubmitJob mSend mRec))"

definition sendWriteJSON :: "page stmt" where
  "sendWriteJSON = send_job WriteJob"

section \<open>Releasing a pulled line\<close>

definition clear_line :: "nat \<Rightarrow> canvas \<Rightarrow> canvas" where
  "clear_line p = upd_module p (\<lambda>m. m\<lparr>connectionLine := []\<rparr>)"

text \<open>
  The common end of the two handlers, with \<open>info\<close> the four strings: record the connection, open
  the form for a new one or copy the data of the end that has some, and draw the line. The last
  case of the code (log an error) cannot be reached.
\<close>

definition finish_connection ::
  "env \<Rightarrow> string \<Rightarrow> string \<Rightarrow> string \<Rightarrow> string \<Rightarrow> string \<Rightarrow> string \<Rightarrow> string \<Rightarrow> page stmt" where
  "finish_connection E stateConnection a b c d chid host =
     andThen (upd_cv (\<lambda>s. s\<lparr>TEMPORARYINFO := Some (a, b, c, d)\<rparr>))
       (andThen
         (if stateConnection = ''new'' then callConnectForm chid host
          else if stateConnection = ''receiver_full'' then copyConnectors ''receiver''
          else if stateConnection = ''sender_full'' then copyConnectors ''sender''
          else skip)
         (on_canvas (connectLines E a b c d)))"

definition send_pressup :: "env \<Rightarrow> nat \<Rightarrow> nat \<Rightarrow> page stmt" where
  "send_pressup E p index = readThen cv (\<lambda>s.
     let ID = nat_str (m_ID (moduleArray s ! p)); i = nat_str index in
     case ABOVEINFO s of
       None \<Rightarrow> andThen (upd_cv (clear_line p)) (if \<not> ABOVERECEIVER s then skip else throw TypeError)
     | Some (k, chid, host) \<Rightarrow>
         (let stateConnection = checkConnection ID i (nat_str k) chid s in
          andThen (upd_cv (clear_line p))
            (if \<not> ABOVERECEIVER s \<or> stateConnection = ''exists'' then skip
             else finish_connection E stateConnection ID i (nat_str k) chid chid host)))"

definition receive_pressup :: "env \<Rightarrow> nat \<Rightarrow> nat \<Rightarrow> page stmt" where
  "receive_pressup E p index = readThen cv (\<lambda>s.
     let ID = nat_str (m_ID (moduleArray s ! p)); j = nat_str index in
     case ABOVEINFO s of
       None \<Rightarrow> andThen (upd_cv (clear_line p)) (if \<not> ABOVESENDER s then skip else throw TypeError)
     | Some (k, chid, host) \<Rightarrow>
         (let stateConnection = checkConnection (nat_str k) chid ID j s in
          andThen (upd_cv (clear_line p))
            (if \<not> ABOVESENDER s \<or> stateConnection = ''exists'' then skip
             else finish_connection E stateConnection (nat_str k) chid ID j j
                    (m_host (moduleArray s ! p)))))"

section \<open>Buttons and the module form\<close>

definition sender_button :: "env \<Rightarrow> nat \<Rightarrow> page stmt" where
  "sender_button E p = andThen (on_canvas (makeSenderContainer E p)) sendWriteJSON"

definition receiver_button :: "nat \<Rightarrow> page stmt" where
  "receiver_button p = andThen (on_canvas (makeReceiverContainer p)) sendWriteJSON"

text \<open>The value of the form: name, host and type, any of them possibly absent.\<close>

definition submitNewModule :: "env \<Rightarrow> string option \<Rightarrow> json option \<Rightarrow> json option \<Rightarrow> page stmt" where
  "submitNewModule E name host ty =
     andThen (on_canvas (dragAndDrop E name host ty (Some JNull) (Some (50, 75)))) sendWriteJSON"

definition cancel_form :: "page stmt" where
  "cancel_form = on_canvas cancelConnection"

end
