(* ===== verification/Js_Strings.thy ===== *)
theory Js_Strings
  imports Js_Prelude
begin

text \<open>
  The string methods of JavaScript that the scripts use beyond \<open>String\<close> and \<open>==\<close>: searching and
  replacing a substring, case conversion, \<open>parseInt\<close> and \<open>slice(-n)\<close>, and access to
  properties of JSON values, with the facts about them
  that the components share. Characters are the code units below 256.
\<close>

section \<open>Searching\<close>

definition starts :: "string \<Rightarrow> string \<Rightarrow> bool" where
  "starts pat s = (take (length pat) s = pat)"

fun index_of :: "string \<Rightarrow> string \<Rightarrow> nat option" where
  "index_of pat [] = (if pat = [] then Some 0 else None)"
| "index_of pat (c # s) =
     (if starts pat (c # s) then Some 0 else map_option Suc (index_of pat s))"

definition js_includes :: "string \<Rightarrow> string \<Rightarrow> bool" where
  "js_includes s pat = (index_of pat s \<noteq> None)"

text \<open>\<open>s.replace(pat, '')\<close> with a string pattern removes the first occurrence only.\<close>

definition remove_first :: "string \<Rightarrow> string \<Rightarrow> string" where
  "remove_first pat s =
     (case index_of pat s of None \<Rightarrow> s | Some i \<Rightarrow> take i s @ drop (i + length pat) s)"

text \<open>\<open>s.replace(/[<>]/g, '')\<close>.\<close>

definition strip_angles :: "string \<Rightarrow> string" where
  "strip_angles s = filter (\<lambda>c. c \<noteq> CHR ''<'' \<and> c \<noteq> CHR ''>'') s"

lemma starts_append [simp]: "starts pat (pat @ s)"
  by (simp add: starts_def)

lemma index_of_append [simp]: "index_of pat (pat @ s) = Some 0"
proof (cases "pat @ s")
  case (Cons a xs)
  have "starts pat (a # xs)" using starts_append [of pat s] by (simp add: Cons)
  then show ?thesis by (simp add: Cons)
qed simp

lemma includes_append [simp]: "js_includes (pat @ s) pat"
  by (simp add: js_includes_def)

lemma remove_first_append [simp]: "remove_first pat (pat @ s) = s"
  by (simp add: remove_first_def)

lemma index_of_bound: "index_of pat s = Some i \<Longrightarrow> i + length pat \<le> length s"
proof (induction s arbitrary: i)
  case (Cons c s)
  show ?case
  proof (cases "starts pat (c # s)")
    case True
    then have "length pat \<le> length (c # s)" unfolding starts_def by (metis length_take min.cobounded1)
    with True Cons.prems show ?thesis by simp
  next
    case False
    with Cons.prems obtain j where "index_of pat s = Some j" "i = Suc j" by auto
    with Cons.IH show ?thesis by simp
  qed
qed (auto split: if_splits)

lemma index_of_split: "index_of pat s = Some i \<Longrightarrow> s = take i s @ pat @ drop (i + length pat) s"
proof (induction s arbitrary: i)
  case (Cons c s)
  show ?case
  proof (cases "starts pat (c # s)")
    case True
    then have "c # s = pat @ drop (length pat) (c # s)"
      unfolding starts_def by (metis append_take_drop_id)
    with True Cons.prems show ?thesis by simp
  next
    case False
    with Cons.prems obtain j where "index_of pat s = Some j" "i = Suc j" by auto
    with Cons.IH [of j] show ?thesis by simp
  qed
qed (auto split: if_splits)

lemma includes_iff: "js_includes s pat \<longleftrightarrow> (\<exists>u v. s = u @ pat @ v)"
proof
  assume "js_includes s pat"
  then obtain i where "index_of pat s = Some i" by (auto simp: js_includes_def)
  then show "\<exists>u v. s = u @ pat @ v" using index_of_split by blast
next
  assume "\<exists>u v. s = u @ pat @ v"
  then obtain u v where s: "s = u @ pat @ v" by blast
  have "index_of pat (u @ pat @ v) \<noteq> None" by (induction u) auto
  then show "js_includes s pat" by (simp add: js_includes_def s)
qed

lemma set_remove_first: "set (remove_first pat s) \<subseteq> set s"
  by (auto simp: remove_first_def dest: in_set_takeD in_set_dropD split: option.splits)

lemma strip_angles_safe:
  "CHR ''<'' \<notin> set (strip_angles s)" "CHR ''>'' \<notin> set (strip_angles s)"
  by (simp_all add: strip_angles_def)

lemma strip_angles_id: "CHR ''<'' \<notin> set s \<Longrightarrow> CHR ''>'' \<notin> set s \<Longrightarrow> strip_angles s = s"
  by (auto simp: strip_angles_def filter_id_conv)

section \<open>Letters\<close>

definition lower_char :: "char \<Rightarrow> char" where
  "lower_char c = (let k = (of_char c :: nat) in
     if (65 \<le> k \<and> k \<le> 90) \<or> (192 \<le> k \<and> k \<le> 222 \<and> k \<noteq> 215) then char_of (k + 32) else c)"

definition toLowerCase :: "string \<Rightarrow> string" where
  "toLowerCase s = map lower_char s"

text \<open>For ASCII letters; the state machine names its commands with those.\<close>

definition upper_char :: "char \<Rightarrow> char" where
  "upper_char c = (let k = (of_char c :: nat) in if 97 \<le> k \<and> k \<le> 122 then char_of (k - 32) else c)"

definition toUpperCase :: "string \<Rightarrow> string" where
  "toUpperCase s = map upper_char s"

lemma toLowerCase_append [simp]: "toLowerCase (s @ t) = toLowerCase s @ toLowerCase t"
  by (simp add: toLowerCase_def)

lemma lower_digit: "is_digit c \<Longrightarrow> lower_char c = c"
  by (auto simp: is_digit_def digit_val_def lower_char_def Let_def split: if_splits)

lemma toLowerCase_digits: "(\<And>c. c \<in> set s \<Longrightarrow> is_digit c) \<Longrightarrow> toLowerCase s = s"
  by (induction s) (auto simp: toLowerCase_def lower_digit)

section \<open>\<open>parseInt\<close>\<close>

definition hex_val :: "char \<Rightarrow> nat option" where
  "hex_val c = (let k = (of_char c :: nat) in
     if 48 \<le> k \<and> k \<le> 57 then Some (k - 48)
     else if 65 \<le> k \<and> k \<le> 70 then Some (k - 55)
     else if 97 \<le> k \<and> k \<le> 102 then Some (k - 87) else None)"

definition hex_nat :: "string \<Rightarrow> nat" where
  "hex_nat s = foldl (\<lambda>acc c. 16 * acc + (case hex_val c of Some d \<Rightarrow> d | None \<Rightarrow> 0)) 0 s"

text \<open>The longest numeral at the start, in base sixteen after \<open>0x\<close>; \<open>None\<close> is \<open>NaN\<close>.\<close>

definition parse_unsigned :: "string \<Rightarrow> nat option" where
  "parse_unsigned s =
     (if take 2 s \<in> {''0x'', ''0X''} then
        (let ds = takeWhile (\<lambda>c. hex_val c \<noteq> None) (drop 2 s) in
         if ds = [] then None else Some (hex_nat ds))
      else (let ds = takeWhile is_digit s in if ds = [] then None else Some (digits_nat ds)))"

definition parseInt :: "string \<Rightarrow> int option" where
  "parseInt s = (let t = trim_left s in
     case t of
       [] \<Rightarrow> None
     | c # cs \<Rightarrow>
         if c = CHR ''-'' then map_option (\<lambda>n. - int n) (parse_unsigned cs)
         else if c = CHR ''+'' then map_option int (parse_unsigned cs)
         else map_option int (parse_unsigned t))"

lemma parse_unsigned_digits:
  assumes "s \<noteq> []" and "\<forall>c \<in> set s. is_digit c"
  shows "parse_unsigned s = Some (digits_nat s)"
proof -
  have "take 2 s \<notin> {''0x'', ''0X''}"
  proof
    assume "take 2 s \<in> {''0x'', ''0X''}"
    then have "CHR ''x'' \<in> set s \<or> CHR ''X'' \<in> set s"
      by (metis (no_types, lifting) in_set_takeD insertE list.set_intros(1,2) singletonD)
    with assms(2) show False by (auto simp: is_digit_def digit_val_def)
  qed
  moreover have "takeWhile is_digit s = s" using assms(2) by (simp add: takeWhile_eq_all_conv)
  ultimately show ?thesis
    unfolding parse_unsigned_def Let_def using assms(1) by (metis (no_types, lifting))
qed

lemma parseInt_digits:
  assumes "s \<noteq> []" and "\<forall>c \<in> set s. is_digit c"
  shows "parseInt s = Some (int (digits_nat s))"
proof -
  have "trim_left s = s"
    using assms(2) by (auto simp: trim_left_def intro!: dropWhile_none dest: is_digit_not_space)
  moreover have "hd s \<noteq> CHR ''-''" "hd s \<noteq> CHR ''+''"
    using assms is_digit_not_sign hd_in_set by blast+
  moreover have "parse_unsigned s = Some (digits_nat s)"
    using assms by (rule parse_unsigned_digits)
  ultimately show ?thesis
    using assms(1) by (cases s) (simp_all add: parseInt_def Let_def)
qed

section \<open>\<open>slice(-n)\<close>\<close>

definition slice_last :: "nat \<Rightarrow> string \<Rightarrow> string" where
  "slice_last n s = drop (length s - n) s"

section \<open>Property access\<close>

text \<open>Property access: it throws on \<open>undefined\<close> and \<open>null\<close>; other values without the property give \<open>undefined\<close>.\<close>

fun js_get :: "json option \<Rightarrow> string \<Rightarrow> js_error + json option" where
  "js_get None k = Inl TypeError"
| "js_get (Some JNull) k = Inl TypeError"
| "js_get (Some (JObj ob)) k = Inr (obj_get ob k)"
| "js_get (Some v) k = Inr None"

fun js_path :: "json option \<Rightarrow> string list \<Rightarrow> js_error + json option" where
  "js_path v [] = Inr v"
| "js_path v (k # ks) = (case js_get v k of Inl e \<Rightarrow> Inl e | Inr w \<Rightarrow> js_path w ks)"

section \<open>\<open>split('\n')\<close>\<close>

fun split_lines :: "string \<Rightarrow> string list" where
  "split_lines [] = ['''']"
| "split_lines (c # cs) =
     (if c = CHR 0x0A then '''' # split_lines cs
      else case split_lines cs of [] \<Rightarrow> [[c]] | l # ls \<Rightarrow> (c # l) # ls)"

end
