(* ===== verification/Naming.thy ===== *)
theory Naming
  imports Gestures Js_Strings
begin

text \<open>
  Adding several modules at once (\<open>submitNewMultiModules\<close> of \<open>drag.js\<close>): the number from which
  the new modules are counted, their names, and the loop that creates them.
\<close>

section \<open>The form for several modules\<close>

text \<open>One step of the loop over the modules: the largest number behind the name so far.\<close>

definition count_step :: "string \<Rightarrow> string \<Rightarrow> int \<Rightarrow> int" where
  "count_step name nm count =
     (if js_includes (toLowerCase nm) name then
        (case parseInt (remove_first name nm) of
           None \<Rightarrow> count
         | Some value \<Rightarrow> if count < value then value else count)
      else count)"

definition multi_count :: "string \<Rightarrow> gui_module list \<Rightarrow> int" where
  "multi_count name ms = foldl (\<lambda>count m. count_step name (m_name m) count) 0 ms"

definition multi_name :: "string \<Rightarrow> int \<Rightarrow> string" where
  "multi_name name count = name @ slice_last 2 (CHR ''0'' # int_str count)"

definition add_numbered ::
  "env \<Rightarrow> string \<Rightarrow> json option \<Rightarrow> json option \<Rightarrow> int \<Rightarrow> page stmt" where
  "add_numbered E name host ty count =
     on_canvas (dragAndDrop E (Some (multi_name name count)) host ty (Some JNull)
                  (Some (60 * count, 75 * count)))"

text \<open>
  The number of modules is an integer of the form; \<open>undefined\<close> or a negative number creates none.
\<close>

definition submitNewMultiModules ::
  "env \<Rightarrow> int option \<Rightarrow> string \<Rightarrow> json option \<Rightarrow> json option \<Rightarrow> page stmt" where
  "submitNewMultiModules E nb name host ty =
     readThen (\<lambda>w. multi_count name (moduleArray (cv w)))
       (\<lambda>count. andThen
          (forEach [count + 1 .. count + (case nb of None \<Rightarrow> 0 | Some n \<Rightarrow> n)]
             (add_numbered E name host ty))
          sendWriteJSON)"

section \<open>Two-digit numbers\<close>

lemma slice_two [simp]: "slice_last 2 (xs @ [a, b]) = [a, b]"
  by (simp add: slice_last_def)

lemma two_digits: "slice_last 2 (CHR ''0'' # nat_str c) = [digit (c div 10 mod 10), digit (c mod 10)]"
proof -
  consider (small) "c < 10" | (mid) "\<not> c < 10" "c div 10 < 10" | (big) "\<not> c < 10" "\<not> c div 10 < 10"
    by blast
  then show ?thesis
  proof cases
    case small
    then have "CHR ''0'' # nat_str c = [] @ [digit (c div 10 mod 10), digit (c mod 10)]"
      by (simp add: nat_str_small digit_def)
    then show ?thesis by (metis slice_two)
  next
    case mid
    then have "CHR ''0'' # nat_str c = [CHR ''0''] @ [digit (c div 10 mod 10), digit (c mod 10)]"
      by (simp add: nat_str_big nat_str_small)
    then show ?thesis by (metis slice_two)
  next
    case big
    then have "CHR ''0'' # nat_str c
        = (CHR ''0'' # nat_str (c div 10 div 10)) @ [digit (c div 10 mod 10), digit (c mod 10)]"
      by (simp add: nat_str_big)
    then show ?thesis by (metis slice_two)
  qed
qed

lemma multi_name_nat:
  "multi_name name (int c) = name @ [digit (c div 10 mod 10), digit (c mod 10)]"
  by (simp add: multi_name_def two_digits)

lemma digit_inject: "a < 10 \<Longrightarrow> b < 10 \<Longrightarrow> digit a = digit b \<longleftrightarrow> a = b"
  by (metis digit_val_digit option.inject)

lemma mod_hundred: "x mod 100 = 10 * (x div 10 mod 10) + x mod (10 :: nat)"
  using mod_mult2_eq [of x 10 10] by simp

lemma ten_digits:
  fixes x x' y y' :: nat
  assumes "y < 10" "y' < 10"
  shows "10 * x + y = 10 * x' + y' \<longleftrightarrow> x = x' \<and> y = y'"
proof
  assume eq: "10 * x + y = 10 * x' + y'"
  then have "x = x'" using assms by linarith
  with eq show "x = x' \<and> y = y'" by linarith
qed simp

lemma multi_name_eq: "multi_name name (int a) = multi_name name (int b) \<longleftrightarrow> a mod 100 = b mod 100"
proof -
  have "multi_name name (int a) = multi_name name (int b)
      \<longleftrightarrow> a div 10 mod 10 = b div 10 mod 10 \<and> a mod 10 = b mod 10"
    unfolding multi_name_nat
    by (simp only: same_append_eq list.inject digit_inject mod_less_divisor zero_less_numeral simp_thms)
  also have "\<dots> \<longleftrightarrow> a mod 100 = b mod 100"
    unfolding mod_hundred [of a] mod_hundred [of b] by (simp only: ten_digits mod_less_divisor zero_less_numeral)
  finally show ?thesis .
qed

lemma parse_two_digits: "parseInt [digit (c div 10 mod 10), digit (c mod 10)] = Some (int (c mod 100))"
proof -
  have "digits_nat [digit (c div 10 mod 10), digit (c mod 10)] = 10 * (c div 10 mod 10) + c mod 10"
    by (simp add: digits_nat_def)
  also have "\<dots> = c mod 100" by (rule mod_hundred [symmetric])
  finally show ?thesis by (simp add: parseInt_digits del: of_nat_mod)
qed

section \<open>The counter\<close>

lemma count_step_ge: "count \<le> count_step name nm count"
  by (auto simp: count_step_def split: option.splits)

lemma count_step_named:
  assumes "toLowerCase name = name"
  shows "int (c mod 100) \<le> count_step name (multi_name name (int c)) count"
proof -
  let ?d = "[digit (c div 10 mod 10), digit (c mod 10)]"
  have "toLowerCase (name @ ?d) = name @ ?d"
    using assms by (simp add: toLowerCase_def lower_digit)
  then show ?thesis by (simp add: count_step_def multi_name_nat parse_two_digits)
qed

lemma count_fold_ge: "count \<le> foldl (\<lambda>n m. count_step name (f m) n) count ms"
proof (induction ms arbitrary: count)
  case (Cons m ms)
  show ?case using order_trans [OF count_step_ge Cons.IH] by simp
qed simp

lemma multi_count_nonneg: "0 \<le> multi_count name ms"
  unfolding multi_count_def by (rule count_fold_ge)

lemma multi_count_covers:
  assumes "toLowerCase name = name" and "m \<in> set ms" and "m_name m = multi_name name (int c)"
  shows "int (c mod 100) \<le> multi_count name ms"
proof -
  from assms(2) obtain xs ys where ms: "ms = xs @ m # ys" by (meson split_list)
  let ?f = "foldl (\<lambda>n m. count_step name (m_name m) n)"
  have "int (c mod 100) \<le> count_step name (m_name m) (?f 0 xs)"
    unfolding assms(3) by (rule count_step_named [OF assms(1)])
  also have "\<dots> \<le> ?f (count_step name (m_name m) (?f 0 xs)) ys" by (rule count_fold_ge)
  finally show ?thesis by (simp add: multi_count_def ms)
qed

section \<open>The new modules\<close>

lemma add_numbered_total:
  "\<exists>w'. add_numbered E name host ty c w = (None, w') \<and> sent w' = sent w
     \<and> map m_name (moduleArray (cv w')) = map m_name (moduleArray (cv w)) @ [multi_name name c]
     \<and> map getPosition (moduleArray (cv w'))
         = map getPosition (moduleArray (cv w)) @ [(60 * c, 75 * c)]
     \<and> (canvas_ok (cv w) \<longrightarrow> canvas_ok (cv w'))"
  using canvas_ok_dragAndDrop [of "cv w" E "Some (multi_name name c)" host ty "Some JNull"
      "Some (60 * c, 75 * c)"]
  by (auto simp: add_numbered_def on_canvas_def dragAndDrop_result getPosition_def)

lemma add_all_numbered:
  "\<exists>w'. forEach cs (add_numbered E name host ty) w = (None, w') \<and> sent w' = sent w
     \<and> map m_name (moduleArray (cv w')) = map m_name (moduleArray (cv w)) @ map (multi_name name) cs
     \<and> map getPosition (moduleArray (cv w'))
         = map getPosition (moduleArray (cv w)) @ map (\<lambda>c. (60 * c, 75 * c)) cs
     \<and> (canvas_ok (cv w) \<longrightarrow> canvas_ok (cv w'))"
proof (induction cs arbitrary: w)
  case (Cons c cs)
  obtain v where v: "add_numbered E name host ty c w = (None, v)" "sent v = sent w"
      "map m_name (moduleArray (cv v)) = map m_name (moduleArray (cv w)) @ [multi_name name c]"
      "map getPosition (moduleArray (cv v)) = map getPosition (moduleArray (cv w)) @ [(60 * c, 75 * c)]"
      "canvas_ok (cv w) \<longrightarrow> canvas_ok (cv v)"
    using add_numbered_total [of E name host ty c w] by blast
  show ?case using Cons.IH [of v] v by auto
qed simp

section \<open>Names of the new modules\<close>

definition names :: "page \<Rightarrow> string list" where
  "names w = map m_name (moduleArray (cv w))"

lemma submit_multi_result:
  assumes "c = multi_count name (moduleArray (cv w))"
  obtains w' where "submitNewMultiModules E (Some (int n)) name host ty w = (None, w')"
    and "sent w' = sent w @ [WriteJob]"
    and "names w' = names w @ map (multi_name name) [c + 1 .. c + int n]"
    and "map getPosition (moduleArray (cv w'))
      = map getPosition (moduleArray (cv w)) @ map (\<lambda>k. (60 * k, 75 * k)) [c + 1 .. c + int n]"
    and "canvas_ok (cv w) \<longrightarrow> canvas_ok (cv w')"
proof -
  obtain v where v: "forEach [c + 1 .. c + int n] (add_numbered E name host ty) w = (None, v)"
      "sent v = sent w" "names v = names w @ map (multi_name name) [c + 1 .. c + int n]"
      "map getPosition (moduleArray (cv v))
        = map getPosition (moduleArray (cv w)) @ map (\<lambda>k. (60 * k, 75 * k)) [c + 1 .. c + int n]"
      "canvas_ok (cv w) \<longrightarrow> canvas_ok (cv v)"
    using add_all_numbered [of "[c + 1 .. c + int n]" E name host ty w]
    unfolding names_def by blast
  let ?w = "v\<lparr>sent := sent v @ [WriteJob]\<rparr>"
  have "submitNewMultiModules E (Some (int n)) name host ty w = (None, ?w)"
    using v(1) by (simp add: submitNewMultiModules_def js_defs sendWriteJSON_def send_job_def
        assms [symmetric])
  moreover have "names ?w = names v" by (simp add: names_def)
  ultimately show ?thesis using that [of ?w] v by simp
qed

lemma multi_name_int_eq:
  assumes "0 \<le> a" "0 \<le> b"
  shows "multi_name name a = multi_name name b \<longleftrightarrow> a mod 100 = b mod 100"
proof -
  obtain i j where "a = int i" "b = int j" using assms by (metis nonneg_int_cases)
  moreover have "int k mod 100 = int (k mod 100)" for k by (simp add: of_nat_mod)
  ultimately show ?thesis using multi_name_eq [of name i j] by simp
qed

lemma distinct_multi_names:
  assumes "0 \<le> c"
  shows "distinct (map (multi_name name) [c + 1 .. c + int n]) \<longleftrightarrow> n \<le> 100"
proof
  assume d: "distinct (map (multi_name name) [c + 1 .. c + int n])"
  show "n \<le> 100"
  proof (rule ccontr)
    assume "\<not> n \<le> 100"
    then have "c + 1 \<in> set [c + 1 .. c + int n]" "c + 101 \<in> set [c + 1 .. c + int n]" by auto
    moreover have "multi_name name (c + 1) = multi_name name (c + 101)"
      using assms mod_add_self2 [of "c + 1" 100] by (simp add: multi_name_int_eq add.assoc)
    moreover have "inj_on (multi_name name) (set [c + 1 .. c + int n])" using d by (simp only: distinct_map)
    ultimately have "c + 1 = c + 101" using inj_onD by fastforce
    then show False by simp
  qed
next
  assume n: "n \<le> 100"
  have "inj_on (multi_name name) {c + 1 .. c + int n}"
  proof (rule inj_onI)
    fix a b
    assume ab: "a \<in> {c + 1 .. c + int n}" "b \<in> {c + 1 .. c + int n}"
      and "multi_name name a = multi_name name b"
    then have "a mod 100 = b mod 100" using assms by (simp add: multi_name_int_eq)
    then have "100 dvd a - b" by (simp add: mod_eq_dvd_iff)
    then obtain k where k: "a - b = 100 * k" by (auto simp: dvd_def)
    have "\<bar>a - b\<bar> < 100" using ab n by auto
    with k have "k = 0" by auto
    with k show "a = b" by simp
  qed
  then show "distinct (map (multi_name name) [c + 1 .. c + int n])" by (simp add: distinct_map)
qed

text \<open>
  Numbering: when the module name has no capital letter and the numbers stay below 100,
  adding \<open>n\<close> modules at once throws nothing, keeps the canvas consistent, appends exactly \<open>n\<close>
  modules with consecutive two-digit numbers, all named differently from each other and from
  every module that was there, and sends one request to save them.
\<close>

theorem multi_names_fresh:
  assumes "toLowerCase name = name" and "canvas_ok (cv w)"
    and "c = multi_count name (moduleArray (cv w))" and "c + int n \<le> 99"
    and "new = map (multi_name name) [c + 1 .. c + int n]"
    and "w' = snd (submitNewMultiModules E (Some (int n)) name host ty w)"
  shows "fst (submitNewMultiModules E (Some (int n)) name host ty w) = None \<and> canvas_ok (cv w')
    \<and> names w' = names w @ new \<and> distinct new \<and> set new \<inter> set (names w) = {}
    \<and> sent w' = sent w @ [WriteJob]"
proof -
  obtain v where v: "submitNewMultiModules E (Some (int n)) name host ty w = (None, v)"
      "sent v = sent w @ [WriteJob]" "names v = names w @ new" "canvas_ok (cv w) \<longrightarrow> canvas_ok (cv v)"
    using submit_multi_result [OF assms(3)] assms(5) by blast
  have c0: "0 \<le> c" unfolding assms(3) by (rule multi_count_nonneg)
  have "set new \<inter> set (names w) = {}"
  proof (rule equals0I)
    fix x assume "x \<in> set new \<inter> set (names w)"
    then obtain k m where "k \<in> set [c + 1 .. c + int n]" and x: "x = multi_name name k"
        and m: "m \<in> set (moduleArray (cv w))" "x = m_name m"
      unfolding names_def set_map assms(5) by blast
    then have k: "c < k" "k \<le> c + int n" by auto
    from k c0 obtain j where j: "k = int j" by (metis le_less_trans nonneg_int_cases order_less_imp_le)
    then have "j mod 100 = j" using k assms(4) by simp
    then have "int j \<le> c"
      using multi_count_covers [OF assms(1) m(1), of j] m(2) x j assms(3) by simp
    with k j show False by simp
  qed
  moreover have "distinct new" using distinct_multi_names [OF c0, of name n] assms(4,5) c0 by simp
  ultimately show ?thesis using v assms(2,6) by simp
qed

text \<open>A canvas with the module \<open>unit07\<close>: two more units are numbered 08 and 09.\<close>

definition two_units :: page where
  "two_units = \<lparr>cv = init_canvas\<lparr>moduleID := 1, moduleArray :=
      [base_module 0 ''unit07'' ''h'' ''t'' (JNum 5000)]\<rparr>, editorReady = True, form = None, sent = []\<rparr>"

lemma two_units_ok:
  "canvas_ok (cv two_units)" "multi_count ''unit'' (moduleArray (cv two_units)) = 7"
  "toLowerCase ''unit'' = ''unit''" "names two_units = [''unit07'']"
  subgoal by (simp add: two_units_def canvas_ok_def ids_ok_def module_ok_def boxes_ok_def base_module_def)
  subgoal by code_simp
  subgoal by code_simp
  subgoal by (simp add: names_def two_units_def base_module_def)
  done

definition flat_env :: env where
  "flat_env = \<lparr>getBounds = \<lambda>n. (0, 0), windowName = ''''\<rparr>"

theorem multi_names_fresh_witness:
  "names (snd (submitNewMultiModules flat_env (Some (int 2)) ''unit'' None None two_units))
     = [''unit07'', ''unit08'', ''unit09'']"
proof -
  have new: "map (multi_name ''unit'') [7 + 1 .. 7 + int 2] = [''unit08'', ''unit09'']" by code_simp
  show ?thesis
    using multi_names_fresh [OF two_units_ok(3,1) refl _ refl refl, of 2] new two_units_ok(2,4)
    by simp
qed

text \<open>
  The limit of the numbering: the names of \<open>n\<close> modules added at once are pairwise different
  exactly when \<open>n\<close> is at most 100, because only two digits of the number are kept.
\<close>

theorem multi_names_repeat:
  assumes "w' = snd (submitNewMultiModules E (Some (int n)) name host ty w)"
  shows "distinct (drop (length (names w)) (names w')) \<longleftrightarrow> n \<le> 100"
proof -
  let ?c = "multi_count name (moduleArray (cv w))"
  obtain v where "submitNewMultiModules E (Some (int n)) name host ty w = (None, v)"
      "names v = names w @ map (multi_name name) [?c + 1 .. ?c + int n]"
    using submit_multi_result [OF refl] by blast
  with assms show ?thesis using distinct_multi_names [OF multi_count_nonneg] by simp
qed

theorem multi_names_repeat_witness:
  "\<not> distinct (drop 1 (names (snd (submitNewMultiModules flat_env (Some (int 101)) ''unit''
     None None two_units))))"
  using multi_names_repeat [OF refl, where E = flat_env and n = 101 and name = "''unit''" and w = two_units
      and host = None and ty = None] two_units_ok(4)
  by simp

lemma lower_idem: "lower_char (lower_char c) = lower_char c"
proof -
  have "\<And>k. k < 256 \<Longrightarrow> (of_char (char_of (k :: nat) :: char) :: nat) = k" by simp
  then show ?thesis by (auto simp: lower_char_def Let_def split: if_splits)
qed

text \<open>
  A module name with a capital letter is never found among the names it is compared with in
  lower case, so the numbering starts again at 01 whatever modules exist.
\<close>

theorem capital_names_restart:
  assumes "toLowerCase name \<noteq> name"
    and "w' = snd (submitNewMultiModules E (Some (int (Suc n))) name host ty w)"
  shows "names w' ! length (names w) = name @ ''01''"
proof -
  from assms(1) obtain c where c: "c \<in> set name" "lower_char c \<noteq> c"
    unfolding toLowerCase_def by (metis list.map_ident_strong)
  have "\<not> js_includes (toLowerCase nm) name" for nm
  proof
    assume "js_includes (toLowerCase nm) name"
    then have "c \<in> set (toLowerCase nm)" using c(1) by (auto simp: includes_iff)
    then show False using c(2) lower_idem by (auto simp: toLowerCase_def)
  qed
  then have "count_step name nm k = k" for nm k by (simp add: count_step_def)
  then have 0: "multi_count name ms = 0" for ms unfolding multi_count_def by (induction ms) simp_all
  obtain v where "submitNewMultiModules E (Some (int (Suc n))) name host ty w = (None, v)"
      "names v = names w @ map (multi_name name) [0 + 1 .. 0 + int (Suc n)]"
    using submit_multi_result [OF 0 [symmetric]] by blast
  moreover have "multi_name name 1 = name @ ''01''"
    using multi_name_nat [of name 1] by (simp add: digit_def)
  moreover have "[1 .. 1 + int n] = 1 # [2 .. 1 + int n]" by (subst upto.simps) simp
  ultimately show ?thesis using assms(2) by (simp add: nth_append)
qed

theorem capital_names_restart_witness:
  "names (snd (submitNewMultiModules flat_env (Some (int (Suc 0))) ''Unit'' None None two_units)) ! 1
     = ''Unit01''"
proof -
  have "toLowerCase ''Unit'' \<noteq> ''Unit''" by code_simp
  from capital_names_restart [OF this refl, where E = flat_env and n = 0 and w = two_units
      and host = None and ty = None]
  show ?thesis using two_units_ok(4) by simp
qed

end
