(* ===== verification/Load.thy ===== *)
theory Load
  imports Dragging Config_File
begin

text \<open>
  Loading the configuration file into the canvas (\<open>drag.js\<close>, \<open>readJSON\<close> and
  \<open>readJSON_helper\<close>): modules at their saved or default positions, connectors, the connections
  between connectors with the same data, and the port counters. The state of the loop is the
  canvas, the variable \<open>moduleID\<close> (which is not reset between components) and the object
  \<open>toConnectObj\<close>.
\<close>

section \<open>The definitions\<close>

text \<open>\<open>toConnectObj[key]\<close>: the arrays of pairs of module ID and \<open>chid\<close>.\<close>

record ends =
  e_snd :: "(nat \<times> string) list option"
  e_rcv :: "(nat \<times> string) list option"

type_synonym toConnect = "(string \<times> ends) list"

type_synonym load_state = "canvas \<times> nat option \<times> toConnect"

text \<open>
  The string two connectors have to share to be connected; \<open>None\<close> where the loop skips the
  connector (port zero, no or unknown transport).
\<close>

definition sender_info :: "obj \<Rightarrow> string option" where
  "sender_info e =
     (if eq_num (obj_get e ''port'') 0 then None
      else if is_tcp (obj_get e ''transport'') then
        Some (String (obj_get e ''type'') @ String (obj_get e ''transport'') @ String (obj_get e ''port''))
      else if is_ipc (obj_get e ''transport'') then
        Some (String (obj_get e ''type'') @ String (obj_get e ''transport'') @ String (obj_get e ''path''))
      else None)"

definition receiver_info :: "obj \<Rightarrow> string option" where
  "receiver_info e =
     (if eq_num (obj_get e ''port'') 0 then None
      else if is_tcp (obj_get e ''transport'') then
        (if length (String (obj_get e ''port'')) \<noteq> 0
         then Some (String (obj_get e ''type'') @ String (obj_get e ''transport'')
                    @ String (obj_get e ''port''))
         else Some ''undefined'')
      else if is_ipc (obj_get e ''transport'') then
        Some (String (obj_get e ''type'') @ String (obj_get e ''transport'') @ String (obj_get e ''path''))
      else None)"

definition push_end :: "side \<Rightarrow> string \<Rightarrow> nat \<times> string \<Rightarrow> toConnect \<Rightarrow> toConnect" where
  "push_end sd key v tc =
     (let e = (case map_of tc key of None \<Rightarrow> \<lparr>e_snd = None, e_rcv = None\<rparr> | Some e \<Rightarrow> e)
      in alist_put key
           (case sd of
              Sender \<Rightarrow> e\<lparr>e_snd := Some (case e_snd e of None \<Rightarrow> [v] | Some vs \<Rightarrow> vs @ [v])\<rparr>
            | Receiver \<Rightarrow> e\<lparr>e_rcv := Some (case e_rcv e of None \<Rightarrow> [v] | Some vs \<Rightarrow> vs @ [v])\<rparr>) tc)"

text \<open>One connector: make its container, then note its end if it has connection data.\<close>

definition load_sender :: "env \<Rightarrow> obj \<Rightarrow> load_state stmt" where
  "load_sender E e = (\<lambda>(s, mid, tc).
     (case mid of
        None \<Rightarrow> (Some TypeError, (s, mid, tc))
      | Some p \<Rightarrow>
          if p < length (moduleArray s) then
            (None, (snd (makeSenderContainerREADINGONLY E p s), mid,
               (case sender_info e of None \<Rightarrow> tc
                | Some key \<Rightarrow> push_end Sender key (p, String (obj_get e ''chid'')) tc)))
          else (Some TypeError, (s, mid, tc))))"

definition load_receiver :: "obj \<Rightarrow> load_state stmt" where
  "load_receiver e = (\<lambda>(s, mid, tc).
     (case mid of
        None \<Rightarrow> (Some TypeError, (s, mid, tc))
      | Some p \<Rightarrow>
          if p < length (moduleArray s) then
            (None, (snd (makeReceiverContainerREADINGONLY p s), mid,
               (case receiver_info e of None \<Rightarrow> tc
                | Some key \<Rightarrow> push_end Receiver key (p, String (obj_get e ''chid'')) tc)))
          else (Some TypeError, (s, mid, tc))))"

text \<open>The ID of the last module with the component's name; unchanged when there is none.\<close>

definition find_module :: "gui_module list \<Rightarrow> component \<Rightarrow> nat option \<Rightarrow> nat option" where
  "find_module ms c mid =
     foldl (\<lambda>acc m. if c_name c = Some (m_name m) then Some (m_ID m) else acc) mid ms"

definition opt_list :: "'a list option \<Rightarrow> 'a list" where
  "opt_list xs = (case xs of None \<Rightarrow> [] | Some ys \<Rightarrow> ys)"

definition load_component :: "env \<Rightarrow> component \<Rightarrow> load_state stmt" where
  "load_component E c =
     andThen (upd (\<lambda>(s, mid, tc). (s, find_module (moduleArray s) c mid, tc)))
       (case c_conns c of
          None \<Rightarrow> skip
        | Some k \<Rightarrow> andThen (forEach (opt_list (snds k)) (load_sender E))
                            (forEach (opt_list (rcvs k)) load_receiver))"

definition connect_all :: "env \<Rightarrow> toConnect \<Rightarrow> canvas stmt" where
  "connect_all E tc = forEach (map snd tc) (\<lambda>e.
     case (e_snd e, e_rcv e) of
       (Some ss, Some rs) \<Rightarrow>
         forEach ss (\<lambda>(ms, is). forEach rs (\<lambda>(mr, ir). connectLines E (nat_str ms) is (nat_str mr) ir))
     | _ \<Rightarrow> skip)"

text \<open>The port loops: the largest integer port, starting from \<open>-1\<close>.\<close>

definition higher :: "json option \<Rightarrow> int \<Rightarrow> int" where
  "higher p h = (case p of Some (JNum i) \<Rightarrow> if i > h then i else h | _ \<Rightarrow> h)"

definition conn_ports :: "component \<Rightarrow> json option list" where
  "conn_ports c = (case c_conns c of None \<Rightarrow> []
     | Some k \<Rightarrow> map (\<lambda>e. obj_get e ''port'') (opt_list (snds k) @ opt_list (rcvs k)))"

definition higher_connection :: "component list \<Rightarrow> int" where
  "higher_connection cs = foldl (\<lambda>h p. higher p h) (-1) (concat (map conn_ports cs))"

definition higher_module :: "component list \<Rightarrow> int" where
  "higher_module cs = foldl (\<lambda>h p. higher p h) (-1) (map c_port cs)"

definition set_port :: "string \<Rightarrow> int \<Rightarrow> canvas stmt" where
  "set_port ty p s = (case portRange ty p (prt s) of
     (Inl e, p') \<Rightarrow> (Some e, s\<lparr>prt := p'\<rparr>) | (Inr _, p') \<Rightarrow> (None, s\<lparr>prt := p'\<rparr>))"

definition readJSON_helper :: "env \<Rightarrow> component list \<Rightarrow> canvas stmt" where
  "readJSON_helper E cs s =
     (case forEach cs (load_component E) (s, None, []) of
        (Some e, (s', _, _)) \<Rightarrow> (Some e, s')
      | (None, (s', _, tc)) \<Rightarrow>
          andThen (connect_all E tc)
            (andThen (set_port ''connection'' (higher_connection cs))
                     (set_port ''module'' (higher_module cs))) s')"

definition default_position :: "nat \<Rightarrow> int \<times> int" where
  "default_position i = (50 + 50 * int i, 75 + 75 * int i)"

definition saved_position :: "(string \<times> int \<times> int) list \<Rightarrow> component \<Rightarrow> (int \<times> int) option" where
  "saved_position ps c = (case c_name c of None \<Rightarrow> None | Some n \<Rightarrow> map_of ps n)"

definition place_modules :: "env \<Rightarrow> (string \<times> int \<times> int) list option \<Rightarrow> component list \<Rightarrow> canvas stmt" where
  "place_modules E positions cs =
     forEach (zip [0..<length cs] cs) (\<lambda>(i, c).
       dragAndDrop E (c_name c) (c_host c) (c_type c) (c_port c)
         (Some (case positions of
             None \<Rightarrow> default_position i
           | Some ps \<Rightarrow>
               (case saved_position ps c of None \<Rightarrow> default_position i | Some xy \<Rightarrow> xy))))"

text \<open>The page load; \<open>positions\<close> is \<open>None\<close> when the request for the position file fails.\<close>

definition readJSON :: "env \<Rightarrow> (string \<times> int \<times> int) list option \<Rightarrow> config \<Rightarrow> canvas stmt" where
  "readJSON E positions cf =
     (case components cf of
        None \<Rightarrow> throw TypeError
      | Some cs \<Rightarrow> andThen (place_modules E positions cs) (readJSON_helper E cs))"

text \<open>The test for an empty port never fails: an empty port counts as zero.\<close>

lemma String_empty_is_zero:
  assumes "String v = ''''"
  shows "eq_num v 0"
proof (cases v)
  case (Some j)
  show ?thesis
  proof (cases j)
    case (JStr x)
    then show ?thesis using assms Some by (simp add: eq_num_def to_number_def trim_def trim_left_def)
  next
    case (JArr x)
    then show ?thesis using assms Some by (simp add: eq_num_def to_number_def trim_def trim_left_def)
  next
    case (JNum x)
    then show ?thesis using assms Some by (simp add: int_str_def split: if_splits)
  qed (use assms Some in \<open>auto split: if_splits\<close>)
qed (use assms in simp)

lemma receiver_info_eq [simp]: "receiver_info = sender_info"
  using String_empty_is_zero by (auto simp: fun_eq_iff receiver_info_def sender_info_def)

end
