(* ===== verification/Load_Props.thy ===== *)
theory Load_Props
  imports Load
begin

text \<open>
  What loading computes. The loops of \<open>readJSON_helper\<close> are reduced to closed forms: every
  module gets the connectors of its component, \<open>toConnectObj\<close> groups the connector ends by
  their connection data, and the connections are the pairs of a group. Then the loaded canvas
  satisfies the invariants of \<open>Connections\<close>, and its edges are described by the file alone.
\<close>

section \<open>Creating the connectors of a component\<close>

definition sends :: "component \<Rightarrow> obj list" where
  "sends c = (case c_conns c of None \<Rightarrow> [] | Some k \<Rightarrow> opt_list (snds k))"

definition recvs :: "component \<Rightarrow> obj list" where
  "recvs c = (case c_conns c of None \<Rightarrow> [] | Some k \<Rightarrow> opt_list (rcvs k))"

definition add_event :: "toConnect \<Rightarrow> side \<times> string \<times> nat \<times> string \<Rightarrow> toConnect" where
  "add_event tc = (\<lambda>(sd, key, v). push_end sd key v tc)"

definition entry_events :: "side \<Rightarrow> nat \<Rightarrow> obj list \<Rightarrow> (side \<times> string \<times> nat \<times> string) list" where
  "entry_events sd k es = concat (map (\<lambda>e. case sender_info e of None \<Rightarrow> []
      | Some key \<Rightarrow> [(sd, key, k, String (obj_get e ''chid''))]) es)"

definition comp_events :: "nat \<Rightarrow> component \<Rightarrow> (side \<times> string \<times> nat \<times> string) list" where
  "comp_events k c = entry_events Sender k (sends c) @ entry_events Receiver k (recvs c)"

definition all_events :: "nat \<Rightarrow> component list \<Rightarrow> (side \<times> string \<times> nat \<times> string) list" where
  "all_events n cs = concat (map (\<lambda>(k, c). comp_events k c) (zip [n..<n + length cs] cs))"

definition full_module :: "env \<Rightarrow> component \<Rightarrow> gui_module \<Rightarrow> gui_module" where
  "full_module E c m = (add_receiver ^^ length (recvs c)) ((add_sender E ^^ length (sends c)) m)"

lemma entry_events_simps [simp]:
  "entry_events sd k [] = []"
  "entry_events sd k (e # es) = (case sender_info e of None \<Rightarrow> []
      | Some key \<Rightarrow> [(sd, key, k, String (obj_get e ''chid''))]) @ entry_events sd k es"
  by (simp_all add: entry_events_def)

lemma upt_len_Cons: "[n..<n + Suc k] = n # [Suc n..<Suc n + k]"
  by (subst upt_rec) simp

lemma all_events_Cons: "all_events n (c # cs) = comp_events n c @ all_events (Suc n) cs"
  using upt_len_Cons [of n "length cs"] by (simp add: all_events_def)

lemma all_events_Nil [simp]: "all_events n [] = []"
  by (simp add: all_events_def)

lemma upd_module_comp:
  "p < length (moduleArray s) \<Longrightarrow> upd_module p f (upd_module p g s) = upd_module p (\<lambda>m. f (g m)) s"
  by (simp add: upd_module_def)

lemma upd_module_id: "upd_module p (\<lambda>m. m) s = s"
  by (simp add: upd_module_def)

lemma load_senders:
  "p < length (moduleArray s) \<Longrightarrow> forEach es (load_sender E) (s, Some p, tc)
     = (None, (upd_module p (add_sender E ^^ length es) s, Some p,
               foldl add_event tc (entry_events Sender p es)))"
proof (induction es arbitrary: s tc)
  case Nil
  then show ?case by (simp add: upd_module_def)
next
  case (Cons e es)
  let ?s = "upd_module p (add_sender E) s"
  have step: "load_sender E e (s, Some p, tc) = (None, (?s, Some p,
      foldl add_event tc (case sender_info e of None \<Rightarrow> []
         | Some key \<Rightarrow> [(Sender, key, p, String (obj_get e ''chid''))])))"
    using Cons.prems
    by (simp add: load_sender_def makeSenderContainerREADINGONLY_def upd_def add_event_def
        split: option.split)
  have "p < length (moduleArray ?s)" using Cons.prems by simp
  from Cons.IH [OF this] show ?case
    using step Cons.prems by (simp add: upd_module_comp funpow_swap1)
qed

lemma load_receivers:
  "p < length (moduleArray s) \<Longrightarrow> forEach es load_receiver (s, Some p, tc)
     = (None, (upd_module p (add_receiver ^^ length es) s, Some p,
               foldl add_event tc (entry_events Receiver p es)))"
proof (induction es arbitrary: s tc)
  case Nil
  then show ?case by (simp add: upd_module_def)
next
  case (Cons e es)
  let ?s = "upd_module p add_receiver s"
  have step: "load_receiver e (s, Some p, tc) = (None, (?s, Some p,
      foldl add_event tc (case sender_info e of None \<Rightarrow> []
         | Some key \<Rightarrow> [(Receiver, key, p, String (obj_get e ''chid''))])))"
    using Cons.prems
    by (simp add: load_receiver_def makeReceiverContainerREADINGONLY_def upd_def add_event_def
        split: option.split)
  have "p < length (moduleArray ?s)" using Cons.prems by simp
  from Cons.IH [OF this] show ?case
    using step Cons.prems by (simp add: upd_module_comp funpow_swap1)
qed

lemma load_component_result:
  assumes "find_module (moduleArray s) c mid = Some p" "p < length (moduleArray s)"
  shows "load_component E c (s, mid, tc)
    = (None, (upd_module p (full_module E c) s, Some p, foldl add_event tc (comp_events p c)))"
proof -
  have eq: "load_component E c (s, mid, tc) =
      andThen (forEach (sends c) (load_sender E)) (forEach (recvs c) load_receiver) (s, Some p, tc)"
    using assms(1)
    by (simp add: load_component_def js_defs sends_def recvs_def split: option.split)
  have "p < length (moduleArray (upd_module p (add_sender E ^^ length (sends c)) s))"
    using assms(2) by simp
  then show ?thesis unfolding eq using assms(2)
    by (simp add: andThen_def load_senders load_receivers upd_module_comp comp_events_def
        full_module_def [abs_def])
qed

text \<open>With distinct names, the module found is the one at the component's own position.\<close>

lemma find_module_distinct:
  assumes "distinct (map m_name ms)" "p < length ms" "c_name c = Some (m_name (ms ! p))"
  shows "find_module ms c mid = Some (m_ID (ms ! p))"
  using assms
proof (induction ms rule: rev_induct)
  case (snoc m ms)
  show ?case
  proof (cases "p = length ms")
    case True
    then show ?thesis using snoc.prems by (simp add: find_module_def)
  next
    case False
    then have p: "p < length ms" using snoc.prems(2) by simp
    then have "m_name m \<noteq> m_name (ms ! p)" using snoc.prems(1) by (auto simp: nth_append)
    then show ?thesis using snoc.IH p snoc.prems by (simp add: find_module_def nth_append)
  qed
qed simp

section \<open>The modules after loading\<close>

text \<open>Fields no connector touches, and the connectors that are added.\<close>

lemma iterate_sender:
  assumes "module_ok m"
  shows "module_ok ((add_sender E ^^ n) m)"
    "senders ((add_sender E ^^ n) m) = senders m @ replicate n []"
    "receivers ((add_sender E ^^ n) m) = receivers m"
    "m_ID ((add_sender E ^^ n) m) = m_ID m" "m_name ((add_sender E ^^ n) m) = m_name m"
  using assms
  by (induction n) (simp_all add: module_ok_add_sender add_sender_fields replicate_append_same)

lemma iterate_receiver:
  assumes "module_ok m"
  shows "module_ok ((add_receiver ^^ n) m)"
    "receivers ((add_receiver ^^ n) m) = receivers m @ replicate n []"
    "senders ((add_receiver ^^ n) m) = senders m"
    "m_ID ((add_receiver ^^ n) m) = m_ID m" "m_name ((add_receiver ^^ n) m) = m_name m"
  using assms
  by (induction n) (simp_all add: module_ok_add_receiver add_receiver_fields replicate_append_same)

lemma add_connector_frame [simp]:
  "m_host (add_sender E m) = m_host m" "m_type (add_sender E m) = m_type m"
  "m_port (add_sender E m) = m_port m" "cont_x (add_sender E m) = cont_x m"
  "cont_y (add_sender E m) = cont_y m"
  "m_host (add_receiver m) = m_host m" "m_type (add_receiver m) = m_type m"
  "m_port (add_receiver m) = m_port m" "cont_x (add_receiver m) = cont_x m"
  "cont_y (add_receiver m) = cont_y m"
  by (simp_all add: add_sender_def add_receiver_def initDrawingSend_def initDrawingReceive_def Let_def)

lemma iterate_frame [simp]:
  "m_host ((add_sender E ^^ n) m) = m_host m" "m_type ((add_sender E ^^ n) m) = m_type m"
  "m_port ((add_sender E ^^ n) m) = m_port m" "cont_x ((add_sender E ^^ n) m) = cont_x m"
  "cont_y ((add_sender E ^^ n) m) = cont_y m"
  "m_host ((add_receiver ^^ n) m) = m_host m" "m_type ((add_receiver ^^ n) m) = m_type m"
  "m_port ((add_receiver ^^ n) m) = m_port m" "cont_x ((add_receiver ^^ n) m) = cont_x m"
  "cont_y ((add_receiver ^^ n) m) = cont_y m"
  by (induction n) simp_all

lemma full_module_props:
  assumes "module_ok m"
  shows "module_ok (full_module E c m)" "m_ID (full_module E c m) = m_ID m"
    "m_name (full_module E c m) = m_name m"
    "senders (full_module E c m) = senders m @ replicate (length (sends c)) []"
    "receivers (full_module E c m) = receivers m @ replicate (length (recvs c)) []"
    "m_host (full_module E c m) = m_host m" "m_type (full_module E c m) = m_type m"
    "m_port (full_module E c m) = m_port m"
    "cont_x (full_module E c m) = cont_x m" "cont_y (full_module E c m) = cont_y m"
  using assms by (simp_all add: full_module_def iterate_sender iterate_receiver)

text \<open>The loop over the components, from the component at position \<open>n\<close> on.\<close>

definition names_match :: "component list \<Rightarrow> gui_module list \<Rightarrow> bool" where
  "names_match cs ms \<longleftrightarrow> list_all2 (\<lambda>c m. c_name c = Some (m_name m)) cs ms"

lemma load_components:
  assumes "canvas_ok s" "moduleArray s = done @ rest" "distinct (map m_name (moduleArray s))"
    and "names_match cs rest"
  shows "\<exists>mid'. forEach cs (load_component E) (s, mid, tc)
     = (None, (s\<lparr>moduleArray := done @ map2 (full_module E) cs rest\<rparr>, mid',
               foldl add_event tc (all_events (length done) cs)))"
  using assms
proof (induction cs arbitrary: s "done" rest mid tc)
  case Nil
  then show ?case by (simp add: names_match_def)
next
  case (Cons c cs)
  let ?n = "length done"
  obtain m rest' where rest: "rest = m # rest'" "c_name c = Some (m_name m)" "names_match cs rest'"
    using Cons.prems(4) by (auto simp: names_match_def list_all2_Cons1)
  have n: "?n < length (moduleArray s)" "moduleArray s ! ?n = m"
    using Cons.prems(2) rest(1) by simp_all
  have ok: "module_ok m" using canvas_ok_nth [OF Cons.prems(1) n(1)] n(2) by simp
  have "find_module (moduleArray s) c mid = Some ?n"
    using find_module_distinct [OF Cons.prems(3) n(1), of c mid] canvas_ok_ID [OF Cons.prems(1) n(1)]
      rest(2) n(2) by simp
  then have step: "load_component E c (s, mid, tc)
      = (None, (upd_module ?n (full_module E c) s, Some ?n, foldl add_event tc (comp_events ?n c)))"
    using n(1) by (rule load_component_result)
  let ?s = "upd_module ?n (full_module E c) s"
  have arr: "moduleArray ?s = (done @ [full_module E c m]) @ rest'"
    using n Cons.prems(2) rest(1) by simp
  have "canvas_ok ?s"
    using canvas_ok_upd_module [OF Cons.prems(1) n(1), of "full_module E c"] n(2) ok
    by (simp add: full_module_props)
  moreover have "distinct (map m_name (moduleArray ?s))"
    using Cons.prems(2,3) rest(1) ok by (simp add: arr full_module_props)
  ultimately obtain mid' where
    "forEach cs (load_component E) (?s, Some ?n, foldl add_event tc (comp_events ?n c))
       = (None, (?s\<lparr>moduleArray := (done @ [full_module E c m]) @ map2 (full_module E) cs rest'\<rparr>, mid',
            foldl add_event (foldl add_event tc (comp_events ?n c)) (all_events (Suc ?n) cs)))"
    using Cons.IH [of ?s "done @ [full_module E c m]" rest' "Some ?n"
        "foldl add_event tc (comp_events ?n c)"] arr rest(3) by auto
  then show ?case using step rest(1) by (auto simp: all_events_Cons upd_module_def)
qed

section \<open>Placing the modules\<close>

definition initial_module ::
  "env \<Rightarrow> (string \<times> int \<times> int) list option \<Rightarrow> nat \<times> component \<Rightarrow> gui_module \<Rightarrow> bool" where
  "initial_module E ps = (\<lambda>(i, c) m.
     m_name m = (case c_name c of None \<Rightarrow> nat_str i | Some n \<Rightarrow> n)
     \<and> m_host m = String (c_host c) \<and> m_type m = String (c_type c)
     \<and> (c_port c \<noteq> None \<and> c_port c \<noteq> Some JNull \<longrightarrow> m_port m = the (c_port c))
     \<and> (cont_x m, cont_y m) = (case ps of None \<Rightarrow> default_position i
         | Some q \<Rightarrow> (case saved_position q c of None \<Rightarrow> default_position i | Some xy \<Rightarrow> xy))
     \<and> senders m = [] \<and> receivers m = [])"

lemma place_loop:
  assumes "canvas_ok s" "map fst xs = [length (moduleArray s)..<length (moduleArray s) + length xs]"
  shows "\<exists>t ms. forEach xs (\<lambda>(i, c). dragAndDrop E (c_name c) (c_host c) (c_type c) (c_port c)
           (Some (case ps of None \<Rightarrow> default_position i
              | Some q \<Rightarrow> (case saved_position q c of None \<Rightarrow> default_position i | Some xy \<Rightarrow> xy)))) s
       = (None, t)
     \<and> canvas_ok t \<and> moduleArray t = moduleArray s @ ms \<and> list_all2 (initial_module E ps) xs ms
     \<and> overallConnections t = overallConnections s \<and> shapes t = shapes s
     \<and> conn_lines t = conn_lines s \<and> PORTCONNECTION (prt t) = PORTCONNECTION (prt s)"
  using assms
proof (induction xs arbitrary: s)
  case Nil
  then show ?case by simp
next
  case (Cons x xs)
  obtain i c where x: "x = (i, c)" by (cases x)
  let ?pos = "case ps of None \<Rightarrow> default_position i
      | Some q \<Rightarrow> (case saved_position q c of None \<Rightarrow> default_position i | Some xy \<Rightarrow> xy)"
  obtain t where t: "dragAndDrop E (c_name c) (c_host c) (c_type c) (c_port c) (Some ?pos) s = (None, t)"
    by (simp add: dragAndDrop_result)
  have tail: "i = length (moduleArray s)"
    "map fst xs = [Suc (length (moduleArray s))..<Suc (length (moduleArray s)) + length xs]"
    using Cons.prems(2) upt_len_Cons [of "length (moduleArray s)" "length xs"] by (simp_all add: x)
  then have i: "i = length (moduleArray s)" "i = moduleID s"
    using Cons.prems(1) by (simp_all add: canvas_ok_def ids_ok_def)
  obtain m where m: "moduleArray t = moduleArray s @ [m]" "initial_module E ps x m"
    using t i(2) by (auto simp: dragAndDrop_result initial_module_def x)
  have "canvas_ok t" using canvas_ok_dragAndDrop [OF Cons.prems(1)] t by (metis snd_conv)
  moreover have "map fst xs = [length (moduleArray t)..<length (moduleArray t) + length xs]"
    using tail(2) m(1) by simp
  ultimately obtain u ms where u: "forEach xs (\<lambda>(i, c). dragAndDrop E (c_name c) (c_host c) (c_type c)
        (c_port c) (Some (case ps of None \<Rightarrow> default_position i
          | Some q \<Rightarrow> (case saved_position q c of None \<Rightarrow> default_position i | Some xy \<Rightarrow> xy)))) t = (None, u)"
    "canvas_ok u" "moduleArray u = moduleArray t @ ms" "list_all2 (initial_module E ps) xs ms"
    "overallConnections u = overallConnections t" "shapes u = shapes t"
    "conn_lines u = conn_lines t" "PORTCONNECTION (prt u) = PORTCONNECTION (prt t)"
    using Cons.IH [of t] by blast
  have "overallConnections t = overallConnections s" "shapes t = shapes s"
    "conn_lines t = conn_lines s" "PORTCONNECTION (prt t) = PORTCONNECTION (prt s)"
    using t by (auto simp: dragAndDrop_result conn_lines_def)
  then show ?case using t u m by (auto simp: x)
qed

section \<open>Grouping the connector ends\<close>

definition side_of :: "side \<Rightarrow> ends \<Rightarrow> (nat \<times> string) list" where
  "side_of sd e = opt_list (case sd of Sender \<Rightarrow> e_snd e | Receiver \<Rightarrow> e_rcv e)"

definition group :: "side \<Rightarrow> toConnect \<Rightarrow> string \<Rightarrow> (nat \<times> string) list" where
  "group sd tc key = (case map_of tc key of None \<Rightarrow> [] | Some e \<Rightarrow> side_of sd e)"

definition events_of :: "side \<Rightarrow> string \<Rightarrow> (side \<times> string \<times> nat \<times> string) list \<Rightarrow> (nat \<times> string) list" where
  "events_of sd key L = map (\<lambda>(_, _, v). v) (filter (\<lambda>(sd', key', _). sd' = sd \<and> key' = key) L)"

lemma group_push:
  "group sd (push_end sd' key' v tc) key
     = group sd tc key @ (if sd' = sd \<and> key' = key then [v] else [])"
  by (cases sd; cases sd')
    (auto simp: group_def push_end_def side_of_def opt_list_def Let_def split: option.splits)

lemma group_events: "group sd (foldl add_event tc L) key = group sd tc key @ events_of sd key L"
proof (induction L arbitrary: tc)
  case Nil
  then show ?case by (simp add: events_of_def)
next
  case (Cons x L)
  obtain sd' key' v where "x = (sd', key', v)" by (cases x)
  then show ?case using Cons by (simp add: add_event_def group_push events_of_def)
qed

lemma keys_events: "distinct (map fst tc) \<Longrightarrow> distinct (map fst (foldl add_event tc L))"
proof (induction L arbitrary: tc)
  case (Cons x L)
  obtain sd key v where "x = (sd, key, v)" by (cases x)
  then show ?case using Cons by (simp add: add_event_def push_end_def Let_def distinct_keys_put)
qed simp

text \<open>The pairs of ends the nested loops connect, in their order.\<close>

definition pairs :: "toConnect \<Rightarrow> ((nat \<times> string) \<times> (nat \<times> string)) list" where
  "pairs tc = concat (map (\<lambda>(_, e). List.product (side_of Sender e) (side_of Receiver e)) tc)"

definition connect_pair :: "env \<Rightarrow> (nat \<times> string) \<times> (nat \<times> string) \<Rightarrow> canvas stmt" where
  "connect_pair E = (\<lambda>((m, i), (r, j)). connectLines E (nat_str m) i (nat_str r) j)"

lemma forEach_map: "forEach (map g xs) f s = forEach xs (\<lambda>x. f (g x)) s"
  by (induction xs arbitrary: s) (auto split: prod.splits option.splits)

lemma forEach_concat: "forEach (concat xss) f s = forEach xss (\<lambda>xs. forEach xs f) s"
  by (induction xss arbitrary: s) (auto simp: forEach_append split: prod.splits option.splits)

lemma forEach_cong:
  "(\<And>x t. x \<in> set xs \<Longrightarrow> f x t = g x t) \<Longrightarrow> forEach xs f s = forEach xs g s"
  by (induction xs arbitrary: s) (auto split: prod.splits option.splits)

lemma forEach_product:
  "forEach (List.product xs ys) (\<lambda>(x, y). f x y) s = forEach xs (\<lambda>x. forEach ys (f x)) s"
  by (induction xs arbitrary: s)
    (auto simp: forEach_append forEach_map split: prod.splits option.splits)

lemma forEach_Nil_skip: "forEach [] f = skip"
  by (simp add: fun_eq_iff skip_def)

lemma forEach_skip: "forEach xs (\<lambda>x. skip) s = (None, s)"
  by (induction xs) (auto simp: skip_def)

lemma connect_all_pairs: "connect_all E tc s = forEach (pairs tc) (connect_pair E) s"
proof -
  have body: "(case (e_snd e, e_rcv e) of
       (Some ss, Some rs) \<Rightarrow>
         forEach ss (\<lambda>(ms, is). forEach rs (\<lambda>(mr, ir). connectLines E (nat_str ms) is (nat_str mr) ir))
     | _ \<Rightarrow> skip) t
     = forEach (List.product (side_of Sender e) (side_of Receiver e)) (connect_pair E) t" for e t
  proof -
    have p: "connect_pair E = (\<lambda>(x, y). connect_pair E (x, y))" by (simp add: fun_eq_iff)
    have "forEach (List.product (side_of Sender e) (side_of Receiver e)) (connect_pair E) t
       = forEach (side_of Sender e) (\<lambda>x. forEach (side_of Receiver e) (\<lambda>y. connect_pair E (x, y))) t"
      by (subst p) (rule forEach_product)
    then show ?thesis
      by (cases "e_snd e"; cases "e_rcv e")
        (simp_all add: side_of_def opt_list_def forEach_Nil_skip forEach_skip connect_pair_def
          case_prod_beta' skip_def del: forEach.simps(1))
  qed
  have "connect_all E tc s
     = forEach (map snd tc) (\<lambda>e. forEach (List.product (side_of Sender e) (side_of Receiver e)) (connect_pair E)) s"
    unfolding connect_all_def by (rule forEach_cong) (rule body)
  then show ?thesis by (simp add: pairs_def forEach_concat forEach_map case_prod_beta')
qed

section \<open>Connecting a list of edges\<close>

definition quad_pair :: "nat \<times> nat \<times> nat \<times> nat \<Rightarrow> (nat \<times> string) \<times> (nat \<times> string)" where
  "quad_pair = (\<lambda>(m, i, r, j). ((m, nat_str i), (r, nat_str j)))"

lemma quad_pair_inject [simp]: "quad_pair e = quad_pair e' \<longleftrightarrow> e = e'"
  by (cases e; cases e') (simp add: quad_pair_def)

definition same_modules :: "canvas \<Rightarrow> canvas \<Rightarrow> bool" where
  "same_modules s t \<longleftrightarrow> length (moduleArray t) = length (moduleArray s) \<and> prt t = prt s
     \<and> (\<forall>k < length (moduleArray s). strip (moduleArray t ! k) = strip (moduleArray s ! k)
          \<and> length (senders (moduleArray t ! k)) = length (senders (moduleArray s ! k))
          \<and> length (receivers (moduleArray t ! k)) = length (receivers (moduleArray s ! k)))"

lemma same_modules_refl: "same_modules s s"
  by (simp add: same_modules_def)

lemma same_modules_trans: "same_modules s t \<Longrightarrow> same_modules t u \<Longrightarrow> same_modules s u"
  by (simp add: same_modules_def)

lemma same_modules_connect:
  assumes "canvas_ok s" "slots_exist (moduleArray s) (m, i, r, j)"
  shows "same_modules s (snd (connectLines E (nat_str m) (nat_str i) (nat_str r) (nat_str j) s))"
  unfolding same_modules_def connectLines_result [OF assms]
  using edit_ends_props [OF assms(2)] edit_ends_nth_fields(6,7) [OF assms(2)]
  by (simp add: strip_def)

lemma slots_same_modules: "same_modules s t \<Longrightarrow> slots_exist (moduleArray t) e = slots_exist (moduleArray s) e"
  by (cases e) (auto simp: same_modules_def slots_exist_def)

lemma connect_quads:
  assumes "graph_ok s" "lines_drawn E s" "distinct es" "set es \<inter> edges s = {}"
    and "\<forall>e \<in> set es. slots_exist (moduleArray s) e"
  shows "\<exists>t. forEach (map quad_pair es) (connect_pair E) s = (None, t) \<and> graph_ok t \<and> lines_drawn E t
     \<and> edges t = edges s \<union> set es \<and> same_modules s t"
  using assms
proof (induction es arbitrary: s)
  case Nil
  then show ?case by (simp add: same_modules_refl)
next
  case (Cons e es)
  obtain m i r j where e: "e = (m, i, r, j)" by (cases e)
  let ?t = "snd (connectLines E (nat_str m) (nat_str i) (nat_str r) (nat_str j) s)"
  have sl: "slots_exist (moduleArray s) (m, i, r, j)" and new: "(m, i, r, j) \<notin> edges s"
    using Cons.prems e by auto
  have ok: "canvas_ok s" using Cons.prems(1) by (simp add: graph_ok_def)
  have step: "connect_pair E (quad_pair e) s = (None, ?t)"
    using connectLines_result [OF ok sl] by (simp add: connect_pair_def quad_pair_def e)
  note g = graph_ok_connect [OF Cons.prems(1) sl new refl, of E]
  have sm: "same_modules s ?t" by (rule same_modules_connect [OF ok sl])
  have "\<exists>u. forEach (map quad_pair es) (connect_pair E) ?t = (None, u) \<and> graph_ok u \<and> lines_drawn E u
     \<and> edges u = edges ?t \<union> set es \<and> same_modules ?t u"
  proof (rule Cons.IH)
    show "lines_drawn E ?t" by (rule lines_drawn_connect [OF Cons.prems(1,2) sl new refl])
    show "set es \<inter> edges ?t = {}" using Cons.prems(3,4) g(2) e by auto
    show "\<forall>e \<in> set es. slots_exist (moduleArray ?t) e"
      using Cons.prems(5) slots_same_modules [OF sm] by simp
  qed (use Cons.prems g(1) in auto)
  then show ?case using step g(2) sm e by (auto intro: same_modules_trans)
qed

end
