(* ===== verification/Load_Graph.thy ===== *)
theory Load_Graph
  imports Load_Props
begin

text \<open>
  The graph a loaded file has. The connections \<open>readJSON\<close> draws are described by the file
  alone: one for each pair of a sender entry and a receiver entry with the same connection
  data. The port counters after loading are above every connection port of the file.
\<close>

section \<open>Well-formed files and their edges\<close>

definition chid_of :: "obj \<Rightarrow> nat option" where
  "chid_of e = (case obj_get e ''chid'' of
     Some (JNum i) \<Rightarrow> if 0 \<le> i then Some (nat i) else None | _ \<Rightarrow> None)"

definition chids_ok :: "obj list \<Rightarrow> bool" where
  "chids_ok es \<longleftrightarrow> list_all (\<lambda>e. case chid_of e of None \<Rightarrow> False | Some k \<Rightarrow> k < length es) es
     \<and> distinct (map chid_of es)"

definition file_ok :: "component list \<Rightarrow> bool" where
  "file_ok cs \<longleftrightarrow> None \<notin> set (map c_name cs) \<and> distinct (map c_name cs)
     \<and> list_all (\<lambda>c. chids_ok (sends c) \<and> chids_ok (recvs c)) cs"

definition side_list :: "side \<Rightarrow> component \<Rightarrow> obj list" where
  "side_list sd c = (case sd of Sender \<Rightarrow> sends c | Receiver \<Rightarrow> recvs c)"

definition file_edges :: "component list \<Rightarrow> (nat \<times> nat \<times> nat \<times> nat) set" where
  "file_edges cs = {(m, i, r, j). m < length cs \<and> r < length cs
     \<and> (\<exists>e \<in> set (sends (cs ! m)). \<exists>e' \<in> set (recvs (cs ! r)).
          chid_of e = Some i \<and> chid_of e' = Some j
          \<and> sender_info e \<noteq> None \<and> sender_info e = receiver_info e')}"

text \<open>The connector \<open>i\<close> of component \<open>k\<close> has connection data \<open>key\<close>.\<close>

definition live :: "side \<Rightarrow> component list \<Rightarrow> nat \<Rightarrow> string \<Rightarrow> nat \<Rightarrow> bool" where
  "live sd cs k key i \<longleftrightarrow> k < length cs
     \<and> (\<exists>e \<in> set (side_list sd (cs ! k)). chid_of e = Some i \<and> sender_info e = Some key)"

lemma file_edges_live:
  "(m, i, r, j) \<in> file_edges cs \<longleftrightarrow> (\<exists>key. live Sender cs m key i \<and> live Receiver cs r key j)"
proof -
  have eq: "a \<noteq> None \<and> a = b \<longleftrightarrow> (\<exists>key. a = Some key \<and> b = Some key)" for a b :: "string option"
    by (cases a) auto
  show ?thesis
    unfolding file_edges_def live_def side_list_def side.case receiver_info_eq mem_Collect_eq
      prod.case eq by blast
qed

lemma String_chid: "chid_of e = Some k \<Longrightarrow> String (obj_get e ''chid'') = nat_str k"
  by (auto simp: chid_of_def int_str_def split: option.splits json.splits if_splits)

lemma chids_okD:
  assumes "chids_ok es" "e \<in> set es"
  obtains k where "chid_of e = Some k" "k < length es" "String (obj_get e ''chid'') = nat_str k"
  using assms String_chid by (fastforce simp: chids_ok_def list_all_iff split: option.splits)

lemma chids_ok_side: "file_ok cs \<Longrightarrow> k < length cs \<Longrightarrow> chids_ok (side_list sd (cs ! k))"
  by (cases sd) (auto simp: file_ok_def list_all_iff side_list_def)

section \<open>The connector ends collected from the file\<close>

lemma entry_events_iff:
  "(sd, key, v) \<in> set (entry_events sd' k es) \<longleftrightarrow>
     sd = sd' \<and> (\<exists>e \<in> set es. sender_info e = Some key \<and> v = (k, String (obj_get e ''chid'')))"
  by (induction es) (auto split: option.splits)

lemma comp_events_iff:
  "(sd, key, v) \<in> set (comp_events k c) \<longleftrightarrow>
     (\<exists>e \<in> set (side_list sd c). sender_info e = Some key \<and> v = (k, String (obj_get e ''chid'')))"
  by (cases sd) (auto simp: comp_events_def entry_events_iff side_list_def)

lemma all_events_iff:
  "(sd, key, v) \<in> set (all_events n cs) \<longleftrightarrow>
     (\<exists>k < length cs. (sd, key, v) \<in> set (comp_events (n + k) (cs ! k)))"
proof (induction cs arbitrary: n)
  case (Cons c cs)
  have "(\<exists>k < Suc l. P k) \<longleftrightarrow> P 0 \<or> (\<exists>k < l. P (Suc k))" for P and l :: nat
    by (metis less_Suc_eq_0_disj)
  then show ?case using Cons [of "Suc n"] by (simp add: all_events_Cons)
qed simp

definition forget :: "side \<times> string \<times> nat \<times> string \<Rightarrow> side \<times> nat \<times> string" where
  "forget = (\<lambda>(sd, _, v). (sd, v))"

lemma distinct_entry_events:
  assumes "distinct (map chid_of es)" "\<forall>e \<in> set es. \<exists>k. chid_of e = Some k"
  shows "distinct (map forget (entry_events sd k es))"
  using assms
proof (induction es)
  case (Cons e es)
  then have IH: "distinct (map forget (entry_events sd k es))" by simp
  show ?case
  proof (cases "sender_info e")
    case (Some key)
    have "forget (sd, key, k, String (obj_get e ''chid'')) \<notin> forget ` set (entry_events sd k es)"
    proof
      assume "forget (sd, key, k, String (obj_get e ''chid'')) \<in> forget ` set (entry_events sd k es)"
      then obtain key' where "(sd, key', k, String (obj_get e ''chid'')) \<in> set (entry_events sd k es)"
        by (auto simp: forget_def)
      then obtain e' where e': "e' \<in> set es" "String (obj_get e ''chid'') = String (obj_get e' ''chid'')"
        by (auto simp: entry_events_iff)
      obtain a b where "chid_of e = Some a" "chid_of e' = Some b" using Cons.prems(2) e'(1) by auto
      then have "chid_of e = chid_of e'" using e'(2) by (simp add: String_chid)
      then show False using Cons.prems(1) e'(1) by auto
    qed
    then show ?thesis using IH Some by simp
  qed (use IH in simp)
qed (simp add: entry_events_def)

lemma distinct_all_events:
  assumes "list_all (\<lambda>c. chids_ok (sends c) \<and> chids_ok (recvs c)) cs"
  shows "distinct (map forget (all_events n cs))"
  using assms
proof (induction cs arbitrary: n)
  case (Cons c cs)
  have d: "distinct (map forget (entry_events sd n es))" if "chids_ok es" for sd es
    using that by (intro distinct_entry_events)
      (auto simp: chids_ok_def list_all_iff split: option.splits)
  have "distinct (map forget (comp_events n c))"
    using Cons.prems d by (auto simp: comp_events_def forget_def entry_events_iff)
  moreover have "distinct (map forget (all_events (Suc n) cs))" using Cons by simp
  moreover have "set (map forget (comp_events n c)) \<inter> set (map forget (all_events (Suc n) cs)) = {}"
  proof -
    have "fst (snd x) = n" if "x \<in> set (map forget (comp_events n c))" for x
      using that by (auto simp: comp_events_iff forget_def)
    moreover have "fst (snd x) \<noteq> n" if "x \<in> set (map forget (all_events (Suc n) cs))" for x
      using that by (auto simp: all_events_iff comp_events_iff forget_def)
    ultimately show ?thesis by blast
  qed
  ultimately show ?case unfolding all_events_Cons map_append distinct_append by blast
qed simp

text \<open>An end is collected under one key only, and once.\<close>

lemma distinct_events_of: "distinct (map forget L) \<Longrightarrow> distinct (events_of sd key L)"
proof (induction L)
  case (Cons x L)
  obtain sd' key' v where "x = (sd', key', v)" by (cases x)
  then show ?case using Cons by (auto simp: events_of_def forget_def image_iff split: if_splits)
qed (simp add: events_of_def)

lemma events_of_iff: "v \<in> set (events_of sd key L) \<longleftrightarrow> (sd, key, v) \<in> set L"
  by (force simp: events_of_def)

lemma forget_key:
  assumes "distinct (map forget L)" "(sd, key, v) \<in> set L" "(sd, key', v) \<in> set L"
  shows "key = key'"
proof -
  have "inj_on forget (set L)" using assms(1) by (simp add: distinct_map)
  moreover have "forget (sd, key, v) = forget (sd, key', v)" by (simp add: forget_def)
  ultimately show ?thesis using assms(2,3) by (metis inj_onD prod.inject)
qed

section \<open>The pairs that are connected\<close>

lemma pairs_iff:
  assumes "distinct (map fst tc)"
  shows "(x, y) \<in> set (pairs tc) \<longleftrightarrow>
    (\<exists>key. x \<in> set (group Sender tc key) \<and> y \<in> set (group Receiver tc key))"
proof -
  have grp: "v \<in> set (group sd tc key) \<longleftrightarrow> (\<exists>e. (key, e) \<in> set tc \<and> v \<in> set (side_of sd e))"
    for v sd key
    unfolding map_of_eq_Some_iff [OF assms, symmetric]
    by (cases "map_of tc key") (simp_all add: group_def)
  have "(x, y) \<in> set (pairs tc) \<longleftrightarrow>
      (\<exists>key e. (key, e) \<in> set tc \<and> x \<in> set (side_of Sender e) \<and> y \<in> set (side_of Receiver e))"
    by (cases x, cases y) (auto simp: pairs_def)
  then show ?thesis unfolding grp using assms by (metis eq_key_imp_eq_value)
qed

lemma distinct_pairs:
  assumes "distinct (map fst tc)"
    and "\<And>sd key. distinct (group sd tc key)"
    and "\<And>sd key key' v. v \<in> set (group sd tc key) \<Longrightarrow> v \<in> set (group sd tc key') \<Longrightarrow> key = key'"
  shows "distinct (pairs tc)"
proof -
  have g: "group sd tc key = side_of sd e" if "(key, e) \<in> set tc" for sd key e
    using that assms(1) by (simp add: group_def)
  have "distinct (pairs ps)" if "set ps \<subseteq> set tc" "distinct (map fst ps)" for ps
    using that
  proof (induction ps)
    case (Cons p ps)
    obtain key e where p: "p = (key, e)" by (cases p)
    have d: "distinct (List.product (side_of Sender e) (side_of Receiver e))"
      using Cons.prems(1) g assms(2) by (metis distinct_product list.set_intros(1) p subset_iff)
    have "x \<notin> set (side_of Sender e)" if "(x, y) \<in> set (pairs ps)" for x y
    proof
      assume x: "x \<in> set (side_of Sender e)"
      obtain key' e' where e': "(key', e') \<in> set ps" "x \<in> set (side_of Sender e')"
        using \<open>(x, y) \<in> set (pairs ps)\<close> by (auto simp: pairs_def)
      then have "key = key'" using x g [of key e Sender] g [of key' e' Sender] assms(3) Cons.prems(1) p
        by (metis list.set_intros(1,2) subset_iff)
      then show False using e' Cons.prems(2) p by (auto simp: image_iff)
    qed
    then have "set (List.product (side_of Sender e) (side_of Receiver e)) \<inter> set (pairs ps) = {}"
      by auto
    moreover have "distinct (pairs ps)" using Cons by simp
    moreover have "pairs (p # ps) = List.product (side_of Sender e) (side_of Receiver e) @ pairs ps"
      by (simp add: pairs_def p)
    ultimately show ?case using d by (simp add: distinct_append)
  qed (simp add: pairs_def)
  then show ?thesis using assms(1) by blast
qed

text \<open>For a well-formed file the pairs are the edges of the file, each once.\<close>

lemma file_pairs:
  assumes "file_ok cs"
  obtains qs where "pairs (foldl add_event [] (all_events 0 cs)) = map quad_pair qs"
    "distinct qs" "set qs = file_edges cs"
proof -
  let ?L = "all_events 0 cs" let ?tc = "foldl add_event [] ?L"
  have dL: "distinct (map forget ?L)"
    using assms by (intro distinct_all_events) (simp add: file_ok_def)
  have dk: "distinct (map fst ?tc)" by (rule keys_events) simp
  have grp: "group sd ?tc key = events_of sd key ?L" for sd key
    using group_events [of sd "[]" ?L key] by (simp add: group_def)
  have end_iff: "v \<in> set (group sd ?tc key) \<longleftrightarrow> (\<exists>k < length cs. \<exists>e \<in> set (side_list sd (cs ! k)).
      sender_info e = Some key \<and> v = (k, String (obj_get e ''chid'')))" for v sd key
    by (simp add: grp events_of_iff all_events_iff comp_events_iff)
  have mem: "(x, y) \<in> set (pairs ?tc) \<longleftrightarrow> (\<exists>q \<in> file_edges cs. (x, y) = quad_pair q)" for x y
  proof
    assume "(x, y) \<in> set (pairs ?tc)"
    then obtain key m e r e' where w: "m < length cs" "e \<in> set (side_list Sender (cs ! m))"
      "sender_info e = Some key" "x = (m, String (obj_get e ''chid''))"
      "r < length cs" "e' \<in> set (side_list Receiver (cs ! r))"
      "sender_info e' = Some key" "y = (r, String (obj_get e' ''chid''))"
      unfolding pairs_iff [OF dk] end_iff by blast
    obtain i where i: "chid_of e = Some i" "String (obj_get e ''chid'') = nat_str i"
      using chids_okD [OF chids_ok_side [OF assms w(1)] w(2)] by blast
    obtain j where j: "chid_of e' = Some j" "String (obj_get e' ''chid'') = nat_str j"
      using chids_okD [OF chids_ok_side [OF assms w(5)] w(6)] by blast
    have "e \<in> set (sends (cs ! m))" "e' \<in> set (recvs (cs ! r))" "sender_info e = sender_info e'"
      "sender_info e \<noteq> None"
      using w by (simp_all add: side_list_def)
    then have "(m, i, r, j) \<in> file_edges cs"
      using w(1,5) i(1) j(1) unfolding file_edges_def receiver_info_eq by blast
    moreover have "(x, y) = quad_pair (m, i, r, j)" using w i(2) j(2) by (simp add: quad_pair_def)
    ultimately show "\<exists>q \<in> file_edges cs. (x, y) = quad_pair q" by blast
  next
    assume "\<exists>q \<in> file_edges cs. (x, y) = quad_pair q"
    then obtain m i r j e e' where w: "m < length cs" "r < length cs" "e \<in> set (sends (cs ! m))"
      "e' \<in> set (recvs (cs ! r))" "chid_of e = Some i" "chid_of e' = Some j"
      "sender_info e \<noteq> None" "sender_info e = sender_info e'"
      "x = (m, nat_str i)" "y = (r, nat_str j)"
      unfolding file_edges_def quad_pair_def receiver_info_eq by force
    obtain key where key: "sender_info e = Some key" using w(7) by auto
    have xy: "x = (m, String (obj_get e ''chid''))" "y = (r, String (obj_get e' ''chid''))"
      "sender_info e' = Some key" using w key by (simp_all add: String_chid)
    have "x \<in> set (group Sender ?tc key)" unfolding end_iff side_list_def side.case
      using w(1,3) key xy(1) by blast
    moreover have "y \<in> set (group Receiver ?tc key)" unfolding end_iff side_list_def side.case
      using w(2,4) xy(2,3) by blast
    ultimately show "(x, y) \<in> set (pairs ?tc)" unfolding pairs_iff [OF dk] by blast
  qed
  then have "\<forall>p \<in> set (pairs ?tc). \<exists>q. p = quad_pair q" by auto
  then obtain qs where qs: "pairs ?tc = map quad_pair qs"
    using ex_map_conv [of "pairs ?tc" quad_pair] by blast
  have "distinct (pairs ?tc)"
  proof (rule distinct_pairs [OF dk])
    show "distinct (group sd ?tc key)" for sd key
      unfolding grp by (rule distinct_events_of [OF dL])
    show "key = key'" if "v \<in> set (group sd ?tc key)" "v \<in> set (group sd ?tc key')" for sd key key' v
      using that unfolding grp events_of_iff by (rule forget_key [OF dL])
  qed
  then have "distinct qs" using qs by (simp add: distinct_map)
  moreover have "set qs = file_edges cs"
  proof (rule set_eqI)
    fix q
    have "q \<in> set qs \<longleftrightarrow> quad_pair q \<in> set (pairs ?tc)" by (auto simp: qs)
    also have "\<dots> \<longleftrightarrow> q \<in> file_edges cs" using mem [of "fst (quad_pair q)" "snd (quad_pair q)"] by auto
    finally show "q \<in> set qs \<longleftrightarrow> q \<in> file_edges cs" .
  qed
  ultimately show thesis using qs that by blast
qed

section \<open>Loading a file\<close>

text \<open>What the file says of the module at a position, connectors aside.\<close>

definition module_from_file ::
  "(string \<times> int \<times> int) list option \<Rightarrow> component list \<Rightarrow> nat \<Rightarrow> gui_module \<Rightarrow> bool" where
  "module_from_file ps cs k m \<longleftrightarrow>
     c_name (cs ! k) = Some (m_name m) \<and> m_host m = String (c_host (cs ! k))
     \<and> m_type m = String (c_type (cs ! k))
     \<and> (c_port (cs ! k) \<noteq> None \<and> c_port (cs ! k) \<noteq> Some JNull \<longrightarrow> m_port m = the (c_port (cs ! k)))
     \<and> (cont_x m, cont_y m) = (case ps of None \<Rightarrow> default_position k
         | Some q \<Rightarrow> (case saved_position q (cs ! k) of None \<Rightarrow> default_position k | Some xy \<Rightarrow> xy))
     \<and> length (senders m) = length (sends (cs ! k)) \<and> length (receivers m) = length (recvs (cs ! k))"

lemma set_port_result:
  "set_port ''connection'' h s = (None, s\<lparr>prt := snd (portRange ''connection'' h (prt s))\<rparr>)"
  "set_port ''module'' h s = (None, s\<lparr>prt := snd (portRange ''module'' h (prt s))\<rparr>)"
  by (cases "h = -1"; simp add: set_port_def)+

lemma graph_ok_prt [simp]: "graph_ok (s\<lparr>prt := p\<rparr>) = graph_ok s"
  by (simp add: graph_ok_def canvas_ok_def ids_ok_def names_ok_def lists_ok_def lines_ok_def
      sender_list_def receiver_list_def edges_def)

lemma edges_prt [simp]: "edges (s\<lparr>prt := p\<rparr>) = edges s"
  by (simp add: edges_def)

lemma lines_drawn_prt [simp]: "lines_drawn E (s\<lparr>prt := p\<rparr>) = lines_drawn E s"
  by (simp add: lines_drawn_def)

lemma same_modules_module_from_file:
  assumes "same_modules s t" "k < length (moduleArray s)" "module_from_file ps cs k (moduleArray s ! k)"
  shows "module_from_file ps cs k (moduleArray t ! k)"
proof -
  have "strip (moduleArray t ! k) = strip (moduleArray s ! k)"
    "length (senders (moduleArray t ! k)) = length (senders (moduleArray s ! k))"
    "length (receivers (moduleArray t ! k)) = length (receivers (moduleArray s ! k))"
    using assms(1,2) by (simp_all add: same_modules_def)
  note f = strip_fields [OF this(1)] this(2,3)
  show ?thesis using assms(3) unfolding module_from_file_def f .
qed

text \<open>The largest port found by the loops.\<close>

lemma higher_foldl:
  "h \<le> foldl (\<lambda>h p. higher p h) h xs
   \<and> (\<forall>i. Some (JNum i) \<in> set xs \<longrightarrow> i \<le> foldl (\<lambda>h p. higher p h) h xs)"
proof (induction xs arbitrary: h)
  case (Cons x xs)
  have "h \<le> higher x h" by (simp add: higher_def split: option.split json.split)
  moreover have "i \<le> higher x h" if "x = Some (JNum i)" for i using that by (simp add: higher_def)
  ultimately show ?case using Cons [of "higher x h"] by (auto intro: order_trans)
qed simp

lemma set_port_above:
  assumes "0 \<le> i" "i \<le> h"
  shows "i < PORTCONNECTION (snd (portRange ''connection'' h p))"
    "i < PORTMODULE (snd (portRange ''module'' h p))"
  using assms by (cases "h = -1"; simp)+

section \<open>Loading a well-formed file\<close>

lemma file_edges_slots:
  assumes "file_ok cs" "e \<in> file_edges cs"
    and "length ms = length cs" "\<forall>k < length cs. length (senders (ms ! k)) = length (sends (cs ! k))
           \<and> length (receivers (ms ! k)) = length (recvs (cs ! k))"
  shows "slots_exist ms e"
proof -
  obtain m i r j a b where e: "e = (m, i, r, j)" "m < length cs" "r < length cs"
    "a \<in> set (sends (cs ! m))" "b \<in> set (recvs (cs ! r))" "chid_of a = Some i" "chid_of b = Some j"
    using assms(2) unfolding file_edges_def by blast
  have "i < length (sends (cs ! m))" "j < length (recvs (cs ! r))"
    using chids_okD [of "sends (cs ! m)" a] chids_okD [of "recvs (cs ! r)" b] e(4-7)
      chids_ok_side [OF assms(1) e(2), of Sender] chids_ok_side [OF assms(1) e(3), of Receiver]
    by (metis option.inject side.simps(3,4) side_list_def)+
  then show ?thesis using assms(3,4) e by (simp add: slots_exist_def)
qed

text \<open>The modules, with their connectors and before any connection is drawn.\<close>

definition loaded_modules ::
  "(string \<times> int \<times> int) list option \<Rightarrow> component list \<Rightarrow> canvas \<Rightarrow> bool" where
  "loaded_modules ps cs s \<longleftrightarrow> length (moduleArray s) = length cs
     \<and> (\<forall>k < length cs. module_from_file ps cs k (moduleArray s ! k))"

lemma loaded_modules_prt [simp]: "loaded_modules ps cs (s\<lparr>prt := p\<rparr>) = loaded_modules ps cs s"
  by (simp add: loaded_modules_def)

lemma place_modules_result:
  assumes "None \<notin> set (map c_name cs)" "distinct (map c_name cs)"
  obtains t ms where "place_modules E ps cs init_canvas = (None, t)"
    "canvas_ok t" "moduleArray t = ms" "list_all2 (initial_module E ps) (zip [0..<length cs] cs) ms"
    "overallConnections t = []" "conn_lines t = []" "shapes t = []"
    "PORTCONNECTION (prt t) = 8000" "names_match cs ms" "distinct (map m_name ms)" "length ms = length cs"
proof -
  let ?xs = "zip [0..<length cs] cs"
  have "map fst ?xs = [length (moduleArray init_canvas)..<length (moduleArray init_canvas) + length ?xs]"
    by (simp add: init_canvas_def)
  from place_loop [OF canvas_ok_init this, of E ps] obtain t ms where
    t: "place_modules E ps cs init_canvas = (None, t)" "canvas_ok t" "moduleArray t = [] @ ms"
    "list_all2 (initial_module E ps) ?xs ms" "overallConnections t = []" "conn_lines t = []"
    "shapes t = []" "PORTCONNECTION (prt t) = 8000"
    unfolding place_modules_def
    by (auto simp: init_canvas_def conn_lines_def init_ports_def)
  have len: "length ms = length cs" using list_all2_lengthD [OF t(4)] by simp
  have nm: "c_name (cs ! k) = Some (m_name (ms ! k))" if k: "k < length cs" for k
  proof -
    have "initial_module E ps (k, cs ! k) (ms ! k)"
      using list_all2_nthD [OF t(4), of k] k by simp
    moreover have "c_name (cs ! k) \<noteq> None" using assms(1) k by (metis length_map nth_map nth_mem)
    ultimately show ?thesis by (auto simp: initial_module_def)
  qed
  then have names: "map c_name cs = map Some (map m_name ms)"
    using len by (simp add: list_eq_iff_nth_eq)
  have "names_match cs ms" unfolding names_match_def
    using len nm by (simp add: list_all2_conv_all_nth)
  moreover have "distinct (map m_name ms)" using assms(2) unfolding names by (metis distinct_map)
  ultimately show thesis using that t len by simp
qed

text \<open>The loop over the components creates the connectors of the file.\<close>

lemma load_components_result:
  assumes "file_ok cs" "canvas_ok s" "list_all2 (initial_module E ps) (zip [0..<length cs] cs) (moduleArray s)"
    and "overallConnections s = []" "conn_lines s = []"
    and "names_match cs (moduleArray s)" "distinct (map m_name (moduleArray s))"
    and "length (moduleArray s) = length cs"
  obtains mid t where "forEach cs (load_component E) (s, None, [])
      = (None, (t, mid, foldl add_event [] (all_events 0 cs)))"
    "graph_ok t" "edges t = {}" "prt t = prt s" "loaded_modules ps cs t"
proof -
  let ?ms = "map2 (full_module E) cs (moduleArray s)"
  let ?t = "s\<lparr>moduleArray := ?ms\<rparr>"
  obtain mid where run: "forEach cs (load_component E) (s, None, [])
      = (None, (?t, mid, foldl add_event [] (all_events 0 cs)))"
    using load_components [OF assms(2), of "[]" "moduleArray s" cs E None "[]"] assms(6,7) by auto
  have nth: "?ms ! k = full_module E (cs ! k) (moduleArray s ! k)" if "k < length cs" for k
    using that assms(8) by simp
  have ini: "initial_module E ps (k, cs ! k) (moduleArray s ! k)" if "k < length cs" for k
    using list_all2_nthD [OF assms(3), of k] that by simp
  have ok: "module_ok (moduleArray s ! k)" if "k < length cs" for k
    using canvas_ok_nth [OF assms(2)] that assms(8) by simp
  have mods: "module_ok (?ms ! k) \<and> m_ID (?ms ! k) = k
      \<and> senders (?ms ! k) = replicate (length (sends (cs ! k))) []
      \<and> receivers (?ms ! k) = replicate (length (recvs (cs ! k))) []"
    if k: "k < length cs" for k
    using full_module_props [OF ok [OF k], of E "cs ! k"] ini [OF k] canvas_ok_ID [OF assms(2), of k]
      k assms(8) unfolding nth [OF k] by (simp add: initial_module_def)
  have len: "length ?ms = length cs" using assms(8) by simp
  have "canvas_ok ?t" using assms(2) mods len unfolding canvas_ok_def ids_ok_def
    by (auto simp: in_set_conv_nth assms(8))
  moreover have "set (senders m) \<subseteq> {[]} \<and> set (receivers m) \<subseteq> {[]}" if "m \<in> set ?ms" for m
    using that mods len unfolding in_set_conv_nth by auto
  ultimately have g: "graph_ok ?t" "edges ?t = {}"
    using graph_ok_unconnected [of ?t] assms(4,5) by (simp_all add: conn_lines_def)
  have "module_from_file ps cs k (?ms ! k)" if k: "k < length cs" for k
  proof -
    have "c_name (cs ! k) = Some (m_name (moduleArray s ! k))"
      using assms(6) k by (auto simp: names_match_def dest: list_all2_nthD)
    then show ?thesis
      using full_module_props [OF ok [OF k], of E "cs ! k"] ini [OF k] mods [OF k]
      unfolding nth [OF k] by (simp add: initial_module_def module_from_file_def)
  qed
  then have "loaded_modules ps cs ?t" using len by (simp add: loaded_modules_def)
  with run g show thesis by (intro that [of ?t mid]) simp_all
qed

lemma readJSON_result:
  assumes "components cf = Some cs" "file_ok cs"
  obtains t where "readJSON E ps cf init_canvas = (None, t)" "graph_ok t" "lines_drawn E t"
    "edges t = file_edges cs" "loaded_modules ps cs t"
    "\<exists>p. PORTCONNECTION (prt t) = PORTCONNECTION (snd (portRange ''connection'' (higher_connection cs) p))"
    "\<exists>p. prt t = snd (portRange ''module'' (higher_module cs) p)"
proof -
  have nd: "None \<notin> set (map c_name cs)" "distinct (map c_name cs)"
    using assms(2) by (simp_all add: file_ok_def)
  obtain s ms where s: "place_modules E ps cs init_canvas = (None, s)"
    "canvas_ok s" "moduleArray s = ms" "list_all2 (initial_module E ps) (zip [0..<length cs] cs) ms"
    "overallConnections s = []" "conn_lines s = []" "shapes s = []" "PORTCONNECTION (prt s) = 8000"
    "names_match cs ms" "distinct (map m_name ms)" "length ms = length cs"
    by (rule place_modules_result [OF nd])
  let ?tc = "foldl add_event [] (all_events 0 cs)"
  obtain mid t where t: "forEach cs (load_component E) (s, None, []) = (None, (t, mid, ?tc))"
    "graph_ok t" "edges t = {}" "prt t = prt s" "loaded_modules ps cs t"
    by (rule load_components_result [OF assms(2) s(2) _ s(5,6), where E = E and ps = ps])
      (use s in simp_all)
  obtain qs where qs: "pairs ?tc = map quad_pair qs" "distinct qs" "set qs = file_edges cs"
    by (rule file_pairs [OF assms(2)])
  have slots: "\<forall>e \<in> set qs. slots_exist (moduleArray t) e"
    using file_edges_slots [OF assms(2)] t(5) qs(3)
    by (simp add: loaded_modules_def module_from_file_def)
  have "lines_drawn E t" using t(3) by (simp add: lines_drawn_def)
  from connect_quads [OF t(2) this qs(2) _ slots]
  obtain u where u: "forEach (map quad_pair qs) (connect_pair E) t = (None, u)" "graph_ok u"
    "lines_drawn E u" "edges u = edges t \<union> set qs" "same_modules t u"
    using t(3) by auto
  have lm: "loaded_modules ps cs u"
    using t(5) u(5) same_modules_module_from_file [OF u(5)]
    by (auto simp: loaded_modules_def same_modules_def)
  let ?p = "snd (portRange ''connection'' (higher_connection cs) (prt u))"
  let ?v = "u\<lparr>prt := snd (portRange ''module'' (higher_module cs) ?p)\<rparr>"
  have run: "readJSON E ps cf init_canvas = (None, ?v)"
    using s(1) t(1) u(1) assms(1) qs(1)
    by (simp add: readJSON_def readJSON_helper_def andThen_def connect_all_pairs set_port_result)
  have "PORTCONNECTION (prt ?v) = PORTCONNECTION ?p"
    by (cases "higher_module cs = -1") simp_all
  then have pc: "\<exists>p. PORTCONNECTION (prt ?v)
      = PORTCONNECTION (snd (portRange ''connection'' (higher_connection cs) p))" by blast
  show thesis
  proof (rule that [OF run])
    show "edges ?v = file_edges cs" using u(4) t(3) qs(3) by simp
    show "\<exists>p. prt ?v = snd (portRange ''module'' (higher_module cs) p)" by auto
  qed (use u lm pc in simp_all)
qed

end
