(* ===== verification/Graph_Props.thy ===== *)
theory Graph_Props
  imports Dragging
begin

text \<open>
  What the operations on connections promise, on a consistent canvas: \<open>connectLines\<close>,
  \<open>deleteConnection\<close> and \<open>checkConnection\<close> are insertion, deletion and lookup in the set of
  edges. The sample canvas of the witnesses is built by the operations themselves.
\<close>

section \<open>A sample canvas\<close>

definition sample_env :: env where
  "sample_env = \<lparr>getBounds = \<lambda>n. (200, 80), windowName = ''canvas''\<rparr>"

definition two_modules :: canvas where
  "two_modules =
     snd (dragAndDrop sample_env (Some ''b'') None None None None
       (snd (dragAndDrop sample_env (Some ''a'') None None None None init_canvas)))"

text \<open>One sender on the first module, two receivers on the second.\<close>

definition sample_canvas :: canvas where
  "sample_canvas = upd_module 1 add_receiver (upd_module 1 add_receiver
     (upd_module 0 (add_sender sample_env) two_modules))"

lemma two_modules_facts:
  "canvas_ok two_modules" "length (moduleArray two_modules) = 2"
  "overallConnections two_modules = []" "conn_lines two_modules = []"
  "senders (moduleArray two_modules ! 0) = []" "receivers (moduleArray two_modules ! 1) = []"
  "senders (moduleArray two_modules ! Suc 0) = []" "receivers (moduleArray two_modules ! 0) = []"
  by (simp_all add: two_modules_def canvas_ok_dragAndDrop canvas_ok_init)
    (simp_all add: dragAndDrop_result init_canvas_def conn_lines_def)

lemma sample_canvas_facts:
  "canvas_ok sample_canvas" "length (moduleArray sample_canvas) = 2"
  "overallConnections sample_canvas = []" "conn_lines sample_canvas = []"
  "senders (moduleArray sample_canvas ! 0) = [[]]" "receivers (moduleArray sample_canvas ! 0) = []"
  "senders (moduleArray sample_canvas ! Suc 0) = []"
  "receivers (moduleArray sample_canvas ! Suc 0) = [[], []]"
proof -
  note two = two_modules_facts
  have ok: "module_ok (moduleArray two_modules ! 0)" "module_ok (moduleArray two_modules ! Suc 0)"
    using canvas_ok_nth [OF two(1)] two(2) by simp_all
  show "canvas_ok sample_canvas" unfolding sample_canvas_def
    by (intro canvas_ok_add_receiver canvas_ok_add_sender) (use two in simp_all)
  show "length (moduleArray sample_canvas) = 2"
    "overallConnections sample_canvas = []" "conn_lines sample_canvas = []"
    "senders (moduleArray sample_canvas ! 0) = [[]]" "receivers (moduleArray sample_canvas ! 0) = []"
    "senders (moduleArray sample_canvas ! Suc 0) = []"
    "receivers (moduleArray sample_canvas ! Suc 0) = [[], []]"
    using two ok unfolding sample_canvas_def conn_lines_def
    by (simp_all add: add_sender_fields add_receiver_fields module_ok_add_receiver)
qed

lemma sample_graph: "graph_ok sample_canvas" "edges sample_canvas = {}" "lines_drawn E sample_canvas"
proof -
  have "set (moduleArray sample_canvas) = {moduleArray sample_canvas ! 0, moduleArray sample_canvas ! Suc 0}"
    using sample_canvas_facts(2)
    by (auto simp: in_set_conv_nth less_Suc_eq numeral_2_eq_2)
  then have "\<forall>m \<in> set (moduleArray sample_canvas). set (senders m) \<subseteq> {[]} \<and> set (receivers m) \<subseteq> {[]}"
    using sample_canvas_facts by simp
  from graph_ok_unconnected [OF sample_canvas_facts(1,3,4) this]
  show "graph_ok sample_canvas" "edges sample_canvas = {}" by blast+
  then show "lines_drawn E sample_canvas" by (simp add: lines_drawn_def)
qed

lemma sample_slots: "slots_exist (moduleArray sample_canvas) (0, 0, Suc 0, j) \<longleftrightarrow> j < 2"
  using sample_canvas_facts by (simp add: slots_exist_def numeral_2_eq_2)

abbreviation sample_edge :: "nat \<times> nat \<times> nat \<times> nat" where
  "sample_edge \<equiv> (0, 0, Suc 0, 0)"

definition connected_canvas :: canvas where
  "connected_canvas = snd (connectLines sample_env (nat_str 0) (nat_str 0) (nat_str (Suc 0)) (nat_str 0) sample_canvas)"

lemma connected_graph:
  "graph_ok connected_canvas" "edges connected_canvas = {sample_edge}"
  "lines_drawn sample_env connected_canvas"
  "slots_exist (moduleArray connected_canvas) (0, 0, Suc 0, j) \<longleftrightarrow> j < 2"
  "length (moduleArray connected_canvas) = 2"
proof -
  have new: "sample_edge \<notin> edges sample_canvas" by (simp add: sample_graph)
  have sl: "slots_exist (moduleArray sample_canvas) sample_edge" by (simp add: sample_slots)
  note c = graph_ok_connect [OF sample_graph(1) sl new connected_canvas_def]
  show "graph_ok connected_canvas" "edges connected_canvas = {sample_edge}"
    using c by (simp_all add: sample_graph)
  show "lines_drawn sample_env connected_canvas"
    by (rule lines_drawn_connect [OF sample_graph(1,3) sl new connected_canvas_def])
  note r = connectLines_result [OF sample_canvas_facts(1) sl]
  show "slots_exist (moduleArray connected_canvas) (0, 0, Suc 0, j) \<longleftrightarrow> j < 2"
    "length (moduleArray connected_canvas) = 2"
    unfolding connected_canvas_def r using sl edit_ends_props(1) [OF sl]
    by (simp_all add: sample_slots sample_canvas_facts)
qed

section \<open>Connecting and deleting\<close>

text \<open>
  C2. \<open>connectLines\<close> inserts an edge: between connectors that exist and are not yet connected to
  each other it throws nothing, keeps the three copies of every connection (sender's list,
  receiver's list, \<open>overallConnections\<close>) and the shapes on the stage consistent, adds exactly
  this edge and draws its line between the two connectors, all other lines staying right.
\<close>

theorem connect_inserts_edge:
  assumes "graph_ok s" "lines_drawn E s" "slots_exist (moduleArray s) (m, i, r, j)" "(m, i, r, j) \<notin> edges s"
    and "t = snd (connectLines E (nat_str m) (nat_str i) (nat_str r) (nat_str j) s)"
  shows "fst (connectLines E (nat_str m) (nat_str i) (nat_str r) (nat_str j) s) = None
    \<and> graph_ok t \<and> lines_drawn E t \<and> edges t = insert (m, i, r, j) (edges s)"
proof -
  have "canvas_ok s" using assms(1) by (simp add: graph_ok_def)
  then show ?thesis
    using graph_ok_connect [OF assms(1,3,4,5)] lines_drawn_connect [OF assms]
    by (simp add: connectLines_result assms(3))
qed

theorem connect_inserts_edge_witness:
  "graph_ok connected_canvas \<and> lines_drawn sample_env connected_canvas
   \<and> edges connected_canvas = {sample_edge}"
  using connect_inserts_edge [OF sample_graph(1) sample_graph(3) _ _ connected_canvas_def]
  by (simp add: sample_slots sample_graph(2))

text \<open>
  C3. \<open>deleteConnection\<close> removes an edge: between existing connectors it throws nothing, keeps
  the canvas consistent and its lines right, and removes exactly this edge (nothing if there
  was none).
\<close>

theorem delete_removes_edge:
  assumes "graph_ok s" "lines_drawn E s" "slots_exist (moduleArray s) (m, i, r, j)"
    and "t = snd (deleteConnection (nat_str m) (nat_str i) (nat_str r) (nat_str j) s)"
  shows "fst (deleteConnection (nat_str m) (nat_str i) (nat_str r) (nat_str j) s) = None
    \<and> graph_ok t \<and> lines_drawn E t \<and> edges t = edges s - {(m, i, r, j)}"
proof -
  have "canvas_ok s" using assms(1) by (simp add: graph_ok_def)
  then show ?thesis
    using graph_ok_delete [OF assms(1,3,4)] lines_drawn_delete [OF assms]
    by (simp add: deleteConnection_result assms(3))
qed

theorem delete_removes_edge_witness:
  "edges (snd (deleteConnection (nat_str 0) (nat_str 0) (nat_str (Suc 0)) (nat_str 0) connected_canvas)) = {}"
  using delete_removes_edge [OF connected_graph(1,3) _ refl, of 0 0 "Suc 0" 0]
  by (simp add: connected_graph)

section \<open>Cancelling a new connection\<close>

lemma remove1_snoc: "x \<notin> set xs \<Longrightarrow> remove1 x (xs @ [x]) = xs"
  by (simp add: remove1_append)

lemma alist_del_put: "k \<notin> fst ` set ps \<Longrightarrow> alist_del k (alist_put k v ps) = ps"
  by (induction ps) (auto simp: alist_del_def)

lemma edit_ends_undo:
  assumes "slots_exist ms e" "\<And>ns. x \<notin> set ns \<Longrightarrow> g (f ns) = ns"
    and "\<And>k. k < length ms \<Longrightarrow> x \<notin> \<Union> (set ` set (senders (ms ! k))) \<union> \<Union> (set ` set (receivers (ms ! k)))"
  shows "edit_ends g e (edit_ends f e ms) = ms"
proof (rule nth_equalityI)
  have sl: "slots_exist (edit_ends f e ms) e" using assms(1) by simp
  show "length (edit_ends g e (edit_ends f e ms)) = length ms"
    by (simp add: edit_ends_props(1) assms(1) sl)
  obtain m i r j where e: "e = (m, i, r, j)" by (cases e)
  fix k assume "k < length (edit_ends g e (edit_ends f e ms))"
  then have k: "k < length ms" "k < length (edit_ends f e ms)"
    by (simp_all add: edit_ends_props(1) assms(1) sl)
  have x: "k = m \<Longrightarrow> x \<notin> set (senders (ms ! k) ! i)" "k = r \<Longrightarrow> x \<notin> set (receivers (ms ! k) ! j)"
    using assms(1,3) k by (auto simp: e slots_exist_def)
  have len: "k = m \<Longrightarrow> i < length (senders (ms ! k))" "k = r \<Longrightarrow> j < length (receivers (ms ! k))"
    using assms(1) by (auto simp: e slots_exist_def)
  show "edit_ends g e (edit_ends f e ms) ! k = ms ! k"
    unfolding edit_ends_props(2) [OF sl k(2)] edit_ends_props(2) [OF assms(1) k(1)]
    using assms(2) x len by (cases "ms ! k") (auto simp: e)
qed

text \<open>On a consistent canvas the name of an edge that is not there occurs in no list.\<close>

lemma fresh_name_lists:
  assumes "graph_ok s" "e \<notin> edges s" "k < length (moduleArray s)"
  shows "edge_name e \<notin> \<Union> (set ` set (senders (moduleArray s ! k)))
     \<union> \<Union> (set ` set (receivers (moduleArray s ! k)))"
proof -
  have ls: "lists_ok s" using assms(1) by (simp add: graph_ok_def)
  have "edge_name e \<notin> set (sender_list s k i)" if "i < length (senders (moduleArray s ! k))" for i
    using ls assms(2,3) that unfolding lists_ok_def by auto
  moreover have "edge_name e \<notin> set (receiver_list s k j)" if "j < length (receivers (moduleArray s ! k))" for j
    using ls assms(2,3) that unfolding lists_ok_def by auto
  ultimately show ?thesis by (auto simp: in_set_conv_nth sender_list_def receiver_list_def)
qed

text \<open>
  C14. Cancelling the form of a new connection undoes \<open>connectLines\<close>: \<open>cancelConnection\<close>, called
  with the connection still in \<open>TEMPORARYINFO\<close>, throws nothing and restores the modules with all
  their lists, \<open>overallConnections\<close> and the children of the stage. Only the detached shape stays.
\<close>

theorem cancel_undoes_connect:
  assumes "graph_ok s" "slots_exist (moduleArray s) (m, i, r, j)" "(m, i, r, j) \<notin> edges s"
    and "t = snd (connectLines E (nat_str m) (nat_str i) (nat_str r) (nat_str j) s)"
    and "u = snd (cancelConnection (t\<lparr>TEMPORARYINFO := Some (nat_str m, nat_str i, nat_str r, nat_str j)\<rparr>))"
  shows "fst (cancelConnection (t\<lparr>TEMPORARYINFO := Some (nat_str m, nat_str i, nat_str r, nat_str j)\<rparr>)) = None
    \<and> moduleArray u = moduleArray s \<and> overallConnections u = overallConnections s
    \<and> stage u = stage s \<and> take (length (shapes s)) (shapes u) = shapes s"
proof -
  let ?e = "(m, i, r, j)"
  let ?t = "t\<lparr>TEMPORARYINFO := Some (nat_str m, nat_str i, nat_str r, nat_str j)\<rparr>"
  have ok: "canvas_ok s" using assms(1) by (simp add: graph_ok_def)
  note t = assms(4) [unfolded connectLines_result [OF ok assms(2)]]
  have "canvas_ok ?t" by (rule canvas_ok_edit [OF ok assms(2)]) (simp_all add: t)
  moreover have "slots_exist (moduleArray ?t) ?e" using assms(2) by (simp add: t)
  ultimately have u: "cancelConnection ?t = (None, u)"
      "u = snd (deleteConnection (nat_str m) (nat_str i) (nat_str r) (nat_str j) ?t)"
    and del: "deleteConnection (nat_str m) (nat_str i) (nat_str r) (nat_str j) ?t = (None, u)"
    using assms(5) by (simp_all add: cancelConnection_def deleteConnection_result)
  note u' = u(2) [unfolded deleteConnection_result [OF \<open>canvas_ok ?t\<close> \<open>slots_exist (moduleArray ?t) ?e\<close>]]
  have key: "edge_name ?e \<notin> fst ` set (overallConnections s)" using assms(3) by (simp add: edges_def)
  have "moduleArray u = moduleArray s"
    using edit_ends_undo [OF assms(2) _ fresh_name_lists [OF assms(1,3)], of "remove1 (edge_name ?e)"
        "\<lambda>ns. ns @ [edge_name ?e]"]
    by (simp add: u' t remove1_snoc)
  moreover have "overallConnections u = overallConnections s"
    by (simp add: u' t alist_del_put [OF key])
  moreover have "ConnLine (length (shapes s)) \<notin> set (stage s)"
  proof -
    have "length (shapes s) \<notin> snd ` set (overallConnections s)"
      using assms(1) by (auto simp: graph_ok_def lines_ok_def)
    then have "count_list (stage s) (ConnLine (length (shapes s))) = 0"
      using assms(1) by (simp add: graph_ok_def lines_ok_def)
    then show ?thesis by (simp add: count_list_0_iff)
  qed
  then have "stage u = stage s" by (simp add: u' t remove1_snoc)
  moreover have "take (length (shapes s)) (shapes u) = shapes s" by (simp add: u' t)
  ultimately show ?thesis using u(1) by simp
qed

theorem cancel_undoes_connect_witness:
  "moduleArray (snd (cancelConnection (connected_canvas\<lparr>TEMPORARYINFO :=
      Some (nat_str 0, nat_str 0, nat_str (Suc 0), nat_str 0)\<rparr>))) = moduleArray sample_canvas"
  using cancel_undoes_connect [OF sample_graph(1) _ _ connected_canvas_def refl]
  by (simp add: sample_slots sample_graph(2))

section \<open>Checking\<close>

definition only_ends :: "canvas \<Rightarrow> nat \<times> nat \<times> nat \<times> nat \<Rightarrow> bool" where
  "only_ends s = (\<lambda>(m, i, r, j). (\<forall>m' i'. (m', i', r, j) \<in> edges s \<longrightarrow> (m', i') = (m, i))
     \<and> (\<forall>r' j'. (m, i, r', j') \<in> edges s \<longrightarrow> (r', j') = (r, j)))"

lemma check_exists_edge:
  assumes "graph_ok s" "checkConnection (nat_str m) (nat_str i) (nat_str r) (nat_str j) s = ''exists''"
  shows "(m, i, r, j) \<in> edges s"
proof -
  have "names_ok s" using assms(1) by (simp add: graph_ok_def)
  then obtain es where es: "set es = edges s"
    "checkConnection (nat_str m) (nat_str i) (nat_str r) (nat_str j) s = check_edges (m, i, r, j) es"
    by (rule checkConnection_edges)
  have "check_edges (m, i, r, j) es = ''exists''" using es(2) assms(2) by simp
  then have "(m, i, r, j) \<in> set es" by (rule check_edges_exists_in)
  then show ?thesis using es(1) by simp
qed

text \<open>An existing connection is recognised when nothing else uses its connectors.\<close>

lemma check_only_ends:
  assumes "graph_ok s" "(m, i, r, j) \<in> edges s" "only_ends s (m, i, r, j)"
  shows "checkConnection (nat_str m) (nat_str i) (nat_str r) (nat_str j) s = ''exists''"
proof -
  have "names_ok s" using assms(1) by (simp add: graph_ok_def)
  then obtain es where es: "set es = edges s"
    "checkConnection (nat_str m) (nat_str i) (nat_str r) (nat_str j) s = check_edges (m, i, r, j) es"
    by (rule checkConnection_edges)
  have only: "\<And>a b. (a, b, r, j) \<in> edges s \<Longrightarrow> (a, b) = (m, i)" "\<And>c d. (m, i, c, d) \<in> edges s \<Longrightarrow> (c, d) = (r, j)"
    using assms(3) unfolding only_ends_def by blast+
  have uniq: "x = (m, i, r, j)" if x: "x \<in> set es" "snd (snd x) = (r, j) \<or> fst x = m \<and> fst (snd x) = i" for x
  proof (cases x)
    case (fields a b c d)
    then have e: "(a, b, c, d) \<in> edges s" "(c, d) = (r, j) \<or> (a, b) = (m, i)"
      using x es by simp_all
    from e(2) have "(a, b) = (m, i) \<and> (c, d) = (r, j)"
    proof
      assume "(c, d) = (r, j)"
      then show ?thesis using e(1) only(1) [of a b] by simp
    next
      assume "(a, b) = (m, i)"
      then show ?thesis using e(1) only(2) [of c d] by simp
    qed
    then show ?thesis using fields by simp
  qed
  have "(m, i, r, j) \<in> set es" using assms(2) es by simp
  then show ?thesis unfolding es(2) using uniq by (rule check_edges_exists)
qed

text \<open>
  C15. \<open>checkConnection\<close> decides whether both connectors are free: on a consistent canvas it
  answers one of its four strings, \<open>new\<close> exactly when no edge ends at either connector; every
  other answer is witnessed by an edge; and an existing edge that is the only one at both its
  connectors is answered \<open>exists\<close>.
\<close>

theorem check_connection_answers:
  assumes "graph_ok s" and a: "a = checkConnection (nat_str m) (nat_str i) (nat_str r) (nat_str j) s"
  shows "a \<in> {''new'', ''exists'', ''receiver_full'', ''sender_full''}
    \<and> (a = ''new'' \<longleftrightarrow> (\<forall>m' i'. (m', i', r, j) \<notin> edges s) \<and> (\<forall>r' j'. (m, i, r', j') \<notin> edges s))
    \<and> (a = ''exists'' \<longrightarrow> (m, i, r, j) \<in> edges s)
    \<and> (a = ''receiver_full'' \<longrightarrow> (\<exists>m' i'. (m', i', r, j) \<in> edges s))
    \<and> (a = ''sender_full'' \<longrightarrow> (\<exists>r' j'. (m, i, r', j') \<in> edges s))
    \<and> ((m, i, r, j) \<in> edges s
        \<and> (\<forall>m' i'. (m', i', r, j) \<in> edges s \<longrightarrow> (m', i') = (m, i))
        \<and> (\<forall>r' j'. (m, i, r', j') \<in> edges s \<longrightarrow> (r', j') = (r, j)) \<longrightarrow> a = ''exists'')"
proof -
  have "names_ok s" using assms(1) by (simp add: graph_ok_def)
  then obtain es where es: "set es = edges s" and ans: "a = check_edges (m, i, r, j) es"
    using checkConnection_edges a by metis
  have n: "a = ''new'' \<longleftrightarrow> (\<forall>m' i'. (m', i', r, j) \<notin> edges s) \<and> (\<forall>r' j'. (m, i, r', j') \<notin> edges s)"
    unfolding ans check_edges_new es by auto
  have e: "a = ''exists'' \<longrightarrow> (m, i, r, j) \<in> edges s"
    unfolding ans es [symmetric] using check_edges_exists_in by blast
  have rf: "a = ''receiver_full'' \<longrightarrow> (\<exists>m' i'. (m', i', r, j) \<in> edges s)"
    unfolding ans es [symmetric] using check_edges_receiver by (metis prod.collapse)
  have sf: "a = ''sender_full'' \<longrightarrow> (\<exists>r' j'. (m, i, r', j') \<in> edges s)"
    unfolding ans es [symmetric] using check_edges_sender by (metis prod.collapse)
  have ex: "a = ''exists''" if "(m, i, r, j) \<in> edges s"
      "\<forall>m' i'. (m', i', r, j) \<in> edges s \<longrightarrow> (m', i') = (m, i)"
      "\<forall>r' j'. (m, i, r', j') \<in> edges s \<longrightarrow> (r', j') = (r, j)"
  proof -
    have "only_ends s (m, i, r, j)" unfolding only_ends_def prod.case by (intro conjI that(2,3))
    then show ?thesis unfolding a by (rule check_only_ends [OF assms(1) that(1)])
  qed
  have rg: "a \<in> {''new'', ''exists'', ''receiver_full'', ''sender_full''}"
    unfolding ans by (rule check_edges_range)
  show ?thesis
    apply (intro conjI)
         apply (rule rg)
        apply (rule n)
       apply (rule e)
      apply (rule rf)
     apply (rule sf)
    apply (rule impI, elim conjE, rule ex, assumption+)
    done
qed

theorem check_connection_answers_witness:
  "checkConnection (nat_str 0) (nat_str 0) (nat_str (Suc 0)) (nat_str 0) connected_canvas = ''exists''
   \<and> checkConnection (nat_str 0) (nat_str 0) (nat_str (Suc 0)) (nat_str 1) connected_canvas \<noteq> ''new''"
  using check_connection_answers [OF connected_graph(1) refl, of 0 0 "Suc 0" 0]
    check_connection_answers [OF connected_graph(1) refl, of 0 0 "Suc 0" 1]
  by (simp add: connected_graph(2))

text \<open>One sender connected to both receivers: a second, legal connection of the same sender.\<close>

definition fan_out_canvas :: canvas where
  "fan_out_canvas =
     snd (connectLines sample_env (nat_str 0) (nat_str 0) (nat_str (Suc 0)) (nat_str (Suc 0)) connected_canvas)"

lemma fan_out_graph:
  "graph_ok fan_out_canvas" "edges fan_out_canvas = {sample_edge, (0, 0, Suc 0, Suc 0)}"
  "slots_exist (moduleArray fan_out_canvas) (0, 0, Suc 0, j) \<longleftrightarrow> j < 2"
proof -
  have new: "(0, 0, Suc 0, Suc 0) \<notin> edges connected_canvas" by (simp add: connected_graph)
  have sl: "slots_exist (moduleArray connected_canvas) (0, 0, Suc 0, Suc 0)" by (simp add: connected_graph)
  note c = graph_ok_connect [OF connected_graph(1) sl new fan_out_canvas_def]
  show "graph_ok fan_out_canvas" "edges fan_out_canvas = {sample_edge, (0, 0, Suc 0, Suc 0)}"
    using c by (auto simp: connected_graph)
  have "canvas_ok connected_canvas" using connected_graph(1) by (simp add: graph_ok_def)
  note r = connectLines_result [OF this sl]
  show "slots_exist (moduleArray fan_out_canvas) (0, 0, Suc 0, j) \<longleftrightarrow> j < 2"
    unfolding fan_out_canvas_def r using sl by (simp add: connected_graph)
qed

lemma fan_out_keys: "map fst (overallConnections fan_out_canvas)
    = [edge_name sample_edge, edge_name (0, 0, Suc 0, Suc 0)]"
proof -
  have sl: "slots_exist (moduleArray connected_canvas) (0, 0, Suc 0, Suc 0)"
    "slots_exist (moduleArray sample_canvas) sample_edge"
    by (simp_all add: connected_graph sample_slots)
  have "canvas_ok connected_canvas" using connected_graph(1) by (simp add: graph_ok_def)
  note r = connectLines_result [OF this sl(1)] connectLines_result [OF sample_canvas_facts(1) sl(2)]
  have "map fst (overallConnections connected_canvas) = [edge_name sample_edge]"
    unfolding connected_canvas_def r(2) by (simp add: sample_canvas_facts)
  then show ?thesis unfolding fan_out_canvas_def r(1) by (simp add: keys_alist_put)
qed

text \<open>
  C20. The check can miss an existing connection: when a sender has two connections, asking for the
  second one again answers \<open>sender_full\<close> from the first key, although this very connection
  exists. \<open>connectLines\<close> then enters the name a second time into the list of the sender, and the
  shape of the old line stays on the stage with nothing referring to it.
\<close>

theorem check_misses_existing_connection:
  "(0, 0, 1, 1) \<in> edges fan_out_canvas
   \<and> checkConnection (nat_str 0) (nat_str 0) (nat_str 1) (nat_str 1) fan_out_canvas = ''sender_full''
   \<and> (let t = snd (connectLines sample_env (nat_str 0) (nat_str 0) (nat_str 1) (nat_str 1) fan_out_canvas)
      in \<not> distinct (sender_list t 0 0)
         \<and> (\<exists>l. ConnLine l \<in> set (stage t) \<and> l \<notin> snd ` set (overallConnections t)))"
proof -
  let ?e = "(0, 0, Suc 0, Suc 0) :: nat \<times> nat \<times> nat \<times> nat"
  have ok: "canvas_ok fan_out_canvas" and ls: "lists_ok fan_out_canvas" and li: "lines_ok fan_out_canvas"
    using fan_out_graph(1) by (simp_all add: graph_ok_def)
  have sl: "slots_exist (moduleArray fan_out_canvas) ?e" by (simp add: fan_out_graph)
  note r = connectLines_result [OF ok sl, of sample_env]
  have mem: "edge_name ?e \<in> set (sender_list fan_out_canvas 0 0)"
    using ls sl fan_out_graph(2) unfolding lists_ok_def slots_exist_def by auto
  obtain l where l: "map_of (overallConnections fan_out_canvas) (edge_name ?e) = Some l"
    "l < length (shapes fan_out_canvas)"
    using graph_ok_key [OF fan_out_graph(1), of ?e] fan_out_graph(2) by auto
  let ?t = "snd (connectLines sample_env (nat_str 0) (nat_str 0) (nat_str (Suc 0)) (nat_str (Suc 0)) fan_out_canvas)"
  have "sender_list ?t 0 0 = sender_list fan_out_canvas 0 0 @ [edge_name ?e]"
    unfolding sender_list_def r using sl by (simp add: edit_ends_props slots_exist_def)
  then have "\<not> distinct (sender_list ?t 0 0)" using mem by simp
  moreover have "ConnLine l \<in> set (stage ?t)"
  proof -
    have "l \<in> snd ` set (overallConnections fan_out_canvas)" using l(1) by (force dest: map_of_SomeD)
    then have "count_list (stage fan_out_canvas) (ConnLine l) = 1" using li by (simp add: lines_ok_def)
    then have "ConnLine l \<in> set (stage fan_out_canvas)"
      by (metis count_list_0_iff zero_neq_one)
    then show ?thesis unfolding r by simp
  qed
  moreover have "l \<notin> snd ` set (overallConnections ?t)"
  proof -
    have d: "distinct (map fst (overallConnections fan_out_canvas))"
      "distinct (map snd (overallConnections fan_out_canvas))"
      using fan_out_graph(1) li by (simp_all add: graph_ok_def names_ok_def lines_ok_def)
    have key: "(k, l) \<in> set (overallConnections fan_out_canvas) \<Longrightarrow> k = edge_name ?e" for k
      using d l(1) distinct_snd_unique by (metis map_of_SomeD)
    have "map_of (overallConnections ?t) k \<noteq> Some l" for k
      unfolding r using l(2) key [of k] by (auto dest: map_of_SomeD)
    moreover have "distinct (map fst (overallConnections ?t))"
      unfolding r using distinct_keys_put [OF d(1)] by simp
    ultimately show ?thesis by (force dest: map_of_is_SomeI)
  qed
  moreover have "checkConnection (nat_str 0) (nat_str 0) (nat_str (Suc 0)) (nat_str (Suc 0)) fan_out_canvas
      = ''sender_full''"
    unfolding checkConnection_def edge_name_conn
    using check_names_edges [of 0 0 "Suc 0" "Suc 0" "[sample_edge, ?e]"] fan_out_keys by simp
  ultimately show ?thesis using fan_out_graph(2) by (auto simp: Let_def)
qed

section \<open>Dragging\<close>

text \<open>
  C4. Dragging moves a module and its lines together: from a consistent canvas whose lines are
  drawn between their connectors, a drag step throws nothing, keeps the canvas consistent with
  the same connections, puts the module at the floored pointer position less the grip offset,
  and leaves every line drawn between its two connectors at their new places.
\<close>

theorem drag_redraws_lines:
  assumes "graph_ok s" "lines_drawn E s" "p < length (moduleArray s)"
    and "t = snd (drag_pressmove E p ev s)"
  shows "fst (drag_pressmove E p ev s) = None \<and> graph_ok t \<and> lines_drawn E t \<and> edges t = edges s
    \<and> cont_x (moduleArray t ! p) = \<lfloor>fst ev\<rfloor> - dX (moduleArray s ! p)
    \<and> cont_y (moduleArray t ! p) = \<lfloor>snd ev\<rfloor> - dY (moduleArray s ! p)"
proof -
  let ?s = "upd_module p (move_module ev) s"
  obtain sh where r: "drag_pressmove E p ev s = (None, ?s\<lparr>shapes := sh\<rparr>)"
    "graph_ok (?s\<lparr>shapes := sh\<rparr>)" "lines_drawn E (?s\<lparr>shapes := sh\<rparr>)"
    using drag_pressmove_result [OF assms(1-3)] by blast
  then have t: "t = ?s\<lparr>shapes := sh\<rparr>" using assms(4) by simp
  have "edges t = edges s" unfolding t using graph_ok_move(2) [OF assms(1,3)] by simp
  with r t show ?thesis using assms(3) by (simp add: move_module_def)
qed

theorem drag_redraws_lines_witness:
  "cont_x (moduleArray (snd (drag_pressmove sample_env 1 (7 / 2, 40) connected_canvas)) ! 1)
     = 3 - dX (moduleArray connected_canvas ! 1)
   \<and> lines_drawn sample_env (snd (drag_pressmove sample_env 1 (7 / 2, 40) connected_canvas))"
proof -
  have fl: "\<lfloor>7 / 2 :: rat\<rfloor> = 3" by (rule floor_unique) simp_all
  have len: "1 < length (moduleArray connected_canvas)" by (simp add: connected_graph(5))
  show ?thesis
    using drag_redraws_lines [OF connected_graph(1,3) len refl, of "(7 / 2, 40)"] fl by simp
qed

text \<open>A loop throws when one of its rounds does, whatever the state it starts in.\<close>

lemma forEach_throws:
  assumes "x \<in> set xs" "P s" "\<And>y t. P t \<Longrightarrow> P (snd (f y t))" "\<And>t. P t \<Longrightarrow> fst (f x t) \<noteq> None"
  shows "fst (forEach xs f s) \<noteq> None"
  using assms(1,2)
proof (induction xs arbitrary: s)
  case (Cons y ys)
  show ?case
  proof (cases "f y s")
    case (Pair e t)
    then have "P t" using assms(3) [OF Cons.prems(2), of y] by simp
    then show ?thesis using Cons Pair assms(4) [OF Cons.prems(2)] by (cases e) auto
  qed
qed simp

lemma redraw_name_keys: "overallConnections (snd (redraw_name E nm s)) = overallConnections s"
  by (simp add: redraw_name_def updateLines_def split: option.split prod.split)

lemma redraw_name_throws: "map_of (overallConnections s) nm = None \<Longrightarrow> fst (redraw_name E nm s) \<noteq> None"
  by (simp add: redraw_name_def updateLines_def split: option.split prod.split)

text \<open>
  C13. A connection drawn twice breaks dragging: when an existing connection is drawn once more
  (\<open>check_misses_existing_connection\<close> shows that this happens) and then cancelled, neither step
  throws, but the name of the connection stays in the list of the sender although it is no longer
  among the connections, and from then on every drag of the sender's module throws.
\<close>

theorem redrawn_connection_throws:
  assumes "graph_ok s" "(m, i, r, j) \<in> edges s"
    and "t = snd (connectLines E (nat_str m) (nat_str i) (nat_str r) (nat_str j) s)"
    and "u = snd (deleteConnection (nat_str m) (nat_str i) (nat_str r) (nat_str j) t)"
  shows "fst (connectLines E (nat_str m) (nat_str i) (nat_str r) (nat_str j) s) = None
    \<and> fst (deleteConnection (nat_str m) (nat_str i) (nat_str r) (nat_str j) t) = None
    \<and> (m, i, r, j) \<notin> edges u \<and> edge_name (m, i, r, j) \<in> set (sender_list u m i)
    \<and> fst (drag_pressmove E m ev u) \<noteq> None"
proof -
  let ?e = "(m, i, r, j)" and ?n = "edge_name (m, i, r, j)"
  have ok: "canvas_ok s" and ls: "lists_ok s" using assms(1) by (simp_all add: graph_ok_def)
  have sl: "slots_exist (moduleArray s) ?e" using assms(1,2) by (rule graph_ok_key)
  note c = connectLines_result [OF ok sl, of E]
  have t: "moduleArray t = edit_ends (\<lambda>ns. ns @ [?n]) ?e (moduleArray s)"
    using assms(3) c by simp
  have okt: "canvas_ok t" by (rule canvas_ok_edit [OF ok sl t]) (use assms(3) c in simp)
  have slt: "slots_exist (moduleArray t) ?e"
    using sl edit_ends_props [OF sl] by (auto simp: t slots_exist_def)
  note d = deleteConnection_result [OF okt slt]
  have u: "moduleArray u = edit_ends (remove1 ?n) ?e (moduleArray t)"
    "overallConnections u = alist_del ?n (overallConnections t)"
    using assms(4) d by simp_all
  have m: "m < length (moduleArray s)" "i < length (senders (moduleArray s ! m))"
    using sl by (simp_all add: slots_exist_def)
  have len: "length (moduleArray t) = length (moduleArray s)" using edit_ends_props(1) [OF sl] by (simp add: t)
  have "?n \<in> set (senders (moduleArray s ! m) ! i)"
    using ls m assms(2) by (auto simp: lists_ok_def sender_list_def)
  then have n: "?n \<in> set (sender_list u m i)"
    using edit_ends_props(2) [OF slt, of m "remove1 ?n"] edit_ends_props(2) [OF sl, of m "\<lambda>ns. ns @ [?n]"] m len
    by (simp add: sender_list_def u t [symmetric] remove1_append)
  have gone: "map_of (overallConnections u) ?n = None"
    by (auto simp: u(2) alist_del_def map_of_eq_None_iff)
  have "canvas_ok u" by (rule canvas_ok_edit [OF okt slt u(1)]) (use assms(4) d in simp)
  moreover have lu: "length (moduleArray u) = length (moduleArray s)"
    using edit_ends_props(1) [OF slt] len by (simp add: u(1))
  ultimately have "module_ok (moduleArray u ! m)" using m by (simp add: canvas_ok_nth)
  moreover have "i < length (senders (moduleArray u ! m))"
    using edit_ends_props(2) [OF slt, of m "remove1 ?n"] edit_ends_props(2) [OF sl, of m "\<lambda>ns. ns @ [?n]"] m len
    by (simp add: u(1) t [symmetric])
  ultimately have h: "(Sender, i) \<in> set (dragHooks (moduleArray u ! m))" by (simp add: module_ok_def)
  let ?u = "upd_module m (move_module ev) u"
  let ?names = "concat (map (hook_names (moduleArray ?u ! m)) (dragHooks (moduleArray ?u ! m)))"
  have "?n \<in> set ?names"
    using h n m lu by (auto simp: hook_names_def sender_list_def move_module_def intro!: bexI [of _ "(Sender, i)"])
  then have "fst (forEach ?names (redraw_name E) ?u) \<noteq> None"
    by (rule forEach_throws [where P = "\<lambda>x. map_of (overallConnections x) ?n = None"])
      (simp_all add: gone redraw_name_keys redraw_name_throws)
  then have "fst (drag_pressmove E m ev u) \<noteq> None" by (simp add: drag_pressmove_def js_defs)
  moreover have "?e \<notin> edges u" using gone by (auto simp: edges_def map_of_eq_None_iff)
  ultimately show ?thesis using n c d by simp
qed

theorem redrawn_connection_throws_witness:
  "\<exists>t u. t = snd (connectLines sample_env (nat_str 0) (nat_str 0) (nat_str 1) (nat_str 1) fan_out_canvas)
     \<and> u = snd (deleteConnection (nat_str 0) (nat_str 0) (nat_str 1) (nat_str 1) t)
     \<and> fst (drag_pressmove sample_env 0 (5, 5) u) \<noteq> None"
  using redrawn_connection_throws [OF fan_out_graph(1) _ refl refl, of 0 0 1 1] fan_out_graph(2) by auto

end
