(* ===== verification/Config_Props.thy ===== *)
theory Config_Props
  imports Load_Graph Graph_Props
begin

text \<open>
  What the operations on the configuration file promise: \<open>writeJSON\<close> enters every module and
  connector of the canvas and loses nothing that was there; copying the data of one connector
  to another and submitting the form of a new connection make the connection one that loading
  draws again; saved positions are restored.
\<close>

section \<open>Merging the canvas into the file\<close>

text \<open>The connector counts of the module with a component's name, zero without one.\<close>

definition count_in :: "gui_module list \<Rightarrow> component \<Rightarrow> nat \<times> nat" where
  "count_in ms c = (case find (\<lambda>m. c_name c = Some (m_name m)) ms of
      None \<Rightarrow> (0, 0) | Some m \<Rightarrow> (length (chidSendArray m), length (chidReceiveArray m)))"

lemma merge_other: "c_name c \<noteq> Some (m_name m) \<Longrightarrow> merge_module c m = c"
  by (simp add: merge_module_def)

lemma merge_module_name [simp]: "c_name (merge_module c m) = c_name c"
  by (simp add: merge_module_def)

lemma merge_foldl_other:
  "(\<forall>m \<in> set ms. c_name c \<noteq> Some (m_name m)) \<Longrightarrow> foldl merge_module c ms = c"
  by (induction ms) (simp_all add: merge_other)

definition with_connections :: "component \<Rightarrow> component" where
  "with_connections c = (if c_conns c = None then c\<lparr>c_conns := Some no_connections\<rparr> else c)"

definition conns_of :: "component \<Rightarrow> connections" where
  "conns_of c = (case c_conns c of None \<Rightarrow> no_connections | Some k \<Rightarrow> k)"

lemma with_connections_conns: "c_conns (with_connections c) = Some (conns_of c)"
  by (simp add: with_connections_def conns_of_def split: option.split)

lemma pad_kind_0 [simp]: "pad_kind 0 xs = xs"
  by (cases xs) (simp_all add: pad_kind_def pad_eq)

text \<open>With distinct module names, merging pads the two lists to the counts of its module.\<close>

lemma merge_component_result:
  assumes "distinct (map m_name ms)"
  shows "merge_component ms c = c\<lparr>c_conns := Some
     \<lparr>snds = pad_kind (fst (count_in ms c)) (snds (conns_of c)),
      rcvs = pad_kind (snd (count_in ms c)) (rcvs (conns_of c))\<rparr>\<rparr>"
proof -
  let ?c = "with_connections c"
  have nm: "c_name ?c = c_name c" by (simp add: with_connections_def)
  have eq: "?c\<lparr>c_conns := x\<rparr> = c\<lparr>c_conns := x\<rparr>" for x by (simp add: with_connections_def)
  have mc: "merge_component ms c = foldl merge_module ?c ms"
    by (simp add: merge_component_def with_connections_def Let_def)
  have "foldl merge_module ?c ms = ?c\<lparr>c_conns := Some
     \<lparr>snds = pad_kind (fst (count_in ms c)) (snds (conns_of c)),
      rcvs = pad_kind (snd (count_in ms c)) (rcvs (conns_of c))\<rparr>\<rparr>"
    using assms
  proof (induction ms)
    case Nil
    then show ?case using with_connections_conns [of c]
      by (cases "with_connections c") (simp add: count_in_def)
  next
    case (Cons m ms)
    show ?case
    proof (cases "c_name c = Some (m_name m)")
      case True
      have "foldl merge_module (merge_module ?c m) ms = merge_module ?c m"
        using True Cons.prems nm by (intro merge_foldl_other) auto
      moreover have "merge_module ?c m = ?c\<lparr>c_conns := Some
          \<lparr>snds = pad_kind (length (chidSendArray m)) (snds (conns_of c)),
           rcvs = pad_kind (length (chidReceiveArray m)) (rcvs (conns_of c))\<rparr>\<rparr>"
        using True nm with_connections_conns [of c] by (simp add: merge_module_def)
      ultimately show ?thesis using True by (simp add: count_in_def)
    next
      case False
      then show ?thesis using Cons nm by (simp add: merge_other count_in_def)
    qed
  qed
  then show ?thesis using mc eq by simp
qed

text \<open>The list after padding: the old list, then fresh entries with the next indices.\<close>

lemma pad_kind_list:
  "opt_list (pad_kind n xs) = opt_list xs @ map chid_entry [length (opt_list xs)..<n]"
  by (cases xs) (simp_all add: pad_kind_def pad_eq opt_list_def)

lemma sends_conns: "sends c = opt_list (snds (conns_of c))" "recvs c = opt_list (rcvs (conns_of c))"
  by (simp_all add: sends_def recvs_def conns_of_def no_connections_def opt_list_def split: option.split)

lemma merge_component_lists:
  assumes "distinct (map m_name ms)"
  shows "sends (merge_component ms c)
      = sends c @ map chid_entry [length (sends c)..<fst (count_in ms c)]"
    "recvs (merge_component ms c)
      = recvs c @ map chid_entry [length (recvs c)..<snd (count_in ms c)]"
    "c_name (merge_component ms c) = c_name c" "c_host (merge_component ms c) = c_host c"
    "c_type (merge_component ms c) = c_type c" "c_port (merge_component ms c) = c_port c"
    "c_rest (merge_component ms c) = c_rest c"
  unfolding merge_component_result [OF assms]
  by (simp_all add: sends_conns pad_kind_list) (simp_all add: conns_of_def pad_kind_list)

lemma new_component_lists:
  "sends (new_component m) = map chid_entry [0..<length (chidSendArray m)]"
  "recvs (new_component m) = map chid_entry [0..<length (chidReceiveArray m)]"
  "c_name (new_component m) = Some (m_name m)" "c_host (new_component m) = Some (JStr (m_host m))"
  "c_type (new_component m) = Some (JStr (m_type m))" "c_port (new_component m) = Some (m_port m)"
  by (simp_all add: new_component_def sends_def recvs_def kind_entries_def opt_list_def)

definition new_modules :: "gui_module list \<Rightarrow> component list \<Rightarrow> gui_module list" where
  "new_modules ms cs = filter (\<lambda>m. Some (m_name m) \<notin> set (map c_name cs)) ms"

lemma writeJSON_comps:
  "components (writeJSON ms cf) = Some (map (merge_component ms) (comps cf) @ map new_component (new_modules ms (comps cf)))"
  by (simp add: writeJSON_def comps_def new_modules_def split: option.split)

lemma comps_writeJSON:
  "comps (writeJSON ms cf) = map (merge_component ms) (comps cf) @ map new_component (new_modules ms (comps cf))"
  by (simp add: comps_def [of "writeJSON ms cf"] writeJSON_comps)

section \<open>What merging keeps\<close>

lemma count_in_member:
  assumes "distinct (map m_name ms)" "m \<in> set ms" "c_name c = Some (m_name m)"
  shows "count_in ms c = (length (chidSendArray m), length (chidReceiveArray m))"
proof -
  have "find (\<lambda>m. c_name c = Some (m_name m)) ms = Some m"
    using assms
  proof (induction ms)
    case (Cons a ms)
    then show ?case by (cases "a = m") (auto simp: image_iff)
  qed simp
  then show ?thesis by (simp add: count_in_def)
qed

lemma new_modules_names:
  "distinct (map m_name ms) \<Longrightarrow> distinct (map m_name (new_modules ms cs))"
  by (simp add: new_modules_def distinct_map_filter)

lemma entry_without_transport: "sender_info (chid_entry k) = None" "chid_of (chid_entry k) = Some k"
  by (simp_all add: sender_info_def chid_entry_def obj_get_def is_tcp_def is_ipc_def eq_str_def
      eq_num_def chid_of_def)

lemma chids_ok_pad: "chids_ok es \<Longrightarrow> chids_ok (es @ map chid_entry [length es..<n])"
proof -
  assume es: "chids_ok es"
  have "distinct (map chid_of es @ map Some [length es..<n])"
  proof -
    have old: "Some k \<notin> set (map chid_of es)" if "length es \<le> k" for k
    proof
      assume "Some k \<in> set (map chid_of es)"
      then obtain e where "e \<in> set es" "chid_of e = Some k" by auto
      then show False using chids_okD [OF es, of e] that by auto
    qed
    have "set (map chid_of es) \<inter> set (map Some [length es..<n]) = {}"
    proof (rule equals0I)
      fix x assume x: "x \<in> set (map chid_of es) \<inter> set (map Some [length es..<n])"
      then obtain k where "x = Some k" "length es \<le> k" by auto
      then show False using old x by simp
    qed
    moreover have "distinct (map Some [length es..<n])" by (simp add: distinct_map)
    ultimately show ?thesis using es by (simp only: distinct_append chids_ok_def)
  qed
  moreover have "chid_of \<circ> chid_entry = Some" by (simp add: fun_eq_iff entry_without_transport)
  moreover have "case chid_of e of None \<Rightarrow> False | Some k \<Rightarrow> k < length (es @ map chid_entry [length es..<n])"
    if "e \<in> set es" for e
    using chids_okD [OF es that] by fastforce
  ultimately show "chids_ok (es @ map chid_entry [length es..<n])"
    by (auto simp: chids_ok_def list_all_iff entry_without_transport)
qed

lemma chids_ok_new: "chids_ok (map chid_entry [0..<n])"
  using chids_ok_pad [of "[]" n] by (simp add: chids_ok_def)

lemma file_ok_writeJSON:
  assumes "file_ok (comps cf)" "distinct (map m_name ms)"
  shows "file_ok (comps (writeJSON ms cf))"
proof -
  let ?cs = "comps cf"
  have names: "map c_name (comps (writeJSON ms cf))
      = map c_name ?cs @ map (\<lambda>m. Some (m_name m)) (new_modules ms ?cs)"
    by (simp add: comps_writeJSON merge_component_lists [OF assms(2)] new_component_lists)
  have "distinct (map (\<lambda>m. Some (m_name m)) (new_modules ms ?cs))"
    using new_modules_names [OF assms(2), of ?cs] by (simp add: distinct_map inj_on_def)
  moreover have "Some (m_name m) \<notin> set (map c_name ?cs)" if "m \<in> set (new_modules ms ?cs)" for m
    using that by (simp add: new_modules_def)
  ultimately have "distinct (map c_name (comps (writeJSON ms cf)))"
    unfolding names distinct_append using assms(1)
    by (simp add: file_ok_def disjoint_iff image_iff) metis
  moreover have "None \<notin> set (map c_name (comps (writeJSON ms cf)))"
    unfolding names using assms(1) by (auto simp: file_ok_def)
  moreover have "chids_ok (sends c) \<and> chids_ok (recvs c)" if c: "c \<in> set (comps (writeJSON ms cf))" for c
  proof -
    consider d where "d \<in> set ?cs" "c = merge_component ms d" | m where "c = new_component m"
      using c unfolding comps_writeJSON set_append set_map by blast
    then show ?thesis
    proof cases
      case 1
      then have "chids_ok (sends d)" "chids_ok (recvs d)"
        using assms(1) by (simp_all add: file_ok_def list_all_iff)
      then show ?thesis using 1(2) by (simp add: merge_component_lists [OF assms(2)] chids_ok_pad)
    qed (simp add: new_component_lists chids_ok_new)
  qed
  ultimately show ?thesis by (simp add: file_ok_def list_all_iff)
qed

lemma live_writeJSON:
  assumes "distinct (map m_name ms)"
  shows "live sd (comps (writeJSON ms cf)) k key i = live sd (comps cf) k key i"
proof -
  let ?cs = "comps cf" let ?ds = "comps (writeJSON ms cf)"
  have dead: "(\<exists>e \<in> set (es @ map chid_entry xs). chid_of e = Some i \<and> sender_info e = Some key)
      \<longleftrightarrow> (\<exists>e \<in> set es. chid_of e = Some i \<and> sender_info e = Some key)" for es xs
    using entry_without_transport(1) by auto
  consider "k < length ?cs" | "length ?cs \<le> k" "k < length ?ds" | "length ?ds \<le> k" by linarith
  then show ?thesis
  proof cases
    case 1
    then show ?thesis
      by (cases sd) (simp_all only: live_def comps_writeJSON side_list_def side.case nth_append length_map
          length_append if_True nth_map merge_component_lists [OF assms] dead, simp_all)
  next
    case 2
    then obtain m where m: "?ds ! k = new_component m"
      by (auto simp: comps_writeJSON nth_append)
    have "\<not> (\<exists>e \<in> set (side_list sd (new_component m)). chid_of e = Some i \<and> sender_info e = Some key)"
      by (cases sd) (simp_all add: side_list_def new_component_lists entry_without_transport)
    then show ?thesis using 2 m by (simp add: live_def)
  next
    case 3
    moreover have "length ?cs \<le> length ?ds" by (simp add: comps_writeJSON)
    ultimately show ?thesis by (simp add: live_def)
  qed
qed

lemma file_edges_writeJSON:
  assumes "distinct (map m_name ms)"
  shows "file_edges (comps (writeJSON ms cf)) = file_edges (comps cf)"
proof (rule set_eqI)
  fix e :: "nat \<times> nat \<times> nat \<times> nat"
  obtain m i r j where "e = (m, i, r, j)" by (cases e)
  then show "e \<in> file_edges (comps (writeJSON ms cf)) \<longleftrightarrow> e \<in> file_edges (comps cf)"
    by (simp add: file_edges_live live_writeJSON [OF assms])
qed

section \<open>A sample file\<close>

definition sample_out :: obj where
  "sample_out = [(''chid'', JNum 0), (''type'', JStr ''t''), (''transport'', JStr ''tcp''),
     (''host'', JStr ''*''), (''port'', JNum 8000)]"

definition sample_in :: obj where
  "sample_in = [(''chid'', JNum 0), (''type'', JStr ''t''), (''transport'', JStr ''tcp''),
     (''host'', JStr ''h''), (''port'', JNum 8000)]"

definition sample_comp :: "string \<Rightarrow> obj list \<Rightarrow> obj list \<Rightarrow> component" where
  "sample_comp n ss rs = \<lparr>c_name = Some n, c_host = Some (JStr ''h''), c_type = Some (JStr ''t''),
     c_port = Some (JNum 5000), c_conns = Some \<lparr>snds = Some ss, rcvs = Some rs\<rparr>, c_rest = []\<rparr>"

definition sample_file :: config where
  "sample_file = \<lparr>components = Some [sample_comp ''a'' [sample_out] [],
     sample_comp ''b'' [] [sample_in]], cf_rest = []\<rparr>"

lemma sample_file_comps:
  "components sample_file = Some (comps sample_file)"
  "comps sample_file = [sample_comp ''a'' [sample_out] [], sample_comp ''b'' [] [sample_in]]"
  by (simp_all add: sample_file_def comps_def)

lemma sample_comp_fields:
  "sends (sample_comp n ss rs) = ss" "recvs (sample_comp n ss rs) = rs"
  "c_name (sample_comp n ss rs) = Some n" "c_port (sample_comp n ss rs) = Some (JNum 5000)"
  by (simp_all add: sample_comp_def sends_def recvs_def opt_list_def)

lemma sample_entries:
  "chid_of sample_out = Some 0" "chid_of sample_in = Some 0"
  "sender_info sample_out = Some ''ttcp8000''" "sender_info sample_in = Some ''ttcp8000''"
proof -
  have "int_str 8000 = ''8000''" using int_str_of_nat [of 8000]
    by (simp add: nat_str.simps digit_def)
  then show "chid_of sample_out = Some 0" "chid_of sample_in = Some 0"
    "sender_info sample_out = Some ''ttcp8000''" "sender_info sample_in = Some ''ttcp8000''"
    by (simp_all add: sample_out_def sample_in_def chid_of_def obj_get_def sender_info_def eq_num_def
        is_tcp_def eq_str_def)
qed

lemma sample_file_ok: "file_ok (comps sample_file)"
  by (simp add: sample_file_comps file_ok_def sample_comp_fields chids_ok_def sample_entries)

lemma sample_file_edge: "(0, 0, 1, 0) \<in> file_edges (comps sample_file)"
  unfolding file_edges_live live_def
  by (simp add: sample_file_comps side_list_def sample_comp_fields sample_entries)

section \<open>Loading\<close>

text \<open>
  C1. Loading a file draws its graph: from a file whose components have distinct names and whose
  connectors have distinct indices in range, \<open>readJSON\<close> throws nothing and leaves a consistent
  canvas whose connections are exactly the pairs of a sender entry and a receiver entry with
  the same type, transport and port (path for IPC), every line drawn between its connectors.
\<close>

theorem load_draws_file_edges:
  assumes "components cf = Some cs" "file_ok cs"
  shows "\<exists>t. readJSON E ps cf init_canvas = (None, t) \<and> graph_ok t \<and> lines_drawn E t
     \<and> edges t = file_edges cs"
  using readJSON_result [OF assms, of E ps] by metis

theorem load_draws_file_edges_witness:
  "\<exists>t. readJSON sample_env None sample_file init_canvas = (None, t) \<and> (0, 0, 1, 0) \<in> edges t"
  using load_draws_file_edges [OF sample_file_comps(1) sample_file_ok, of sample_env None]
    sample_file_edge by auto

text \<open>
  C16. Loading places the modules of the file: module \<open>k\<close> of the canvas has the name, host, type
  and (if given) port of component \<open>k\<close>, as many senders and receivers as the component has
  entries, and stands at its saved position or, without one, at \<open>(50 + 50 k, 75 + 75 k)\<close>.
\<close>

theorem load_places_modules:
  assumes "components cf = Some cs" "file_ok cs"
  shows "length (moduleArray (snd (readJSON E ps cf init_canvas))) = length cs
     \<and> (\<forall>k < length cs. module_from_file ps cs k (moduleArray (snd (readJSON E ps cf init_canvas)) ! k))"
  using readJSON_result [OF assms, of E ps] by (metis loaded_modules_def snd_conv)

theorem load_places_modules_witness:
  "cont_x (moduleArray (snd (readJSON sample_env None sample_file init_canvas)) ! 1) = 100"
  using load_places_modules [OF sample_file_comps(1) sample_file_ok, of sample_env None]
  by (simp add: sample_file_comps(2) module_from_file_def default_position_def)

text \<open>
  C17. Automatic ports after loading are fresh among the ports of their kind: the ports drawn for
  new connections are different from one another and from every port of a connector of the file,
  the ports drawn for new modules are different from one another and from every port the file
  gives to a component. (The two kinds are not kept apart: see \<open>port_kinds_collide\<close>.)
\<close>

theorem load_ports_fresh:
  assumes "components cf = Some cs" "file_ok cs" "t = snd (readJSON E ps cf init_canvas)"
    and "c \<in> set cs" "0 \<le> i"
    and "fst (draw_ports n ''connection'' (prt t)) = Inr qs" "fst (draw_ports l ''module'' (prt t)) = Inr ms"
  shows "(Some (JNum i) \<in> set (conn_ports c) \<longrightarrow> i \<notin> set qs) \<and> distinct qs \<and> length qs = n
    \<and> (c_port c = Some (JNum i) \<longrightarrow> i \<notin> set ms) \<and> distinct ms \<and> length ms = l"
proof -
  obtain p q where
    p: "PORTCONNECTION (prt t) = PORTCONNECTION (snd (portRange ''connection'' (higher_connection cs) p))"
    and q: "prt t = snd (portRange ''module'' (higher_module cs) q)"
    using readJSON_result [OF assms(1,2), of E ps] assms(3) by (metis snd_conv)
  have "i \<notin> set qs" if "Some (JNum i) \<in> set (conn_ports c)"
  proof -
    have "i \<le> higher_connection cs" unfolding higher_connection_def
      using higher_foldl [of "-1" "concat (map conn_ports cs)"] that assms(4) by auto
    then have "i < PORTCONNECTION (prt t)" unfolding p using set_port_above(1) assms(5) by simp
    then show ?thesis using conns.draws_fresh [OF assms(6)] by force
  qed
  moreover have "i \<notin> set ms" if "c_port c = Some (JNum i)"
  proof -
    have "i \<le> higher_module cs" unfolding higher_module_def
      using higher_foldl [of "-1" "map c_port cs"] that assms(4) by (metis image_eqI image_set)
    then have "i < PORTMODULE (prt t)" unfolding q using set_port_above(2) assms(5) by simp
    then show ?thesis using modules.draws_fresh [OF assms(7)] by force
  qed
  ultimately show ?thesis
    using conns.draws_distinct [OF assms(6)] modules.draws_distinct [OF assms(7)] by simp
qed

theorem load_ports_fresh_witness:
  "\<exists>qs. fst (draw_ports 2 ''connection'' (prt (snd (readJSON sample_env None sample_file init_canvas)))) = Inr qs
     \<and> 8000 \<notin> set qs"
proof -
  let ?p = "prt (snd (readJSON sample_env None sample_file init_canvas))"
  obtain qs ms where d: "fst (draw_ports 2 ''connection'' ?p) = Inr qs" "fst (draw_ports 2 ''module'' ?p) = Inr ms"
    using conns.draws_upto modules.draws_upto by blast
  have "Some (JNum 8000) \<in> set (conn_ports (sample_comp ''b'' [] [sample_in]))"
    by (simp add: conn_ports_def sample_comp_def opt_list_def sample_in_def obj_get_def)
  then have "8000 \<notin> set qs \<and> distinct qs"
    using load_ports_fresh [OF sample_file_comps(1) sample_file_ok refl _ _ d, of "sample_comp ''b'' [] [sample_in]" 8000]
    by (simp add: sample_file_comps(2))
  then show ?thesis using d by blast
qed

text \<open>A connection may be given the port of a component: the two counters know nothing of each other.\<close>

definition close_file :: config where
  "close_file = \<lparr>components = Some [(sample_comp ''a''
     [[(''chid'', JNum 0), (''type'', JStr ''t''), (''transport'', JStr ''tcp''),
       (''host'', JStr ''*''), (''port'', JNum 7999)]] [])\<lparr>c_port := Some (JNum 8000)\<rparr>], cf_rest = []\<rparr>"

lemma port_kinds_collide:
  "\<exists>c \<in> set (comps close_file). \<exists>q. c_port c = Some (JNum q) \<and>
     fst (draw_ports 1 ''connection'' (prt (snd (readJSON E ps close_file init_canvas)))) = Inr [q]"
proof -
  let ?cs = "comps close_file"
  have cs: "components close_file = Some ?cs" by (simp add: close_file_def comps_def)
  have ok: "file_ok ?cs"
    by (simp add: close_file_def comps_def file_ok_def sample_comp_def sends_def recvs_def opt_list_def
        chids_ok_def chid_of_def obj_get_def)
  have h: "higher_connection ?cs = 7999"
    by (simp add: close_file_def comps_def higher_connection_def conn_ports_def sample_comp_def
        opt_list_def obj_get_def higher_def)
  obtain p where "PORTCONNECTION (prt (snd (readJSON E ps close_file init_canvas))) =
      PORTCONNECTION (snd (portRange ''connection'' (higher_connection ?cs) p))"
    using readJSON_result [OF cs ok, of E ps] by (metis snd_conv)
  then have "PORTCONNECTION (prt (snd (readJSON E ps close_file init_canvas))) = 8000" by (simp add: h)
  then show ?thesis by (simp add: close_file_def comps_def sample_comp_def)
qed

text \<open>
  Loading can make the generator repeat itself: a component without a port gets an automatic
  one while the modules are placed; afterwards the generator restarts above the largest port
  written in the file, ignoring the automatic ones. With one component without port and one with
  port 4999, the first module holds port 5000, and so does the next new module.
\<close>

definition reissue_file :: config where
  "reissue_file = \<lparr>components = Some
     [(sample_comp ''a'' [] [])\<lparr>c_port := None\<rparr>, (sample_comp ''b'' [] [])\<lparr>c_port := Some (JNum 4999)\<rparr>],
     cf_rest = []\<rparr>"

theorem load_can_reissue_port:
  "let s = snd (readJSON E None reissue_file init_canvas);
       t = snd (dragAndDrop E (Some ''c'') None None (Some JNull) None s)
   in length (moduleArray t) = 3
     \<and> m_port (moduleArray t ! 0) = JNum 5000 \<and> m_port (moduleArray t ! 2) = JNum 5000"
  by (simp add: Let_def readJSON_def reissue_file_def place_modules_def dragAndDrop_result
      upt_conv_Cons js_defs readJSON_helper_def load_component_def sample_comp_def opt_list_def
      connect_all_def set_port_result init_canvas_def init_ports_def higher_module_def higher_def
      higher_connection_def conn_ports_def find_module_def numeral_2_eq_2)

section \<open>Writing the canvas into the file\<close>

lemma writeJSON_covers:
  assumes "distinct (map m_name ms)" and m: "m \<in> set ms"
  shows "\<exists>d \<in> set (comps (writeJSON ms cf)). c_name d = Some (m_name m)
    \<and> length (chidSendArray m) \<le> length (sends d) \<and> length (chidReceiveArray m) \<le> length (recvs d)"
proof (cases "Some (m_name m) \<in> set (map c_name (comps cf))")
  case True
  have le: "a \<le> b + (a - b)" for a b :: nat by simp
  obtain c where c: "c \<in> set (comps cf)" "c_name c = Some (m_name m)" using True by auto
  then have "merge_component ms c \<in> set (comps (writeJSON ms cf))" by (simp add: comps_writeJSON)
  then show ?thesis using count_in_member [OF assms c(2)] c(2)
    by (intro bexI [of _ "merge_component ms c"] conjI)
      (simp_all add: merge_component_lists [OF assms(1)] le)
next
  case False
  then have "new_component m \<in> set (comps (writeJSON ms cf))"
    using m by (simp add: comps_writeJSON new_modules_def)
  then show ?thesis by (intro bexI [of _ "new_component m"]) (simp_all add: new_component_lists)
qed

text \<open>
  C10. \<open>writeJSON\<close> loses nothing and covers the canvas: with distinct module names, every
  component of the file stays at its place with its name, host, type, port and other data, and
  its connector entries are kept in order, new ones only being appended; and every module of
  the canvas has a component of its name with at least as many senders and receivers.
\<close>

theorem write_covers_canvas:
  assumes "distinct (map m_name ms)"
  shows "(\<forall>k < length (comps cf). let c = comps cf ! k; d = comps (writeJSON ms cf) ! k in
      c_name d = c_name c \<and> c_host d = c_host c \<and> c_type d = c_type c \<and> c_port d = c_port c
      \<and> c_rest d = c_rest c
      \<and> take (length (sends c)) (sends d) = sends c \<and> take (length (recvs c)) (recvs d) = recvs c)
    \<and> (\<forall>m \<in> set ms. \<exists>d \<in> set (comps (writeJSON ms cf)). c_name d = Some (m_name m)
         \<and> length (chidSendArray m) \<le> length (sends d) \<and> length (chidReceiveArray m) \<le> length (recvs d))"
proof -
  have "comps (writeJSON ms cf) ! k = merge_component ms (comps cf ! k)" if "k < length (comps cf)" for k
    using that by (simp add: comps_writeJSON nth_append)
  moreover have "\<exists>d \<in> set (comps (writeJSON ms cf)). c_name d = Some (m_name m)
      \<and> length (chidSendArray m) \<le> length (sends d) \<and> length (chidReceiveArray m) \<le> length (recvs d)"
    if "m \<in> set ms" for m
    by (rule writeJSON_covers [OF assms that])
  ultimately show ?thesis by (simp add: merge_component_lists [OF assms] Let_def)
qed

lemma two_names: "distinct (map m_name (moduleArray sample_canvas))"
  "map m_name (moduleArray sample_canvas) = [''a'', ''b'']"
proof -
  have ok: "canvas_ok two_modules" "length (moduleArray two_modules) = 2" by (rule two_modules_facts)+
  have "module_ok (moduleArray two_modules ! 0)" "module_ok (moduleArray two_modules ! Suc 0)"
    using canvas_ok_nth [OF ok(1)] ok(2) by simp_all
  moreover have "m_name (moduleArray two_modules ! 0) = ''a''" "m_name (moduleArray two_modules ! Suc 0) = ''b''"
    by (simp_all add: two_modules_def dragAndDrop_result init_canvas_def)
  ultimately have "m_name (moduleArray sample_canvas ! 0) = ''a''"
    "m_name (moduleArray sample_canvas ! Suc 0) = ''b''"
    using ok(2) by (simp_all add: sample_canvas_def add_sender_fields add_receiver_fields module_ok_add_receiver)
  moreover obtain x y where xy: "moduleArray sample_canvas = [x, y]"
    using sample_canvas_facts(2) by (auto simp: length_Suc_conv numeral_2_eq_2)
  ultimately show "map m_name (moduleArray sample_canvas) = [''a'', ''b'']" by simp
  then show "distinct (map m_name (moduleArray sample_canvas))" by simp
qed

theorem write_covers_canvas_witness:
  "take 1 (sends (comps (writeJSON (moduleArray sample_canvas) sample_file) ! 0)) = [sample_out]"
  using conjunct1 [OF write_covers_canvas [OF two_names(1), of sample_file], rule_format, of 0]
  by (simp add: sample_file_comps(2) sample_comp_fields Let_def)

text \<open>
  Writing twice is writing once: with distinct module names \<open>writeJSON\<close> does not change a
  file it has produced from the same canvas.
\<close>

lemma pad_kind_twice: "pad_kind n (pad_kind n xs) = pad_kind n xs"
  by (cases xs) (auto simp: pad_kind_def pad_eq)

lemma pad_kind_entries: "pad_kind n (kind_entries n) = kind_entries n"
  by (simp add: pad_kind_def kind_entries_def pad_eq)

lemma merge_twice:
  assumes "distinct (map m_name ms)"
  shows "merge_component ms (merge_component ms c) = merge_component ms c"
proof -
  let ?c = "merge_component ms c"
  have "c_name ?c = c_name c" by (rule merge_component_lists(3) [OF assms])
  then have "count_in ms ?c = count_in ms c" by (simp add: count_in_def)
  moreover have "conns_of ?c = \<lparr>snds = pad_kind (fst (count_in ms c)) (snds (conns_of c)),
      rcvs = pad_kind (snd (count_in ms c)) (rcvs (conns_of c))\<rparr>"
    by (simp add: merge_component_result [OF assms] conns_of_def)
  ultimately show ?thesis
    unfolding merge_component_result [OF assms, of ?c]
    by (simp add: pad_kind_twice) (simp add: merge_component_result [OF assms])
qed

lemma merge_new:
  assumes "distinct (map m_name ms)" "m \<in> set ms"
  shows "merge_component ms (new_component m) = new_component m"
proof -
  have "count_in ms (new_component m) = (length (chidSendArray m), length (chidReceiveArray m))"
    by (rule count_in_member [OF assms]) (simp add: new_component_lists)
  then show ?thesis unfolding merge_component_result [OF assms(1)]
    by (simp add: new_component_def conns_of_def pad_kind_entries)
qed

theorem write_twice:
  assumes "distinct (map m_name ms)"
  shows "writeJSON ms (writeJSON ms cf) = writeJSON ms cf"
proof -
  let ?d = "writeJSON ms cf"
  have "Some (m_name m) \<in> set (map c_name (comps ?d))" if "m \<in> set ms" for m
    using that
    by (auto simp: comps_writeJSON new_modules_def merge_component_lists [OF assms] new_component_lists image_iff)
  then have "new_modules ms (comps ?d) = []" by (simp add: new_modules_def filter_empty_conv)
  moreover have "map (merge_component ms) (comps ?d) = comps ?d"
    using merge_twice [OF assms] merge_new [OF assms]
    by (auto simp: comps_writeJSON new_modules_def)
  ultimately have "components (writeJSON ms ?d) = components ?d"
    using writeJSON_comps [of ms ?d] writeJSON_comps [of ms cf] comps_writeJSON [of ms cf] by simp
  moreover have "cf_rest (writeJSON ms x) = cf_rest x" for x
    by (simp add: writeJSON_def split: option.split)
  ultimately show ?thesis by (cases "writeJSON ms ?d"; cases ?d) (metis config.select_convs)
qed

theorem write_twice_witness:
  "writeJSON (moduleArray sample_canvas) (writeJSON (moduleArray sample_canvas) sample_file)
     = writeJSON (moduleArray sample_canvas) sample_file"
  by (rule write_twice [OF two_names(1)])

section \<open>Saving and loading\<close>

text \<open>
  C9. Saving and reloading keeps the graph: after \<open>writeJSON\<close> merged a canvas with distinct
  module names into a well-formed file, loading the result succeeds and draws exactly the
  connections of the file before, and every module of the canvas is there again with at least
  as many senders and receivers.
\<close>

theorem write_then_load:
  assumes "file_ok (comps cf)" "distinct (map m_name ms)"
  shows "\<exists>t. readJSON E ps (writeJSON ms cf) init_canvas = (None, t) \<and> graph_ok t
    \<and> edges t = file_edges (comps cf)
    \<and> (\<forall>m \<in> set ms. \<exists>k < length (moduleArray t). m_name (moduleArray t ! k) = m_name m
         \<and> length (chidSendArray m) \<le> length (senders (moduleArray t ! k))
         \<and> length (chidReceiveArray m) \<le> length (receivers (moduleArray t ! k)))"
proof -
  let ?ds = "comps (writeJSON ms cf)"
  have ds: "components (writeJSON ms cf) = Some ?ds" by (simp add: writeJSON_comps comps_writeJSON)
  obtain t where t: "readJSON E ps (writeJSON ms cf) init_canvas = (None, t)" "graph_ok t"
    "edges t = file_edges ?ds" "loaded_modules ps ?ds t"
    using readJSON_result [OF ds file_ok_writeJSON [OF assms], of E ps] by metis
  have "\<exists>k < length (moduleArray t). m_name (moduleArray t ! k) = m_name m
         \<and> length (chidSendArray m) \<le> length (senders (moduleArray t ! k))
         \<and> length (chidReceiveArray m) \<le> length (receivers (moduleArray t ! k))" if m: "m \<in> set ms" for m
  proof -
    obtain d where d: "d \<in> set ?ds" "c_name d = Some (m_name m)"
      "length (chidSendArray m) \<le> length (sends d)" "length (chidReceiveArray m) \<le> length (recvs d)"
      using writeJSON_covers [OF assms(2) m] by blast
    then obtain k where k: "k < length ?ds" "?ds ! k = d" by (auto simp: in_set_conv_nth)
    then have "module_from_file ps ?ds k (moduleArray t ! k)" "k < length (moduleArray t)"
      using t(4) by (simp_all add: loaded_modules_def)
    then show ?thesis using d k(2) by (intro exI [of _ k]) (simp add: module_from_file_def)
  qed
  then show ?thesis using t file_edges_writeJSON [OF assms(2), of cf] by blast
qed

theorem write_then_load_witness:
  "\<exists>t. readJSON sample_env None (writeJSON (moduleArray sample_canvas) sample_file) init_canvas = (None, t)
     \<and> (0, 0, 1, 0) \<in> edges t"
  using write_then_load [OF sample_file_ok two_names(1), of sample_env None] sample_file_edge by auto

text \<open>
  C18. Saved positions are restored: loading with the positions \<open>saveModulesPosition\<close> wrote puts
  every module whose name was saved where it stood (names being distinct on the canvas).
\<close>

theorem saved_positions_restored:
  assumes "components cf = Some cs" "file_ok cs" "distinct (map m_name ms)"
    and "m \<in> set ms" "k < length cs" "c_name (cs ! k) = Some (m_name m)"
  shows "getPosition (moduleArray (snd (readJSON E (Some (saveModulesPosition ms)) cf init_canvas)) ! k)
    = getPosition m"
proof -
  let ?q = "saveModulesPosition ms"
  obtain t where t: "readJSON E (Some ?q) cf init_canvas = (None, t)" "loaded_modules (Some ?q) cs t"
    using readJSON_result [OF assms(1,2), of E "Some ?q"] by metis
  have "map_of ?q (m_name m) = Some (getPosition m)"
    using assms(3,4) by (auto simp: saveModulesPosition_def comp_def intro!: map_of_is_SomeI)
  then have "saved_position ?q (cs ! k) = Some (getPosition m)"
    using assms(6) by (simp add: saved_position_def)
  then show ?thesis
    using t assms(5) by (simp add: loaded_modules_def module_from_file_def getPosition_def)
qed

theorem saved_positions_restored_witness:
  "getPosition (moduleArray (snd (readJSON sample_env
      (Some (saveModulesPosition (moduleArray sample_canvas))) sample_file init_canvas)) ! 1)
   = getPosition (moduleArray sample_canvas ! 1)"
proof -
  have "m_name (moduleArray sample_canvas ! 1) = map m_name (moduleArray sample_canvas) ! 1"
    using sample_canvas_facts(2) by simp
  then have n: "m_name (moduleArray sample_canvas ! 1) = ''b''" unfolding two_names(2) by simp
  show ?thesis
    by (rule saved_positions_restored [OF sample_file_comps(1) sample_file_ok two_names(1)])
      (use sample_canvas_facts(2) n in \<open>simp_all add: sample_file_comps(2) sample_comp_fields\<close>)
qed

end
