(* ===== verification/Copy_Props.thy ===== *)
theory Copy_Props
  imports Config_Props
begin

text \<open>
  How the file follows a connection drawn on the canvas: the callbacks of \<open>copyConnectors\<close> and
  \<open>submitNewConnection\<close> give both connectors the same connection data, so that loading the file
  draws the connection.
\<close>

section \<open>Connector entries\<close>

lemma chid_of_get: "chid_of e = Some k \<longleftrightarrow> obj_get e ''chid'' = Some (JNum (int k))"
  by (auto simp: chid_of_def split: option.splits json.splits if_splits)

lemma eq_str_chid: "chid_of e = Some k \<Longrightarrow> eq_str (obj_get e ''chid'') (nat_str i) \<longleftrightarrow> k = i"
  by (simp add: chid_of_get)

text \<open>The entry of connector \<open>i\<close> in a list with distinct indices, and its position.\<close>

lemma chids_ok_position:
  assumes "chids_ok es" "e \<in> set es" "chid_of e = Some i"
  obtains n where "n < length es" "es ! n = e" "\<And>k. k < length es \<Longrightarrow> chid_of (es ! k) = Some i \<longleftrightarrow> k = n"
proof -
  obtain n where n: "n < length es" "es ! n = e" using assms(2) by (auto simp: in_set_conv_nth)
  have "distinct (map chid_of es)" using assms(1) by (simp add: chids_ok_def)
  then have "chid_of (es ! k) = Some i \<longleftrightarrow> k = n" if "k < length es" for k
    using n that assms(3) by (metis (mono_tags, lifting) length_map nth_eq_iff_index_eq nth_map)
  with n show thesis by (rule that)
qed

lemma last_chid_unique:
  assumes "\<And>k. k < length es \<Longrightarrow> eq_str (obj_get (es ! k) ''chid'') v \<longleftrightarrow> k = n" "n < length es"
  shows "last_chid es v = Some n"
proof -
  let ?f = "\<lambda>acc i. if eq_str (obj_get (es ! i) ''chid'') v then Some i else acc"
  have "foldl ?f None [0..<l] = (if n < l then Some n else None)" if "l \<le> length es" for l
    using that
  proof (induction l)
    case (Suc l)
    then show ?case using assms(1) [of l] by (cases "l = n") simp_all
  qed simp
  then show ?thesis using assms(2) by (simp add: last_chid_def)
qed

lemma chids_ok_last:
  assumes "chids_ok es" "n < length es" "\<And>k. k < length es \<Longrightarrow> chid_of (es ! k) = Some i \<longleftrightarrow> k = n"
  shows "last_chid es (nat_str i) = Some n"
proof (rule last_chid_unique [OF _ assms(2)])
  fix k assume k: "k < length es"
  then obtain c where "chid_of (es ! k) = Some c" using chids_okD [OF assms(1)] by (metis nth_mem)
  then show "eq_str (obj_get (es ! k) ''chid'') (nat_str i) \<longleftrightarrow> k = n"
    using assms(3) [OF k] by (simp add: eq_str_chid)
qed

section \<open>Replacing one entry\<close>

lemma side_list_kind:
  "side_list sd c = (case c_conns c of None \<Rightarrow> [] | Some k \<Rightarrow> opt_list (kind_list sd k))"
  by (cases sd) (simp_all add: side_list_def sends_def recvs_def kind_list_def split: option.split)

lemma entry_list_side:
  assumes "p < length (comps cf)" "side_list sd (comps cf ! p) \<noteq> []"
  shows "entry_list sd cf p = Some (side_list sd (comps cf ! p))"
  using assms
  by (auto simp: entry_list_def side_list_kind opt_list_def split: option.splits)

lemma comps_set_entry:
  assumes "p < length (comps cf)"
  shows "length (comps (set_entry sd p n f cf)) = length (comps cf)"
    and "side_list sd' (comps (set_entry sd p n f cf) ! k)
      = (if k = p \<and> sd' = sd then (side_list sd (comps cf ! p))[n := f (side_list sd (comps cf ! p) ! n)]
         else side_list sd' (comps cf ! k))"
    and "map c_name (comps (set_entry sd p n f cf)) = map c_name (comps cf)"
    and "c_host (comps (set_entry sd p n f cf) ! k) = c_host (comps cf ! k)"
proof -
  obtain cs where cs: "components cf = Some cs" "comps cf = cs" "p < length cs"
    using assms by (auto simp: comps_def split: option.splits)
  let ?g = "\<lambda>c. c\<lparr>c_conns := map_option
        (\<lambda>cn. case kind_list sd cn of None \<Rightarrow> cn | Some xs \<Rightarrow> set_kind sd (xs[n := f (xs ! n)]) cn) (c_conns c)\<rparr>"
  have eq: "comps (set_entry sd p n f cf) = cs[p := ?g (cs ! p)]"
    using cs(1) by (simp add: set_entry_def upd_comp_def comps_def)
  show "length (comps (set_entry sd p n f cf)) = length (comps cf)"
    "c_host (comps (set_entry sd p n f cf) ! k) = c_host (comps cf ! k)"
    unfolding eq cs(2) using cs(3) by (cases "k = p"; simp)+
  show "map c_name (comps (set_entry sd p n f cf)) = map c_name (comps cf)"
    unfolding eq cs(2) using cs(3) by (simp add: map_update) (metis length_map list_update_id nth_map)
  have "side_list sd' (?g c) = (if sd' = sd then (side_list sd c)[n := f (side_list sd c ! n)] else side_list sd' c)"
    for c
    by (cases "c_conns c"; cases sd; cases sd')
      (auto simp: side_list_kind kind_list_def set_kind_def opt_list_def split: option.splits)
  then show "side_list sd' (comps (set_entry sd p n f cf) ! k)
      = (if k = p \<and> sd' = sd then (side_list sd (comps cf ! p))[n := f (side_list sd (comps cf ! p) ! n)]
         else side_list sd' (comps cf ! k))"
    unfolding eq cs(2) using cs(3) by (cases "k = p") simp_all
qed

lemma live_set_entry:
  assumes "p < length (comps cf)" "n < length (side_list sd (comps cf ! p))"
    and "\<And>k. k < length (side_list sd (comps cf ! p)) \<Longrightarrow> chid_of (side_list sd (comps cf ! p) ! k) = Some i \<longleftrightarrow> k = n"
    and "chid_of (f (side_list sd (comps cf ! p) ! n)) = Some i"
  shows "live sd' (comps (set_entry sd p n f cf)) k key x \<longleftrightarrow>
     (if (sd', k, x) = (sd, p, i) then sender_info (f (side_list sd (comps cf ! p) ! n)) = Some key
      else live sd' (comps cf) k key x)"
proof (cases "sd' = sd \<and> k = p")
  case True
  let ?es = "side_list sd (comps cf ! p)"
  have idx: "live s cs p key x \<longleftrightarrow> p < length cs \<and> (\<exists>l < length (side_list s (cs ! p)).
      chid_of (side_list s (cs ! p) ! l) = Some x \<and> sender_info (side_list s (cs ! p) ! l) = Some key)"
    for cs s
    unfolding live_def by (metis in_set_conv_nth)
  have nth: "?es[n := f (?es ! n)] ! l = (if l = n then f (?es ! n) else ?es ! l)" if "l < length ?es" for l
    using that by simp
  let ?new = "?es[n := f (?es ! n)]"
  have new: "live sd' (comps (set_entry sd p n f cf)) k key x \<longleftrightarrow>
      (\<exists>l < length ?es. chid_of (?new ! l) = Some x \<and> sender_info (?new ! l) = Some key)"
    using True assms(1) by (simp add: idx comps_set_entry [OF assms(1)])
  show ?thesis
  proof (cases "x = i")
    case True
    then have "(\<exists>l < length ?es. chid_of (?new ! l) = Some x \<and> sender_info (?new ! l) = Some key)
        \<longleftrightarrow> sender_info (f (?es ! n)) = Some key"
      using nth assms(2-4) by metis
    then show ?thesis using new True \<open>sd' = sd \<and> k = p\<close> by simp
  next
    case False
    then have "(\<exists>l < length ?es. chid_of (?new ! l) = Some x \<and> sender_info (?new ! l) = Some key)
       \<longleftrightarrow> (\<exists>l < length ?es. chid_of (?es ! l) = Some x \<and> sender_info (?es ! l) = Some key)"
      using assms(2-4) nth by (metis option.inject)
    then show ?thesis using new False \<open>sd' = sd \<and> k = p\<close> assms(1) by (simp add: idx)
  qed
next
  case False
  then show ?thesis by (auto simp: live_def comps_set_entry [OF assms(1)])
qed

section \<open>Copying connection data\<close>

text \<open>The two copies carry over what loading compares; the index of the target stays.\<close>

lemma copy_tcp_info:
  "is_tcp (obj_get src ''transport'') \<Longrightarrow> sender_info (copy_tcp h src dst) = sender_info src"
  "chid_of (copy_tcp h src dst) = chid_of dst"
  by (simp_all add: copy_tcp_def sender_info_def chid_of_def)

lemma copy_ipc_info:
  "is_ipc (obj_get src ''transport'') \<Longrightarrow> \<not> is_tcp (obj_get src ''transport'') \<Longrightarrow>
     \<not> eq_num (obj_get src ''port'') 0 \<Longrightarrow> \<not> eq_num (obj_get dst ''port'') 0 \<Longrightarrow>
     sender_info (copy_ipc src dst) = sender_info src"
  "chid_of (copy_ipc src dst) = chid_of dst"
  by (simp_all add: copy_ipc_def sender_info_def chid_of_def)

text \<open>Everything the callback relies on: the file lists the two modules and both connectors.\<close>

definition both_listed :: "gui_module list \<Rightarrow> nat \<times> nat \<times> nat \<times> nat \<Rightarrow> nat \<Rightarrow> nat \<Rightarrow> config \<Rightarrow> obj \<Rightarrow> obj \<Rightarrow> bool" where
  "both_listed ms = (\<lambda>(m, i, r, j) p q cf es er.
     file_ok (comps cf) \<and> p < length (comps cf) \<and> q < length (comps cf)
     \<and> c_name (comps cf ! p) = Some (m_name (ms ! m)) \<and> c_name (comps cf ! q) = Some (m_name (ms ! r))
     \<and> es \<in> set (sends (comps cf ! p)) \<and> chid_of es = Some i
     \<and> er \<in> set (recvs (comps cf ! q)) \<and> chid_of er = Some j)"

lemma hits_name:
  assumes "file_ok cs" "p < length cs" "c_name (cs ! p) = Some (m_name (ms ! m))"
  shows "hits 0 (name_is ms (Some m)) cs p"
proof -
  have "distinct (map c_name cs)" using assms(1) by (simp add: file_ok_def)
  then have "c_name (cs ! k) = c_name (cs ! p) \<longleftrightarrow> k = p" if "k < length cs" for k
    using that assms(2) by (metis length_map nth_eq_iff_index_eq nth_map)
  then show ?thesis using assms(3) by (simp add: hits_def name_is_def)
qed

text \<open>The callback up to the copying: it finds the components and the entries.\<close>

lemma copyConnectors_found:
  assumes b: "both_listed ms (m, i, r, j) p q cf es er"
  obtains n l where
    "n < length (sends (comps cf ! p))" "sends (comps cf ! p) ! n = es"
    "\<And>k. k < length (sends (comps cf ! p)) \<Longrightarrow> chid_of (sends (comps cf ! p) ! k) = Some i \<longleftrightarrow> k = n"
    "l < length (recvs (comps cf ! q))" "recvs (comps cf ! q) ! l = er"
    "\<And>k. k < length (recvs (comps cf ! q)) \<Longrightarrow> chid_of (recvs (comps cf ! q) ! k) = Some j \<longleftrightarrow> k = l"
    "entry Sender cf (Some p) (Some n) = Some es" "entry Receiver cf (Some q) (Some l) = Some er"
    "\<And>from a c. copyConnectors_success from (Some m) (Some r) ms (Some (a, nat_str i, c, nat_str j)) cf =
       (if from = ''receiver'' then copyFromReceiver (Some p) (Some n) (Some q) (Some l) cf
        else if from = ''sender'' then copyFromSender (Some p) (Some n) (Some q) (Some l) cf else Inr cf)"
proof -
  let ?cs = "comps cf"
  have f: "file_ok ?cs" "p < length ?cs" "q < length ?cs" "es \<in> set (sends (?cs ! p))"
    "er \<in> set (recvs (?cs ! q))" "chid_of es = Some i" "chid_of er = Some j"
    using b by (simp_all add: both_listed_def)
  have ok: "chids_ok (sends (?cs ! p))" "chids_ok (recvs (?cs ! q))"
    using chids_ok_side [OF f(1,2), of Sender] chids_ok_side [OF f(1,3), of Receiver]
    by (simp_all add: side_list_def)
  obtain n where n: "n < length (sends (?cs ! p))" "sends (?cs ! p) ! n = es"
    "\<And>k. k < length (sends (?cs ! p)) \<Longrightarrow> chid_of (sends (?cs ! p) ! k) = Some i \<longleftrightarrow> k = n"
    using chids_ok_position [OF ok(1) f(4,6)] by blast
  obtain l where l: "l < length (recvs (?cs ! q))" "recvs (?cs ! q) ! l = er"
    "\<And>k. k < length (recvs (?cs ! q)) \<Longrightarrow> chid_of (recvs (?cs ! q) ! k) = Some j \<longleftrightarrow> k = l"
    using chids_ok_position [OF ok(2) f(5,7)] by blast
  have e: "entry_list Sender cf p = Some (sends (?cs ! p))" "entry_list Receiver cf q = Some (recvs (?cs ! q))"
  proof -
    have "sends (?cs ! p) \<noteq> []" "recvs (?cs ! q) \<noteq> []" using f(4,5) by force+
    then show "entry_list Sender cf p = Some (sends (?cs ! p))"
      "entry_list Receiver cf q = Some (recvs (?cs ! q))"
      using entry_list_side [OF f(2), of Sender] entry_list_side [OF f(3), of Receiver]
      by (simp_all add: side_list_def)
  qed
  have "find_two (name_is ms (Some r)) (name_is ms (Some m)) True 0 ?cs (None, None) = (Some q, Some p)"
  proof -
    have "hits 0 (name_is ms (Some r)) ?cs q" "hits 0 (name_is ms (Some m)) ?cs p"
      using b by (auto intro: hits_name simp: both_listed_def)
    from find_two_hits [OF this] show ?thesis using f(2,3) by (simp add: in_range_def)
  qed
  moreover have "components cf = Some ?cs" using f(2) by (auto simp: comps_def split: option.splits)
  ultimately have "copyConnectors_success from (Some m) (Some r) ms (Some (a, nat_str i, c, nat_str j)) cf =
       (if from = ''receiver'' then copyFromReceiver (Some p) (Some n) (Some q) (Some l) cf
        else if from = ''sender'' then copyFromSender (Some p) (Some n) (Some q) (Some l) cf else Inr cf)"
    for "from" a c
    using e chids_ok_last [OF ok(1) n(1,3)] chids_ok_last [OF ok(2) l(1,3)]
    by (simp add: copyConnectors_success_def)
  moreover have "entry Sender cf (Some p) (Some n) = Some es" "entry Receiver cf (Some q) (Some l) = Some er"
    using e n l by (simp_all add: entry_def)
  ultimately show thesis using n l that by blast
qed

lemma sender_info_transport:
  "sender_info e = Some key \<Longrightarrow> \<not> is_tcp (obj_get e ''transport'') \<Longrightarrow>
     is_ipc (obj_get e ''transport'') \<and> \<not> eq_num (obj_get e ''port'') 0"
  by (simp add: sender_info_def split: if_splits)

section \<open>What the callbacks may change\<close>

text \<open>
  A file in which some connector entries are replaced, those of the connectors \<open>(sd, k, i)\<close> with
  \<open>new sd k i \<noteq> None\<close>; everything else, including the fields the scripts never read, is the same.
\<close>

definition with_new :: "(nat \<Rightarrow> obj option) \<Rightarrow> obj \<Rightarrow> obj" where
  "with_new new e = (case Option.bind (chid_of e) new of None \<Rightarrow> e | Some e' \<Rightarrow> e')"

definition replace_in :: "(side \<Rightarrow> nat \<Rightarrow> obj option) \<Rightarrow> component \<Rightarrow> component" where
  "replace_in new c = c\<lparr>c_conns := map_option
     (\<lambda>cn. cn\<lparr>snds := map_option (map (with_new (new Sender))) (snds cn),
             rcvs := map_option (map (with_new (new Receiver))) (rcvs cn)\<rparr>) (c_conns c)\<rparr>"

definition replace_entries :: "(side \<Rightarrow> nat \<Rightarrow> nat \<Rightarrow> obj option) \<Rightarrow> config \<Rightarrow> config" where
  "replace_entries new cf = cf\<lparr>components := map_option
     (\<lambda>cs. map (\<lambda>k. replace_in (\<lambda>sd. new sd k) (cs ! k)) [0..<length cs]) (components cf)\<rparr>"

definition one_entry :: "side \<Rightarrow> nat \<Rightarrow> nat \<Rightarrow> obj \<Rightarrow> side \<Rightarrow> nat \<Rightarrow> nat \<Rightarrow> obj option" where
  "one_entry sd p i e = (\<lambda>sd' k x. if (sd', k, x) = (sd, p, i) then Some e else None)"

text \<open>
  The properties of an entry that has taken over the connection data of \<open>src\<close>: the transport, the
  type and the port of a TCP connection, with the host \<open>host\<close>, or the transport, the type and the
  path of an IPC one; all others are those of \<open>dst\<close>.
\<close>

definition carries :: "json option \<Rightarrow> obj \<Rightarrow> obj \<Rightarrow> obj \<Rightarrow> bool" where
  "carries host src dst new \<longleftrightarrow> (\<forall>k. obj_get new k =
     (if k \<in> {''transport'', ''type''} then obj_get src k
      else if is_tcp (obj_get src ''transport'')
      then (if k = ''port'' then obj_get src k else if k = ''host'' then host else obj_get dst k)
      else (if k = ''path'' then obj_get src k else obj_get dst k)))"

lemma copy_carries:
  "is_tcp (obj_get src ''transport'') \<Longrightarrow> carries h src dst (copy_tcp h src dst)"
  "\<not> is_tcp (obj_get src ''transport'') \<Longrightarrow> carries h src dst (copy_ipc src dst)"
  by (simp_all add: carries_def copy_tcp_def copy_ipc_def)

lemma with_new_nothing [simp]: "with_new (\<lambda>x. None) = id"
  by (rule ext) (simp add: with_new_def split: option.split)

lemma replace_nothing [simp]: "replace_in (\<lambda>sd x. None) c = c"
  by (cases "c_conns c") (simp_all add: replace_in_def option.map_id)

lemma comps_replace:
  "comps (replace_entries new cf) =
     map (\<lambda>k. replace_in (\<lambda>sd. new sd k) (comps cf ! k)) [0..<length (comps cf)]"
  by (simp add: replace_entries_def comps_def split: option.split)

text \<open>In a list with distinct indices, replacing at the position is replacing at the index.\<close>

lemma update_with_new:
  assumes "\<And>k. k < length es \<Longrightarrow> chid_of (es ! k) = Some i \<longleftrightarrow> k = n"
  shows "es[n := e] = map (with_new (\<lambda>x. if x = i then Some e else None)) es"
proof (rule nth_equalityI)
  fix k assume "k < length (es[n := e])"
  then have k: "k < length es" by simp
  then show "es[n := e] ! k = map (with_new (\<lambda>x. if x = i then Some e else None)) es ! k"
    using assms [OF k] by (cases "chid_of (es ! k)") (auto simp: with_new_def nth_list_update)
qed simp

lemma set_entry_replaces:
  assumes p: "p < length (comps cf)" and ne: "side_list sd (comps cf ! p) \<noteq> []"
    and n: "\<And>k. k < length (side_list sd (comps cf ! p)) \<Longrightarrow> chid_of (side_list sd (comps cf ! p) ! k) = Some i \<longleftrightarrow> k = n"
  shows "set_entry sd p n f cf = replace_entries (one_entry sd p i (f (side_list sd (comps cf ! p) ! n))) cf"
proof -
  obtain cs where cs: "components cf = Some cs" "comps cf = cs" "p < length cs"
    using p by (auto simp: comps_def split: option.splits)
  obtain cn es where cn: "c_conns (cs ! p) = Some cn" "kind_list sd cn = Some es"
    "side_list sd (comps cf ! p) = es"
    using ne cs(2) by (auto simp: side_list_kind opt_list_def split: option.splits)
  let ?e = "f (es ! n)"
  have u: "es[n := ?e] = map (with_new (\<lambda>x. if x = i then Some ?e else None)) es"
    using n unfolding cn(3) by (rule update_with_new)
  have "(cs ! p)\<lparr>c_conns := Some (set_kind sd (es[n := ?e]) cn)\<rparr> =
      replace_in (\<lambda>sd'. one_entry sd p i ?e sd' p) (cs ! p)"
    using cn(1,2) unfolding u
    by (cases sd) (simp_all add: replace_in_def one_entry_def set_kind_def kind_list_def option.map_id)
  moreover have "replace_in (\<lambda>sd'. one_entry sd p i ?e sd' k) c = c" if "k \<noteq> p" for k c
    using that by (simp add: one_entry_def)
  ultimately have "cs[p := (cs ! p)\<lparr>c_conns := Some (set_kind sd (es[n := ?e]) cn)\<rparr>] =
      map (\<lambda>k. replace_in (\<lambda>sd'. one_entry sd p i ?e sd' k) (cs ! k)) [0..<length cs]"
    by (intro nth_equalityI) (auto simp: nth_list_update cs(3))
  then show ?thesis
    by (simp add: set_entry_def upd_comp_def replace_entries_def cs(1) cn)
qed

section \<open>Copying\<close>

text \<open>
  C12. Copying makes the connection one of the file: when the receiver (the sender) has connection
  data, the callback of \<open>copyConnectors\<close> gives it to exactly the other connector: transport, type
  and port (for IPC, path) are those of the source, the host is \<open>*\<close> at a sender and the
  component's host at a receiver, the other properties are as before. Nothing else in the file
  changes, and the next load connects the two. (For IPC the target must not carry port 0, which
  loading reads as no connection.)
\<close>

theorem copy_gives_data:
  assumes b: "both_listed ms (m, i, r, j) p q cf es er"
    and "from = ''receiver'' \<and> src = er \<and> dst = es \<and> sd = Sender \<and> p' = p \<and> i' = i
           \<and> host = Some (JStr ''*'')
       \<or> from = ''sender'' \<and> src = es \<and> dst = er \<and> sd = Receiver \<and> p' = q \<and> i' = j
           \<and> host = c_host (comps cf ! q)"
    and key: "sender_info src = Some key"
    and "is_tcp (obj_get src ''transport'') \<or> \<not> eq_num (obj_get dst ''port'') 0"
  shows "\<exists>new. copyConnectors_success from (Some m) (Some r) ms (Some (a, nat_str i, c, nat_str j)) cf
         = Inr (replace_entries (one_entry sd p' i' new) cf)
     \<and> carries host src dst new
     \<and> (p, i, q, j) \<in> file_edges (comps (replace_entries (one_entry sd p' i' new) cf))"
proof -
  let ?cs = "comps cf"
  have len: "p < length ?cs" "q < length ?cs" using b by (simp_all add: both_listed_def)
  have ends: "live Sender ?cs p (the (sender_info es)) i" if "sender_info es \<noteq> None"
    using that b by (auto simp: live_def both_listed_def side_list_def)
  have ends': "live Receiver ?cs q (the (sender_info er)) j" if "sender_info er \<noteq> None"
    using that b by (auto simp: live_def both_listed_def side_list_def)
  obtain n l where n: "n < length (sends (?cs ! p))" "sends (?cs ! p) ! n = es"
    "\<And>k. k < length (sends (?cs ! p)) \<Longrightarrow> chid_of (sends (?cs ! p) ! k) = Some i \<longleftrightarrow> k = n"
    and l: "l < length (recvs (?cs ! q))" "recvs (?cs ! q) ! l = er"
    "\<And>k. k < length (recvs (?cs ! q)) \<Longrightarrow> chid_of (recvs (?cs ! q) ! k) = Some j \<longleftrightarrow> k = l"
    and e: "entry Sender cf (Some p) (Some n) = Some es" "entry Receiver cf (Some q) (Some l) = Some er"
    and run: "\<And>from a c. copyConnectors_success from (Some m) (Some r) ms (Some (a, nat_str i, c, nat_str j)) cf =
       (if from = ''receiver'' then copyFromReceiver (Some p) (Some n) (Some q) (Some l) cf
        else if from = ''sender'' then copyFromSender (Some p) (Some n) (Some q) (Some l) cf else Inr cf)"
    using copyConnectors_found [OF b] by blast
  have chid: "chid_of es = Some i" "chid_of er = Some j" using b by (simp_all add: both_listed_def)
  have tr: "is_tcp (obj_get src ''transport'') \<or> is_ipc (obj_get src ''transport'')"
    using sender_info_transport [OF key] by blast
  define f where "f h = (if is_tcp (obj_get src ''transport'') then copy_tcp h src else copy_ipc src)" for h
  have f: "sender_info (f h dst) = Some key" "chid_of (f h dst) = chid_of dst" for h
    using assms(4) key sender_info_transport [OF key]
    by (cases "is_tcp (obj_get src ''transport'')"; simp add: f_def copy_tcp_info copy_ipc_info)+
  have carried: "carries h src dst (f h dst)" for h by (simp add: f_def copy_carries)
  from assms(2) show ?thesis
  proof
    assume h: "from = ''receiver'' \<and> src = er \<and> dst = es \<and> sd = Sender \<and> p' = p \<and> i' = i
      \<and> host = Some (JStr ''*'')"
    let ?cf = "set_entry Sender p n (f host) cf"
    have run: "copyConnectors_success from (Some m) (Some r) ms (Some (a, nat_str i, c, nat_str j)) cf = Inr ?cf"
      using h e tr by (cases "is_tcp (obj_get src ''transport'')") (simp_all add: run copyFromReceiver_def f_def)
    have lv: "live sd' (comps ?cf) k key' x \<longleftrightarrow>
        (if (sd', k, x) = (Sender, p, i) then key' = key else live sd' ?cs k key' x)" for sd' k x key'
      using live_set_entry [of p cf n Sender i "f host" sd' k key' x] len(1) n f h chid
      by (auto simp: side_list_def)
    have edge: "(p, i, q, j) \<in> file_edges (comps ?cf)"
      unfolding file_edges_live using lv ends' h key by (intro exI [of _ key]) simp
    have "side_list Sender (comps cf ! p) \<noteq> []" using n(1) by (auto simp: side_list_def)
    from set_entry_replaces [OF len(1) this, of i n "f host"]
    have "?cf = replace_entries (one_entry Sender p i (f host es)) cf"
      using n by (simp add: side_list_def)
    then show ?thesis using run edge carried [of host] h by auto
  next
    assume h: "from = ''sender'' \<and> src = es \<and> dst = er \<and> sd = Receiver \<and> p' = q \<and> i' = j
      \<and> host = c_host (comps cf ! q)"
    let ?cf = "set_entry Receiver q l (f host) cf"
    have run: "copyConnectors_success from (Some m) (Some r) ms (Some (a, nat_str i, c, nat_str j)) cf = Inr ?cf"
      using h e tr by (cases "is_tcp (obj_get src ''transport'')") (simp_all add: run copyFromSender_def f_def)
    have lv: "live sd' (comps ?cf) k key' x \<longleftrightarrow>
        (if (sd', k, x) = (Receiver, q, j) then key' = key else live sd' ?cs k key' x)" for sd' k x key'
      using live_set_entry [of q cf l Receiver j "f host" sd' k key' x] len(2) l f h chid
      by (auto simp: side_list_def)
    have edge: "(p, i, q, j) \<in> file_edges (comps ?cf)"
      unfolding file_edges_live using lv ends h key by (intro exI [of _ key]) simp
    have "side_list Receiver (comps cf ! q) \<noteq> []" using l(1) by (auto simp: side_list_def)
    from set_entry_replaces [OF len(2) this, of j l "f host"]
    have "?cf = replace_entries (one_entry Receiver q j (f host er)) cf"
      using l by (simp add: side_list_def)
    then show ?thesis using run edge carried [of host] h by auto
  qed
qed

text \<open>A file in which only the receiver has connection data, and modules of its names.\<close>

definition half_file :: config where
  "half_file = \<lparr>components = Some [sample_comp ''a'' [chid_entry 0] [],
     sample_comp ''b'' [] [sample_in]], cf_rest = []\<rparr>"

definition named :: "string \<Rightarrow> gui_module" where
  "named n = base_module 0 n ''h'' ''t'' JNull"

lemma named_name [simp]: "m_name (named n) = n"
  by (simp add: named_def base_module_def)

lemma half_file_comps:
  "comps half_file = [sample_comp ''a'' [chid_entry 0] [], sample_comp ''b'' [] [sample_in]]"
  by (simp add: half_file_def comps_def)

lemma half_file_listed:
  "both_listed [named ''a'', named ''b''] (0, 0, 1, 0) 0 1 half_file (chid_entry 0) sample_in"
  by (simp add: half_file_comps both_listed_def file_ok_def sample_comp_fields chids_ok_def
      sample_entries entry_without_transport)

theorem copy_gives_data_witness:
  "\<exists>new. copyConnectors_success ''receiver'' (Some 0) (Some 1) [named ''a'', named ''b'']
      (Some (''0'', nat_str 0, ''1'', nat_str 0)) half_file = Inr (replace_entries (one_entry Sender 0 0 new) half_file)
    \<and> obj_get new ''host'' = Some (JStr ''*'') \<and> obj_get new ''port'' = Some (JNum 8000)
    \<and> (0, 0, 1, 0) \<in> file_edges (comps (replace_entries (one_entry Sender 0 0 new) half_file))"
proof -
  have "is_tcp (obj_get sample_in ''transport'')"
    by (simp add: sample_in_def obj_get_def is_tcp_def eq_str_def)
  moreover have "obj_get sample_in ''port'' = Some (JNum 8000)" by (simp add: sample_in_def obj_get_def)
  ultimately show ?thesis
    using copy_gives_data [OF half_file_listed _ sample_entries(4), of "''receiver''" "chid_entry 0"
        Sender 0 0 "Some (JStr ''*'')" "''0''" "''1''"]
    by (auto simp: carries_def)
qed

text \<open>
  Copying from a sender can cut a connection the canvas still shows: when the receiver that
  is given the sender's data was connected to another sender with other data, this connection
  is no longer one of the file afterwards, and the next load does not draw it. (The check
  answers \<open>sender_full\<close> from the first key that shares an end, without asking whether the
  receiver is in use too.)
\<close>

theorem copy_cuts_other_connection:
  assumes b: "both_listed ms (m, i, r, j) p q cf es er"
    and key: "sender_info es = Some key"
    and "is_tcp (obj_get es ''transport'') \<or> \<not> eq_num (obj_get er ''port'') 0"
    and other: "(x, y, q, j) \<in> file_edges (comps cf)" "\<not> live Sender (comps cf) x key y"
    and cf': "copyConnectors_success ''sender'' (Some m) (Some r) ms (Some (a, nat_str i, c, nat_str j)) cf = Inr cf'"
  shows "(x, y, q, j) \<notin> file_edges (comps cf')"
proof -
  have len: "p < length (comps cf)" "q < length (comps cf)" and chid: "chid_of er = Some j"
    using b by (simp_all add: both_listed_def)
  obtain n l where l: "l < length (recvs (comps cf ! q))" "recvs (comps cf ! q) ! l = er"
    "\<And>k. k < length (recvs (comps cf ! q)) \<Longrightarrow> chid_of (recvs (comps cf ! q) ! k) = Some j \<longleftrightarrow> k = l"
    and e: "entry Sender cf (Some p) (Some n) = Some es" "entry Receiver cf (Some q) (Some l) = Some er"
    and run: "\<And>from a c. copyConnectors_success from (Some m) (Some r) ms (Some (a, nat_str i, c, nat_str j)) cf =
       (if from = ''receiver'' then copyFromReceiver (Some p) (Some n) (Some q) (Some l) cf
        else if from = ''sender'' then copyFromSender (Some p) (Some n) (Some q) (Some l) cf else Inr cf)"
    using copyConnectors_found [OF b] by blast
  define f where "f = (if is_tcp (obj_get es ''transport'')
     then copy_tcp (c_host (comps cf ! q)) es else copy_ipc es)"
  have f: "sender_info (f er) = Some key" "chid_of (f er) = Some j"
    using assms(3) key sender_info_transport [OF key] chid
    by (cases "is_tcp (obj_get es ''transport'')"; simp add: f_def copy_tcp_info copy_ipc_info)+
  have "cf' = set_entry Receiver q l f cf"
    using cf' e sender_info_transport [OF key]
    by (cases "is_tcp (obj_get es ''transport'')") (simp_all add: run copyFromSender_def f_def)
  then have "live sd' (comps cf') k key' z \<longleftrightarrow>
      (if (sd', k, z) = (Receiver, q, j) then key' = key else live sd' (comps cf) k key' z)" for sd' k z key'
    using live_set_entry [of q cf l Receiver j f sd' k key' z] len(2) l f by (auto simp: side_list_def)
  then show ?thesis using other(2) by (auto simp: file_edges_live)
qed

lemma copy_sender_tcp:
  assumes b: "both_listed ms (m, i, r, j) p q cf es er" and t: "is_tcp (obj_get es ''transport'')"
  shows "\<exists>l. copyConnectors_success ''sender'' (Some m) (Some r) ms (Some (a, nat_str i, c, nat_str j)) cf
    = Inr (set_entry Receiver q l (copy_tcp (c_host (comps cf ! q)) es) cf)"
proof -
  obtain n l where "entry Sender cf (Some p) (Some n) = Some es" "entry Receiver cf (Some q) (Some l) = Some er"
    "\<And>from a c. copyConnectors_success from (Some m) (Some r) ms (Some (a, nat_str i, c, nat_str j)) cf =
       (if from = ''receiver'' then copyFromReceiver (Some p) (Some n) (Some q) (Some l) cf
        else if from = ''sender'' then copyFromSender (Some p) (Some n) (Some q) (Some l) cf else Inr cf)"
    using copyConnectors_found [OF b] by blast
  then show ?thesis using t by (intro exI [of _ l]) (simp add: copyFromSender_def)
qed

definition other_out :: obj where
  "other_out = [(''chid'', JNum 0), (''type'', JStr ''u''), (''transport'', JStr ''tcp''),
     (''host'', JStr ''*''), (''port'', JNum 8000)]"

definition other_in :: obj where
  "other_in = [(''chid'', JNum 0), (''type'', JStr ''u''), (''transport'', JStr ''tcp''),
     (''host'', JStr ''h''), (''port'', JNum 8000)]"

definition cut_file :: config where
  "cut_file = \<lparr>components = Some [sample_comp ''a'' [sample_out] [], sample_comp ''b'' [other_out] [],
     sample_comp ''d'' [] [other_in]], cf_rest = []\<rparr>"

lemma other_entries:
  "chid_of other_out = Some 0" "chid_of other_in = Some 0"
  "sender_info other_out = Some ''utcp8000''" "sender_info other_in = Some ''utcp8000''"
proof -
  have "int_str 8000 = ''8000''" using int_str_of_nat [of 8000]
    by (simp add: nat_str.simps digit_def)
  then show "chid_of other_out = Some 0" "chid_of other_in = Some 0"
    "sender_info other_out = Some ''utcp8000''" "sender_info other_in = Some ''utcp8000''"
    by (simp_all add: other_out_def other_in_def chid_of_def obj_get_def sender_info_def eq_num_def
        is_tcp_def eq_str_def)
qed

lemma cut_file_comps:
  "comps cut_file = [sample_comp ''a'' [sample_out] [], sample_comp ''b'' [other_out] [],
     sample_comp ''d'' [] [other_in]]"
  by (simp add: cut_file_def comps_def)

lemma cut_file_listed:
  "both_listed [named ''a'', named ''d''] (0, 0, 1, 0) 0 2 cut_file sample_out other_in"
  by (simp add: cut_file_comps both_listed_def file_ok_def sample_comp_fields chids_ok_def
      sample_entries other_entries)

theorem copy_cuts_other_connection_witness:
  "(1, 0, 2, 0) \<in> file_edges (comps cut_file)
   \<and> (\<exists>cf'. copyConnectors_success ''sender'' (Some 0) (Some 1) [named ''a'', named ''d'']
        (Some (''0'', nat_str 0, ''1'', nat_str 0)) cut_file = Inr cf'
      \<and> (1, 0, 2, 0) \<notin> file_edges (comps cf'))"
proof -
  have t: "is_tcp (obj_get sample_out ''transport'')"
    by (simp add: sample_out_def obj_get_def is_tcp_def eq_str_def)
  have e: "(1, 0, 2, 0) \<in> file_edges (comps cut_file)"
    unfolding file_edges_live live_def
    by (simp add: cut_file_comps side_list_def sample_comp_fields other_entries)
  have nl: "\<not> live Sender (comps cut_file) 1 ''ttcp8000'' 0"
    by (simp add: live_def cut_file_comps side_list_def sample_comp_fields other_entries)
  obtain l where cf': "copyConnectors_success ''sender'' (Some 0) (Some 1) [named ''a'', named ''d'']
        (Some (''0'', nat_str 0, ''1'', nat_str 0)) cut_file
      = Inr (set_entry Receiver 2 l (copy_tcp (c_host (comps cut_file ! 2)) sample_out) cut_file)"
    using copy_sender_tcp [OF cut_file_listed t] by metis
  have "(1, 0, 2, 0) \<notin> file_edges
      (comps (set_entry Receiver 2 l (copy_tcp (c_host (comps cut_file ! 2)) sample_out) cut_file))"
    by (rule copy_cuts_other_connection [OF cut_file_listed sample_entries(3) disjI1 [OF t] e nl cf'])
  then show ?thesis using e cf' by blast
qed

section \<open>Submitting the form of a new connection\<close>

lemma obj_get_extend:
  assumes "distinct (map fst src)"
  shows "obj_get (extend_obj t src) k = (case obj_get src k of None \<Rightarrow> obj_get t k | Some v \<Rightarrow> Some v)"
  using assms
proof (induction src arbitrary: t)
  case (Cons a src)
  obtain x v where a: "a = (x, v)" by (cases a)
  have "map_of src x = None" using Cons.prems a by (simp add: map_of_eq_None_iff)
  then show ?case using Cons by (simp add: a extend_obj_def obj_get_def split: option.split)
qed (simp add: extend_obj_def obj_get_def)

lemma fill_receiver_info:
  assumes "distinct (map fst json2)" "obj_get json2 ''chid'' \<in> {None, Some (JNum (int j))}"
  shows "sender_info (fill_receiver (nat_str j) json2 e) = sender_info json2"
    "chid_of (fill_receiver (nat_str j) json2 e) = Some j"
proof -
  have "obj_get [(''chid'', parse_chid (nat_str j))] k = None" if "k \<noteq> ''chid''" for k
    using that by (simp add: obj_get_def)
  then show "sender_info (fill_receiver (nat_str j) json2 e) = sender_info json2"
    unfolding fill_receiver_def sender_info_def obj_get_extend [OF assms(1)]
    by (simp split: option.split)
  show "chid_of (fill_receiver (nat_str j) json2 e) = Some j"
    using assms(2) unfolding fill_receiver_def chid_of_get obj_get_extend [OF assms(1)]
    by (auto simp: parse_chid_def obj_get_def)
qed

lemma fill_sender_info:
  assumes "sender_info json2 = Some key"
  shows "sender_info (fill_sender (nat_str i) json2 e) = Some key"
    "chid_of (fill_sender (nat_str i) json2 e) = Some i"
proof -
  let ?e = "[(''chid'', parse_chid (nat_str i))]"
  have c: "chid_of ?e = Some i" by (simp add: chid_of_get obj_get_def parse_chid_def)
  have "\<not> eq_num (obj_get ?e ''port'') 0" by (simp add: obj_get_def eq_num_def)
  then show "sender_info (fill_sender (nat_str i) json2 e) = Some key"
    using assms sender_info_transport [OF assms]
    by (cases "is_tcp (obj_get json2 ''transport'')")
      (simp_all add: fill_sender_def Let_def copy_tcp_info copy_ipc_info)
  show "chid_of (fill_sender (nat_str i) json2 e) = Some i"
    using c by (simp add: fill_sender_def Let_def copy_tcp_info copy_ipc_info)
qed

definition filled :: "side \<Rightarrow> string \<Rightarrow> (obj \<Rightarrow> obj) \<Rightarrow> component \<Rightarrow> component" where
  "filled sd v f c = c\<lparr>c_conns := map_option
     (\<lambda>k. set_kind sd (fill_entries v f (opt_list (kind_list sd k))) k) (c_conns c)\<rparr>"

lemma fill_kind_result: "side_list sd c \<noteq> [] \<Longrightarrow> fill_kind sd v f c = Inr (filled sd v f c)"
  by (auto simp: fill_kind_def filled_def side_list_kind opt_list_def split: option.splits)

lemma filled_fields:
  "c_name (filled sd v f c) = c_name c"
  "side_list sd' (filled sd v f c) = (if sd' = sd then fill_entries v f (side_list sd c) else side_list sd' c)"
  by (cases "c_conns c"; cases sd; cases sd';
      simp add: filled_def side_list_kind set_kind_def kind_list_def opt_list_def fill_entries_def)+

lemma map_err_Inr: "(\<And>x. x \<in> set xs \<Longrightarrow> f x = Inr (g x)) \<Longrightarrow> map_err f xs = Inr (map g xs)"
  by (induction xs) auto

text \<open>One component after the loop body.\<close>

definition submitted :: "gui_module list \<Rightarrow> nat \<Rightarrow> nat \<Rightarrow> string \<Rightarrow> string \<Rightarrow> obj \<Rightarrow> component \<Rightarrow> component" where
  "submitted ms m r vs vr json2 c =
     (let c1 = (if name_is ms (Some r) c then filled Receiver vr (fill_receiver vr json2) c else c)
      in if name_is ms (Some m) c1 then filled Sender vs (fill_sender vs json2) c1 else c1)"

lemma submitted_fields:
  "c_name (submitted ms m r vs vr json2 c) = c_name c"
  "side_list sd (submitted ms m r vs vr json2 c) =
     (case sd of Receiver \<Rightarrow> if name_is ms (Some r) c then fill_entries vr (fill_receiver vr json2) (side_list sd c) else side_list sd c
      | Sender \<Rightarrow> if name_is ms (Some m) c then fill_entries vs (fill_sender vs json2) (side_list sd c) else side_list sd c)"
  by (cases sd; simp add: submitted_def name_is_def filled_fields Let_def)+

lemma live_fill:
  assumes "chids_ok es" "e \<in> set es" "chid_of e = Some i" "\<And>x. chid_of (f x) = Some i"
    and "\<And>x. sender_info (f x) = Some key"
  shows "(\<exists>y \<in> set (fill_entries (nat_str i) f es). chid_of y = Some x \<and> sender_info y = Some key')
    \<longleftrightarrow> (if x = i then key' = key else \<exists>y \<in> set es. chid_of y = Some x \<and> sender_info y = Some key')"
proof -
  have hit: "eq_str (obj_get y ''chid'') (nat_str i) \<longleftrightarrow> chid_of y = Some i" if y: "y \<in> set es" for y
  proof -
    obtain k where "chid_of y = Some k" using chids_okD [OF assms(1) y] by blast
    then show ?thesis by (simp add: eq_str_chid)
  qed
  then have fill: "set (fill_entries (nat_str i) f es)
      = (\<lambda>y. if chid_of y = Some i then f y else y) ` set es"
    by (auto simp: fill_entries_def image_def)
  show ?thesis
  proof (cases "x = i")
    case True
    then show ?thesis unfolding fill using assms(2-5) by (auto split: if_splits)
  next
    case False
    then show ?thesis unfolding fill using assms(4) by (auto split: if_splits)
  qed
qed

text \<open>The two modules of the connection are recognised in the file by name.\<close>

lemma both_listed_names:
  assumes "both_listed ms (m, i, r, j) p q cf es er" "k < length (comps cf)"
  shows "name_is ms (Some m) (comps cf ! k) \<longleftrightarrow> k = p" "name_is ms (Some r) (comps cf ! k) \<longleftrightarrow> k = q"
proof -
  have f: "file_ok (comps cf)" "p < length (comps cf)" "q < length (comps cf)"
    using assms(1) by (simp_all add: both_listed_def)
  show "name_is ms (Some m) (comps cf ! k) \<longleftrightarrow> k = p" "name_is ms (Some r) (comps cf ! k) \<longleftrightarrow> k = q"
    using hits_name [OF f(1,2), of ms m] hits_name [OF f(1,3), of ms r] assms
    by (simp_all add: both_listed_def hits_def)
qed

lemma submit_runs:
  assumes b: "both_listed ms (m, i, r, j) p q cf es er"
  shows "submitNewConnection_success (Some m) (Some r) ms (Some (a, nat_str i, c, nat_str j)) json2 cf
    = Inr (cf\<lparr>components := Some (map (submitted ms m r (nat_str i) (nat_str j) json2) (comps cf))\<rparr>)"
proof -
  let ?cs = "comps cf" let ?g = "submitted ms m r (nat_str i) (nat_str j) json2"
  have f: "p < length ?cs" "es \<in> set (sends (?cs ! p))" "er \<in> set (recvs (?cs ! q))"
    using b by (simp_all add: both_listed_def)
  have ne: "side_list Sender (?cs ! p) \<noteq> []" "side_list Receiver (?cs ! q) \<noteq> []"
    using f(2,3) by (auto simp: side_list_def)
  have "submit_component ms (Some m) (Some r) (nat_str i) (nat_str j) json2 x = Inr (?g x)"
    if x: "x \<in> set ?cs" for x
  proof -
    obtain k where k: "k < length ?cs" "x = ?cs ! k" using x by (auto simp: in_set_conv_nth)
    note nm = both_listed_names [OF b k(1)]
    have "side_list Receiver x \<noteq> []" if "name_is ms (Some r) x" using that nm k ne by simp
    moreover have "side_list Sender x \<noteq> []" if "name_is ms (Some m) x" using that nm k ne by simp
    ultimately show ?thesis
      by (auto simp: submit_component_def submitted_def Let_def fill_kind_result filled_fields name_is_def)
  qed
  then have "map_err (submit_component ms (Some m) (Some r) (nat_str i) (nat_str j) json2) ?cs
      = Inr (map ?g ?cs)" by (rule map_err_Inr)
  moreover have "components cf = Some ?cs" using f(1) by (auto simp: comps_def split: option.splits)
  ultimately show ?thesis by (simp add: submitNewConnection_success_def)
qed

lemma live_submitted:
  assumes b: "both_listed ms (m, i, r, j) p q cf es er"
    and d: "distinct (map fst json2)" "obj_get json2 ''chid'' \<in> {None, Some (JNum (int j))}"
    and key: "sender_info json2 = Some key"
  shows "live sd (map (submitted ms m r (nat_str i) (nat_str j) json2) (comps cf)) k key' x \<longleftrightarrow>
      (if (sd, k, x) \<in> {(Sender, p, i), (Receiver, q, j)} then key' = key else live sd (comps cf) k key' x)"
proof (cases "k < length (comps cf)")
  case True
  let ?cs = "comps cf" let ?g = "submitted ms m r (nat_str i) (nat_str j) json2"
  have f: "file_ok ?cs" "p < length ?cs" "q < length ?cs" "chid_of es = Some i" "chid_of er = Some j"
    and mem: "es \<in> set (side_list Sender (?cs ! p))" "er \<in> set (side_list Receiver (?cs ! q))"
    using b by (simp_all add: both_listed_def side_list_def)
  have live: "live sd (map ?g ?cs) k key' x \<longleftrightarrow>
      (\<exists>y \<in> set (side_list sd (?g (?cs ! k))). chid_of y = Some x \<and> sender_info y = Some key')"
    using True by (simp add: live_def)
  show ?thesis
  proof (cases sd)
    case Sender
    have "side_list Sender (?g (?cs ! k)) = (if k = p
        then fill_entries (nat_str i) (fill_sender (nat_str i) json2) (side_list Sender (?cs ! k))
        else side_list Sender (?cs ! k))"
      by (simp add: submitted_fields(2) both_listed_names [OF b True])
    moreover have "(\<exists>y \<in> set (fill_entries (nat_str i) (fill_sender (nat_str i) json2) (side_list Sender (?cs ! p))).
        chid_of y = Some x \<and> sender_info y = Some key')
      \<longleftrightarrow> (if x = i then key' = key else \<exists>y \<in> set (side_list Sender (?cs ! p)).
        chid_of y = Some x \<and> sender_info y = Some key')"
      by (rule live_fill [OF chids_ok_side [OF f(1,2)] mem(1) f(4)]) (rule fill_sender_info [OF key])+
    ultimately show ?thesis using live Sender True by (cases "k = p") (simp_all add: live_def)
  next
    case Receiver
    have "side_list Receiver (?g (?cs ! k)) = (if k = q
        then fill_entries (nat_str j) (fill_receiver (nat_str j) json2) (side_list Receiver (?cs ! k))
        else side_list Receiver (?cs ! k))"
      by (simp add: submitted_fields(2) both_listed_names [OF b True])
    moreover have "(\<exists>y \<in> set (fill_entries (nat_str j) (fill_receiver (nat_str j) json2) (side_list Receiver (?cs ! q))).
        chid_of y = Some x \<and> sender_info y = Some key')
      \<longleftrightarrow> (if x = j then key' = key else \<exists>y \<in> set (side_list Receiver (?cs ! q)).
        chid_of y = Some x \<and> sender_info y = Some key')"
      by (rule live_fill [OF chids_ok_side [OF f(1,3)] mem(2) f(5)])
        (simp_all add: fill_receiver_info [OF d] key)
    ultimately show ?thesis using live Receiver True by (cases "k = q") (simp_all add: live_def)
  qed
qed (use b in \<open>auto simp: live_def both_listed_def\<close>)

lemma submitted_edge:
  assumes "both_listed ms (m, i, r, j) p q cf es er"
    and "distinct (map fst json2)" "obj_get json2 ''chid'' \<in> {None, Some (JNum (int j))}"
    and "sender_info json2 = Some key"
  shows "(p, i, q, j) \<in> file_edges (map (submitted ms m r (nat_str i) (nat_str j) json2) (comps cf))"
  unfolding file_edges_live using live_submitted [OF assms] by (intro exI [of _ key]) simp

text \<open>The entries the form gives the two connectors.\<close>

lemma fill_kinds:
  assumes ok: "chids_ok (side_list sd c)" and ne: "side_list sd c \<noteq> []" and f: "\<And>e. f e = e'"
  shows "filled sd (nat_str i) f c =
     replace_in (\<lambda>sd' x. if sd' = sd \<and> x = i then Some e' else None) c"
proof -
  obtain cn es where cn: "c_conns c = Some cn" "kind_list sd cn = Some es" "side_list sd c = es"
    using ne by (auto simp: side_list_kind opt_list_def split: option.splits)
  have "fill_entries (nat_str i) f es = map (with_new (\<lambda>x. if x = i then Some e' else None)) es"
    unfolding fill_entries_def
  proof (rule map_cong)
    fix e assume e: "e \<in> set es"
    obtain k where "chid_of e = Some k" using chids_okD [OF ok] e cn(3) by blast
    then show "(if eq_str (obj_get e ''chid'') (nat_str i) then f e else e) =
        with_new (\<lambda>x. if x = i then Some e' else None) e"
      by (simp add: eq_str_chid with_new_def f)
  qed simp
  then show ?thesis
    using cn(1,2)
    by (cases sd) (simp_all add: filled_def replace_in_def opt_list_def set_kind_def kind_list_def option.map_id)
qed

lemma replace_both:
  "replace_in (\<lambda>sd x. if sd = Sender \<and> x = i then Some e else None)
     (replace_in (\<lambda>sd x. if sd = Receiver \<and> x = j then Some e' else None) c) =
   replace_in (\<lambda>sd x. case sd of Sender \<Rightarrow> if x = i then Some e else None
                             | Receiver \<Rightarrow> if x = j then Some e' else None) c"
  by (cases "c_conns c") (simp_all add: replace_in_def option.map_id option.map_comp comp_def)

definition two_entries :: "nat \<Rightarrow> nat \<Rightarrow> obj \<Rightarrow> nat \<Rightarrow> nat \<Rightarrow> obj \<Rightarrow> side \<Rightarrow> nat \<Rightarrow> nat \<Rightarrow> obj option" where
  "two_entries p i e q j e' = (\<lambda>sd k x. case sd of
      Sender \<Rightarrow> if k = p \<and> x = i then Some e else None
    | Receiver \<Rightarrow> if k = q \<and> x = j then Some e' else None)"

lemma submit_replaces:
  assumes b: "both_listed ms (m, i, r, j) p q cf es er"
  shows "cf\<lparr>components := Some (map (submitted ms m r (nat_str i) (nat_str j) json2) (comps cf))\<rparr> =
     replace_entries (two_entries p i (fill_sender (nat_str i) json2 []) q j (fill_receiver (nat_str j) json2 [])) cf"
proof -
  let ?cs = "comps cf"
  let ?s = "fill_sender (nat_str i) json2 []" and ?r = "fill_receiver (nat_str j) json2 []"
  have f: "file_ok ?cs" "p < length ?cs" "q < length ?cs" "es \<in> set (sends (?cs ! p))"
    "er \<in> set (recvs (?cs ! q))" using b by (simp_all add: both_listed_def)
  have ne: "side_list Sender (?cs ! p) \<noteq> []" "side_list Receiver (?cs ! q) \<noteq> []"
    using f(4,5) by (auto simp: side_list_def)
  have c: "fill_sender (nat_str i) json2 e = ?s" "fill_receiver (nat_str j) json2 e = ?r" for e
    by (simp_all add: fill_sender_def fill_receiver_def)
  have recv: "filled Receiver (nat_str j) (fill_receiver (nat_str j) json2) (?cs ! q) =
      replace_in (\<lambda>sd x. if sd = Receiver \<and> x = j then Some ?r else None) (?cs ! q)"
    by (rule fill_kinds [OF chids_ok_side [OF f(1,3)] ne(2) c(2)])
  have send: "filled Sender (nat_str i) (fill_sender (nat_str i) json2) c1 =
      replace_in (\<lambda>sd x. if sd = Sender \<and> x = i then Some ?s else None) c1"
    if "side_list Sender c1 = side_list Sender (?cs ! p)" for c1
    by (rule fill_kinds [OF _ _ c(1)]) (use that ne(1) chids_ok_side [OF f(1,2)] in simp_all)
  have "submitted ms m r (nat_str i) (nat_str j) json2 (?cs ! k) =
      replace_in (\<lambda>sd. two_entries p i ?s q j ?r sd k) (?cs ! k)" if k: "k < length ?cs" for k
  proof -
    note nm = both_listed_names [OF b k]
    let ?c1 = "if name_is ms (Some r) (?cs ! k)
      then filled Receiver (nat_str j) (fill_receiver (nat_str j) json2) (?cs ! k) else ?cs ! k"
    have "name_is ms (Some m) ?c1 \<longleftrightarrow> k = p"
      using nm(1) by (cases "name_is ms (Some r) (?cs ! k)") (simp_all add: name_is_def filled_fields)
    then have "submitted ms m r (nat_str i) (nat_str j) json2 (?cs ! k) =
        (if k = p then filled Sender (nat_str i) (fill_sender (nat_str i) json2) ?c1 else ?c1)"
      by (simp only: submitted_def Let_def)
    also have "\<dots> = replace_in (\<lambda>sd. two_entries p i ?s q j ?r sd k) (?cs ! k)"
    proof (cases "k = p"; cases "k = q")
      assume k: "k = p" "k = q"
      let ?f = "filled Receiver (nat_str j) (fill_receiver (nat_str j) json2) (?cs ! q)"
      have "side_list Sender ?f = side_list Sender (?cs ! p)" using k by (simp add: filled_fields)
      from send [OF this] have "filled Sender (nat_str i) (fill_sender (nat_str i) json2) ?f =
          replace_in (\<lambda>sd. two_entries p i ?s q j ?r sd k) (?cs ! k)"
        unfolding recv replace_both using k by (simp add: two_entries_def cong: side.case_cong)
      moreover have "?c1 = ?f" using k nm by simp
      ultimately show ?thesis using k by simp
    next
      assume k: "k = p" "k \<noteq> q"
      have "(\<lambda>sd. two_entries p i ?s q j ?r sd p) = (\<lambda>sd x. if sd = Sender \<and> x = i then Some ?s else None)"
        using k by (intro ext) (simp add: two_entries_def split: side.split)
      then show ?thesis using send [of "?cs ! p"] k nm by simp
    next
      assume k: "k \<noteq> p" "k = q"
      have "(\<lambda>sd. two_entries p i ?s q j ?r sd q) = (\<lambda>sd x. if sd = Receiver \<and> x = j then Some ?r else None)"
        using k by (intro ext) (simp add: two_entries_def split: side.split)
      then show ?thesis using recv k nm by simp
    next
      assume k: "k \<noteq> p" "k \<noteq> q"
      have "(\<lambda>sd. two_entries p i ?s q j ?r sd k) = (\<lambda>sd x. None)"
        using k by (intro ext) (simp add: two_entries_def split: side.split)
      then show ?thesis using k nm by simp
    qed
    finally show ?thesis .
  qed
  then have "map (submitted ms m r (nat_str i) (nat_str j) json2) ?cs =
      map (\<lambda>k. replace_in (\<lambda>sd. two_entries p i ?s q j ?r sd k) (?cs ! k)) [0..<length ?cs]"
    by (intro nth_equalityI) simp_all
  moreover have "components cf = Some ?cs" using f(2) by (auto simp: comps_def split: option.splits)
  ultimately show ?thesis by (simp add: replace_entries_def)
qed

text \<open>
  C11. Submitting the form makes the connection one of the file: with valid form data that names
  the receiver's index and has connection data, the callback of \<open>submitNewConnection\<close> throws
  nothing and replaces exactly the two connectors' entries. The receiver's is the form data with
  its index; the sender's has its own index, the host \<open>*\<close>, and the transport, the type and the port
  (for IPC, the path) of the form, and nothing else. Nothing else in the file changes, and the
  next load connects the two.
\<close>

theorem submit_gives_data:
  assumes b: "both_listed ms (m, i, r, j) p q cf es er"
    and d: "distinct (map fst json2)" "obj_get json2 ''chid'' \<in> {None, Some (JNum (int j))}"
    and key: "sender_info json2 = Some key"
  shows "\<exists>send recv. submitNewConnection_success (Some m) (Some r) ms (Some (a, nat_str i, c, nat_str j)) json2 cf
         = Inr (replace_entries (two_entries p i send q j recv) cf)
     \<and> carries (Some (JStr ''*'')) json2 [(''chid'', JNum (int i))] send
     \<and> (\<forall>k. obj_get recv k = (if k = ''chid'' then Some (JNum (int j)) else obj_get json2 k))
     \<and> (p, i, q, j) \<in> file_edges (comps (replace_entries (two_entries p i send q j recv) cf))"
proof -
  let ?s = "fill_sender (nat_str i) json2 []" and ?r = "fill_receiver (nat_str j) json2 []"
  have "is_ipc (obj_get json2 ''transport'')" if "\<not> is_tcp (obj_get json2 ''transport'')"
    using sender_info_transport [OF key that] by simp
  then have s: "carries (Some (JStr ''*'')) json2 [(''chid'', JNum (int i))] ?s"
    using copy_carries [of json2 _ "[(''chid'', JNum (int i))]"]
    by (simp add: fill_sender_def parse_chid_def Let_def)
  have r: "obj_get ?r k = (if k = ''chid'' then Some (JNum (int j)) else obj_get json2 k)" for k
    using d(2) unfolding fill_receiver_def obj_get_extend [OF d(1)]
    by (auto simp: obj_get_def parse_chid_def split: option.split)
  have "comps (cf\<lparr>components := Some xs\<rparr>) = xs" for xs by (simp add: comps_def)
  then have "(p, i, q, j) \<in> file_edges (comps (replace_entries (two_entries p i ?s q j ?r) cf))"
    using submitted_edge [OF assms] unfolding submit_replaces [OF b, symmetric] by simp
  then show ?thesis using s r unfolding submit_runs [OF b] submit_replaces [OF b] by blast
qed

definition empty_file :: config where
  "empty_file = \<lparr>components = Some [sample_comp ''a'' [chid_entry 0] [],
     sample_comp ''b'' [] [chid_entry 0]], cf_rest = []\<rparr>"

lemma empty_file_listed:
  "both_listed [named ''a'', named ''b''] (0, 0, 1, 0) 0 1 empty_file (chid_entry 0) (chid_entry 0)"
proof -
  have "comps empty_file = [sample_comp ''a'' [chid_entry 0] [], sample_comp ''b'' [] [chid_entry 0]]"
    by (simp add: empty_file_def comps_def)
  then show ?thesis
    by (simp add: both_listed_def file_ok_def sample_comp_fields chids_ok_def entry_without_transport)
qed

theorem submit_gives_data_witness:
  "\<exists>send recv. submitNewConnection_success (Some 0) (Some 1) [named ''a'', named ''b'']
      (Some (''0'', nat_str 0, ''1'', nat_str 0)) sample_in empty_file
        = Inr (replace_entries (two_entries 0 0 send 1 0 recv) empty_file)
    \<and> obj_get send ''host'' = Some (JStr ''*'') \<and> obj_get recv ''host'' = Some (JStr ''h'')
    \<and> (0, 0, 1, 0) \<in> file_edges (comps (replace_entries (two_entries 0 0 send 1 0 recv) empty_file))"
proof -
  have d: "distinct (map fst sample_in)" "obj_get sample_in ''chid'' \<in> {None, Some (JNum (int 0))}"
    by (simp_all add: sample_in_def obj_get_def)
  have f: "is_tcp (obj_get sample_in ''transport'')" "obj_get sample_in ''host'' = Some (JStr ''h'')"
    by (simp_all add: sample_in_def obj_get_def is_tcp_def eq_str_def)
  obtain send recv where r: "submitNewConnection_success (Some 0) (Some 1) [named ''a'', named ''b'']
      (Some (''0'', nat_str 0, ''1'', nat_str 0)) sample_in empty_file
        = Inr (replace_entries (two_entries 0 0 send 1 0 recv) empty_file)"
    "carries (Some (JStr ''*'')) sample_in [(''chid'', JNum (int 0))] send"
    "\<forall>k. obj_get recv k = (if k = ''chid'' then Some (JNum (int 0)) else obj_get sample_in k)"
    "(0, 0, 1, 0) \<in> file_edges (comps (replace_entries (two_entries 0 0 send 1 0 recv) empty_file))"
    using submit_gives_data [OF empty_file_listed d sample_entries(4), of "''0''" "''1''"] by blast
  have "obj_get send ''host'' = Some (JStr ''*'')" using r(2) f(1) by (simp add: carries_def)
  moreover have "obj_get recv ''host'' = Some (JStr ''h'')" using r(3) f(2) by simp
  ultimately show ?thesis using r(1,4) by blast
qed

end
