(* ===== verification/Sessions.thy ===== *)
theory Sessions
  imports Naming Copy_Props
begin

text \<open>
  A session on the canvas page (\<open>drag.js\<close>): the events of the page, in the order the user and the
  browser produce them, and the requests that travel between the page and the server. The
  server's part is only what the scripts rely on: it keeps one working copy, answers a request
  with it and stores what is posted; requests, answers and posts may overtake one another.
\<close>

section \<open>Events\<close>

text \<open>
  The listeners the script registers, with the positions of the module and connector they were
  registered for. \<open>FormReady\<close> is the arrival of the schema of the connection form, \<open>FormEdit\<close> the
  user typing into it.
\<close>

datatype event =
    DragOver nat
  | DragOut nat
  | DragDown nat "rat \<times> rat"
  | DragMove nat "rat \<times> rat"
  | Over side nat nat
  | Out side nat nat
  | Down side nat nat
  | Pull side nat nat "rat \<times> rat"
  | Release side nat nat
  | AddButton side nat
  | NewModule "string option" "json option" "json option"
  | NewModules "int option" string "json option" "json option"
  | FormReady
  | FormEdit obj
  | FormSubmit
  | FormCancel

fun handle :: "env \<Rightarrow> event \<Rightarrow> page stmt" where
  "handle E (DragOver p) = upd_cv (drag_mouseover p)"
| "handle E (DragOut p) = upd_cv (drag_mouseout p)"
| "handle E (DragDown p ev) = upd_cv (drag_mousedown p ev)"
| "handle E (DragMove p ev) = on_canvas (drag_pressmove E p ev)"
| "handle E (Over Sender p i) = upd_cv (sender_mouseover p i)"
| "handle E (Over Receiver p j) = upd_cv (receiver_mouseover p j)"
| "handle E (Out Sender p i) = upd_cv (sender_mouseout p i)"
| "handle E (Out Receiver p j) = upd_cv (receiver_mouseout p j)"
| "handle E (Down Sender p i) = upd_cv (send_mousedown E p i)"
| "handle E (Down Receiver p j) = upd_cv (receive_mousedown E p j)"
| "handle E (Pull Sender p i ev) = upd_cv (send_pressmove p i ev)"
| "handle E (Pull Receiver p j ev) = upd_cv (receive_pressmove p j ev)"
| "handle E (Release Sender p i) = send_pressup E p i"
| "handle E (Release Receiver p j) = receive_pressup E p j"
| "handle E (AddButton Sender p) = sender_button E p"
| "handle E (AddButton Receiver p) = receiver_button p"
| "handle E (NewModule name host ty) = submitNewModule E name host ty"
| "handle E (NewModules nb name host ty) = submitNewMultiModules E nb name host ty"
| "handle E FormReady = upd (\<lambda>w. w\<lparr>editorReady := True\<rparr>)"
| "handle E (FormEdit v) = upd (\<lambda>w. w\<lparr>form := Some v\<rparr>)"
| "handle E FormSubmit = submitNewConnection"
| "handle E FormCancel = cancel_form"

text \<open>
  When an event can happen: its module and connector exist, the form has been opened, and the
  mouse enters a connector only after it has left the one it was over (\<open>createjs\<close> dispatches
  \<open>mouseout\<close> before the next \<open>mouseover\<close>).
\<close>

definition connector_count :: "side \<Rightarrow> gui_module \<Rightarrow> nat" where
  "connector_count sd m = (case sd of Sender \<Rightarrow> length (senders m) | Receiver \<Rightarrow> length (receivers m))"

definition has_connector :: "side \<Rightarrow> canvas \<Rightarrow> nat \<Rightarrow> nat \<Rightarrow> bool" where
  "has_connector sd s p i \<longleftrightarrow> p < length (moduleArray s) \<and> i < connector_count sd (moduleArray s ! p)"

definition hovering :: "side \<Rightarrow> canvas \<Rightarrow> bool" where
  "hovering sd s = (case sd of Sender \<Rightarrow> ABOVESENDER s | Receiver \<Rightarrow> ABOVERECEIVER s)"

fun enabled :: "event \<Rightarrow> page \<Rightarrow> bool" where
  "enabled (DragOver p) w = (p < length (moduleArray (cv w)))"
| "enabled (DragOut p) w = (p < length (moduleArray (cv w)))"
| "enabled (DragDown p ev) w = (p < length (moduleArray (cv w)))"
| "enabled (DragMove p ev) w = (p < length (moduleArray (cv w)))"
| "enabled (Over sd p i) w =
     (has_connector sd (cv w) p i \<and> \<not> ABOVESENDER (cv w) \<and> \<not> ABOVERECEIVER (cv w))"
| "enabled (Out sd p i) w = (has_connector sd (cv w) p i \<and> hovering sd (cv w))"
| "enabled (Down sd p i) w = has_connector sd (cv w) p i"
| "enabled (Pull sd p i ev) w = has_connector sd (cv w) p i"
| "enabled (Release sd p i) w = has_connector sd (cv w) p i"
| "enabled (AddButton sd p) w = (p < length (moduleArray (cv w)))"
| "enabled (NewModule name host ty) w = True"
| "enabled (NewModules nb name host ty) w = True"
| "enabled FormReady w = True"
| "enabled (FormEdit v) w = (form w \<noteq> None)"
| "enabled FormSubmit w = (form w \<noteq> None)"
| "enabled FormCancel w = (form w \<noteq> None)"

text \<open>
  The connection a released line stands for, and the releases that draw one the canvas already
  has although \<open>checkConnection\<close> does not say so (see \<open>check_misses_existing_connection\<close>).
\<close>

fun release_ends :: "event \<Rightarrow> canvas \<Rightarrow> (string \<times> string \<times> string \<times> string) option" where
  "release_ends (Release Sender p i) s =
     (case ABOVEINFO s of
        None \<Rightarrow> None
      | Some (k, chid, host) \<Rightarrow>
          if ABOVERECEIVER s then Some (nat_str (m_ID (moduleArray s ! p)), nat_str i, nat_str k, chid)
          else None)"
| "release_ends (Release Receiver p j) s =
     (case ABOVEINFO s of
        None \<Rightarrow> None
      | Some (k, chid, host) \<Rightarrow>
          if ABOVESENDER s then Some (nat_str k, chid, nat_str (m_ID (moduleArray s ! p)), nat_str j)
          else None)"
| "release_ends ev s = None"

definition draws_twice :: "event \<Rightarrow> page \<Rightarrow> bool" where
  "draws_twice ev w =
     (case release_ends ev (cv w) of
        None \<Rightarrow> False
      | Some (a, b, c, d) \<Rightarrow>
          conn_name a b c d \<in> fst ` set (overallConnections (cv w))
          \<and> checkConnection a b c d (cv w) \<noteq> ''exists'')"

section \<open>Requests\<close>

text \<open>
  The success callbacks, run on the page as it is when the answer arrives: what they post, if
  they post. A connection form that does not validate deletes the connection instead. The
  validator of the form library is a parameter.
\<close>

definition answer :: "(obj \<Rightarrow> json list) \<Rightarrow> job \<Rightarrow> config \<Rightarrow> page \<Rightarrow> (js_error option \<times> page) \<times> config option" where
  "answer validate j cf w =
     (case j of
        WriteJob \<Rightarrow> ((None, w), Some (writeJSON (moduleArray (cv w)) cf))
      | CopyJob from mSend mRec \<Rightarrow>
          (case copyConnectors_success from mSend mRec (moduleArray (cv w)) (TEMPORARYINFO (cv w)) cf of
             Inl e \<Rightarrow> ((Some e, w), None)
           | Inr cf' \<Rightarrow> ((None, w), Some cf'))
      | SubmitJob mSend mRec \<Rightarrow>
          (case form w of
             None \<Rightarrow> ((Some TypeError, w), None)
           | Some v \<Rightarrow>
               if validate v \<noteq> [] then (on_canvas cancelConnection w, None)
               else (case submitNewConnection_success mSend mRec (moduleArray (cv w))
                            (TEMPORARYINFO (cv w)) v cf of
                       Inl e \<Rightarrow> ((Some e, w), None)
                     | Inr cf' \<Rightarrow> ((None, w), Some cf'))))"

text \<open>
  A session: the page (whose \<open>sent\<close> are the requests on their way to the server), the working
  copy, the answers on their way to the page and the posts on their way to the server. The steps
  of the messages model the browser's requests and the server, which are not code of the
  repository's scripts: any message may be the next to arrive. Only \<open>answer\<close> translates code.
\<close>

record session =
  pg :: page
  store :: config
  inbox :: "(job \<times> config) list"
  outbox :: "config list"

inductive net_step :: "(obj \<Rightarrow> json list) \<Rightarrow> session \<Rightarrow> session \<Rightarrow> bool" for validate where
  serve: "sent (pg x) = js @ j # ks
     \<Longrightarrow> net_step validate x
           (x\<lparr>pg := (pg x)\<lparr>sent := js @ ks\<rparr>, inbox := inbox x @ [(j, store x)]\<rparr>)"
| deliver: "inbox x = as @ (j, cf) # bs \<Longrightarrow> answer validate j cf (pg x) = ((e, w), post)
     \<Longrightarrow> net_step validate x
           (x\<lparr>pg := w, inbox := as @ bs, outbox := outbox x @ (case post of None \<Rightarrow> [] | Some c \<Rightarrow> [c])\<rparr>)"
| arrive: "outbox x = cs @ c # ds \<Longrightarrow> net_step validate x (x\<lparr>store := c, outbox := cs @ ds\<rparr>)"

text \<open>A step is an event, which is its label, or happens in the network.\<close>

inductive session_step ::
  "env \<Rightarrow> (obj \<Rightarrow> json list) \<Rightarrow> event option \<Rightarrow> session \<Rightarrow> session \<Rightarrow> bool" for E validate where
  event: "enabled ev (pg x) \<Longrightarrow> session_step E validate (Some ev) x (x\<lparr>pg := snd (handle E ev (pg x))\<rparr>)"
| network: "net_step validate x y \<Longrightarrow> session_step E validate None x y"

text \<open>
  Sessions start when the page has loaded its working copy. The reachable sessions are the states
  the steps lead to as long as no existing connection is drawn a second time: the handlers do
  draw it (see \<open>check_misses_existing_connection\<close>), and what they leave behind is no longer
  consistent, so the properties of sessions are stated up to that release.
\<close>

definition start_page :: "canvas \<Rightarrow> page" where
  "start_page s = \<lparr>cv = s, editorReady = False, form = None, sent = []\<rparr>"

inductive session_reachable :: "env \<Rightarrow> (obj \<Rightarrow> json list) \<Rightarrow> session \<Rightarrow> bool" for E validate where
  start: "components cf = Some cs \<Longrightarrow> file_ok cs \<Longrightarrow> readJSON E ps cf init_canvas = (None, s)
     \<Longrightarrow> session_reachable E validate \<lparr>pg = start_page s, store = cf, inbox = [], outbox = []\<rparr>"
| step: "session_reachable E validate x \<Longrightarrow> session_step E validate a x y
     \<Longrightarrow> \<forall>ev. a = Some ev \<longrightarrow> \<not> draws_twice ev (pg x) \<Longrightarrow> session_reachable E validate y"

inductive_cases net_stepE: "net_step validate x y"
inductive_cases session_stepE: "session_step E validate a x y"

end
