(* ===== verification/Gesture_Props.thy ===== *)
theory Gesture_Props
  imports Gestures Graph_Props
begin

text \<open>
  What a complete gesture does: press on a connector, pull the line, enter the other connector,
  release. The lemmas first show that pressing, pulling and hovering leave the graph of
  connections alone.
\<close>

section \<open>Events that leave the graph alone\<close>

lemma graph_ok_globals [simp]:
  "graph_ok (s\<lparr>TEMPORARYINFO := x\<rparr>) = graph_ok s" "graph_ok (s\<lparr>ABOVEINFO := y\<rparr>) = graph_ok s"
  "graph_ok (s\<lparr>ABOVESENDER := b\<rparr>) = graph_ok s" "graph_ok (s\<lparr>ABOVERECEIVER := b\<rparr>) = graph_ok s"
  "graph_ok (s\<lparr>prt := p\<rparr>) = graph_ok s"
  by (simp_all add: graph_ok_def canvas_ok_def ids_ok_def names_ok_def lists_ok_def lines_ok_def
      sender_list_def receiver_list_def edges_def)

lemma edges_globals [simp]:
  "edges (s\<lparr>TEMPORARYINFO := x\<rparr>) = edges s" "edges (s\<lparr>ABOVEINFO := y\<rparr>) = edges s"
  "edges (s\<lparr>ABOVESENDER := b\<rparr>) = edges s" "edges (s\<lparr>ABOVERECEIVER := b\<rparr>) = edges s"
  "edges (s\<lparr>prt := p\<rparr>) = edges s"
  by (simp_all add: edges_def)

lemma lines_drawn_globals [simp]:
  "lines_drawn E (s\<lparr>TEMPORARYINFO := x\<rparr>) = lines_drawn E s"
  "lines_drawn E (s\<lparr>ABOVEINFO := y\<rparr>) = lines_drawn E s"
  "lines_drawn E (s\<lparr>ABOVESENDER := b\<rparr>) = lines_drawn E s"
  "lines_drawn E (s\<lparr>ABOVERECEIVER := b\<rparr>) = lines_drawn E s"
  "lines_drawn E (s\<lparr>prt := p\<rparr>) = lines_drawn E s"
  by (simp_all add: lines_drawn_def)

text \<open>Changes of a module that neither move it nor touch its lists or its drag area.\<close>

definition calm :: "(gui_module \<Rightarrow> gui_module) \<Rightarrow> bool" where
  "calm f \<longleftrightarrow> (\<forall>m. (module_ok m \<longrightarrow> module_ok (f m)) \<and> m_ID (f m) = m_ID m \<and> m_host (f m) = m_host m
     \<and> senders (f m) = senders m \<and> receivers (f m) = receivers m
     \<and> cont_x (f m) = cont_x m \<and> cont_y (f m) = cont_y m \<and> dragNode (f m) = dragNode m)"

lemma calm_slots:
  assumes "calm f"
  shows "slots_exist (moduleArray (upd_module p f s)) e = slots_exist (moduleArray s) e"
proof -
  have "length (senders (moduleArray (upd_module p f s) ! k)) = length (senders (moduleArray s ! k))"
    "length (receivers (moduleArray (upd_module p f s) ! k)) = length (receivers (moduleArray s ! k))"
    if "k < length (moduleArray s)" for k
    using assms that by (cases "k = p"; simp add: calm_def)+
  then show ?thesis by (cases e) (auto simp: slots_exist_def)
qed

lemma calm_graph:
  assumes "calm f" "graph_ok s" "lines_drawn E s" "p < length (moduleArray s)"
  shows "graph_ok (upd_module p f s)" "edges (upd_module p f s) = edges s"
    "lines_drawn E (upd_module p f s)"
proof -
  have "module_ok (moduleArray s ! p)" using assms(2,4) by (simp add: graph_ok_def canvas_ok_nth)
  then show g: "graph_ok (upd_module p f s)" and e: "edges (upd_module p f s) = edges s"
    using graph_ok_upd_module [OF assms(2,4), of f] assms(1) by (simp_all add: calm_def)
  have pts: "sendPoint E (moduleArray (upd_module p f s) ! k) = sendPoint E (moduleArray s ! k)"
    "receivePoint E (moduleArray (upd_module p f s) ! k) = receivePoint E (moduleArray s ! k)" for k
    using assms(1,4)
    by (cases "k = p"; simp add: calm_def sendPoint_def receivePoint_def fun_eq_iff)+
  have "line_of E (moduleArray (upd_module p f s)) x = line_of E (moduleArray s) x" for x
    by (cases x) (simp only: line_of_def pts prod.case)
  then show "lines_drawn E (upd_module p f s)" using assms(3) e by (simp add: lines_drawn_def)
qed

lemma calm_events:
  "calm (recolor_sender i c)" "calm (recolor_receiver i c)" "calm (\<lambda>m. pull_line (start m) ev m)"
  "calm (\<lambda>m. m\<lparr>connectionLine := []\<rparr>)"
  unfolding calm_def
  by (auto simp: module_ok_recolor)
    (simp_all add: recolor_sender_def recolor_receiver_def pull_line_def dragNode_def module_ok_def
      split: option.split prod.split)

lemma calm_start:
  "calm (\<lambda>m. m\<lparr>chidSendArray := (chidSendArray m)[i := (chidSendArray m ! i)\<lparr>ct_init := x m\<rparr>]\<rparr>)"
  "calm (\<lambda>m. m\<lparr>chidReceiveArray := (chidReceiveArray m)[i := (chidReceiveArray m ! i)\<lparr>ct_init := x m\<rparr>]\<rparr>)"
  unfolding calm_def by (simp_all add: module_ok_def dragNode_def boxes_ok_update)

section \<open>Pulling a line over a connector\<close>

text \<open>
  The state in which a line pulled from sender \<open>i\<close> of module \<open>m\<close> is released over receiver \<open>j\<close>
  of module \<open>r\<close>, and the other way round.
\<close>

definition pulled_to_receiver :: "env \<Rightarrow> nat \<times> nat \<times> nat \<times> nat \<Rightarrow> rat \<times> rat \<Rightarrow> canvas \<Rightarrow> canvas" where
  "pulled_to_receiver E = (\<lambda>(m, i, r, j) ev s.
     receiver_mouseover r j (send_pressmove m i ev (send_mousedown E m i s)))"

definition pulled_to_sender :: "env \<Rightarrow> nat \<times> nat \<times> nat \<times> nat \<Rightarrow> rat \<times> rat \<Rightarrow> canvas \<Rightarrow> canvas" where
  "pulled_to_sender E = (\<lambda>(m, i, r, j) ev s.
     sender_mouseover m i (receive_pressmove r j ev (receive_mousedown E r j s)))"

lemma hover_name:
  assumes "module_ok m"
  shows "i < length (senders m) \<Longrightarrow> char_at 6 (ct_name (chidSendArray m ! i)) = [hd (nat_str i)]"
    "j < length (receivers m) \<Longrightarrow> char_at 8 (ct_name (chidReceiveArray m ! j)) = [hd (nat_str j)]"
  using assms by (simp_all add: module_ok_def boxes_ok_def char_at_def hd_conv_nth)

text \<open>The relation between the states before and during a gesture.\<close>

definition during :: "env \<Rightarrow> canvas \<Rightarrow> canvas \<Rightarrow> bool" where
  "during E s t \<longleftrightarrow> graph_ok t \<and> lines_drawn E t \<and> edges t = edges s
     \<and> overallConnections t = overallConnections s \<and> prt t = prt s
     \<and> length (moduleArray t) = length (moduleArray s)
     \<and> (\<forall>k < length (moduleArray s). m_host (moduleArray t ! k) = m_host (moduleArray s ! k)
          \<and> senders (moduleArray t ! k) = senders (moduleArray s ! k)
          \<and> receivers (moduleArray t ! k) = receivers (moduleArray s ! k))"

lemma during_refl: "graph_ok s \<Longrightarrow> lines_drawn E s \<Longrightarrow> during E s s"
  by (simp add: during_def)

lemma during_calm:
  assumes "during E s t" "calm f" "p < length (moduleArray s)"
  shows "during E s (upd_module p f t)"
proof -
  have t: "graph_ok t" "lines_drawn E t" "p < length (moduleArray t)"
    using assms(1,3) by (simp_all add: during_def)
  note g = calm_graph [OF assms(2) t]
  have "m_host (moduleArray (upd_module p f t) ! k) = m_host (moduleArray t ! k)"
    "senders (moduleArray (upd_module p f t) ! k) = senders (moduleArray t ! k)"
    "receivers (moduleArray (upd_module p f t) ! k) = receivers (moduleArray t ! k)" for k
    using assms(2) t(3) by (cases "k = p"; simp add: calm_def)+
  then show ?thesis using assms(1) g by (simp add: during_def)
qed

lemma during_globals [simp]:
  "during E s (t\<lparr>ABOVEINFO := x\<rparr>) = during E s t" "during E s (t\<lparr>ABOVESENDER := b\<rparr>) = during E s t"
  "during E s (t\<lparr>ABOVERECEIVER := b\<rparr>) = during E s t"
  by (simp_all add: during_def)

lemma during_module:
  assumes "during E s t" "k < length (moduleArray s)"
  shows "m_ID (moduleArray t ! k) = k" "module_ok (moduleArray t ! k)"
  using assms by (simp_all add: during_def graph_ok_def canvas_ok_ID canvas_ok_nth)

lemma during_slots: "during E s t \<Longrightarrow> slots_exist (moduleArray t) e = slots_exist (moduleArray s) e"
  by (cases e) (auto simp: during_def slots_exist_def)

lemma pulled_to_receiver_result:
  assumes "graph_ok s" "lines_drawn E s" "slots_exist (moduleArray s) (m, i, r, j)"
    and t: "t = pulled_to_receiver E (m, i, r, j) ev s"
  shows "during E s t" "ABOVERECEIVER t"
    "ABOVEINFO t = Some (r, [hd (nat_str j)], m_host (moduleArray s ! r))"
proof -
  have len: "m < length (moduleArray s)" "r < length (moduleArray s)" "j < length (receivers (moduleArray s ! r))"
    using assms(3) by (simp_all add: slots_exist_def)
  let ?b = "send_pressmove m i ev (send_mousedown E m i s)"
  have b: "during E s ?b" unfolding send_pressmove_def send_mousedown_def
    by (intro during_calm during_refl assms(1,2) len(1) calm_events(3) calm_start(1))
  have "during E s (upd_module r (recolor_receiver j ''#E0D5B8'') ?b)"
    by (rule during_calm [OF b calm_events(2) len(2)])
  then show "during E s t" "ABOVERECEIVER t"
    unfolding t pulled_to_receiver_def by (simp_all add: receiver_mouseover_def Let_def)
  have "receivers (moduleArray ?b ! r) = receivers (moduleArray s ! r)"
    "m_host (moduleArray ?b ! r) = m_host (moduleArray s ! r)" using b len(2) by (simp_all add: during_def)
  then show "ABOVEINFO t = Some (r, [hd (nat_str j)], m_host (moduleArray s ! r))"
    unfolding t pulled_to_receiver_def
    using during_module [OF b len(2)] hover_name(2) [of "moduleArray ?b ! r" j] len(3)
    by (simp add: receiver_mouseover_def Let_def)
qed

lemma pulled_to_sender_result:
  assumes "graph_ok s" "lines_drawn E s" "slots_exist (moduleArray s) (m, i, r, j)"
    and t: "t = pulled_to_sender E (m, i, r, j) ev s"
  shows "during E s t" "ABOVESENDER t"
    "ABOVEINFO t = Some (m, [hd (nat_str i)], m_host (moduleArray s ! m))"
proof -
  have len: "r < length (moduleArray s)" "m < length (moduleArray s)" "i < length (senders (moduleArray s ! m))"
    using assms(3) by (simp_all add: slots_exist_def)
  let ?b = "receive_pressmove r j ev (receive_mousedown E r j s)"
  have b: "during E s ?b" unfolding receive_pressmove_def receive_mousedown_def
    by (intro during_calm during_refl assms(1,2) len(1) calm_events(3) calm_start(2))
  have "during E s (upd_module m (recolor_sender i ''#8AF598'') ?b)"
    by (rule during_calm [OF b calm_events(1) len(2)])
  then show "during E s t" "ABOVESENDER t"
    unfolding t pulled_to_sender_def by (simp_all add: sender_mouseover_def Let_def)
  have "senders (moduleArray ?b ! m) = senders (moduleArray s ! m)"
    "m_host (moduleArray ?b ! m) = m_host (moduleArray s ! m)" using b len(2) by (simp_all add: during_def)
  then show "ABOVEINFO t = Some (m, [hd (nat_str i)], m_host (moduleArray s ! m))"
    unfolding t pulled_to_sender_def
    using during_module [OF b len(2)] hover_name(1) [of "moduleArray ?b ! m" i] len(3)
    by (simp add: sender_mouseover_def Let_def)
qed

section \<open>Releasing the line\<close>

text \<open>
  What releasing a line between two connectors should do to the page \<open>w\<close>, seen from the edges:
  nothing for an existing connection; otherwise the edge is inserted and recorded, the form is
  opened when both connectors were free, and the data of the used end is copied when not.
\<close>

definition free_ends :: "canvas \<Rightarrow> nat \<times> nat \<times> nat \<times> nat \<Rightarrow> bool" where
  "free_ends s = (\<lambda>(m, i, r, j). (\<forall>m' i'. (m', i', r, j) \<notin> edges s) \<and> (\<forall>r' j'. (m, i, r', j') \<notin> edges s))"

definition copy_sent :: "canvas \<Rightarrow> nat \<times> nat \<times> nat \<times> nat \<Rightarrow> job \<Rightarrow> bool" where
  "copy_sent s = (\<lambda>(m, i, r, j) jb.
     jb = CopyJob ''receiver'' (Some m) (Some r) \<and> (\<exists>m' i'. (m', i', r, j) \<in> edges s)
     \<or> jb = CopyJob ''sender'' (Some m) (Some r) \<and> (\<exists>r' j'. (m, i, r', j') \<in> edges s))"

definition connected_by ::
  "env \<Rightarrow> nat \<times> nat \<times> nat \<times> nat \<Rightarrow> string \<Rightarrow> string \<Rightarrow> page \<Rightarrow> page \<Rightarrow> bool" where
  "connected_by E e chid host w w' \<longleftrightarrow>
     graph_ok (cv w') \<and> lines_drawn E (cv w')
     \<and> edges (cv w') = insert e (edges (cv w))
     \<and> (if e \<in> edges (cv w) then form w' = form w \<and> sent w' = sent w
        else TEMPORARYINFO (cv w') = (case e of (m, i, r, j) \<Rightarrow>
               Some (nat_str m, nat_str i, nat_str r, nat_str j))
          \<and> (if free_ends (cv w) e
             then form w' = Some [(''chid'', JStr chid), (''port'', JNum (PORTCONNECTION (prt (cv w)))),
                    (''host'', JStr host)]
                  \<and> sent w' = sent w
             else form w' = form w \<and> (\<exists>jb. sent w' = sent w @ [jb] \<and> copy_sent (cv w) e jb)))"

lemma find_temporary_result:
  assumes "graph_ok s" "slots_exist (moduleArray s) (m, i, r, j)"
    and "TEMPORARYINFO s = Some (nat_str m, nat_str i, nat_str r, nat_str j)"
  shows "find_temporary s = Inr (Some m, Some r)"
  using assms
  by (simp add: find_temporary_def find_ends_array slots_exist_def graph_ok_def canvas_ok_def)

lemma calm_clear: "calm (\<lambda>m. m\<lparr>connectionLine := []\<rparr>)"
  by (rule calm_events(4))

text \<open>The end common to both handlers, from the state \<open>t\<close> in which the line is released.\<close>

lemma finish_connection_result:
  assumes g: "graph_ok t" and d: "lines_drawn E t" and sl: "slots_exist (moduleArray t) (m, i, r, j)"
    and new: "(m, i, r, j) \<notin> edges t" and "editorReady w \<or> st \<noteq> ''new''" "cv w = t"
    and st: "st = checkConnection (nat_str m) (nat_str i) (nat_str r) (nat_str j) t"
  shows "\<exists>w'. finish_connection E st (nat_str m) (nat_str i) (nat_str r) (nat_str j) chid host w = (None, w')
     \<and> connected_by E (m, i, r, j) chid host w w'"
proof -
  let ?e = "(m, i, r, j)" let ?ti = "Some (nat_str m, nat_str i, nat_str r, nat_str j)"
  have "names_ok t" using g by (simp add: graph_ok_def)
  then obtain es where es: "set es = edges t" "st = check_edges ?e es"
    using checkConnection_edges st by metis
  have rng: "st \<in> {''new'', ''exists'', ''receiver_full'', ''sender_full''}"
    unfolding es(2) by (rule check_edges_range)
  have nex: "st \<noteq> ''exists''" using check_edges_exists_in new es by metis
  have fr: "st = ''new'' \<longleftrightarrow> free_ends t ?e"
    unfolding es(2) check_edges_new es(1) free_ends_def by force
  have rf: "\<exists>m' i'. (m', i', r, j) \<in> edges t" if "st = ''receiver_full''"
    using that check_edges_receiver es by (metis prod.collapse)
  have sf: "\<exists>r' j'. (m, i, r', j') \<in> edges t" if "st = ''sender_full''"
    using that check_edges_sender es by (metis prod.collapse)
  have conn: "\<exists>u. connectLines E (nat_str m) (nat_str i) (nat_str r) (nat_str j) s = (None, u)
      \<and> graph_ok u \<and> lines_drawn E u \<and> edges u = insert ?e (edges t) \<and> TEMPORARYINFO u = ?ti"
    if s: "s = t\<lparr>TEMPORARYINFO := ?ti\<rparr> \<or> s = t\<lparr>TEMPORARYINFO := ?ti, prt := p\<rparr>" for s p
  proof -
    have h: "graph_ok s" "lines_drawn E s" "edges s = edges t" "slots_exist (moduleArray s) ?e"
      "TEMPORARYINFO s = ?ti"
      using s g d sl by auto
    then have ok: "canvas_ok s" by (simp add: graph_ok_def)
    show ?thesis
      using graph_ok_connect [OF h(1,4) _ refl, of E] lines_drawn_connect [OF h(1,2,4) _ refl] new h(3,5)
      unfolding connectLines_result [OF ok h(4)] by simp
  qed
  have ft: "find_temporary (t\<lparr>TEMPORARYINFO := ?ti\<rparr>) = Inr (Some m, Some r)"
    by (rule find_temporary_result [of _ m i r j]) (use g sl in simp_all)
  show ?thesis
  proof (cases "st = ''new''")
    case True
    from conn [OF disjI2, OF refl, of "(prt t)\<lparr>PORTCONNECTION := PORTCONNECTION (prt t) + 1\<rparr>"]
    obtain u where u: "connectLines E (nat_str m) (nat_str i) (nat_str r) (nat_str j)
        (t\<lparr>TEMPORARYINFO := ?ti, prt := (prt t)\<lparr>PORTCONNECTION := PORTCONNECTION (prt t) + 1\<rparr>\<rparr>) = (None, u)"
      "graph_ok u" "lines_drawn E u" "edges u = insert ?e (edges t)" "TEMPORARYINFO u = ?ti" by blast
    show ?thesis
      using True u new fr assms(5,6)
      by (simp add: finish_connection_def js_defs upd_cv_def on_canvas_def callConnectForm_def
          connected_by_def)
  next
    case False
    from conn [OF disjI1, OF refl]
    obtain u where u: "connectLines E (nat_str m) (nat_str i) (nat_str r) (nat_str j)
        (t\<lparr>TEMPORARYINFO := ?ti\<rparr>) = (None, u)"
      "graph_ok u" "lines_drawn E u" "edges u = insert ?e (edges t)" "TEMPORARYINFO u = ?ti" by blast
    consider "st = ''receiver_full''" | "st = ''sender_full''" using False nex rng by blast
    then show ?thesis
    proof cases
      case 1
      then show ?thesis
        using False u new fr assms(6) rf ft
        by (simp add: finish_connection_def js_defs upd_cv_def on_canvas_def copyConnectors_def
            send_job_def connected_by_def copy_sent_def)
    next
      case 2
      then show ?thesis
        using False u new fr assms(6) sf ft
        by (simp add: finish_connection_def js_defs upd_cv_def on_canvas_def copyConnectors_def
            send_job_def connected_by_def copy_sent_def)
    qed
  qed
qed

lemma connected_by_during:
  assumes "during E (cv w) t" "connected_by E e chid host (w\<lparr>cv := t\<rparr>) w'"
  shows "connected_by E e chid host w w'"
proof -
  have eq: "edges t = edges (cv w)" "prt t = prt (cv w)" using assms(1) by (simp_all add: during_def)
  have "free_ends t = free_ends (cv w)" "copy_sent t = copy_sent (cv w)"
    unfolding free_ends_def copy_sent_def eq by (rule refl)+
  then show ?thesis using assms(2) eq unfolding connected_by_def by (simp cong: if_cong)
qed

lemma nat_str_hd: "k < 10 \<Longrightarrow> [hd (nat_str k)] = nat_str k"
  by (simp add: nat_str_small)

lemma during_clear: "during E s t \<Longrightarrow> p < length (moduleArray s) \<Longrightarrow> during E s (clear_line p t)"
  unfolding clear_line_def by (rule during_calm [OF _ calm_clear])

lemma check_upd_module [simp]:
  "checkConnection a b c d (upd_module p f s) = checkConnection a b c d s"
  by (simp add: checkConnection_def)

lemma release_result:
  assumes u: "during E (cv w) u" and "editorReady w" "slots_exist (moduleArray (cv w)) (m, i, r, j)"
    and "(m, i, r, j) \<in> edges (cv w) \<Longrightarrow> only_ends (cv w) (m, i, r, j)"
    and st: "st = checkConnection (nat_str m) (nat_str i) (nat_str r) (nat_str j) u"
  shows "\<exists>w'. (if st = ''exists'' then (None, w\<lparr>cv := u\<rparr>)
      else finish_connection E st (nat_str m) (nat_str i) (nat_str r) (nat_str j) chid host (w\<lparr>cv := u\<rparr>))
        = (None, w') \<and> connected_by E (m, i, r, j) chid host w w'"
proof -
  let ?e = "(m, i, r, j)"
  have gu: "graph_ok u" "lines_drawn E u" "edges u = edges (cv w)" "slots_exist (moduleArray u) ?e"
    using u during_slots [OF u] assms(3) by (simp_all add: during_def)
  show ?thesis
  proof (cases "?e \<in> edges (cv w)")
    case True
    then have "st = ''exists''" unfolding st
      by (intro check_only_ends [OF gu(1)])
        (use True assms(4) [OF True] gu(3) in \<open>simp_all only: only_ends_def\<close>)
    moreover have "connected_by E ?e chid host w (w\<lparr>cv := u\<rparr>)"
      using True gu by (simp add: connected_by_def insert_absorb)
    ultimately show ?thesis by simp
  next
    case False
    then have new: "?e \<notin> edges u" using gu(3) by simp
    have nex: "st \<noteq> ''exists''" using check_exists_edge [OF gu(1)] new st by metis
    obtain w' where w': "finish_connection E st (nat_str m) (nat_str i) (nat_str r) (nat_str j)
        chid host (w\<lparr>cv := u\<rparr>) = (None, w')" "connected_by E ?e chid host (w\<lparr>cv := u\<rparr>) w'"
      using finish_connection_result [OF gu(1,2,4) new _ _ st, of "w\<lparr>cv := u\<rparr>"] assms(2) by auto
    then show ?thesis using nex connected_by_during [OF u w'(2)] by simp
  qed
qed

text \<open>
  C5. Drawing a line from a sender to a receiver connects them: pressing on sender \<open>i\<close> of module
  \<open>m\<close>, pulling, and releasing over receiver \<open>j < 10\<close> of module \<open>r\<close> never throws and leaves a
  consistent canvas with this edge added. A new connection of two free connectors opens the
  form with the receiver's index and host and the next automatic port; otherwise a request to
  copy the data of the connector already in use is sent; a connection that exists is left alone
  (if no other connection shares its connectors).
\<close>

theorem sender_gesture_connects:
  assumes "graph_ok (cv w)" "lines_drawn E (cv w)" "editorReady w"
    and "slots_exist (moduleArray (cv w)) (m, i, r, j)" "j < 10"
    and "(m, i, r, j) \<in> edges (cv w) \<Longrightarrow> only_ends (cv w) (m, i, r, j)"
  shows "\<exists>w'. send_pressup E m i (w\<lparr>cv := pulled_to_receiver E (m, i, r, j) ev (cv w)\<rparr>) = (None, w')
    \<and> connected_by E (m, i, r, j) (nat_str j) (m_host (moduleArray (cv w) ! r)) w w'"
proof -
  define t where "t = pulled_to_receiver E (m, i, r, j) ev (cv w)"
  define u where "u = clear_line m t"
  note p = pulled_to_receiver_result [OF assms(1,2,4) t_def]
  have len: "m < length (moduleArray (cv w))" using assms(4) by (simp add: slots_exist_def)
  have u: "during E (cv w) u" unfolding u_def by (rule during_clear [OF p(1) len])
  let ?st = "checkConnection (nat_str m) (nat_str i) (nat_str r) (nat_str j) u"
  have "send_pressup E m i (w\<lparr>cv := t\<rparr>) =
      (if ?st = ''exists'' then (None, w\<lparr>cv := u\<rparr>)
       else finish_connection E ?st (nat_str m) (nat_str i) (nat_str r) (nat_str j) (nat_str j)
              (m_host (moduleArray (cv w) ! r)) (w\<lparr>cv := u\<rparr>))"
    using p(2,3) nat_str_hd [OF assms(5)] during_module(1) [OF p(1) len]
    by (simp add: send_pressup_def js_defs Let_def upd_cv_def on_canvas_def u_def clear_line_def)
  then show ?thesis
    using release_result [OF u assms(3,4,6) refl] by (simp add: t_def)
qed

text \<open>
  C6. Drawing a line from a receiver to a sender connects them in the same way: pressing on
  receiver \<open>j\<close> of module \<open>r\<close> and releasing over sender \<open>i < 10\<close> of module \<open>m\<close>.
\<close>

theorem receiver_gesture_connects:
  assumes "graph_ok (cv w)" "lines_drawn E (cv w)" "editorReady w"
    and "slots_exist (moduleArray (cv w)) (m, i, r, j)" "i < 10"
    and "(m, i, r, j) \<in> edges (cv w) \<Longrightarrow> only_ends (cv w) (m, i, r, j)"
  shows "\<exists>w'. receive_pressup E r j (w\<lparr>cv := pulled_to_sender E (m, i, r, j) ev (cv w)\<rparr>) = (None, w')
    \<and> connected_by E (m, i, r, j) (nat_str j) (m_host (moduleArray (cv w) ! r)) w w'"
proof -
  define t where "t = pulled_to_sender E (m, i, r, j) ev (cv w)"
  define u where "u = clear_line r t"
  note p = pulled_to_sender_result [OF assms(1,2,4) t_def]
  have len: "r < length (moduleArray (cv w))" using assms(4) by (simp add: slots_exist_def)
  have u: "during E (cv w) u" unfolding u_def by (rule during_clear [OF p(1) len])
  let ?st = "checkConnection (nat_str m) (nat_str i) (nat_str r) (nat_str j) u"
  have "m_host (moduleArray t ! r) = m_host (moduleArray (cv w) ! r)"
    using p(1) len by (simp add: during_def)
  then have "receive_pressup E r j (w\<lparr>cv := t\<rparr>) =
      (if ?st = ''exists'' then (None, w\<lparr>cv := u\<rparr>)
       else finish_connection E ?st (nat_str m) (nat_str i) (nat_str r) (nat_str j) (nat_str j)
              (m_host (moduleArray (cv w) ! r)) (w\<lparr>cv := u\<rparr>))"
    using p(2,3) nat_str_hd [OF assms(5)] during_module(1) [OF p(1) len]
    by (simp add: receive_pressup_def js_defs Let_def upd_cv_def on_canvas_def u_def clear_line_def)
  then show ?thesis
    using release_result [OF u assms(3,4,6) refl] by (simp add: t_def)
qed

text \<open>Both gestures on the sample canvas.\<close>

definition sample_page :: page where
  "sample_page = \<lparr>cv = sample_canvas, editorReady = True, form = None, sent = []\<rparr>"

theorem sender_gesture_connects_witness:
  "\<exists>w'. send_pressup sample_env 0 0 (sample_page\<lparr>cv :=
      pulled_to_receiver sample_env (0, 0, Suc 0, 1) (3 / 2, 7) sample_canvas\<rparr>) = (None, w')
    \<and> edges (cv w') = {(0, 0, 1, 1)} \<and> sent w' = []"
  using sender_gesture_connects [of sample_page sample_env 0 0 "Suc 0" 1 "(3 / 2, 7)"]
  by (auto simp: sample_page_def sample_graph sample_slots connected_by_def free_ends_def)

theorem receiver_gesture_connects_witness:
  "\<exists>w'. receive_pressup sample_env (Suc 0) 1 (sample_page\<lparr>cv :=
      pulled_to_sender sample_env (0, 0, Suc 0, 1) (3 / 2, 7) sample_canvas\<rparr>) = (None, w')
    \<and> edges (cv w') = {(0, 0, 1, 1)} \<and> sent w' = []"
  using receiver_gesture_connects [of sample_page sample_env 0 0 "Suc 0" 1 "(3 / 2, 7)"]
  by (auto simp: sample_page_def sample_graph sample_slots connected_by_def free_ends_def)

lemma nat_str_hd_iff: "[hd (nat_str k)] = nat_str k \<longleftrightarrow> k < 10"
  using length_nat_str_small [of k] nat_str_hd [of k]
  by (metis length_Cons list.size(3) One_nat_def)

text \<open>
  Hovering reads the index of a connector from one character of its name: for a receiver (a
  sender) of a module the announced index is the first digit of its index, which is the index
  itself exactly when it is below ten. From the eleventh connector on, a line released there
  goes to another connector: index 10 is announced as 1.
\<close>

theorem hover_reads_one_digit:
  assumes "canvas_ok s" "p < length (moduleArray s)"
    and "j < length (receivers (moduleArray s ! p))" "i < length (senders (moduleArray s ! p))"
  shows "ABOVEINFO (receiver_mouseover p j s) = Some (p, [hd (nat_str j)], m_host (moduleArray s ! p))
    \<and> ([hd (nat_str j)] = nat_str j \<longleftrightarrow> j < 10)
    \<and> ABOVEINFO (sender_mouseover p i s) = Some (p, [hd (nat_str i)], m_host (moduleArray s ! p))
    \<and> ([hd (nat_str i)] = nat_str i \<longleftrightarrow> i < 10)
    \<and> [hd (nat_str 10)] = nat_str 1"
proof -
  have ok: "module_ok (moduleArray s ! p)" "m_ID (moduleArray s ! p) = p"
    using assms by (simp_all add: canvas_ok_nth canvas_ok_ID)
  have "[hd (nat_str 10)] = nat_str 1"
    using nat_str_big [of 10] nat_str_small [of 1] by simp
  then show ?thesis
    using ok hover_name(2) [OF ok(1) assms(3)] hover_name(1) [OF ok(1) assms(4)] nat_str_hd_iff
    by (simp add: receiver_mouseover_def sender_mouseover_def Let_def)
qed

text \<open>A module with one sender and eleven receivers.\<close>

definition eleven_canvas :: canvas where
  "eleven_canvas = upd_module 0 (add_receiver ^^ 11)
     (upd_module 0 (add_sender sample_env) two_modules)"

lemma add_receivers:
  assumes "module_ok m"
  shows "module_ok ((add_receiver ^^ n) m)" "m_ID ((add_receiver ^^ n) m) = m_ID m"
    "senders ((add_receiver ^^ n) m) = senders m"
    "length (receivers ((add_receiver ^^ n) m)) = length (receivers m) + n"
  using assms by (induction n) (simp_all add: module_ok_add_receiver add_receiver_fields)

lemma eleven_canvas_facts:
  "canvas_ok eleven_canvas" "0 < length (moduleArray eleven_canvas)"
  "length (senders (moduleArray eleven_canvas ! 0)) = 1"
  "length (receivers (moduleArray eleven_canvas ! 0)) = 11"
proof -
  let ?s = "upd_module 0 (add_sender sample_env) two_modules"
  have s: "canvas_ok ?s" "0 < length (moduleArray ?s)"
    using two_modules_facts(1,2) by (simp_all add: canvas_ok_add_sender)
  have m: "module_ok (moduleArray two_modules ! 0)"
    using canvas_ok_nth [OF two_modules_facts(1)] two_modules_facts(2) by simp
  note a = add_receivers [OF canvas_ok_nth [OF s], of 11]
  show "canvas_ok eleven_canvas" unfolding eleven_canvas_def
    by (rule canvas_ok_upd_module [OF s]) (rule a(1), rule a(2))
  show "0 < length (moduleArray eleven_canvas)" "length (senders (moduleArray eleven_canvas ! 0)) = 1"
    "length (receivers (moduleArray eleven_canvas ! 0)) = 11"
    using a m two_modules_facts(2,5,8) unfolding eleven_canvas_def
    by (simp_all add: add_sender_fields del: funpow.simps)
qed

theorem hover_reads_one_digit_witness:
  "ABOVEINFO (receiver_mouseover 0 10 eleven_canvas)
     = Some (0, nat_str 1, m_host (moduleArray eleven_canvas ! 0))"
  using hover_reads_one_digit [OF eleven_canvas_facts(1,2), of 10 0] eleven_canvas_facts(3,4)
  by simp

end
