(* ===== verification/Session_Canvas.thy ===== *)
theory Session_Canvas
  imports Sessions Gesture_Props
begin

text \<open>
  What every event of a session keeps of the canvas: the graph of connections is consistent,
  every line is drawn between its connectors, what the mouse is over exists, and so do the ends
  of the connection the form is about.
\<close>

section \<open>Connectors that stay\<close>

lemma slots_exist_connectors:
  "slots_exist (moduleArray s) (m, i, r, j) \<longleftrightarrow> has_connector Sender s m i \<and> has_connector Receiver s r j"
  by (auto simp: slots_exist_def has_connector_def connector_count_def)

definition grows :: "canvas \<Rightarrow> canvas \<Rightarrow> bool" where
  "grows s t \<longleftrightarrow> (\<forall>sd p i. has_connector sd s p i \<longrightarrow> has_connector sd t p i)"

lemma growsI:
  assumes "length (moduleArray s) \<le> length (moduleArray t)"
    and "\<And>k. k < length (moduleArray s) \<Longrightarrow>
      length (senders (moduleArray s ! k)) \<le> length (senders (moduleArray t ! k))
      \<and> length (receivers (moduleArray s ! k)) \<le> length (receivers (moduleArray t ! k))"
  shows "grows s t"
  unfolding grows_def has_connector_def connector_count_def
  using assms by (auto split: side.splits) (meson less_le_trans)+

lemma during_grows: "during E s t \<Longrightarrow> grows s t"
  by (rule growsI) (simp_all add: during_def)

definition hover_ok :: "canvas \<Rightarrow> bool" where
  "hover_ok s \<longleftrightarrow> \<not> (ABOVESENDER s \<and> ABOVERECEIVER s)
     \<and> (\<forall>sd. hovering sd s \<longrightarrow>
          (\<exists>k i h. ABOVEINFO s = Some (k, nat_str i, h) \<and> has_connector sd s k i))"

definition temp_ok :: "canvas \<Rightarrow> bool" where
  "temp_ok s \<longleftrightarrow>
     (\<forall>q. TEMPORARYINFO s = Some q \<longrightarrow>
        (\<exists>m i r j. q = (nat_str m, nat_str i, nat_str r, nat_str j)
           \<and> has_connector Sender s m i \<and> has_connector Receiver s r j))"

definition mouse :: "canvas \<Rightarrow> bool \<times> bool \<times> (nat \<times> string \<times> string) option" where
  "mouse s = (ABOVESENDER s, ABOVERECEIVER s, ABOVEINFO s)"

lemma hover_ok_grows: "hover_ok s \<Longrightarrow> grows s t \<Longrightarrow> mouse t = mouse s \<Longrightarrow> hover_ok t"
  unfolding hover_ok_def
proof (intro conjI allI impI)
  assume h: "\<not> (ABOVESENDER s \<and> ABOVERECEIVER s) \<and> (\<forall>sd. hovering sd s \<longrightarrow>
      (\<exists>k i h. ABOVEINFO s = Some (k, nat_str i, h) \<and> has_connector sd s k i))"
    and g: "grows s t" and m: "mouse t = mouse s"
  show "\<not> (ABOVESENDER t \<and> ABOVERECEIVER t)" using h m by (simp add: mouse_def)
  fix sd assume "hovering sd t"
  then have "hovering sd s" using m by (cases sd) (simp_all add: mouse_def hovering_def)
  then show "\<exists>k i h. ABOVEINFO t = Some (k, nat_str i, h) \<and> has_connector sd t k i"
    using h g m unfolding grows_def mouse_def by (metis prod.inject)
qed

lemma temp_ok_grows: "temp_ok s \<Longrightarrow> grows s t \<Longrightarrow> TEMPORARYINFO t = TEMPORARYINFO s \<Longrightarrow> temp_ok t"
  unfolding temp_ok_def grows_def by metis

definition canvas_good :: "env \<Rightarrow> canvas \<Rightarrow> bool" where
  "canvas_good E s \<longleftrightarrow> graph_ok s \<and> lines_drawn E s \<and> hover_ok s \<and> temp_ok s"

lemma canvas_good_during:
  assumes "canvas_good E s" "during E s t" "mouse t = mouse s" "TEMPORARYINFO t = TEMPORARYINFO s"
  shows "canvas_good E t"
  using assms during_grows [OF assms(2)] hover_ok_grows [of s t] temp_ok_grows [of s t]
  by (simp add: canvas_good_def during_def)

section \<open>Adding connectors\<close>

lemma append_slot_nth: "i < length xs + n \<Longrightarrow>
  (xs @ replicate n []) ! i = (if i < length xs then xs ! i else [])"
  by (simp add: nth_append)

lemma graph_ok_append_slots:
  assumes g: "graph_ok s" and p: "p < length (moduleArray s)"
    and "module_ok (f (moduleArray s ! p))" "m_ID (f (moduleArray s ! p)) = m_ID (moduleArray s ! p)"
    and ss: "senders (f (moduleArray s ! p)) = senders (moduleArray s ! p) @ replicate a []"
    and rs: "receivers (f (moduleArray s ! p)) = receivers (moduleArray s ! p) @ replicate b []"
  shows "graph_ok (upd_module p f s)"
proof -
  let ?t = "upd_module p f s"
  have e: "edges ?t = edges s" by (simp add: edges_def)
  have ex: "slots_exist (moduleArray s) x" if "x \<in> edges s" for x
    using g that by (rule graph_ok_key)
  have mod: "moduleArray ?t ! k = (if k = p then f (moduleArray s ! p) else moduleArray s ! k)" for k
    using p by simp
  have sl: "slots_exist (moduleArray ?t) x" if "slots_exist (moduleArray s) x" for x
    using that p ss rs by (cases x) (auto simp: slots_exist_def nth_list_update)
  have "canvas_ok ?t" using assms canvas_ok_upd_module by (simp add: graph_ok_def)
  moreover have "names_ok ?t" using g sl by (fastforce simp: graph_ok_def names_ok_def)
  moreover have "distinct (sender_list ?t m i)
      \<and> set (sender_list ?t m i) = {edge_name (m, i, r, j) |r j. (m, i, r, j) \<in> edges ?t}"
    if m: "m < length (moduleArray ?t)" and i: "i < length (senders (moduleArray ?t ! m))" for m i
  proof (cases "i < length (senders (moduleArray s ! m))")
    case True
    then have "sender_list ?t m i = sender_list s m i"
      using True ss by (auto simp: sender_list_def mod nth_append simp del: upd_module_array)
    then show ?thesis using g m True e by (simp add: graph_ok_def lists_ok_def)
  next
    case False
    then have "sender_list ?t m i = []"
      using i ss by (simp add: sender_list_def mod append_slot_nth del: upd_module_array split: if_splits)
    moreover have "(m, i, r, j) \<notin> edges s" for r j
      using ex [of "(m, i, r, j)"] False by (auto simp: slots_exist_def)
    ultimately show ?thesis using e by simp
  qed
  moreover have "distinct (receiver_list ?t r j)
      \<and> set (receiver_list ?t r j) = {edge_name (m, i, r, j) |m i. (m, i, r, j) \<in> edges ?t}"
    if r: "r < length (moduleArray ?t)" and j: "j < length (receivers (moduleArray ?t ! r))" for r j
  proof (cases "j < length (receivers (moduleArray s ! r))")
    case True
    then have "receiver_list ?t r j = receiver_list s r j"
      using True rs by (auto simp: receiver_list_def mod nth_append simp del: upd_module_array)
    then show ?thesis using g r True e by (simp add: graph_ok_def lists_ok_def)
  next
    case False
    then have "receiver_list ?t r j = []"
      using j rs by (simp add: receiver_list_def mod append_slot_nth del: upd_module_array split: if_splits)
    moreover have "(m, i, r, j) \<notin> edges s" for m i
      using ex [of "(m, i, r, j)"] False by (auto simp: slots_exist_def)
    ultimately show ?thesis using e by simp
  qed
  ultimately show ?thesis using g by (simp add: graph_ok_def lists_ok_def lines_ok_def)
qed

lemma lines_drawn_upd_module:
  assumes "graph_ok s" "lines_drawn E s" "p < length (moduleArray s)"
    and "cont_x (f (moduleArray s ! p)) = cont_x (moduleArray s ! p)"
    and "cont_y (f (moduleArray s ! p)) = cont_y (moduleArray s ! p)"
    and "getBounds E (dragNode (f (moduleArray s ! p))) = getBounds E (dragNode (moduleArray s ! p))"
  shows "lines_drawn E (upd_module p f s)"
proof -
  have "sendPoint E (moduleArray (upd_module p f s) ! k) = sendPoint E (moduleArray s ! k)"
    "receivePoint E (moduleArray (upd_module p f s) ! k) = receivePoint E (moduleArray s ! k)" for k
    using assms(3-6)
    by (cases "k = p"; simp add: sendPoint_def receivePoint_def bounds_width_def bounds_height_def fun_eq_iff)+
  then have "line_of E (moduleArray (upd_module p f s)) x = line_of E (moduleArray s) x" for x
    by (cases x) (simp only: line_of_def prod.case)
  moreover have "edges (upd_module p f s) = edges s" by (simp add: edges_def)
  ultimately show ?thesis using assms(2) by (simp add: lines_drawn_def)
qed

lemma upd_module_mouse [simp]:
  "mouse (upd_module p f s) = mouse s" "hover_ok (s\<lparr>TEMPORARYINFO := q\<rparr>) = hover_ok s"
  by (simp_all add: mouse_def upd_module_def hover_ok_def hovering_def has_connector_def cong: side.case_cong)

lemma canvas_good_add_sender:
  assumes "canvas_good E s" "p < length (moduleArray s)"
  shows "canvas_good E (upd_module p (add_sender E) s)"
proof -
  let ?m = "moduleArray s ! p"
  have g: "graph_ok s" "lines_drawn E s" "hover_ok s" "temp_ok s"
    using assms(1) by (simp_all add: canvas_good_def)
  have ok: "module_ok ?m" using g(1) assms(2) by (simp add: graph_ok_def canvas_ok_nth)
  have "graph_ok (upd_module p (add_sender E) s)"
    by (rule graph_ok_append_slots [OF g(1) assms(2), where a = 1 and b = 0])
      (simp_all add: module_ok_add_sender add_sender_fields ok)
  moreover have "lines_drawn E (upd_module p (add_sender E) s)"
    by (rule lines_drawn_upd_module [OF g(1,2) assms(2)])
      (simp_all add: add_sender_def initDrawingSend_def dragNode_def Let_def)
  moreover have "grows s (upd_module p (add_sender E) s)"
    by (rule growsI) (use assms(2) in \<open>auto simp: nth_list_update add_sender_fields ok\<close>)
  ultimately show ?thesis
    using g hover_ok_grows temp_ok_grows unfolding canvas_good_def by simp
qed

lemma canvas_good_add_receiver:
  assumes "canvas_good E s" "p < length (moduleArray s)"
  shows "canvas_good E (upd_module p add_receiver s)"
proof -
  let ?m = "moduleArray s ! p"
  have g: "graph_ok s" "lines_drawn E s" "hover_ok s" "temp_ok s"
    using assms(1) by (simp_all add: canvas_good_def)
  have ok: "module_ok ?m" using g(1) assms(2) by (simp add: graph_ok_def canvas_ok_nth)
  have "graph_ok (upd_module p add_receiver s)"
    by (rule graph_ok_append_slots [OF g(1) assms(2), where a = 0 and b = 1])
      (simp_all add: module_ok_add_receiver add_receiver_fields ok)
  moreover have "lines_drawn E (upd_module p add_receiver s)"
    by (rule lines_drawn_upd_module [OF g(1,2) assms(2)])
      (simp_all add: add_receiver_def initDrawingReceive_def dragNode_def Let_def)
  moreover have "grows s (upd_module p add_receiver s)"
    by (rule growsI) (use assms(2) in \<open>auto simp: nth_list_update add_receiver_fields ok\<close>)
  ultimately show ?thesis
    using g hover_ok_grows temp_ok_grows unfolding canvas_good_def by simp
qed

section \<open>Moving and hovering\<close>

text \<open>
  Hovering over a module changes the transparency of its top square. The bounds of the drag
  area do not depend on it, because \<open>createjs\<close> takes the bounds the script has set; lines start
  at these bounds.
\<close>

definition bounds_ignore_alpha :: "env \<Rightarrow> bool" where
  "bounds_ignore_alpha E \<longleftrightarrow>
     (\<forall>m a. getBounds E (dragNode (m\<lparr>topSquare := drawTopSquare, topAlpha := a\<rparr>)) = getBounds E (dragNode m))"

lemma canvas_good_upd_calm:
  assumes "canvas_good E s" "p < length (moduleArray s)" "calm f"
  shows "canvas_good E (upd_module p f s)"
  using assms during_calm [OF during_refl assms(3), of s E p] canvas_good_during [of E s "upd_module p f s"]
  by (simp add: canvas_good_def)

lemma canvas_good_alpha:
  assumes "canvas_good E s" "p < length (moduleArray s)" "bounds_ignore_alpha E"
  shows "canvas_good E (upd_module p (\<lambda>m. m\<lparr>topSquare := drawTopSquare, topAlpha := a\<rparr>) s)" (is "canvas_good E ?t")
proof -
  have g: "graph_ok s" "lines_drawn E s" "hover_ok s" "temp_ok s"
    using assms(1) by (simp_all add: canvas_good_def)
  have "module_ok (moduleArray s ! p)" using g(1) assms(2) by (simp add: graph_ok_def canvas_ok_nth)
  then have "graph_ok ?t"
    by (intro graph_ok_upd_module(1) [OF g(1) assms(2)]) (simp_all add: module_ok_def)
  moreover have "lines_drawn E ?t"
    by (rule lines_drawn_upd_module [OF g(1,2) assms(2)])
      (use assms(3) in \<open>simp_all add: bounds_ignore_alpha_def\<close>)
  moreover have "grows s ?t"
    by (rule growsI) (use assms(2) in \<open>auto simp: nth_list_update\<close>)
  ultimately show ?thesis
    using g hover_ok_grows [OF g(3)] temp_ok_grows [OF g(4)] by (simp add: canvas_good_def)
qed

lemma calm_offset: "calm (\<lambda>m. m\<lparr>dX := x m, dY := y m\<rparr>)"
  by (simp add: calm_def module_ok_def dragNode_def)

lemma canvas_good_drag:
  assumes "canvas_good E s" "p < length (moduleArray s)"
  shows "\<exists>t. drag_pressmove E p ev s = (None, t) \<and> canvas_good E t"
proof -
  let ?u = "upd_module p (move_module ev) s"
  have g: "graph_ok s" "lines_drawn E s" "hover_ok s" "temp_ok s"
    using assms(1) by (simp_all add: canvas_good_def)
  obtain sh where sh: "drag_pressmove E p ev s = (None, ?u\<lparr>shapes := sh\<rparr>)"
    "graph_ok (?u\<lparr>shapes := sh\<rparr>)" "lines_drawn E (?u\<lparr>shapes := sh\<rparr>)"
    using drag_pressmove_result [OF g(1,2) assms(2)] by blast
  have "grows s (?u\<lparr>shapes := sh\<rparr>)"
    by (rule growsI) (use assms(2) in \<open>auto simp: nth_list_update\<close>)
  then have "canvas_good E (?u\<lparr>shapes := sh\<rparr>)"
    using sh(2,3) hover_ok_grows [OF g(3), of "?u\<lparr>shapes := sh\<rparr>"] temp_ok_grows [OF g(4), of "?u\<lparr>shapes := sh\<rparr>"]
    by (simp add: canvas_good_def mouse_def upd_module_def)
  then show ?thesis using sh(1) by blast
qed

lemma has_connector_same_modules:
  "moduleArray s = moduleArray t \<Longrightarrow> has_connector sd s p i = has_connector sd t p i"
  by (simp add: has_connector_def)

lemma temp_ok_same: "moduleArray s = moduleArray t \<Longrightarrow> TEMPORARYINFO s = TEMPORARYINFO t \<Longrightarrow> temp_ok s = temp_ok t"
  by (simp add: temp_ok_def has_connector_def)

text \<open>The announced index is the first digit of an index, which is not above it.\<close>

lemma first_digit: "\<exists>d \<le> k. [hd (nat_str k)] = nat_str d"
proof (induction k rule: nat_str.induct)
  case (1 k)
  show ?case
  proof (cases "k < 10")
    case True
    then show ?thesis using nat_str_hd by blast
  next
    case False
    then obtain d where d: "d \<le> k div 10" "[hd (nat_str (k div 10))] = nat_str d" using 1 by blast
    moreover have "hd (nat_str k) = hd (nat_str (k div 10))" using False by (simp add: nat_str_big)
    ultimately show ?thesis by (metis div_le_dividend le_trans)
  qed
qed

lemma canvas_good_enter:
  assumes "canvas_good E s" "has_connector sd s p i"
  shows "sd = Sender \<Longrightarrow> \<not> ABOVERECEIVER s \<Longrightarrow> canvas_good E (sender_mouseover p i s)"
    and "sd = Receiver \<Longrightarrow> \<not> ABOVESENDER s \<Longrightarrow> canvas_good E (receiver_mouseover p i s)"
proof -
  have g: "graph_ok s" using assms(1) by (simp add: canvas_good_def)
  have p: "p < length (moduleArray s)" "module_ok (moduleArray s ! p)" "m_ID (moduleArray s ! p) = p"
    using g assms(2) by (auto simp: has_connector_def graph_ok_def canvas_ok_nth canvas_ok_ID)
  obtain d where d: "d \<le> i" "[hd (nat_str i)] = nat_str d" using first_digit by blast
  have dd: "has_connector sd t p d" if "has_connector sd t p i" for t
    using that d(1) by (simp add: has_connector_def)
  have keep: "has_connector sd (upd_module p f s) p i" if "calm f" for f
    using during_grows [OF during_calm [OF during_refl that p(1), of E]] assms
    by (simp add: canvas_good_def grows_def)
  show "canvas_good E (sender_mouseover p i s)" if sd: "sd = Sender" "\<not> ABOVERECEIVER s"
  proof -
    let ?u = "upd_module p (recolor_sender i ''#8AF598'') s"
    have u: "canvas_good E ?u" by (rule canvas_good_upd_calm [OF assms(1) p(1) calm_events(1)])
    have nm: "char_at 6 (ct_name (chidSendArray (moduleArray s ! p) ! i)) = nat_str d"
      using hover_name(1) [OF p(2)] assms(2) sd(1) d(2) by (simp add: has_connector_def connector_count_def)
    have "has_connector Sender ?u p d" using dd keep [OF calm_events(1)] sd(1) by blast
    then have "hover_ok (sender_mouseover p i s)"
      using sd(2) p(3) nm
      by (auto simp: hover_ok_def sender_mouseover_def Let_def hovering_def upd_module_def has_connector_def
          split: side.splits)
    then show ?thesis using u temp_ok_same [of "sender_mouseover p i s" ?u]
      by (simp add: canvas_good_def sender_mouseover_def Let_def)
  qed
  show "canvas_good E (receiver_mouseover p i s)" if sd: "sd = Receiver" "\<not> ABOVESENDER s"
  proof -
    let ?u = "upd_module p (recolor_receiver i ''#E0D5B8'') s"
    have u: "canvas_good E ?u" by (rule canvas_good_upd_calm [OF assms(1) p(1) calm_events(2)])
    have nm: "char_at 8 (ct_name (chidReceiveArray (moduleArray s ! p) ! i)) = nat_str d"
      using hover_name(2) [OF p(2)] assms(2) sd(1) d(2) by (simp add: has_connector_def connector_count_def)
    have "has_connector Receiver ?u p d" using dd keep [OF calm_events(2)] sd(1) by blast
    then have "hover_ok (receiver_mouseover p i s)"
      using sd(2) p(3) nm
      by (auto simp: hover_ok_def receiver_mouseover_def Let_def hovering_def upd_module_def has_connector_def
          split: side.splits)
    then show ?thesis using u temp_ok_same [of "receiver_mouseover p i s" ?u]
      by (simp add: canvas_good_def receiver_mouseover_def Let_def)
  qed
qed

lemma canvas_good_leave:
  assumes "canvas_good E s" "p < length (moduleArray s)"
  shows "hovering Sender s \<Longrightarrow> canvas_good E (sender_mouseout p i s)"
    and "hovering Receiver s \<Longrightarrow> canvas_good E (receiver_mouseout p i s)"
proof -
  let ?u = "upd_module p (recolor_sender i ''#32b643'') s"
  let ?v = "upd_module p (recolor_receiver i ''#ffb700'') s"
  have u: "canvas_good E ?u" "canvas_good E ?v"
    by (rule canvas_good_upd_calm [OF assms calm_events(1)], rule canvas_good_upd_calm [OF assms calm_events(2)])
  have h: "hover_ok s" using assms(1) by (simp add: canvas_good_def)
  show "canvas_good E (sender_mouseout p i s)" if "hovering Sender s"
    using u(1) h that temp_ok_same [of "sender_mouseout p i s" ?u]
    by (auto simp: canvas_good_def sender_mouseout_def hover_ok_def hovering_def upd_module_def split: side.splits)
  show "canvas_good E (receiver_mouseout p i s)" if "hovering Receiver s"
    using u(2) h that temp_ok_same [of "receiver_mouseout p i s" ?v]
    by (auto simp: canvas_good_def receiver_mouseout_def hover_ok_def hovering_def upd_module_def split: side.splits)
qed

section \<open>New modules\<close>

lemma graph_ok_append_module:
  assumes g: "graph_ok s" and m: "module_ok m" "m_ID m = moduleID s" "senders m = []" "receivers m = []"
    and t: "moduleArray t = moduleArray s @ [m]" "moduleID t = Suc (moduleID s)"
      "overallConnections t = overallConnections s" "shapes t = shapes s"
      "\<And>l. count_list (stage t) (ConnLine l) = count_list (stage s) (ConnLine l)"
  shows "graph_ok t"
proof -
  have e: "edges t = edges s" by (simp add: edges_def t(3))
  have ok: "canvas_ok s" using g by (simp add: graph_ok_def)
  have ex: "slots_exist (moduleArray s) x" if "x \<in> edges s" for x
    using g that by (rule graph_ok_key)
  have "canvas_ok t" using ok m(1,2) by (auto simp: canvas_ok_def ids_ok_def t nth_append less_Suc_eq)
  moreover have "slots_exist (moduleArray t) x" if "slots_exist (moduleArray s) x" for x
    using that by (cases x) (simp add: slots_exist_def t(1) nth_append)
  then have "names_ok t" using g by (fastforce simp: graph_ok_def names_ok_def t(3))
  moreover have "lists_ok t" unfolding lists_ok_def
  proof (intro conjI allI impI)
    fix k i assume k: "k < length (moduleArray t)" and i: "i < length (senders (moduleArray t ! k))"
    then have "k < length (moduleArray s)" using m(3) by (simp add: t(1) nth_append less_Suc_eq split: if_splits)
    then show "distinct (sender_list t k i)"
      "set (sender_list t k i) = {edge_name (k, i, r, j) |r j. (k, i, r, j) \<in> edges t}"
      using g i e by (simp_all add: graph_ok_def lists_ok_def sender_list_def t(1) nth_append)
  next
    fix k j assume k: "k < length (moduleArray t)" and j: "j < length (receivers (moduleArray t ! k))"
    then have "k < length (moduleArray s)" using m(4) by (simp add: t(1) nth_append less_Suc_eq split: if_splits)
    then show "distinct (receiver_list t k j)"
      "set (receiver_list t k j) = {edge_name (m, i, k, j) |m i. (m, i, k, j) \<in> edges t}"
      using g j e by (simp_all add: graph_ok_def lists_ok_def receiver_list_def t(1) nth_append)
  qed
  moreover have "lines_ok t" using g by (simp add: graph_ok_def lines_ok_def t)
  ultimately show ?thesis by (simp add: graph_ok_def)
qed

lemma canvas_good_dragAndDrop:
  assumes "canvas_good E s"
  shows "\<exists>t. dragAndDrop E name host ty port position s = (None, t) \<and> canvas_good E t"
proof -
  have g: "graph_ok s" "lines_drawn E s" "hover_ok s" "temp_ok s"
    using assms(1) by (simp_all add: canvas_good_def)
  obtain t m where t: "dragAndDrop E name host ty port position s = (None, t)"
    "moduleArray t = moduleArray s @ [m]" "moduleID t = Suc (moduleID s)"
    "overallConnections t = overallConnections s" "shapes t = shapes s"
    "stage t = stage s @ [ModCont (moduleID s), TempLine (moduleID s)]"
    "mouse t = mouse s" "TEMPORARYINFO t = TEMPORARYINFO s"
    and m: "module_ok m" "m_ID m = moduleID s" "senders m = []" "receivers m = []"
    by (simp add: dragAndDrop_result module_ok_new mouse_def)
  have "graph_ok t" by (rule graph_ok_append_module [OF g(1) m t(2-5)]) (simp add: t(6))
  moreover have "line_of E (moduleArray t) x = line_of E (moduleArray s) x" if "x \<in> edges s" for x
  proof -
    have "slots_exist (moduleArray s) x" using g(1) that by (rule graph_ok_key)
    then show ?thesis by (cases x) (simp add: line_of_def slots_exist_def t(2) nth_append)
  qed
  then have "lines_drawn E t" using g(2) by (simp add: lines_drawn_def edges_def t(4,5))
  moreover have "grows s t" by (rule growsI) (simp_all add: t(2) nth_append)
  ultimately show ?thesis
    using t(1,7,8) hover_ok_grows [OF g(3)] temp_ok_grows [OF g(4)] by (auto simp: canvas_good_def)
qed

section \<open>Connecting and deleting\<close>

lemma grows_edit:
  "slots_exist (moduleArray s) e \<Longrightarrow> moduleArray t = edit_ends f e (moduleArray s) \<Longrightarrow> grows s t"
  by (rule growsI) (simp_all add: edit_ends_props(1) edit_ends_nth_fields(6,7))

lemma canvas_good_connect:
  assumes "canvas_good E s" "slots_exist (moduleArray s) (m, i, r, j)" "(m, i, r, j) \<notin> edges s"
  shows "\<exists>t. connectLines E (nat_str m) (nat_str i) (nat_str r) (nat_str j) s = (None, t)
    \<and> canvas_good E t \<and> TEMPORARYINFO t = TEMPORARYINFO s"
proof -
  have g: "graph_ok s" "lines_drawn E s" "hover_ok s" "temp_ok s"
    using assms(1) by (simp_all add: canvas_good_def)
  have ok: "canvas_ok s" using g(1) by (simp add: graph_ok_def)
  define t where "t = snd (connectLines E (nat_str m) (nat_str i) (nat_str r) (nat_str j) s)"
  have r: "connectLines E (nat_str m) (nat_str i) (nat_str r) (nat_str j) s = (None, t)"
    "mouse t = mouse s" "TEMPORARYINFO t = TEMPORARYINFO s"
    "moduleArray t = edit_ends (\<lambda>ns. ns @ [edge_name (m, i, r, j)]) (m, i, r, j) (moduleArray s)"
    unfolding t_def connectLines_result [OF ok assms(2)] by (simp_all add: mouse_def)
  show ?thesis
    using graph_ok_connect(1) [OF g(1) assms(2,3) t_def] lines_drawn_connect [OF g(1,2) assms(2,3) t_def]
      hover_ok_grows [OF g(3) grows_edit [OF assms(2) r(4)] r(2)]
      temp_ok_grows [OF g(4) grows_edit [OF assms(2) r(4)] r(3)] r(1,3)
    by (simp add: canvas_good_def)
qed

lemma canvas_good_delete:
  assumes "canvas_good E s" "slots_exist (moduleArray s) (m, i, r, j)"
  shows "\<exists>t. deleteConnection (nat_str m) (nat_str i) (nat_str r) (nat_str j) s = (None, t)
    \<and> canvas_good E t \<and> TEMPORARYINFO t = TEMPORARYINFO s"
proof -
  have g: "graph_ok s" "lines_drawn E s" "hover_ok s" "temp_ok s"
    using assms(1) by (simp_all add: canvas_good_def)
  have ok: "canvas_ok s" using g(1) by (simp add: graph_ok_def)
  define t where "t = snd (deleteConnection (nat_str m) (nat_str i) (nat_str r) (nat_str j) s)"
  have r: "deleteConnection (nat_str m) (nat_str i) (nat_str r) (nat_str j) s = (None, t)"
    "mouse t = mouse s" "TEMPORARYINFO t = TEMPORARYINFO s"
    "moduleArray t = edit_ends (remove1 (edge_name (m, i, r, j))) (m, i, r, j) (moduleArray s)"
    unfolding t_def deleteConnection_result [OF ok assms(2)] by (simp_all add: mouse_def)
  show ?thesis
    using graph_ok_delete(1) [OF g(1) assms(2) t_def] lines_drawn_delete [OF g(1,2) assms(2) t_def]
      hover_ok_grows [OF g(3) grows_edit [OF assms(2) r(4)] r(2)]
      temp_ok_grows [OF g(4) grows_edit [OF assms(2) r(4)] r(3)] r(1,3)
    by (simp add: canvas_good_def)
qed

lemma canvas_good_cancel:
  assumes "canvas_good E s" "TEMPORARYINFO s \<noteq> None"
  shows "\<exists>t. cancelConnection s = (None, t) \<and> canvas_good E t \<and> TEMPORARYINFO t = TEMPORARYINFO s"
proof -
  obtain m i r j where q: "TEMPORARYINFO s = Some (nat_str m, nat_str i, nat_str r, nat_str j)"
    "slots_exist (moduleArray s) (m, i, r, j)"
    using assms unfolding canvas_good_def temp_ok_def slots_exist_connectors by blast
  then show ?thesis using canvas_good_delete [OF assms(1) q(2)] by (simp add: cancelConnection_def)
qed

end
