(* ===== verification/Session_Props.thy ===== *)
theory Session_Props
  imports Session_Canvas
begin

text \<open>
  Sessions as a state machine: the invariant of the reachable sessions, and that the handlers do
  not throw.
\<close>

section \<open>The page\<close>

definition page_good :: "env \<Rightarrow> page \<Rightarrow> bool" where
  "page_good E w \<longleftrightarrow> canvas_good E (cv w)
     \<and> (form w \<noteq> None \<longrightarrow> editorReady w \<and> TEMPORARYINFO (cv w) \<noteq> None)"

text \<open>
  What a handler promises: the page stays good when the connection it draws, if any, is \<open>fresh\<close>,
  and in any case it throws only if \<open>allowed\<close>.
\<close>

definition handled :: "env \<Rightarrow> bool \<Rightarrow> bool \<Rightarrow> js_error option \<times> page \<Rightarrow> bool" where
  "handled E allowed fresh r \<longleftrightarrow> (fresh \<longrightarrow> page_good E (snd r)) \<and> (fst r \<noteq> None \<longrightarrow> allowed)"

lemma handled_upd_cv:
  assumes "page_good E w" "canvas_good E (f (cv w))" "TEMPORARYINFO (f (cv w)) = TEMPORARYINFO (cv w)"
  shows "handled E b fr (upd_cv f w)"
  using assms by (auto simp: handled_def page_good_def upd_cv_def on_canvas_def js_defs)

lemma handled_on_canvas:
  assumes "page_good E w" "f (cv w) = (None, t)" "canvas_good E t"
    "TEMPORARYINFO t = TEMPORARYINFO (cv w)"
  shows "handled E b fr (on_canvas f w)"
  using assms by (auto simp: handled_def page_good_def on_canvas_def)

lemma page_good_sent [simp]: "page_good E (w\<lparr>sent := js\<rparr>) = page_good E w"
  by (simp add: page_good_def)

lemma handled_send:
  assumes "\<exists>w'. f w = (None, w') \<and> page_good E w'"
  shows "handled E b fr (andThen f (send_job j) w)"
  using assms by (auto simp: handled_def js_defs send_job_def)

lemma andThen_upd_cv: "andThen (upd_cv f) g w = g (w\<lparr>cv := f (cv w)\<rparr>)"
  by (simp add: upd_cv_def on_canvas_def js_defs)

section \<open>Releasing a line\<close>

lemma canvas_good_globals:
  "canvas_good E (s\<lparr>prt := p\<rparr>) = canvas_good E s"
  "canvas_good E s \<Longrightarrow> slots_exist (moduleArray s) (m, i, r, j)
   \<Longrightarrow> canvas_good E (s\<lparr>TEMPORARYINFO := Some (nat_str m, nat_str i, nat_str r, nat_str j)\<rparr>)"
  by (auto simp: canvas_good_def hover_ok_def temp_ok_def hovering_def has_connector_def
      slots_exist_connectors cong: side.case_cong)

lemma middle_good:
  assumes "page_good E w" "TEMPORARYINFO (cv w) = Some (nat_str m, nat_str i, nat_str r, nat_str j)"
    and sl: "slots_exist (moduleArray (cv w)) (m, i, r, j)"
  shows "handled E (\<not> editorReady w) fr (callConnectForm chid host w)"
    and "handled E b fr (copyConnectors from w)"
    and "edges (cv (snd (callConnectForm chid host w))) = edges (cv w)"
    and "moduleArray (cv (snd (callConnectForm chid host w))) = moduleArray (cv w)"
    and "cv (snd (copyConnectors from w)) = cv w"
proof -
  have g: "graph_ok (cv w)" using assms(1) by (simp add: page_good_def canvas_good_def)
  have ft: "find_temporary (cv w) = Inr (Some m, Some r)"
    by (rule find_temporary_result [OF g sl assms(2)])
  show "handled E (\<not> editorReady w) fr (callConnectForm chid host w)"
    using assms(1,2) canvas_good_globals(1) [where s = "cv w"]
    by (auto simp: callConnectForm_def handled_def page_good_def)
  show "edges (cv (snd (callConnectForm chid host w))) = edges (cv w)"
    and "moduleArray (cv (snd (callConnectForm chid host w))) = moduleArray (cv w)"
    by (simp_all add: callConnectForm_def)
  show "handled E b fr (copyConnectors from w)" "cv (snd (copyConnectors from w)) = cv w"
    using assms(1) ft by (simp_all add: copyConnectors_def js_defs send_job_def handled_def)
qed

lemma handled_then_connect:
  assumes h: "handled E b True (f w)" and sl: "slots_exist (moduleArray (cv (snd (f w)))) (m, i, r, j)"
    and new: "fr \<Longrightarrow> (m, i, r, j) \<notin> edges (cv (snd (f w)))"
  shows "handled E b fr (andThen f (on_canvas (connectLines E (nat_str m) (nat_str i) (nat_str r) (nat_str j))) w)"
proof (cases "fst (f w)")
  case None
  let ?c = "connectLines E (nat_str m) (nat_str i) (nat_str r) (nat_str j)"
  let ?w = "snd (f w)"
  have w': "page_good E ?w" using h by (simp add: handled_def)
  then have "canvas_ok (cv ?w)" by (simp add: page_good_def canvas_good_def graph_ok_def)
  from connectLines_result [OF this sl, of E]
  have "fst (on_canvas ?c ?w) = None" by (simp add: on_canvas_def)
  moreover have "page_good E (snd (on_canvas ?c ?w))" if f: fr
  proof -
    obtain t where "?c (cv ?w) = (None, t)" "canvas_good E t" "TEMPORARYINFO t = TEMPORARYINFO (cv ?w)"
      using canvas_good_connect [OF _ sl new [OF f]] w' by (metis page_good_def)
    from handled_on_canvas [where f = ?c, OF w' this, of False True] show ?thesis by (simp add: handled_def)
  qed
  ultimately have "handled E b fr (on_canvas ?c ?w)" by (simp add: handled_def)
  then show ?thesis using None by (cases "f w") (simp add: andThen_def)
next
  case (Some e)
  then show ?thesis using h by (cases "f w") (simp add: andThen_def handled_def)
qed

lemma finish_good:
  assumes "page_good E w" and sl: "slots_exist (moduleArray (cv w)) (m, i, r, j)"
    and new: "fr \<Longrightarrow> (m, i, r, j) \<notin> edges (cv w)"
  shows "handled E (\<not> editorReady w) fr
    (finish_connection E st (nat_str m) (nat_str i) (nat_str r) (nat_str j) chid host w)"
proof -
  let ?q = "Some (nat_str m, nat_str i, nat_str r, nat_str j)"
  let ?w = "w\<lparr>cv := (cv w)\<lparr>TEMPORARYINFO := ?q\<rparr>\<rparr>"
  let ?mid = "if st = ''new'' then callConnectForm chid host
    else if st = ''receiver_full'' then copyConnectors ''receiver''
    else if st = ''sender_full'' then copyConnectors ''sender'' else skip"
  have g: "page_good E ?w" using assms(1) canvas_good_globals(2) [OF _ sl] by (simp add: page_good_def)
  note mid = middle_good [OF g, of m i r j]
  have all: "handled E (\<not> editorReady w) True (f ?w) \<and> slots_exist (moduleArray (cv (snd (f ?w)))) (m, i, r, j)
      \<and> (fr \<longrightarrow> (m, i, r, j) \<notin> edges (cv (snd (f ?w))))"
    if "f = callConnectForm chid host \<or> (\<exists>from. f = copyConnectors from) \<or> f = skip" for f
    using that
  proof (elim disjE exE)
    assume f: "f = callConnectForm chid host"
    show ?thesis unfolding f using mid(1,3,4) sl new by simp
  next
    fix src assume f: "f = copyConnectors src"
    show ?thesis unfolding f using mid(2,5) sl new by simp
  next
    assume f: "f = skip"
    show ?thesis unfolding f using g sl new by (simp add: skip_def handled_def)
  qed
  have "?mid = callConnectForm chid host \<or> (\<exists>src. ?mid = copyConnectors src) \<or> ?mid = skip"
    by (cases "st = ''new''"; cases "st = ''receiver_full''"; cases "st = ''sender_full''") auto
  from all [OF this] have
    "handled E (\<not> editorReady w) fr (andThen ?mid
       (on_canvas (connectLines E (nat_str m) (nat_str i) (nat_str r) (nat_str j))) ?w)"
    by (intro handled_then_connect) blast+
  then show ?thesis
    by (simp only: finish_connection_def andThen_upd_cv)
qed

lemma page_good_clear:
  assumes "page_good E w" "p < length (moduleArray (cv w))"
  shows "page_good E (w\<lparr>cv := clear_line p (cv w)\<rparr>)"
  using assms canvas_good_upd_calm [OF _ assms(2) calm_clear, of E]
  by (simp add: page_good_def clear_line_def)

lemma hovered_end:
  assumes "canvas_good E s" "hovering sd s" "ABOVEINFO s = Some (k, chid, host)"
  obtains d where "chid = nat_str d" "has_connector sd s k d"
  using assms unfolding canvas_good_def hover_ok_def by (metis option.inject prod.inject)

lemma new_edge:
  assumes "conn_name (nat_str m) (nat_str i) (nat_str r) (nat_str j) \<notin> fst ` set (overallConnections s)"
  shows "(m, i, r, j) \<notin> edges s"
  using assms by (simp add: edges_def edge_name_conn)

lemma finish_cleared:
  assumes w: "page_good E w" and p: "p < length (moduleArray (cv w))"
    and "has_connector Sender (cv w) m i" "has_connector Receiver (cv w) r j"
    and fresh: "fr \<Longrightarrow> conn_name (nat_str m) (nat_str i) (nat_str r) (nat_str j) \<notin> fst ` set (overallConnections (cv w))"
  shows "handled E (\<not> editorReady w) fr (finish_connection E st (nat_str m) (nat_str i) (nat_str r) (nat_str j)
    chid host (w\<lparr>cv := clear_line p (cv w)\<rparr>))"
proof -
  have "slots_exist (moduleArray (cv w)) (m, i, r, j)"
    using assms(3,4) by (simp only: slots_exist_connectors simp_thms)
  then have "slots_exist (moduleArray (clear_line p (cv w))) (m, i, r, j)"
    unfolding clear_line_def by (simp only: calm_slots [OF calm_clear])
  moreover have "(m, i, r, j) \<notin> edges (clear_line p (cv w))" if fr
    using new_edge [OF fresh [OF that]] by (simp add: clear_line_def edges_def)
  ultimately show ?thesis
    using finish_good [OF page_good_clear [OF w p], of m i r j fr st chid host] by simp
qed

lemma release_sender_good:
  assumes w: "page_good E w" and c: "has_connector Sender (cv w) p i"
  shows "handled E (\<not> editorReady w) (\<not> draws_twice (Release Sender p i) w) (send_pressup E p i w)"
proof -
  let ?s = "cv w"
  have g: "canvas_good E ?s" using w by (simp add: page_good_def)
  have p: "p < length (moduleArray ?s)" "m_ID (moduleArray ?s ! p) = p"
    using c g by (simp_all add: has_connector_def canvas_good_def graph_ok_def canvas_ok_ID)
  have cl: "page_good E (w\<lparr>cv := clear_line p ?s\<rparr>)" by (rule page_good_clear [OF w p(1)])
  show ?thesis
  proof (cases "ABOVERECEIVER ?s")
    case False
    then show ?thesis using cl
      by (simp add: send_pressup_def readThen_def andThen_upd_cv handled_def skip_def Let_def
          split: option.split prod.split)
  next
    case True
    then have h: "hovering Receiver ?s" by (simp add: hovering_def)
    then obtain k chid host where a: "ABOVEINFO ?s = Some (k, chid, host)"
      using g by (auto simp: canvas_good_def hover_ok_def)
    obtain d where d: "chid = nat_str d" "has_connector Receiver ?s k d"
      by (rule hovered_end [OF g h a])
    let ?st = "checkConnection (nat_str p) (nat_str i) (nat_str k) (nat_str d) ?s"
    have "conn_name (nat_str p) (nat_str i) (nat_str k) (nat_str d) \<notin> fst ` set (overallConnections ?s)"
      if "?st \<noteq> ''exists''" "\<not> draws_twice (Release Sender p i) w"
      using that True a d(1) p(2) by (auto simp: draws_twice_def)
    then show ?thesis
      using finish_cleared [OF w p(1) c d(2), of "\<not> draws_twice (Release Sender p i) w" ?st "nat_str d" host]
        True a d(1) p(2) cl
      by (cases "?st = ''exists''") (simp_all add: send_pressup_def readThen_def andThen_upd_cv handled_def skip_def Let_def)
  qed
qed

lemma release_receiver_good:
  assumes w: "page_good E w" and c: "has_connector Receiver (cv w) p j"
  shows "handled E (\<not> editorReady w) (\<not> draws_twice (Release Receiver p j) w) (receive_pressup E p j w)"
proof -
  let ?s = "cv w"
  have g: "canvas_good E ?s" using w by (simp add: page_good_def)
  have p: "p < length (moduleArray ?s)" "m_ID (moduleArray ?s ! p) = p"
    using c g by (simp_all add: has_connector_def canvas_good_def graph_ok_def canvas_ok_ID)
  have cl: "page_good E (w\<lparr>cv := clear_line p ?s\<rparr>)" by (rule page_good_clear [OF w p(1)])
  show ?thesis
  proof (cases "ABOVESENDER ?s")
    case False
    then show ?thesis using cl
      by (simp add: receive_pressup_def readThen_def andThen_upd_cv handled_def skip_def Let_def
          split: option.split prod.split)
  next
    case True
    then have h: "hovering Sender ?s" by (simp add: hovering_def)
    then obtain k chid host where a: "ABOVEINFO ?s = Some (k, chid, host)"
      using g by (auto simp: canvas_good_def hover_ok_def)
    obtain d where d: "chid = nat_str d" "has_connector Sender ?s k d"
      by (rule hovered_end [OF g h a])
    let ?st = "checkConnection (nat_str k) (nat_str d) (nat_str p) (nat_str j) ?s"
    have "conn_name (nat_str k) (nat_str d) (nat_str p) (nat_str j) \<notin> fst ` set (overallConnections ?s)"
      if "?st \<noteq> ''exists''" "\<not> draws_twice (Release Receiver p j) w"
      using that True a d(1) p(2) by (auto simp: draws_twice_def)
    then show ?thesis
      using finish_cleared [OF w p(1) d(2) c, of "\<not> draws_twice (Release Receiver p j) w" ?st "nat_str j" "m_host (moduleArray (cv w) ! p)"]
        True a d(1) p(2) cl
      by (cases "?st = ''exists''") (simp_all add: receive_pressup_def readThen_def andThen_upd_cv handled_def skip_def Let_def)
  qed
qed

section \<open>Every event\<close>

lemma submit_good:
  assumes "page_good E w" "form w \<noteq> None"
  shows "handled E b fr (submitNewConnection w)"
proof -
  have g: "graph_ok (cv w)" "temp_ok (cv w)" "TEMPORARYINFO (cv w) \<noteq> None"
    using assms by (simp_all add: page_good_def canvas_good_def)
  then obtain m i r j where q: "TEMPORARYINFO (cv w) = Some (nat_str m, nat_str i, nat_str r, nat_str j)"
    "slots_exist (moduleArray (cv w)) (m, i, r, j)"
    unfolding temp_ok_def slots_exist_connectors by blast
  then show ?thesis
    using assms(1) find_temporary_result [OF g(1) q(2,1)]
    by (simp add: submitNewConnection_def js_defs send_job_def handled_def)
qed

lemma cancel_good:
  assumes "page_good E w" "TEMPORARYINFO (cv w) \<noteq> None"
  shows "handled E b fr (on_canvas cancelConnection w)"
  using canvas_good_cancel [of E "cv w"] assms handled_on_canvas [OF assms(1)]
  by (metis page_good_def)

lemma add_module_good:
  assumes "page_good E w"
  shows "\<exists>w'. on_canvas (dragAndDrop E name host ty port pos) w = (None, w') \<and> page_good E w'"
proof -
  obtain t where t: "dragAndDrop E name host ty port pos (cv w) = (None, t)" "canvas_good E t"
    using canvas_good_dragAndDrop assms by (metis page_good_def)
  have "TEMPORARYINFO t = TEMPORARYINFO (cv w)" using t(1) by (auto simp: dragAndDrop_result)
  then show ?thesis using t assms by (auto simp: on_canvas_def page_good_def)
qed

lemma multi_good:
  assumes "page_good E w"
  shows "handled E b fr (submitNewMultiModules E nb name host ty w)"
proof -
  let ?f = "forEach [multi_count name (moduleArray (cv w)) + 1 ..
    multi_count name (moduleArray (cv w)) + (case nb of None \<Rightarrow> 0 | Some n \<Rightarrow> n)] (add_numbered E name host ty)"
  have "\<exists>w'. ?f w = (None, w') \<and> page_good E w'"
    using assms by (rule forEach_total) (auto simp: add_numbered_def intro: add_module_good)
  then show ?thesis unfolding submitNewMultiModules_def readThen_def sendWriteJSON_def
    by (rule handled_send)
qed

lemma add_button_good:
  assumes "page_good E w" "p < length (moduleArray (cv w))"
  shows "handled E b fr (sender_button E p w)" "handled E b fr (receiver_button p w)"
proof -
  have ok: "canvas_ok (cv w)" and g: "canvas_good E (cv w)"
    using assms(1) by (simp_all add: page_good_def canvas_good_def graph_ok_def)
  note w = assms(1) [unfolded page_good_def]
  show "handled E b fr (sender_button E p w)" unfolding sender_button_def sendWriteJSON_def
    by (rule handled_send)
      (use w canvas_good_add_sender [OF g assms(2)] in
        \<open>simp add: on_canvas_def makeSenderContainer_result [OF ok assms(2)] page_good_def\<close>)
  show "handled E b fr (receiver_button p w)" unfolding receiver_button_def sendWriteJSON_def
    by (rule handled_send)
      (use w canvas_good_add_receiver [OF g assms(2)] in
        \<open>simp add: on_canvas_def makeReceiverContainer_result [OF ok assms(2)] page_good_def\<close>)
qed

lemma mouse_good:
  assumes w: "page_good E w" and c: "has_connector sd (cv w) p i"
  shows "enabled (Over sd p i) w \<Longrightarrow> handled E b fr (handle E (Over sd p i) w)"
    and "enabled (Out sd p i) w \<Longrightarrow> handled E b fr (handle E (Out sd p i) w)"
    and "handled E b fr (handle E (Down sd p i) w)"
    and "handled E b fr (handle E (Pull sd p i ev) w)"
proof -
  have g: "canvas_good E (cv w)" using w by (simp add: page_good_def)
  have p: "p < length (moduleArray (cv w))" using c by (simp add: has_connector_def)
  note calm = canvas_good_upd_calm [OF g p]
  show "handled E b fr (handle E (Over sd p i) w)" if "enabled (Over sd p i) w"
    using that canvas_good_enter [OF g c]
    by (cases sd) (auto intro!: handled_upd_cv w simp: sender_mouseover_def receiver_mouseover_def Let_def)
  show "handled E b fr (handle E (Out sd p i) w)" if "enabled (Out sd p i) w"
    using that canvas_good_leave [OF g p]
    by (cases sd) (auto intro!: handled_upd_cv w simp: sender_mouseout_def receiver_mouseout_def)
  show "handled E b fr (handle E (Down sd p i) w)"
    using calm [OF calm_start(1)] calm [OF calm_start(2)]
    by (cases sd) (auto intro!: handled_upd_cv w simp: send_mousedown_def receive_mousedown_def)
  show "handled E b fr (handle E (Pull sd p i ev) w)"
    using calm [OF calm_events(3) [where ev = ev]]
    by (cases sd) (auto intro!: handled_upd_cv w simp: send_pressmove_def receive_pressmove_def)
qed

lemma drag_good:
  assumes w: "page_good E w" and p: "p < length (moduleArray (cv w))" and "bounds_ignore_alpha E"
  shows "handled E b fr (handle E (DragOver p) w)" "handled E b fr (handle E (DragOut p) w)"
    "handled E b fr (handle E (DragDown p ev) w)" "handled E b fr (handle E (DragMove p ev) w)"
proof -
  have g: "canvas_good E (cv w)" using w by (simp add: page_good_def)
  show "handled E b fr (handle E (DragOver p) w)" "handled E b fr (handle E (DragOut p) w)"
    using canvas_good_alpha [OF g p assms(3)]
    by (auto intro!: handled_upd_cv w simp: drag_mouseover_def drag_mouseout_def)
  show "handled E b fr (handle E (DragDown p ev) w)"
    using canvas_good_upd_calm [OF g p calm_offset]
    by (auto intro!: handled_upd_cv w simp: drag_mousedown_def)
  obtain t where t: "drag_pressmove E p ev (cv w) = (None, t)" "canvas_good E t"
    using canvas_good_drag [OF g p] by blast
  have gl: "graph_ok (cv w)" "lines_drawn E (cv w)" using g by (simp_all add: canvas_good_def)
  have "TEMPORARYINFO t = TEMPORARYINFO (cv w)"
    using drag_pressmove_result [OF gl p, of ev] t(1) by auto
  then show "handled E b fr (handle E (DragMove p ev) w)"
    using handled_on_canvas [OF w, where f = "drag_pressmove E p ev"] t by simp
qed

lemma handle_good:
  assumes w: "page_good E w" and "enabled ev w" "bounds_ignore_alpha E"
  shows "handled E (\<not> editorReady w \<and> (\<exists>sd p i. ev = Release sd p i)) (\<not> draws_twice ev w) (handle E ev w)"
proof (cases ev)
  case (Release sd p i)
  then show ?thesis
    using assms release_sender_good release_receiver_good by (cases sd) auto
next
  case (AddButton sd p)
  then show ?thesis using assms add_button_good [OF w] by (cases sd) auto
next
  case (NewModule name host ty)
  then show ?thesis
    unfolding NewModule handle.simps submitNewModule_def sendWriteJSON_def
    by (intro handled_send add_module_good w)
next
  case FormReady
  then show ?thesis using w by (simp add: js_defs handled_def page_good_def)
next
  case (FormEdit v)
  then show ?thesis using w assms(2) by (auto simp: js_defs handled_def page_good_def)
next
  case FormCancel
  then show ?thesis using w assms(2) cancel_good [OF w] by (auto simp: cancel_form_def page_good_def)
qed (use assms drag_good [OF w] mouse_good [OF w] multi_good [OF w] submit_good [OF w] in \<open>simp_all del: handle.simps(1-12)\<close>)

section \<open>Loading\<close>

text \<open>Loading does not touch what the mouse is over or the connection of the form.\<close>

definition untouched :: "canvas \<Rightarrow> (bool \<times> bool \<times> (nat \<times> string \<times> string) option)
    \<times> (string \<times> string \<times> string \<times> string) option" where
  "untouched s = (mouse s, TEMPORARYINFO s)"

lemma forEach_frame:
  assumes "\<And>x t. x \<in> set xs \<Longrightarrow> g (snd (f x t)) = g t"
  shows "g (snd (forEach xs f s)) = g s"
  using assms
proof (induction xs arbitrary: s)
  case (Cons x xs)
  have "g (snd (f x s)) = g s" using Cons.prems by simp
  moreover have "g (snd (forEach xs f t)) = g t" for t by (rule Cons.IH) (use Cons.prems in simp)
  ultimately show ?case by (auto split: prod.splits option.splits)
qed simp

lemma andThen_frame:
  "g (snd (a s)) = g s \<Longrightarrow> (\<And>t. g (snd (b t)) = g t) \<Longrightarrow> g (snd (andThen a b s)) = g s"
  by (auto simp: andThen_def split: prod.splits option.splits)

lemma untouched_simps [simp]:
  "untouched (s\<lparr>moduleArray := a\<rparr>) = untouched s" "untouched (s\<lparr>overallConnections := b\<rparr>) = untouched s"
  "untouched (s\<lparr>shapes := c\<rparr>) = untouched s" "untouched (s\<lparr>stage := d\<rparr>) = untouched s"
  "untouched (s\<lparr>prt := e\<rparr>) = untouched s" "untouched (upd_module p f s) = untouched s"
  "untouched (s\<lparr>moduleID := n\<rparr>) = untouched s"
  by (simp_all add: untouched_def mouse_def upd_module_def)

lemma untouched_connect: "untouched (snd (connectLines E a b c d s)) = untouched s"
proof -
  have u: "untouched (snd (updateLines E l a b c d t)) = untouched t" for l t
    by (simp add: updateLines_def split: option.split prod.split)
  show ?thesis by (simp add: connectLines_def Let_def u split: option.split prod.split)
qed

lemma untouched_connect_all: "untouched (snd (connect_all E tc s)) = untouched s"
  unfolding connect_all_def
  by (intro forEach_frame)
    (auto simp: skip_def untouched_connect intro!: forEach_frame split: option.split)

lemma untouched_load_component:
  "untouched (fst (snd (load_component E c st))) = untouched (fst st)"
proof -
  have "untouched (fst (snd (load_sender E e st))) = untouched (fst st)"
    "untouched (fst (snd (load_receiver e st))) = untouched (fst st)" for e st
    by (cases st; simp add: load_sender_def load_receiver_def makeSenderContainerREADINGONLY_def
        makeReceiverContainerREADINGONLY_def js_defs split: option.split)+
  then have "untouched (fst (snd (forEach es (load_sender E) st))) = untouched (fst st)"
    "untouched (fst (snd (forEach es load_receiver st))) = untouched (fst st)" for es st
    by (intro forEach_frame [where g = "\<lambda>t. untouched (fst t)"]; simp)+
  then show ?thesis unfolding load_component_def
    by (intro andThen_frame [where g = "\<lambda>t. untouched (fst t)"])
      (auto simp: upd_def skip_def intro!: andThen_frame [where g = "\<lambda>t. untouched (fst t)"] split: option.split prod.split)
qed

lemma untouched_readJSON: "untouched (snd (readJSON E ps cf s)) = untouched s"
proof -
  have place: "untouched (snd (place_modules E ps cs t)) = untouched t" for cs t
    unfolding place_modules_def
    by (intro forEach_frame) (auto simp: dragAndDrop_result split: prod.split)
  have comps: "untouched (fst (snd (forEach cs (load_component E) st))) = untouched (fst st)" for cs st
    by (rule forEach_frame [where g = "\<lambda>t. untouched (fst t)"]) (rule untouched_load_component)
  have "untouched (snd (readJSON_helper E cs t)) = untouched t" for cs t
    using comps [of cs "(t, None, [])"]
      andThen_frame [of untouched "connect_all E _" _ "andThen (set_port _ _) (set_port _ _)"]
    by (auto simp: readJSON_helper_def set_port_result untouched_connect_all andThen_def
        split: prod.split option.split)
  then show ?thesis unfolding readJSON_def
    by (auto simp: throw_def intro!: andThen_frame place split: option.split)
qed

lemma page_good_start:
  assumes "components cf = Some cs" "file_ok cs" "readJSON E ps cf init_canvas = (None, s)"
  shows "page_good E (start_page s)"
proof -
  obtain t where "readJSON E ps cf init_canvas = (None, t)" "graph_ok t" "lines_drawn E t"
    by (rule readJSON_result [OF assms(1,2)])
  then have g: "graph_ok s" "lines_drawn E s" using assms(3) by simp_all
  have "untouched s = untouched init_canvas"
    using untouched_readJSON [of E ps cf init_canvas] assms(3) by simp
  then have "mouse s = (False, False, None)" "TEMPORARYINFO s = None"
    by (simp_all add: untouched_def mouse_def init_canvas_def)
  then show ?thesis using g
    by (simp add: page_good_def start_page_def canvas_good_def hover_ok_def temp_ok_def mouse_def hovering_def
        split: side.split)
qed

section \<open>Reachable sessions\<close>

lemma answer_good:
  assumes "page_good E w"
  shows "page_good E (snd (fst (answer validate j cf w)))"
proof (cases j)
  case (SubmitJob mSend mRec)
  have "page_good E (snd (on_canvas cancelConnection w))" if "form w \<noteq> None"
    using cancel_good [OF assms, of True True] assms that by (simp add: handled_def page_good_def)
  then show ?thesis using assms SubmitJob by (auto simp: answer_def split: option.split sum.split)
qed (use assms in \<open>auto simp: answer_def split: sum.split\<close>)

lemma net_step_good:
  assumes "net_step validate x y" "page_good E (pg x)"
  shows "page_good E (pg y)"
  using assms(1)
proof cases
  case (deliver as j cf bs e w post)
  then show ?thesis using answer_good [OF assms(2), of validate j cf] by simp
qed (use assms(2) in simp_all)

lemma session_good:
  assumes "session_reachable E validate x" "bounds_ignore_alpha E"
  shows "page_good E (pg x)"
  using assms(1)
proof induction
  case (start cf cs ps s)
  then show ?case by (simp add: page_good_start)
next
  case (step x a y)
  from step.hyps(2) show ?case
  proof cases
    case (event ev)
    then show ?thesis using handle_good [OF step.IH _ assms(2)] step.hyps(3) by (simp add: handled_def)
  next
    case network
    then show ?thesis using net_step_good step.IH by blast
  qed
qed

text \<open>
  C7. Consistency of sessions: as long as no existing connection is drawn a second time, every state
  a session reaches, whatever the user does and however requests and answers overtake one
  another, has a consistent graph of connections with every line drawn between its connectors;
  the connector announced under the mouse exists, and so do both ends of the connection the
  form is about.
\<close>

theorem session_consistent:
  assumes "bounds_ignore_alpha E" "session_reachable E validate x"
  shows "graph_ok (cv (pg x)) \<and> lines_drawn E (cv (pg x))
    \<and> (\<forall>sd. hovering sd (cv (pg x)) \<longrightarrow>
         (\<exists>p i h. ABOVEINFO (cv (pg x)) = Some (p, nat_str i, h) \<and> has_connector sd (cv (pg x)) p i))
    \<and> (form (pg x) \<noteq> None \<longrightarrow>
         (\<exists>m i r j. TEMPORARYINFO (cv (pg x)) = Some (nat_str m, nat_str i, nat_str r, nat_str j)
            \<and> has_connector Sender (cv (pg x)) m i \<and> has_connector Receiver (cv (pg x)) r j))"
  using session_good [OF assms(2,1)]
  unfolding page_good_def canvas_good_def hover_ok_def temp_ok_def by auto


text \<open>A session on the sample file: the user drags the first module.\<close>

definition sample_start :: session where
  "sample_start = \<lparr>pg = start_page (snd (readJSON sample_env None sample_file init_canvas)),
     store = sample_file, inbox = [], outbox = []\<rparr>"

lemma sample_start_reachable:
  "session_reachable sample_env validate sample_start"
  "enabled (DragMove 0 ev) (pg sample_start)" "\<not> draws_twice (DragMove 0 ev) (pg sample_start)"
  "bounds_ignore_alpha sample_env"
proof -
  obtain t where t: "readJSON sample_env None sample_file init_canvas = (None, t)"
    "loaded_modules None (comps sample_file) t"
    by (rule readJSON_result [OF sample_file_comps(1) sample_file_ok])
  show "session_reachable sample_env validate sample_start"
    unfolding sample_start_def t(1) snd_conv
    by (rule session_reachable.start [OF sample_file_comps(1) sample_file_ok t(1)])
  show "enabled (DragMove 0 ev) (pg sample_start)"
    using t by (simp add: sample_start_def start_page_def loaded_modules_def sample_file_comps(2))
  show "\<not> draws_twice (DragMove 0 ev) (pg sample_start)" by (simp add: draws_twice_def)
  show "bounds_ignore_alpha sample_env" by (simp add: bounds_ignore_alpha_def sample_env_def)
qed

theorem session_consistent_witness:
  "graph_ok (cv (snd (handle sample_env (DragMove 0 (5 / 2, 7)) (pg sample_start))))"
proof -
  let ?ev = "DragMove 0 (5 / 2, 7)"
  have "session_reachable sample_env (\<lambda>v. []) (sample_start\<lparr>pg := snd (handle sample_env ?ev (pg sample_start))\<rparr>)"
    by (rule session_reachable.step [OF sample_start_reachable(1) session_step.event [OF sample_start_reachable(2)]])
      (simp add: sample_start_reachable(3))
  from session_consistent [OF sample_start_reachable(4) this] show ?thesis by simp
qed


end
