(* ===== verification/Requests.thy ===== *)
theory Requests
  imports Sessions
begin

text \<open>
  The requests of a session (\<open>drag.js\<close>): each reads the working copy, transforms it in its
  callback and posts it back. Two requests in flight may lose the effect of one. Only the
  callbacks (\<open>answer\<close>) are code of the repository; the messages between page and server
  (\<open>net_step\<close>) are a model of the transport.
\<close>

section \<open>Messages in flight\<close>

definition quiet :: "session \<Rightarrow> bool" where
  "quiet x \<longleftrightarrow> sent (pg x) = [] \<and> inbox x = [] \<and> outbox x = []"

lemma answer_sent_irrelevant:
  "snd (answer validate j cf (w\<lparr>sent := js\<rparr>)) = snd (answer validate j cf w)"
  by (auto simp: answer_def split: job.split option.split sum.split)

section \<open>Two requests\<close>

lemma answer_posts: "snd (answer validate j cf w) = Some c \<Longrightarrow> answer validate j cf w = ((None, w), Some c)"
  by (auto simp: answer_def split: job.splits option.splits sum.splits if_splits)

text \<open>Steps on the first message of each queue, by fields.\<close>

lemma serve_first: "sent w = j # ks \<Longrightarrow>
  net_step validate \<lparr>pg = w, store = st, inbox = ib, outbox = ob\<rparr>
    \<lparr>pg = w\<lparr>sent := ks\<rparr>, store = st, inbox = ib @ [(j, st)], outbox = ob\<rparr>"
  using net_step.serve [of "\<lparr>pg = w, store = st, inbox = ib, outbox = ob\<rparr>" "[]"] by simp

lemma deliver_first: "snd (answer validate j cf w) = Some c \<Longrightarrow>
  net_step validate \<lparr>pg = w, store = st, inbox = (j, cf) # ib, outbox = ob\<rparr>
    \<lparr>pg = w, store = st, inbox = ib, outbox = ob @ [c]\<rparr>"
  using net_step.deliver [where x = "\<lparr>pg = w, store = st, inbox = (j, cf) # ib, outbox = ob\<rparr>"
      and as = "[]" and j = j and cf = cf and bs = ib and validate = validate and e = None and w = w
      and post = "Some c"]
    answer_posts [of validate j cf w c] by simp

lemma arrive_first:
  "net_step validate \<lparr>pg = w, store = st, inbox = ib, outbox = c # ob\<rparr>
    \<lparr>pg = w, store = c, inbox = ib, outbox = ob\<rparr>"
  using net_step.arrive [of "\<lparr>pg = w, store = st, inbox = ib, outbox = c # ob\<rparr>" "[]"] by simp

lemma answer_write: "snd (answer validate WriteJob cf w) = Some (writeJSON (moduleArray (cv w)) cf)"
  by (simp add: answer_def)

lemmas first_steps = serve_first deliver_first arrive_first

lemma two_outcomes:
  assumes "sent (pg x) = [SubmitJob a b, WriteJob]" "inbox x = []" "outbox x = []"
    and post: "snd (answer validate (SubmitJob a b) (store x) (pg x)) = Some c"
  shows "(\<exists>y. (net_step validate)\<^sup>*\<^sup>* x y \<and> quiet y \<and> store y = writeJSON (moduleArray (cv (pg x))) c)
    \<and> (\<exists>y. (net_step validate)\<^sup>*\<^sup>* x y \<and> quiet y \<and> store y = writeJSON (moduleArray (cv (pg x))) (store x))"
proof -
  define w st where "w = pg x" and "st = store x"
  have x: "x = \<lparr>pg = w, store = st, inbox = [], outbox = []\<rparr>" "sent w = [SubmitJob a b, WriteJob]"
    using assms(1-3) by (simp_all add: w_def st_def)
  let ?ms = "moduleArray (cv w)"
  let ?sub = "(SubmitJob a b, st)" let ?wr = "\<lambda>s. (WriteJob, s)"
  let ?n = "\<lambda>s ib ob. \<lparr>pg = w\<lparr>sent := []\<rparr>, store = s, inbox = ib, outbox = ob\<rparr>"
  let ?m = "\<lambda>s ib ob. \<lparr>pg = w\<lparr>sent := [WriteJob]\<rparr>, store = s, inbox = ib, outbox = ob\<rparr>"
  have sub: "snd (answer validate (SubmitJob a b) st (w\<lparr>sent := js\<rparr>)) = Some c" for js
    using post by (simp add: answer_sent_irrelevant w_def st_def)
  have wr: "snd (answer validate WriteJob s (w\<lparr>sent := js\<rparr>)) = Some (writeJSON ?ms s)" for s js
    by (simp add: answer_write)
  note dS = deliver_first [OF sub, where ob = "[]", unfolded append_Nil]
  note dW = deliver_first [OF wr, where ob = "[]", unfolded append_Nil]
  have start: "net_step validate x (?m st [?sub] [])"
    using serve_first [OF x(2), of validate st "[]" "[]"] by (simp add: x(1))
  have serve: "net_step validate (?m s ib ob) (?n s (ib @ [?wr s]) ob)" for s ib ob
    using serve_first [of "w\<lparr>sent := [WriteJob]\<rparr>" WriteJob "[]"] by simp
  have good: "net_step validate (?m st [?sub] []) (?m st [] [c])" "net_step validate (?m st [] [c]) (?m c [] [])"
    "net_step validate (?n c [?wr c] []) (?n c [] [writeJSON ?ms c])"
    "net_step validate (?n c [] [writeJSON ?ms c]) (?n (writeJSON ?ms c) [] [])"
    by (rule dS dW arrive_first)+
  have bad: "net_step validate (?n st [?sub, ?wr st] []) (?n st [?wr st] [c])"
    "net_step validate (?n st [?wr st] [c]) (?n c [?wr st] [])"
    "net_step validate (?n c [?wr st] []) (?n c [] [writeJSON ?ms st])"
    "net_step validate (?n c [] [writeJSON ?ms st]) (?n (writeJSON ?ms st) [] [])"
    by (rule dS dW arrive_first)+
  have q: "quiet (?n s [] [])" for s by (simp add: quiet_def)
  have "(net_step validate)\<^sup>*\<^sup>* x (?n (writeJSON ?ms c) [] [])"
    using start good serve [of c "[]" "[]"] by (auto intro!: converse_rtranclp_into_rtranclp)
  moreover have "(net_step validate)\<^sup>*\<^sup>* x (?n (writeJSON ?ms st) [] [])"
    using start bad serve [of st "[?sub]" "[]"] by (auto intro!: converse_rtranclp_into_rtranclp)
  ultimately show ?thesis using q by (metis session.select_convs(2) w_def st_def)
qed

text \<open>
  C29. Lost update: when the merge of the canvas (\<open>writeJSON\<close>, sent by the buttons that add connectors
  and modules) is requested while the request of a submitted form is still in flight, the session
  may come to rest with a working copy whose next load draws the connections of the submitted
  file \<open>c\<close>, but also with one that draws those of the file before: the connection is lost, although
  both posts were stored.
\<close>

theorem submitted_data_lost:
  assumes "sent (pg x) = [SubmitJob a b, WriteJob]" "inbox x = []" "outbox x = []"
    and "snd (answer validate (SubmitJob a b) (store x) (pg x)) = Some c"
    and d: "distinct (map m_name (moduleArray (cv (pg x))))"
  shows "(\<exists>y. (net_step validate)\<^sup>*\<^sup>* x y \<and> quiet y \<and> file_edges (comps (store y)) = file_edges (comps c))
    \<and> (\<exists>y. (net_step validate)\<^sup>*\<^sup>* x y \<and> quiet y \<and> file_edges (comps (store y)) = file_edges (comps (store x)))"
  using two_outcomes [OF assms(1-4)] file_edges_writeJSON [OF d] by metis

section \<open>Sample sessions\<close>

text \<open>The form is submitted and a connector added before the answer arrives.\<close>

definition submitting :: session where
  "submitting =
     \<lparr>pg = \<lparr>cv = init_canvas\<lparr>moduleArray := [named ''a'', named ''b''],
              TEMPORARYINFO := Some (''0'', nat_str 0, ''1'', nat_str 0)\<rparr>,
        editorReady = True, form = Some sample_in, sent = [SubmitJob (Some 0) (Some 1), WriteJob]\<rparr>,
      store = empty_file, inbox = [], outbox = []\<rparr>"

theorem submitted_data_lost_witness:
  "(\<exists>y. (net_step (\<lambda>v. []))\<^sup>*\<^sup>* submitting y \<and> quiet y \<and> (0, 0, 1, 0) \<in> file_edges (comps (store y)))
   \<and> (\<exists>y. (net_step (\<lambda>v. []))\<^sup>*\<^sup>* submitting y \<and> quiet y \<and> file_edges (comps (store y)) = {})"
proof -
  have "distinct (map fst sample_in)" "obj_get sample_in ''chid'' \<in> {None, Some (JNum (int 0))}"
    by (simp_all add: sample_in_def obj_get_def)
  note d = this
  define c where "c = empty_file\<lparr>components := Some (map (submitted [named ''a'', named ''b''] 0 1 (nat_str 0)
    (nat_str 0) sample_in) (comps empty_file))\<rparr>"
  have c: "submitNewConnection_success (Some 0) (Some 1) [named ''a'', named ''b'']
      (Some (''0'', nat_str 0, ''1'', nat_str 0)) sample_in empty_file = Inr c"
    "(0, 0, 1, 0) \<in> file_edges (comps c)"
    using submit_runs [OF empty_file_listed] submitted_edge [OF empty_file_listed d sample_entries(4)]
    by (simp_all add: c_def comps_def)
  have x: "sent (pg submitting) = [SubmitJob (Some 0) (Some 1), WriteJob]" "inbox submitting = []"
    "outbox submitting = []" "distinct (map m_name (moduleArray (cv (pg submitting))))"
    "store submitting = empty_file"
    by (simp_all add: submitting_def)
  have p: "snd (answer (\<lambda>v. []) (SubmitJob (Some 0) (Some 1)) (store submitting) (pg submitting)) = Some c"
    using c(1) by (simp add: answer_def submitting_def)
  have "live sd (comps empty_file) k key i \<longleftrightarrow> False" for sd k key i
    by (cases sd) (auto simp: live_def empty_file_def comps_def side_list_def sample_comp_fields nth_Cons
        entry_without_transport split: nat.splits)
  then have "file_edges (comps empty_file) = {}" by (auto simp: file_edges_live)
  then show ?thesis
    using submitted_data_lost [OF x(1-3) p x(4)] c(2) x(5) by metis
qed

end
