(* ===== verification/Chart.thy ===== *)
theory Chart
  imports Js_Prelude
begin

text \<open>
  The chart of the monitoring page (\<open>addGraph.js\<close>): one series per metric, filled with the history
  the server answers, and a timer that each second appends the last value of every metric.
  Highcharts is a library: its \<open>addPoint\<close> is a parameter, of which the code relies on no more than
  that a series is not empty after a point was added. Values of the x axis are time stamps, integers.
\<close>

section \<open>Series\<close>

type_synonym point = "int \<times> json"

record series =
  s_name :: string
  points :: "point list"

text \<open>
  The object built for one name; the synchronous request leaves \<open>data3\<close> empty when it fails.
\<close>

definition make_series :: "(string \<Rightarrow> point list option) \<Rightarrow> string \<Rightarrow> series" where
  "make_series fetch nm = \<lparr>s_name = nm, points = (case fetch nm of None \<Rightarrow> [] | Some d \<Rightarrow> d)\<rparr>"

definition addGraph :: "(string \<Rightarrow> point list option) \<Rightarrow> string list \<Rightarrow> series list" where
  "addGraph fetch names = map (make_series fetch) names"

section \<open>The timer\<close>

text \<open>
  \<open>last_values[name]\<close> is \<open>None\<close> when there is no entry, else the array \<open>[x, y]\<close>, which may be too
  short. Reading the entry of an absent name and the last point of an empty series throw.
\<close>

type_synonym last_values = "string \<Rightarrow> (int option \<times> json) option"

definition tick_series ::
  "(point list \<Rightarrow> point \<Rightarrow> point list) \<Rightarrow> last_values \<Rightarrow> nat \<times> string \<Rightarrow> series list stmt" where
  "tick_series addPoint last_values = (\<lambda>(i, nm) ss.
     case last_values nm of
       None \<Rightarrow> (Some TypeError, ss)
     | Some (None, y) \<Rightarrow> (None, ss)
     | Some (Some x, y) \<Rightarrow>
         (if i < length ss \<and> points (ss ! i) \<noteq> [] then
            (if fst (last (points (ss ! i))) \<noteq> x
             then (None, ss[i := (ss ! i)\<lparr>points := addPoint (points (ss ! i)) (x, y)\<rparr>])
             else (None, ss))
          else (Some TypeError, ss)))"

definition tick ::
  "(point list \<Rightarrow> point \<Rightarrow> point list) \<Rightarrow> last_values \<Rightarrow> string list \<Rightarrow> series list stmt" where
  "tick addPoint last_values names =
     forEach (zip [0..<length names] names) (tick_series addPoint last_values)"

text \<open>The timer goes on after a tick that threw.\<close>

definition ticks ::
  "(point list \<Rightarrow> point \<Rightarrow> point list) \<Rightarrow> string list \<Rightarrow> last_values list \<Rightarrow> series list \<Rightarrow> series list" where
  "ticks addPoint names ls ss = foldl (\<lambda>s l. snd (tick addPoint l names s)) ss ls"

section \<open>One tick\<close>

text \<open>A series at which a tick stops, and what a tick does to one at which it does not.\<close>

definition stops :: "last_values \<Rightarrow> series \<Rightarrow> bool" where
  "stops l s = (case l (s_name s) of
      None \<Rightarrow> True | Some (None, y) \<Rightarrow> False | Some (Some x, y) \<Rightarrow> points s = [])"

definition follow :: "(point list \<Rightarrow> point \<Rightarrow> point list) \<Rightarrow> point list \<Rightarrow> (int option \<times> json) option \<Rightarrow> point list" where
  "follow addPoint ps v = (case v of
      Some (Some x, y) \<Rightarrow> if fst (last ps) \<noteq> x then addPoint ps (x, y) else ps
    | _ \<Rightarrow> ps)"

definition advance :: "(point list \<Rightarrow> point \<Rightarrow> point list) \<Rightarrow> last_values \<Rightarrow> series \<Rightarrow> series" where
  "advance addPoint l s = s\<lparr>points := follow addPoint (points s) (l (s_name s))\<rparr>"

lemma tick_series_at:
  "tick_series addPoint l (length before, s_name s) (before @ s # after) =
     (if stops l s then (Some TypeError, before @ s # after)
      else (None, before @ advance addPoint l s # after))"
  by (auto simp: tick_series_def stops_def advance_def follow_def split: option.split prod.split)

lemma tick_from:
  "forEach (zip [length before..<length before + length ss] (map s_name ss)) (tick_series addPoint l) (before @ ss)
     = (if \<exists>s \<in> set ss. stops l s then Some TypeError else None,
        before @ map (advance addPoint l) (takeWhile (\<lambda>s. \<not> stops l s) ss) @ dropWhile (\<lambda>s. \<not> stops l s) ss)"
proof (induction ss arbitrary: before)
  case (Cons s ss)
  have zip: "zip [length before..<length before + length (s # ss)] (map s_name (s # ss))
      = (length before, s_name s) # zip [Suc (length before)..<Suc (length before) + length ss] (map s_name ss)"
    by (simp add: upt_conv_Cons del: upt_Suc)
  show ?case
    using Cons.IH [of "before @ [advance addPoint l s]"] unfolding zip
    by (simp add: tick_series_at)
qed simp

lemma tick_result:
  assumes "map s_name ss = names"
  shows "tick addPoint l names ss =
    (if \<exists>s \<in> set ss. stops l s then Some TypeError else None,
     map (advance addPoint l) (takeWhile (\<lambda>s. \<not> stops l s) ss) @ dropWhile (\<lambda>s. \<not> stops l s) ss)"
proof -
  have "length names = length ss" using assms by (metis length_map)
  then show ?thesis
    using tick_from [of "[]" ss addPoint l] assms by (simp add: tick_def)
qed

lemma s_name_advance [simp]: "s_name (advance addPoint l s) = s_name s"
  by (simp add: advance_def)

lemma names_kept:
  "map s_name (map (advance addPoint l) (takeWhile P ss) @ dropWhile P ss) = map s_name ss"
  by (induction ss) auto

lemma ticks_Cons: "ticks addPoint names (l # ls) ss = ticks addPoint names ls (snd (tick addPoint l names ss))"
  by (simp add: ticks_def)

lemma ticks_Nil [simp]: "ticks addPoint names [] ss = ss"
  by (simp add: ticks_def)

lemma tick_all:
  assumes "map s_name ss = names" "\<And>s. s \<in> set ss \<Longrightarrow> \<not> stops l s"
  shows "tick addPoint l names ss = (None, map (advance addPoint l) ss)"
proof -
  have e: "takeWhile (\<lambda>s. \<not> stops l s) ss = ss" "dropWhile (\<lambda>s. \<not> stops l s) ss = []"
    using assms(2) by (simp_all add: takeWhile_eq_all_conv dropWhile_eq_Nil_conv)
  show ?thesis using assms(2) unfolding tick_result [OF assms(1)] e by auto
qed

section \<open>Many ticks\<close>

text \<open>What is relied on of the library: a point added to a series becomes part of it.\<close>

definition keeps_points :: "(point list \<Rightarrow> point \<Rightarrow> point list) \<Rightarrow> bool" where
  "keeps_points addPoint \<longleftrightarrow> (\<forall>ps p. addPoint ps p \<noteq> [])"

lemma follow_nonempty: "keeps_points addPoint \<Longrightarrow> ps \<noteq> [] \<Longrightarrow> follow addPoint ps v \<noteq> []"
  by (auto simp: follow_def keeps_points_def split: option.split prod.split)

lemma ticks_all:
  assumes k: "keeps_points addPoint"
    and ls: "\<And>l nm. l \<in> set ls \<Longrightarrow> nm \<in> set names \<Longrightarrow> l nm \<noteq> None"
    and "map s_name ss = names" "\<And>s. s \<in> set ss \<Longrightarrow> points s \<noteq> []"
  shows "ticks addPoint names ls ss = map (\<lambda>s. s\<lparr>points := foldl (\<lambda>ps l. follow addPoint ps (l (s_name s))) (points s) ls\<rparr>) ss"
  using assms(2-4)
proof (induction ls arbitrary: ss)
  case Nil
  show ?case by (simp add: map_idI)
next
  case (Cons l ls)
  have "\<not> stops l s" if "s \<in> set ss" for s
    using Cons.prems(1) [of l "s_name s"] Cons.prems(2) Cons.prems(3) [OF that] that
    by (auto simp: stops_def split: option.split prod.split)
  then have t: "tick addPoint l names ss = (None, map (advance addPoint l) ss)"
    by (rule tick_all [OF Cons.prems(2)])
  have "ticks addPoint names ls (map (advance addPoint l) ss)
      = map (\<lambda>s. s\<lparr>points := foldl (\<lambda>ps l. follow addPoint ps (l (s_name s))) (points s) ls\<rparr>)
          (map (advance addPoint l) ss)"
  proof (rule Cons.IH)
    show "l' nm \<noteq> None" if "l' \<in> set ls" "nm \<in> set names" for l' nm using Cons.prems(1) that by simp
    show "map s_name (map (advance addPoint l) ss) = names" using Cons.prems(2) by (simp add: o_def)
    show "points s \<noteq> []" if "s \<in> set (map (advance addPoint l) ss)" for s
      using that Cons.prems(3) follow_nonempty [OF k] by (auto simp: advance_def)
  qed
  then show ?case by (simp add: ticks_Cons t advance_def)
qed

text \<open>
  C30. The chart follows the metrics: when every history has a point and every metric a last value,
  each series is, after any number of ticks, its history followed by the values whose time stamp
  differed from that of the point before.
\<close>

theorem chart_follows:
  assumes "keeps_points addPoint"
    and "\<And>nm. nm \<in> set names \<Longrightarrow> \<exists>p ps. fetch nm = Some (p # ps)"
    and "\<And>l nm. l \<in> set ls \<Longrightarrow> nm \<in> set names \<Longrightarrow> l nm \<noteq> None"
  shows "ticks addPoint names ls (addGraph fetch names)
    = map (\<lambda>nm. \<lparr>s_name = nm, points = foldl (\<lambda>ps l. follow addPoint ps (l nm)) (the (fetch nm)) ls\<rparr>) names"
proof -
  have "map s_name (addGraph fetch names) = names" by (simp add: addGraph_def make_series_def o_def)
  moreover have "points s \<noteq> []" if "s \<in> set (addGraph fetch names)" for s
    using that assms(2) by (fastforce simp: addGraph_def make_series_def)
  ultimately show ?thesis
    using ticks_all [where ss = "addGraph fetch names" and ls = ls and names = names, OF assms(1)] assms(2,3)
    by (fastforce simp: addGraph_def make_series_def)
qed

definition sample_history :: "string \<Rightarrow> point list option" where
  "sample_history nm = (if nm = ''rate'' then Some [(1, JNum 7)] else if nm = ''size'' then Some [(1, JNum 0)] else None)"

theorem chart_follows_witness:
  "map points (ticks (\<lambda>ps p. ps @ [p]) [''rate'', ''size'']
      [\<lambda>nm. Some (Some 1, JNum 9), \<lambda>nm. Some (Some 2, JNum 8)] (addGraph sample_history [''rate'', ''size'']))
    = [[(1, JNum 7), (2, JNum 8)], [(1, JNum 0), (2, JNum 8)]]"
  by (subst chart_follows) (auto simp: keeps_points_def sample_history_def follow_def)

lemma frozen_tick:
  assumes "map s_name ss = names" "k < length ss" "stops l (ss ! k)"
  shows "drop k (snd (tick addPoint l names ss)) = drop k ss"
    and "fst (tick addPoint l names ss) = Some TypeError"
proof -
  let ?P = "\<lambda>s. \<not> stops l s"
  have "length (takeWhile ?P ss) \<le> k"
    using assms(2,3) nth_length_takeWhile [of ?P ss]
    by (metis not_le set_takeWhileD takeWhile_nth nth_mem)
  moreover have "dropWhile ?P ss = drop (length (takeWhile ?P ss)) ss" by (rule dropWhile_eq_drop)
  ultimately show "drop k (snd (tick addPoint l names ss)) = drop k ss"
    by (simp add: tick_result [OF assms(1)])
  show "fst (tick addPoint l names ss) = Some TypeError"
    using assms(2,3) by (auto simp: tick_result [OF assms(1)])
qed

lemma frozen_ticks:
  assumes "map s_name ss = names" "k < length ss" "points (ss ! k) = []"
    and "\<And>l. l \<in> set ls \<Longrightarrow> \<exists>x y. l (names ! k) = Some (Some x, y)"
  shows "drop k (ticks addPoint names ls ss) = drop k ss"
  using assms
proof (induction ls arbitrary: ss)
  case (Cons l ls)
  let ?t = "snd (tick addPoint l names ss)"
  have "s_name (ss ! k) = names ! k" using Cons.prems(1,2) by auto
  then have "stops l (ss ! k)"
    using Cons.prems(3) Cons.prems(4) [of l] by (auto simp: stops_def)
  then have d: "drop k ?t = drop k ss" by (rule frozen_tick(1) [OF Cons.prems(1,2)])
  have n: "map s_name ?t = names" unfolding tick_result [OF Cons.prems(1)] snd_conv
    using Cons.prems(1) by (simp only: names_kept)
  then have len: "k < length ?t" using Cons.prems(1,2) by (metis length_map)
  then have "?t ! k = ss ! k" using d Cons.prems(2) by (metis hd_drop_conv_nth)
  then show ?case using Cons.IH [OF n len] Cons.prems(3,4) d by (simp add: ticks_Cons)
qed simp

text \<open>
  C31. A metric without history freezes the chart: from the first series on whose history is empty
  (or whose request failed), no series of a metric listed there or later ever gets a point, as long
  as the empty one's metric has values; each tick ends in an exception there.
\<close>

theorem chart_frozen:
  assumes "k < length names" "fetch (names ! k) \<in> {None, Some []}"
    and "\<And>l. l \<in> set ls \<Longrightarrow> \<exists>x y. l (names ! k) = Some (Some x, y)"
  shows "drop k (ticks addPoint names ls (addGraph fetch names)) = drop k (addGraph fetch names)"
proof -
  have "points (addGraph fetch names ! k) = []"
    using assms(1,2) by (auto simp: addGraph_def make_series_def)
  then show ?thesis
    using assms by (intro frozen_ticks) (simp_all add: addGraph_def make_series_def o_def)
qed

text \<open>The first metric has no history; the second never shows its new value.\<close>

theorem chart_frozen_witness:
  "map points (ticks (\<lambda>ps p. ps @ [p]) [''new'', ''rate''] [\<lambda>nm. Some (Some 2, JNum 8)]
     (addGraph sample_history [''new'', ''rate''])) = [[], [(1, JNum 7)]]"
proof -
  have "drop 0 (ticks (\<lambda>ps p. ps @ [p]) [''new'', ''rate''] [\<lambda>nm. Some (Some 2, JNum 8)]
      (addGraph sample_history [''new'', ''rate''])) = drop 0 (addGraph sample_history [''new'', ''rate''])"
    by (rule chart_frozen) (simp_all add: sample_history_def)
  then show ?thesis by (simp add: addGraph_def make_series_def sample_history_def)
qed

end
