(* ===== verification/Canvas_Page.thy ===== *)
theory Canvas_Page
  imports Js_Strings
begin

text \<open>
  The page around the canvas (\<open>drag.js\<close>): the size of the canvas and its dialog, and the schemas
  of the three forms, cut out of the schema of configuration files when it arrives.
\<close>

section \<open>Size of the canvas\<close>

text \<open>
  The \<open>width\<close> and \<open>height\<close> attributes of the canvas element, the window's inner size, and the
  two input fields of the resize dialog.
\<close>

record screen =
  attr_width :: string
  attr_height :: string
  innerWidth :: nat
  innerHeight :: nat
  canvasWidth :: string
  canvasHeight :: string

definition resize :: "string option \<Rightarrow> string option \<Rightarrow> screen \<Rightarrow> screen" where
  "resize width height sc =
     (case (width, height) of
        (Some w, Some h) \<Rightarrow> sc\<lparr>attr_width := w, attr_height := h\<rparr>
      | _ \<Rightarrow> sc\<lparr>attr_width := nat_str (innerWidth sc), attr_height := nat_str (innerHeight sc)\<rparr>)"

text \<open>
  Reading \<open>canvas.width\<close>: the HTML rules for a non-negative integer (leading space, an optional
  sign, digits), with the default 300 by 150 when the attribute does not start with one.
\<close>

definition dimension :: "nat \<Rightarrow> string \<Rightarrow> nat" where
  "dimension dflt s =
     (let t = trim_left s; u = (if t \<noteq> [] \<and> hd t = CHR ''+'' then tl t else t);
          ds = takeWhile is_digit u
      in if ds = [] then dflt else digits_nat ds)"

definition canvas_width :: "screen \<Rightarrow> nat" where
  "canvas_width sc = dimension 300 (attr_width sc)"

definition canvas_height :: "screen \<Rightarrow> nat" where
  "canvas_height sc = dimension 150 (attr_height sc)"

definition submitResize :: "screen \<Rightarrow> screen" where
  "submitResize sc = resize (Some (canvasWidth sc)) (Some (canvasHeight sc)) sc"

definition open_size_dialog :: "screen \<Rightarrow> screen" where
  "open_size_dialog sc = sc\<lparr>canvasWidth := nat_str (canvas_width sc),
     canvasHeight := nat_str (canvas_height sc)\<rparr>"

lemma dimension_nat_str [simp]: "dimension d (nat_str n) = n"
proof -
  have ds: "\<forall>c \<in> set (nat_str n). is_digit c" using nat_str_digits by blast
  then have "trim_left (nat_str n) = nat_str n"
    by (auto simp: trim_left_def intro!: dropWhile_none dest: is_digit_not_space)
  moreover have "hd (nat_str n) \<noteq> CHR ''+''" 
    using ds is_digit_not_sign [of "hd (nat_str n)"] hd_in_set [OF nat_str_nonempty] by blast
  moreover have tw: "takeWhile is_digit (nat_str n) = nat_str n" using ds by (simp add: takeWhile_eq_all_conv)
  ultimately show ?thesis unfolding dimension_def Let_def by (simp add: tw)
qed

text \<open>The initial call fits the canvas to the window; confirming the dialog unchanged keeps the size.\<close>

lemma resize_to_window:
  "canvas_width (resize None None sc) = innerWidth sc"
  "canvas_height (resize None None sc) = innerHeight sc"
  by (simp_all add: resize_def canvas_width_def canvas_height_def)

lemma size_dialog_unchanged:
  "canvas_width (submitResize (open_size_dialog sc)) = canvas_width sc"
  "canvas_height (submitResize (open_size_dialog sc)) = canvas_height sc"
  by (simp_all add: resize_def submitResize_def open_size_dialog_def canvas_width_def canvas_height_def)

section \<open>Schemas of the forms\<close>

text \<open>The forms: the schema their editor was created with, \<open>None\<close> before it is created.\<close>

record forms =
  connectionForm :: "json option option"
  moduleForm :: "json option option"
  multiModuleForm :: "json option option"

definition component_path :: "string list" where
  "component_path = [''properties'', ''configuration'', ''properties'', ''components'', ''items'']"

text \<open>The callbacks, with the schema file as it arrived; a throw leaves the forms as they were.\<close>

definition initConnectionForm_success :: "json \<Rightarrow> forms stmt" where
  "initConnectionForm_success j fm =
     (case js_path (Some j) (component_path @
          [''properties'', ''connections'', ''properties'', ''receivers'', ''items'']) of
        Inl e \<Rightarrow> (Some e, fm)
      | Inr path \<Rightarrow> (None, fm\<lparr>connectionForm := Some path\<rparr>))"

definition form_schema :: "obj \<Rightarrow> json option \<Rightarrow> json" where
  "form_schema props defs = JObj (obj_set ''definitions'' defs
     [(''type'', JStr ''object''), (''title'', JStr ''Component''), (''properties'', JObj props)])"

definition initNewModuleForm_success :: "json \<Rightarrow> forms stmt" where
  "initNewModuleForm_success j fm =
     (case js_path (Some j) (component_path @ [''properties'', ''name'']) of Inl e \<Rightarrow> (Some e, fm)
      | Inr name \<Rightarrow> (case js_path (Some j) (component_path @ [''properties'', ''host'']) of Inl e \<Rightarrow> (Some e, fm)
      | Inr host \<Rightarrow> (case js_path (Some j) (component_path @ [''properties'', ''type'']) of Inl e \<Rightarrow> (Some e, fm)
      | Inr ty \<Rightarrow> (case js_get (Some j) ''definitions'' of Inl e \<Rightarrow> (Some e, fm)
      | Inr defs \<Rightarrow>
          (None, fm\<lparr>
             moduleForm := Some (Some (form_schema
               (obj_set ''type'' ty (obj_set ''host'' host (obj_set ''name'' name []))) defs)),
             multiModuleForm := Some (Some (form_schema
               (obj_set ''type'' ty (obj_set ''host'' host
                 (obj_set ''number of modules'' (Some (JObj [(''type'', JStr ''integer'')]))
                   (obj_set ''name'' name [])))) defs))\<rparr>)))))"

lemma js_path_append:
  "js_path v (ks @ ls) = (case js_path v ks of Inl e \<Rightarrow> Inl e | Inr w \<Rightarrow> js_path w ls)"
  by (induction v ks rule: js_path.induct) (auto split: sum.splits)

text \<open>
  The fields of the single form are those of a component in the schema file, and the form for
  several modules has the number of modules besides.
\<close>

lemma new_module_forms:
  assumes "js_path (Some (JObj root)) component_path = Inr (Some (JObj items))"
    and "obj_get items ''properties'' = Some (JObj ps)"
    and "initNewModuleForm_success (JObj root) fm = (r, fm')"
  obtains one many where "r = None"
    and "moduleForm fm' = Some (Some (form_schema one (obj_get root ''definitions'')))"
    and "multiModuleForm fm' = Some (Some (form_schema many (obj_get root ''definitions'')))"
    and "\<And>k. obj_get one k = (if k \<in> {''name'', ''host'', ''type''} then obj_get ps k else None)"
    and "\<And>k. obj_get many k = (if k = ''number of modules'' then Some (JObj [(''type'', JStr ''integer'')])
           else obj_get one k)"
proof -
  let ?one = "obj_set ''type'' (obj_get ps ''type'') (obj_set ''host'' (obj_get ps ''host'')
      (obj_set ''name'' (obj_get ps ''name'') []))"
  let ?many = "obj_set ''type'' (obj_get ps ''type'') (obj_set ''host'' (obj_get ps ''host'')
      (obj_set ''number of modules'' (Some (JObj [(''type'', JStr ''integer'')]))
        (obj_set ''name'' (obj_get ps ''name'') [])))"
  have p: "js_path (Some (JObj root)) (component_path @ [''properties'', k]) = Inr (obj_get ps k)" for k
    using assms(1,2) by (simp add: js_path_append)
  have "initNewModuleForm_success (JObj root) fm = (None, fm\<lparr>
      moduleForm := Some (Some (form_schema ?one (obj_get root ''definitions''))),
      multiModuleForm := Some (Some (form_schema ?many (obj_get root ''definitions'')))\<rparr>)"
    unfolding initNewModuleForm_success_def p by simp
  then show ?thesis using assms(3) that [of ?one ?many] by auto
qed

end
