(* ===== verification/Widgets.thy ===== *)
theory Widgets
  imports Js_Strings
begin

text \<open>
  The static elements of the configuration pages: a page is a map from element ids to widgets,
  and the scripts assign \<open>className\<close> and \<open>value\<close> of elements they get by id; assigning through
  an id the page does not have throws. Also the help button that three pages share, as a locale,
  and the text that \<open>JSON.stringify(v, null, 2)\<close> produces.
\<close>

section \<open>Elements\<close>

record widget =
  className :: string
  wvalue :: string

type_synonym widgets = "string \<Rightarrow> widget option"

definition set_class :: "string \<Rightarrow> string \<Rightarrow> widgets stmt" where
  "set_class i c d = (case d i of None \<Rightarrow> (Some TypeError, d)
     | Some w \<Rightarrow> (None, d(i := Some (w\<lparr>className := c\<rparr>))))"

definition set_value :: "string \<Rightarrow> string \<Rightarrow> widgets stmt" where
  "set_value i v d = (case d i of None \<Rightarrow> (Some TypeError, d)
     | Some w \<Rightarrow> (None, d(i := Some (w\<lparr>wvalue := v\<rparr>))))"

definition set_classes :: "(string \<times> string) list \<Rightarrow> widgets stmt" where
  "set_classes ps = forEach ps (\<lambda>(i, c). set_class i c)"

definition class_of :: "widgets \<Rightarrow> string \<Rightarrow> string option" where
  "class_of d i = map_option className (d i)"

text \<open>Assigning \<open>null\<close> to \<open>className\<close> assigns the string \<open>null\<close>.\<close>

definition class_text :: "string option \<Rightarrow> string" where
  "class_text v = (case v of None \<Rightarrow> ''null'' | Some c \<Rightarrow> c)"

text \<open>A group of assignments, seen as one update.\<close>

definition reclass :: "(string \<rightharpoonup> string) \<Rightarrow> widgets \<Rightarrow> widgets" where
  "reclass m d = (\<lambda>i. map_option (\<lambda>w. case m i of None \<Rightarrow> w | Some c \<Rightarrow> w\<lparr>className := c\<rparr>) (d i))"

lemma reclass_empty [simp]: "reclass Map.empty d = d"
  by (simp add: reclass_def option.map_ident fun_eq_iff)

lemma set_class_reclass: "i \<in> dom d \<Longrightarrow> set_class i c d = (None, reclass [i \<mapsto> c] d)"
  by (auto simp: set_class_def reclass_def fun_eq_iff option.map_ident dom_def split: option.splits)

lemma reclass_reclass: "reclass m (reclass n d) = reclass (n ++ m) d"
  by (auto simp: reclass_def fun_eq_iff map_add_def option.map_comp split: option.splits
      intro!: option.map_cong)

lemma dom_reclass [simp]: "dom (reclass m d) = dom d"
  by (auto simp: reclass_def)

lemma class_of_None: "i \<notin> dom d \<Longrightarrow> class_of d i = None"
  by (auto simp: class_of_def dom_def)

lemma class_of_reclass:
  "class_of (reclass m d) i = (if i \<in> dom d then (case m i of None \<Rightarrow> class_of d i | Some c \<Rightarrow> Some c) else None)"
  by (auto simp: class_of_def reclass_def option.map_comp split: option.splits)

lemma wvalue_reclass [simp]: "map_option wvalue (reclass m d i) = map_option wvalue (d i)"
  by (auto simp: reclass_def option.map_comp comp_def split: option.splits intro!: option.map_cong)

lemma map_of_rev: "distinct (map fst ps) \<Longrightarrow> map_of (rev ps) = map_of ps"
proof (induction ps)
  case (Cons p ps)
  then have "map_of ps (fst p) = None" by (simp add: map_of_eq_None_iff)
  then show ?case using Cons by (auto simp: fun_eq_iff map_add_def split: option.splits)
qed simp

text \<open>Assignments to existing elements do not throw; the last one to an element counts.\<close>

lemma set_classes_reclass:
  "set (map fst ps) \<subseteq> dom d \<Longrightarrow> set_classes ps d = (None, reclass (map_of (rev ps)) d)"
proof (induction ps arbitrary: d)
  case (Cons p ps)
  obtain i c where p: "p = (i, c)" by (cases p)
  then have "set_class i c d = (None, reclass [i \<mapsto> c] d)"
    using Cons.prems by (intro set_class_reclass) auto
  moreover have "set_classes ps (reclass [i \<mapsto> c] d)
      = (None, reclass (map_of (rev ps)) (reclass [i \<mapsto> c] d))"
    using Cons.prems by (intro Cons.IH) auto
  ultimately show ?case by (simp add: p set_classes_def reclass_reclass)
qed (simp add: set_classes_def)

lemma reclass_eq:
  assumes "\<And>i c. m i = Some c \<Longrightarrow> i \<in> dom d \<Longrightarrow> class_of d i = Some c"
  shows "reclass m d = d"
proof
  fix i
  show "reclass m d i = d i"
    using assms [of i]
    by (cases "d i"; cases "m i") (auto simp: reclass_def class_of_def dom_def)
qed

section \<open>The help button\<close>

record help_page =
  HELPACTIVATED :: bool
  doc :: widgets

definition on_doc :: "widgets stmt \<Rightarrow> help_page stmt" where
  "on_doc f h = (case f (doc h) of (e, d) \<Rightarrow> (e, h\<lparr>doc := d\<rparr>))"

text \<open>The listener: flip the flag first, then assign the classes of the new mode one by one.\<close>

definition help_click :: "(string \<times> string) list \<Rightarrow> (string \<times> string) list \<Rightarrow> help_page stmt" where
  "help_click on off = readThen HELPACTIVATED (\<lambda>active.
     andThen (upd (\<lambda>h. h\<lparr>HELPACTIVATED := \<not> active\<rparr>))
       (on_doc (set_classes (if active then off else on))))"

text \<open>The page looks as described by a list of assignments.\<close>

definition looks :: "(string \<times> string) list \<Rightarrow> widgets \<Rightarrow> bool" where
  "looks ps d = list_all (\<lambda>(i, c). class_of d i = Some c) ps"

lemma looks_dom: "looks ps d \<Longrightarrow> set (map fst ps) \<subseteq> dom d"
  by (auto simp: looks_def list_all_iff class_of_def)

lemma looks_map_of: "looks ps d \<Longrightarrow> map_of ps i = Some c \<Longrightarrow> class_of d i = Some c"
  using map_of_SomeD [of ps i c] by (auto simp: looks_def list_all_iff)

text \<open>
  The contract of a help button: the assignments that show the help and those that hide it;
  every element touched by the first is restored by the second, each element once.
\<close>

locale help_button =
  fixes on off :: "(string \<times> string) list"
  assumes covered: "set (map fst on) \<subseteq> set (map fst off)"
    and distinct_on: "distinct (map fst on)" and distinct_off: "distinct (map fst off)"
begin

lemma show_help:
  assumes "looks off (doc h)" and "\<not> HELPACTIVATED h"
  shows "\<exists>h'. help_click on off h = (None, h') \<and> HELPACTIVATED h' \<and> looks on (doc h')
    \<and> doc h' = reclass (map_of on) (doc h)"
proof -
  have d: "set (map fst on) \<subseteq> dom (doc h)" using looks_dom [OF assms(1)] covered by auto
  let ?d = "reclass (map_of on) (doc h)"
  have "set_classes on (doc h) = (None, ?d)"
    using set_classes_reclass [OF d] map_of_rev [OF distinct_on] by simp
  moreover have "looks on ?d"
    unfolding looks_def list_all_iff
  proof (safe)
    fix i c assume ic: "(i, c) \<in> set on"
    then have "i \<in> dom (doc h)" using d by force
    with ic distinct_on show "class_of ?d i = Some c" by (simp add: class_of_reclass)
  qed
  ultimately show ?thesis using assms(2) by (simp add: help_click_def js_defs on_doc_def)
qed

text \<open>Two clicks bring the page back, element for element.\<close>

lemma twice:
  assumes "looks off (doc h)" and "\<not> HELPACTIVATED h"
  shows "andThen (help_click on off) (help_click on off) h = (None, h)"
proof -
  obtain h' where h': "help_click on off h = (None, h')" "HELPACTIVATED h'"
      "doc h' = reclass (map_of on) (doc h)"
    using show_help [OF assms] by blast
  have d: "set (map fst off) \<subseteq> dom (doc h')" using looks_dom [OF assms(1)] h'(3) by simp
  have "set_classes off (doc h') = (None, reclass (map_of on ++ map_of off) (doc h))"
    using set_classes_reclass [OF d] map_of_rev [OF distinct_off] h'(3) by (simp add: reclass_reclass)
  also have "reclass (map_of on ++ map_of off) (doc h) = doc h"
  proof (rule reclass_eq)
    fix i c assume m: "(map_of on ++ map_of off) i = Some c"
    have "map_of off i = None \<Longrightarrow> map_of on i = None" using covered by (auto simp: map_of_eq_None_iff)
    with m have "map_of off i = Some c" by (auto simp: map_add_Some_iff)
    then show "class_of (doc h) i = Some c" using assms(1) by (rule looks_map_of [rotated])
  qed
  finally have "help_click on off h' = (None, h'\<lparr>HELPACTIVATED := False, doc := doc h\<rparr>)"
    using h'(2) by (simp add: help_click_def js_defs on_doc_def)
  also have "h'\<lparr>HELPACTIVATED := False, doc := doc h\<rparr> = h" using assms(2) by simp
  finally show ?thesis using h'(1) by (simp add: andThen_def)
qed

end

end
