(* ===== verification/Help_Pages.thy ===== *)
theory Help_Pages
  imports Widgets
begin

text \<open>
  The start page (\<open>menu.js\<close>) and the help of the canvas page (end of \<open>drag.js\<close>): the help
  buttons as instances of the help button of \<open>Widgets\<close>, and the choice of a schema.
\<close>

section \<open>Help of the canvas page\<close>

definition canvas_help_off :: "(string \<times> string) list" where
  "canvas_help_off =
    [(''helpButton'', ''btn btn-primary''),
     (''newModuleButton'', ''btn btn-primary''), (''popover1'', ''d-none''),
     (''editJSONButton'', ''btn btn-primary''), (''popover2'', ''d-none''),
     (''menuButton'', ''btn btn-primary''), (''popover3'', ''d-none''),
     (''canvasSize'', ''btn btn-primary''), (''popover4'', ''d-none''),
     (''newMultiModuleButton'', ''btn btn-primary''), (''popover5'', ''d-none'')]"

definition canvas_help_on :: "(string \<times> string) list" where
  "canvas_help_on =
    [(''helpButton'', ''btn btn-success''),
     (''newModuleButton'', ''d-none''), (''popover1'', ''popover popover-bottom''),
     (''editJSONButton'', ''d-none''), (''popover2'', ''popover popover-bottom''),
     (''menuButton'', ''d-none''), (''popover3'', ''popover popover-bottom''),
     (''canvasSize'', ''d-none''), (''popover4'', ''popover popover-bottom''),
     (''newMultiModuleButton'', ''d-none''), (''popover5'', ''popover popover-bottom'')]"

definition canvas_help :: "help_page stmt" where
  "canvas_help = help_click canvas_help_on canvas_help_off"

interpretation canvas_page: help_button canvas_help_on canvas_help_off
  by unfold_locales (simp_all add: canvas_help_on_def canvas_help_off_def)

section \<open>Help of the start page\<close>

definition menu_help_off :: "(string \<times> string) list" where
  "menu_help_off =
    [(''helpButton'', ''btn btn-primary btn-lg''),
     (''newConfigFile'', ''btn btn-primary btn-lg''), (''popover1'', ''d-none''),
     (''editConfigFile'', ''btn btn-primary btn-lg''), (''popover2'', ''d-none''),
     (''editPrevFile'', ''btn btn-primary btn-lg''), (''popover3'', ''d-none''),
     (''selectSchemaFile'', ''btn btn-primary btn-lg''), (''popover4'', ''d-none'')]"

definition menu_help_on :: "(string \<times> string) list" where
  "menu_help_on =
    [(''helpButton'', ''btn btn-success btn-lg''),
     (''newConfigFile'', ''d-none''), (''popover1'', ''popover popover-right''),
     (''editConfigFile'', ''d-none''), (''popover2'', ''popover popover-right''),
     (''editPrevFile'', ''d-none''), (''popover3'', ''popover popover-right''),
     (''selectSchemaFile'', ''d-none''), (''popover4'', ''popover popover-right'')]"

definition menu_help :: "help_page stmt" where
  "menu_help = help_click menu_help_on menu_help_off"

interpretation menu_page: help_button menu_help_on menu_help_off
  by unfold_locales (simp_all add: menu_help_on_def menu_help_off_def)

text \<open>The pages as the templates \<open>canvas.html\<close> and \<open>menu.html\<close> give them, elements without value.\<close>

definition page_of :: "(string \<times> string) list \<Rightarrow> help_page" where
  "page_of ps = \<lparr>HELPACTIVATED = False,
     doc = (\<lambda>i. map_option (\<lambda>c. \<lparr>className = c, wvalue = ''''\<rparr>) (map_of ps i))\<rparr>"

lemma looks_page_of: "distinct (map fst ps) \<Longrightarrow> looks ps (doc (page_of ps))"
  by (auto simp: looks_def list_all_iff page_of_def class_of_def)

text \<open>
  The help of the canvas page: on a page whose buttons are visible, one click throws nothing,
  hides every button and shows its explanation; a second click restores the page exactly.
\<close>

theorem canvas_help_twice:
  assumes "looks canvas_help_off (doc h)" and "\<not> HELPACTIVATED h"
  shows "fst (canvas_help h) = None \<and> looks canvas_help_on (doc (snd (canvas_help h)))
    \<and> canvas_help (snd (canvas_help h)) = (None, h)"
proof -
  obtain h' where h': "canvas_help h = (None, h')" "looks canvas_help_on (doc h')"
    using canvas_page.show_help [OF assms] unfolding canvas_help_def by blast
  then show ?thesis
    using canvas_page.twice [OF assms] by (simp add: canvas_help_def andThen_def)
qed

theorem canvas_help_twice_witness:
  "canvas_help (snd (canvas_help (page_of canvas_help_off))) = (None, page_of canvas_help_off)"
proof -
  have "looks canvas_help_off (doc (page_of canvas_help_off))"
    by (rule looks_page_of) (rule canvas_page.distinct_off)
  from canvas_help_twice [OF this] show ?thesis by (simp add: page_of_def)
qed

lemma menu_help_twice:
  assumes "looks menu_help_off (doc h)" and "\<not> HELPACTIVATED h"
  shows "andThen menu_help menu_help h = (None, h)"
  unfolding menu_help_def using assms by (rule menu_page.twice)

section \<open>Choosing a schema on the start page\<close>

text \<open>The controls of the form: whether each is checked, and its value.\<close>

fun checked_value :: "(bool \<times> string) list \<Rightarrow> string option" where
  "checked_value [] = None"
| "checked_value ((checked, v) # rs) = (if checked then Some v else checked_value rs)"

text \<open>The address the empty request is posted to; without a choice \<open>String(undefined)\<close>.\<close>

definition submitSchema :: "(bool \<times> string) list \<Rightarrow> string" where
  "submitSchema radios = ''/editModule?type=selectSchema&schema=''
     @ (case checked_value radios of None \<Rightarrow> ''undefined'' | Some v \<Rightarrow> v)"

text \<open>
  Menu: the schema sent to the server is the value of the checked radio button, and when none
  is checked the request names a schema called \<open>undefined\<close> (the server then fails to open it).
\<close>

theorem schema_choice:
  "submitSchema radios = ''/editModule?type=selectSchema&schema=''
     @ hd (map snd (filter fst radios) @ [''undefined''])"
  by (induction radios rule: checked_value.induct) (simp_all add: submitSchema_def)

end
