(* ===== verification/Editor_Page.thy ===== *)
theory Editor_Page
  imports Widgets
begin

text \<open>
  The JSON editor page (\<open>input.js\<close>): the buttons that follow the validation of the edited
  document, the help button that hides them, and the requests that save the document. The editor
  widget and its validator are a library: the validator is a parameter, from documents to errors.
\<close>

section \<open>\<open>JSON.stringify(v, null, 2)\<close>\<close>

definition hex_digit :: "nat \<Rightarrow> char" where
  "hex_digit d = ''0123456789abcdef'' ! d"

definition escape_char :: "char \<Rightarrow> string" where
  "escape_char c = (let k = (of_char c :: nat) in
     if k = 34 then [char_of (92 :: nat), c]
     else if k = 92 then [c, c]
     else if k = 8 then [char_of (92 :: nat), CHR ''b'']
     else if k = 9 then [char_of (92 :: nat), CHR ''t'']
     else if k = 10 then [char_of (92 :: nat), CHR ''n'']
     else if k = 12 then [char_of (92 :: nat), CHR ''f'']
     else if k = 13 then [char_of (92 :: nat), CHR ''r'']
     else if k < 32 then char_of (92 :: nat) # ''u00'' @ [hex_digit (k div 16), hex_digit (k mod 16)]
     else [c])"

definition quoted :: "string \<Rightarrow> string" where
  "quoted s = CHR 0x22 # concat (map escape_char s) @ [CHR 0x22]"

definition newline :: "nat \<Rightarrow> string" where
  "newline n = CHR 0x0A # replicate n CHR '' ''"

fun stringify :: "nat \<Rightarrow> json \<Rightarrow> string" where
  "stringify n JNull = ''null''"
| "stringify n (JBool b) = (if b then ''true'' else ''false'')"
| "stringify n (JNum i) = int_str i"
| "stringify n (JStr s) = quoted s"
| "stringify n (JArr xs) =
     (if xs = [] then ''[]''
      else ''['' @ newline (n + 2)
         @ join (CHR '','' # newline (n + 2)) (map (stringify (n + 2)) xs) @ newline n @ '']'')"
| "stringify n (JObj ps) =
     (if ps = [] then ''{}''
      else ''{'' @ newline (n + 2)
         @ join (CHR '','' # newline (n + 2))
             (map (\<lambda>(k, v). quoted k @ '': '' @ stringify (n + 2) v) ps) @ newline n @ ''}'')"

section \<open>State\<close>

record editor =
  ed_help :: bool
  ed_doc :: widgets
  submitButtonState :: "string option"
  validateButtonState :: "string option"
  validIconState :: "string option"
  ed_value :: json
  posts :: "(string \<times> string) list"
  location :: "string option"
  askedName :: bool

definition on_edoc :: "widgets stmt \<Rightarrow> editor stmt" where
  "on_edoc f e = (case f (ed_doc e) of (r, d) \<Rightarrow> (r, e\<lparr>ed_doc := d\<rparr>))"

definition post :: "string \<Rightarrow> string \<Rightarrow> editor stmt" where
  "post url body = upd (\<lambda>e. e\<lparr>posts := posts e @ [(url, body)]\<rparr>)"

section \<open>The \<open>change\<close> listener\<close>

definition submit_class :: "bool \<Rightarrow> string" where
  "submit_class valid = (if valid then ''btn btn-primary'' else ''btn btn-primary disabled'')"

definition validation_class :: "bool \<Rightarrow> string" where
  "validation_class valid = (if valid then ''btn btn-success'' else ''btn btn-error'')"

definition icon_class :: "bool \<Rightarrow> string" where
  "icon_class valid = (if valid then ''icon icon-check'' else ''icon icon-cross'')"

definition errors_text :: "json list \<Rightarrow> string" where
  "errors_text errs = (if errs \<noteq> [] then stringify 0 (JArr errs) else ''valid'')"

definition editor_change :: "(json \<Rightarrow> json list) \<Rightarrow> editor stmt" where
  "editor_change validate =
     andThen (on_edoc (set_class ''textSubmission'' ''d-hide''))
       (readThen (\<lambda>e. validate (ed_value e)) (\<lambda>validationErrors.
          let valid = (validationErrors = []) in
          andThen (on_edoc (set_value ''validate-textarea'' (errors_text validationErrors)))
          (andThen (readThen ed_help (\<lambda>h. onlyIf (\<not> h) (on_edoc (set_classes
             [(''submit'', submit_class valid), (''validationField'', validation_class valid),
              (''validIcon'', icon_class valid)]))))
          (andThen (on_edoc (set_classes
             [(''submit2'', submit_class valid), (''validationField2'', validation_class valid),
              (''validIcon2'', icon_class valid)]))
          (upd (\<lambda>e. e\<lparr>validateButtonState := Some (validation_class valid),
             submitButtonState := Some (submit_class valid),
             validIconState := Some (icon_class valid)\<rparr>))))))"

text \<open>Editing, or loading the working copy with \<open>setValue\<close>: a new document, then the listener.\<close>

definition edit :: "(json \<Rightarrow> json list) \<Rightarrow> json \<Rightarrow> editor stmt" where
  "edit validate v = andThen (upd (\<lambda>e. e\<lparr>ed_value := v\<rparr>)) (editor_change validate)"

section \<open>Saving\<close>

definition returnToCanvas_helper :: "editor stmt" where
  "returnToCanvas_helper = readThen ed_value (\<lambda>v. post ''/editModule?type=tempFile'' (stringify 0 v))"

definition out_url :: "string \<Rightarrow> string" where
  "out_url name = ''/editModule?type=outFile&currentFileName='' @ name"

text \<open>\<open>currentFileName\<close> is set by the template; clicking the hidden link opens the name dialog.\<close>

definition submit_helper :: "(json \<Rightarrow> json list) \<Rightarrow> string \<Rightarrow> editor stmt" where
  "submit_helper validate currentFileName =
     andThen (readThen ed_value (\<lambda>v. post ''/editModule?type=tempFile'' (stringify 0 v)))
       (readThen ed_value (\<lambda>v.
          if validate v \<noteq> [] then skip
          else if currentFileName \<noteq> ''dummyFile.json'' \<and> currentFileName \<noteq> ''None'' then
            andThen (post (out_url currentFileName) (stringify 0 v))
              (on_edoc (set_class ''textSubmission'' ''text-success''))
          else readThen (\<lambda>e. ed_doc e ''hiddenSubmit'') (\<lambda>link.
            case link of None \<Rightarrow> throw TypeError | Some _ \<Rightarrow> upd (\<lambda>e. e\<lparr>askedName := True\<rparr>))))"

text \<open>The button of the name dialog, with the text of its input field.\<close>

definition submitNewJSON :: "(json \<Rightarrow> json list) \<Rightarrow> editor stmt" where
  "submitNewJSON validate = readThen ed_value (\<lambda>v.
     if validate v \<noteq> [] then skip
     else readThen (\<lambda>e. ed_doc e ''fileNameNew'') (\<lambda>field.
       case field of None \<Rightarrow> throw TypeError
       | Some w \<Rightarrow>
           andThen (upd (\<lambda>e. e\<lparr>location := Some (''/editModule?currentFileName='' @ wvalue w)\<rparr>))
           (andThen (post (out_url (wvalue w)) (stringify 0 v))
             (on_edoc (set_class ''textSubmission'' ''text-success'')))))"

section \<open>The help button\<close>

definition editor_help_on :: "(string \<times> string) list" where
  "editor_help_on =
    [(''helpButton'', ''btn btn-success''),
     (''submit'', ''d-none''), (''popover1'', ''popover popover-bottom''),
     (''validationField'', ''d-none''), (''popover2'', ''popover popover-bottom''),
     (''returnToCanvas'', ''d-none''), (''popover3'', ''popover popover-bottom''),
     (''menuButton'', ''d-none''), (''popover4'', ''popover popover-bottom'')]"

definition editor_help_off :: "string option \<Rightarrow> string option \<Rightarrow> string option \<Rightarrow> (string \<times> string) list" where
  "editor_help_off sb vb ic =
    [(''helpButton'', ''btn btn-primary''),
     (''submit'', class_text sb), (''popover1'', ''d-none''),
     (''validationField'', class_text vb), (''popover2'', ''d-none''),
     (''returnToCanvas'', ''btn btn-primary''), (''popover3'', ''d-none''),
     (''menuButton'', ''btn btn-primary''), (''popover4'', ''d-none''),
     (''validIcon'', class_text ic)]"

definition editor_help :: "editor stmt" where
  "editor_help e = (case
       help_click editor_help_on
         (editor_help_off (submitButtonState e) (validateButtonState e) (validIconState e))
         \<lparr>HELPACTIVATED = ed_help e, doc = ed_doc e\<rparr>
     of (r, h) \<Rightarrow> (r, e\<lparr>ed_help := HELPACTIVATED h, ed_doc := doc h\<rparr>))"

interpretation editor_page: help_button editor_help_on "editor_help_off sb vb ic" for sb vb ic
  by unfold_locales (auto simp: editor_help_on_def editor_help_off_def)

end
