(* ===== verification/Editor_Props.thy ===== *)
theory Editor_Props
  imports Editor_Page
begin

text \<open>
  The editor page as a state machine: its events are edits, clicks on the buttons and typing a
  file name. The invariant of the reachable states, and what follows from it for the buttons and
  for the files that are written.
\<close>

section \<open>Documents seen through their classes\<close>

lemma set_class_ok:
  "i \<in> dom d \<Longrightarrow> \<exists>d'. set_class i c d = (None, d') \<and> dom d' = dom d
     \<and> class_of d' = (class_of d)(i \<mapsto> c)"
proof -
  assume "i \<in> dom d"
  then obtain w where "d i = Some w" by blast
  then show ?thesis
    by (intro exI [of _ "d(i \<mapsto> w\<lparr>className := c\<rparr>)"]) (auto simp: set_class_def class_of_def)
qed

lemma set_value_ok:
  "i \<in> dom d \<Longrightarrow> \<exists>d'. set_value i v d = (None, d') \<and> dom d' = dom d \<and> class_of d' = class_of d"
proof -
  assume "i \<in> dom d"
  then obtain w where "d i = Some w" by blast
  then show ?thesis
    by (intro exI [of _ "d(i \<mapsto> w\<lparr>wvalue := v\<rparr>)"]) (auto simp: set_value_def class_of_def)
qed

lemma set_classes_ok:
  assumes "set (map fst ps) \<subseteq> dom d"
  shows "\<exists>d'. set_classes ps d = (None, d') \<and> dom d' = dom d
     \<and> class_of d' = class_of d ++ map_of (rev ps)"
proof -
  have "class_of (reclass (map_of (rev ps)) d) = class_of d ++ map_of (rev ps)"
  proof
    fix i
    have "map_of (rev ps) i \<noteq> None \<Longrightarrow> i \<in> dom d" using assms by (force dest!: map_of_SomeD)
    then show "class_of (reclass (map_of (rev ps)) d) i = (class_of d ++ map_of (rev ps)) i"
      by (cases "map_of (rev ps) i") (auto simp: class_of_reclass map_add_def class_of_None)
  qed
  then show ?thesis using set_classes_reclass [OF assms] by simp
qed

section \<open>The page of the template\<close>

definition editor_elements :: "(string \<times> string) list" where
  "editor_elements =
    [(''submit'', ''btn btn-primary submitButton''), (''popover1'', ''d-none''),
     (''submit2'', ''btn btn-primary submitButton''),
     (''validationField'', ''btn btn-success''), (''validIcon'', ''icon icon-check''),
     (''popover2'', ''d-none''), (''validationField2'', ''btn btn-success''),
     (''validIcon2'', ''icon icon-check''), (''validate-textarea'', ''form-input''),
     (''textSubmission'', ''d-hide mx-2''), (''returnToCanvas'', ''btn btn-primary''),
     (''popover3'', ''d-none''), (''returnToCanvas2'', ''btn btn-primary''),
     (''menuButton'', ''btn btn-primary''), (''popover4'', ''d-none''),
     (''hiddenSubmit'', ''d-none''), (''fileNameNew'', ''form-input''),
     (''helpButton'', ''btn btn-primary'')]"

definition editor_ids :: "string set" where
  "editor_ids = set (map fst editor_elements)"

lemma editor_ids [simp]:
  "''submit'' \<in> editor_ids" "''popover1'' \<in> editor_ids" "''submit2'' \<in> editor_ids"
  "''validationField'' \<in> editor_ids" "''validIcon'' \<in> editor_ids" "''popover2'' \<in> editor_ids"
  "''validationField2'' \<in> editor_ids" "''validIcon2'' \<in> editor_ids" "''validate-textarea'' \<in> editor_ids"
  "''textSubmission'' \<in> editor_ids" "''returnToCanvas'' \<in> editor_ids" "''popover3'' \<in> editor_ids"
  "''returnToCanvas2'' \<in> editor_ids" "''menuButton'' \<in> editor_ids" "''popover4'' \<in> editor_ids"
  "''hiddenSubmit'' \<in> editor_ids" "''fileNameNew'' \<in> editor_ids" "''helpButton'' \<in> editor_ids"
  by (simp_all add: editor_ids_def editor_elements_def)

definition editor_start :: editor where
  "editor_start = \<lparr>ed_help = False,
     ed_doc = (\<lambda>i. map_option (\<lambda>c. \<lparr>className = c, wvalue = ''''\<rparr>) (map_of editor_elements i)),
     submitButtonState = None, validateButtonState = None, validIconState = None,
     ed_value = JNull, posts = [], location = None, askedName = False\<rparr>"

section \<open>Events\<close>

inductive editor_step :: "(json \<Rightarrow> json list) \<Rightarrow> string \<Rightarrow> editor \<Rightarrow> editor \<Rightarrow> bool"
  for V name where
  Edit: "editor_step V name e (snd (edit V v e))"
| Help: "editor_step V name e (snd (editor_help e))"
| Submit: "editor_step V name e (snd (submit_helper V name e))"
| Submit_New: "editor_step V name e (snd (submitNewJSON V e))"
| Return: "editor_step V name e (snd (returnToCanvas_helper e))"
| Type_Name: "editor_step V name e (snd (on_edoc (set_value ''fileNameNew'' t) e))"

definition editor_reachable :: "(json \<Rightarrow> json list) \<Rightarrow> string \<Rightarrow> editor \<Rightarrow> bool" where
  "editor_reachable V name = (editor_step V name)\<^sup>*\<^sup>* editor_start"

section \<open>The invariant\<close>

text \<open>The classes of the buttons and icon whose ids end in \<open>x\<close> say \<open>valid\<close>.\<close>

definition shows_verdict :: "string \<Rightarrow> bool \<Rightarrow> widgets \<Rightarrow> bool" where
  "shows_verdict x valid d \<longleftrightarrow> class_of d (''submit'' @ x) = Some (submit_class valid)
     \<and> class_of d (''validationField'' @ x) = Some (validation_class valid)
     \<and> class_of d (''validIcon'' @ x) = Some (icon_class valid)"

definition saved_verdict :: "bool \<Rightarrow> editor \<Rightarrow> bool" where
  "saved_verdict valid e \<longleftrightarrow> submitButtonState e = Some (submit_class valid)
     \<and> validateButtonState e = Some (validation_class valid)
     \<and> validIconState e = Some (icon_class valid)"

definition written_valid :: "(json \<Rightarrow> json list) \<Rightarrow> editor \<Rightarrow> bool" where
  "written_valid V e \<longleftrightarrow> (\<forall>(url, body) \<in> set (posts e).
     starts (out_url '''') url \<longrightarrow> (\<exists>v. body = stringify 0 v \<and> V v = []))"

definition editor_ok :: "(json \<Rightarrow> json list) \<Rightarrow> editor \<Rightarrow> bool" where
  "editor_ok V e \<longleftrightarrow> dom (ed_doc e) = editor_ids \<and> written_valid V e
     \<and> (submitButtonState e \<noteq> None \<longrightarrow>
          (let valid = (V (ed_value e) = []) in
           saved_verdict valid e \<and> shows_verdict ''2'' valid (ed_doc e)
           \<and> (\<not> ed_help e \<longrightarrow> shows_verdict '''' valid (ed_doc e))))"

lemma editor_ok_start: "editor_ok V editor_start"
  by (simp add: editor_ok_def editor_start_def written_valid_def editor_ids_def
      dom_map_option dom_map_of_conv_image_fst)

lemma shows_verdict_cong:
  "class_of d' (''submit'' @ x) = class_of d (''submit'' @ x) \<Longrightarrow>
   class_of d' (''validationField'' @ x) = class_of d (''validationField'' @ x) \<Longrightarrow>
   class_of d' (''validIcon'' @ x) = class_of d (''validIcon'' @ x) \<Longrightarrow>
   shows_verdict x valid d' = shows_verdict x valid d"
  by (simp add: shows_verdict_def)

section \<open>Every event keeps it and throws nothing\<close>

text \<open>What \<open>edit\<close> does on a page with all elements.\<close>

lemma edit_result:
  assumes "dom (ed_doc e) = editor_ids" and "valid = (V v = [])"
  obtains d where "edit V v e = (None, e\<lparr>ed_value := v, ed_doc := d,
        validateButtonState := Some (validation_class valid),
        submitButtonState := Some (submit_class valid), validIconState := Some (icon_class valid)\<rparr>)"
    and "dom d = dom (ed_doc e)" and "shows_verdict ''2'' valid d"
    and "\<not> ed_help e \<longrightarrow> shows_verdict '''' valid d"
proof -
  note ids = assms(1)
  obtain d1 where d1: "set_class ''textSubmission'' ''d-hide'' (ed_doc e) = (None, d1)"
      "dom d1 = dom (ed_doc e)"
    using set_class_ok [of "''textSubmission''" "ed_doc e" "''d-hide''"] by (auto simp: ids)
  obtain d2 where d2: "set_value ''validate-textarea'' (errors_text (V v)) d1 = (None, d2)"
      "dom d2 = dom (ed_doc e)"
    using set_value_ok [of "''validate-textarea''" d1 "errors_text (V v)"] d1 by (auto simp: ids)
  let ?p = "\<lambda>x. [(''submit'' @ x, submit_class valid), (''validationField'' @ x, validation_class valid),
              (''validIcon'' @ x, icon_class valid)]"
  obtain d3 where d3: "onlyIf (\<not> ed_help e) (set_classes (?p '''')) d2 = (None, d3)"
      "dom d3 = dom (ed_doc e)" "\<not> ed_help e \<longrightarrow> shows_verdict '''' valid d3"
  proof (cases "ed_help e")
    case False
    have "set (map fst (?p '''')) \<subseteq> dom d2" using d2 by (simp add: ids)
    from set_classes_ok [OF this] obtain d where "set_classes (?p '''') d2 = (None, d)"
        "dom d = dom d2" "class_of d = class_of d2 ++ map_of (rev (?p ''''))" by blast
    then show ?thesis using that [of d] False d2 by (simp add: onlyIf_def shows_verdict_def)
  next
    case True
    then show ?thesis using that [of d2] d2 by (simp add: onlyIf_def skip_def)
  qed
  have "set (map fst (?p ''2'')) \<subseteq> dom d3" using d3 by (simp add: ids)
  from set_classes_ok [OF this] obtain d where d: "set_classes (?p ''2'') d3 = (None, d)"
      "dom d = dom d3" "class_of d = class_of d3 ++ map_of (rev (?p ''2''))" by blast
  have "edit V v e = (None, e\<lparr>ed_value := v, ed_doc := d,
        validateButtonState := Some (validation_class valid),
        submitButtonState := Some (submit_class valid), validIconState := Some (icon_class valid)\<rparr>)"
    using d1 d2 d3(1) d(1)
    by (cases "ed_help e")
      (simp_all add: edit_def editor_change_def js_defs on_edoc_def Let_def assms(2))
  moreover have "shows_verdict ''2'' valid d" using d(3) by (simp add: shows_verdict_def)
  moreover have "shows_verdict '''' valid d = shows_verdict '''' valid d3"
    by (rule shows_verdict_cong) (simp_all add: d(3))
  ultimately show ?thesis using that d d3 by simp
qed

lemma editor_help_result:
  assumes "dom (ed_doc e) = editor_ids"
  obtains d where "editor_help e = (None, e\<lparr>ed_help := \<not> ed_help e, ed_doc := d\<rparr>)"
    and "dom d = editor_ids"
    and "class_of d = class_of (ed_doc e) ++ map_of (rev
          (if ed_help e then editor_help_off (submitButtonState e) (validateButtonState e) (validIconState e)
           else editor_help_on))"
proof -
  let ?ps = "if ed_help e then editor_help_off (submitButtonState e) (validateButtonState e) (validIconState e)
           else editor_help_on"
  have "set (map fst ?ps) \<subseteq> dom (ed_doc e)"
    by (simp add: assms editor_help_off_def editor_help_on_def)
  from set_classes_ok [OF this] obtain d where "set_classes ?ps (ed_doc e) = (None, d)"
      "dom d = dom (ed_doc e)" "class_of d = class_of (ed_doc e) ++ map_of (rev ?ps)" by blast
  then show ?thesis using that [of d] assms
    by (simp add: editor_help_def help_click_def js_defs on_doc_def del: if_image_distrib)
qed

text \<open>What the saving handlers do: they only add requests and touch \<open>textSubmission\<close>.\<close>

definition saves :: "(json \<Rightarrow> json list) \<Rightarrow> editor \<Rightarrow> editor \<Rightarrow> bool" where
  "saves V e e' \<longleftrightarrow> dom (ed_doc e') = dom (ed_doc e)
     \<and> (\<forall>i. i \<noteq> ''textSubmission'' \<longrightarrow> class_of (ed_doc e') i = class_of (ed_doc e) i)
     \<and> ed_help e' = ed_help e \<and> ed_value e' = ed_value e
     \<and> submitButtonState e' = submitButtonState e \<and> validateButtonState e' = validateButtonState e
     \<and> validIconState e' = validIconState e \<and> (written_valid V e \<longrightarrow> written_valid V e')"

lemma temp_not_out: "\<not> starts (out_url '''') ''/editModule?type=tempFile''"
  by (simp add: starts_def out_url_def)

lemma set_text_submission:
  assumes "dom (ed_doc e) = editor_ids"
  obtains d where "set_class ''textSubmission'' c (ed_doc e) = (None, d)" "dom d = editor_ids"
    "class_of d = (class_of (ed_doc e))(''textSubmission'' \<mapsto> c)"
  using set_class_ok [of "''textSubmission''" "ed_doc e" c] assms by auto

lemma return_saves: "\<exists>e'. returnToCanvas_helper e = (None, e') \<and> saves V e e'"
  by (auto simp: returnToCanvas_helper_def js_defs post_def saves_def written_valid_def temp_not_out)

lemma submit_saves:
  assumes "dom (ed_doc e) = editor_ids"
  shows "\<exists>e'. submit_helper V name e = (None, e') \<and> saves V e e'"
proof -
  obtain d where d: "set_class ''textSubmission'' ''text-success'' (ed_doc e) = (None, d)"
      "dom d = editor_ids" "class_of d = (class_of (ed_doc e))(''textSubmission'' \<mapsto> ''text-success'')"
    using set_text_submission [OF assms] by blast
  obtain link where "ed_doc e ''hiddenSubmit'' = Some link"
    using assms editor_ids by blast
  then show ?thesis using d assms
    by (auto simp: submit_helper_def js_defs post_def on_edoc_def saves_def written_valid_def
        temp_not_out)
qed

lemma submit_new_saves:
  assumes "dom (ed_doc e) = editor_ids"
  shows "\<exists>e'. submitNewJSON V e = (None, e') \<and> saves V e e'"
proof -
  obtain d where d: "set_class ''textSubmission'' ''text-success'' (ed_doc e) = (None, d)"
      "dom d = editor_ids" "class_of d = (class_of (ed_doc e))(''textSubmission'' \<mapsto> ''text-success'')"
    using set_text_submission [OF assms] by blast
  obtain w where "ed_doc e ''fileNameNew'' = Some w" using assms editor_ids by blast
  then show ?thesis using d assms
    by (auto simp: submitNewJSON_def js_defs post_def on_edoc_def saves_def written_valid_def)
qed

lemma type_saves:
  assumes "dom (ed_doc e) = editor_ids"
  shows "\<exists>e'. on_edoc (set_value ''fileNameNew'' t) e = (None, e') \<and> saves V e e'"
proof -
  obtain d where "set_value ''fileNameNew'' t (ed_doc e) = (None, d)" "dom d = dom (ed_doc e)"
      "class_of d = class_of (ed_doc e)"
    using set_value_ok [of "''fileNameNew''" "ed_doc e" t] assms by auto
  then show ?thesis by (auto simp: on_edoc_def saves_def written_valid_def)
qed

lemma editor_ok_saves:
  assumes "editor_ok V e" and "saves V e e'"
  shows "editor_ok V e'"
proof -
  have "shows_verdict x b (ed_doc e') = shows_verdict x b (ed_doc e)" for x b
    using assms(2) by (intro shows_verdict_cong) (simp_all add: saves_def)
  then show ?thesis using assms by (simp add: editor_ok_def saves_def saved_verdict_def)
qed

lemma editor_ok_edit:
  assumes "editor_ok V e"
  shows "\<exists>e'. edit V v e = (None, e') \<and> editor_ok V e'"
proof -
  have "dom (ed_doc e) = editor_ids" using assms by (simp add: editor_ok_def)
  then obtain d where "edit V v e = (None, e\<lparr>ed_value := v, ed_doc := d,
        validateButtonState := Some (validation_class (V v = [])),
        submitButtonState := Some (submit_class (V v = [])),
        validIconState := Some (icon_class (V v = []))\<rparr>)"
      "dom d = dom (ed_doc e)" "shows_verdict ''2'' (V v = []) d"
      "\<not> ed_help e \<longrightarrow> shows_verdict '''' (V v = []) d"
    using edit_result [OF _ refl] by blast
  then show ?thesis using assms by (simp add: editor_ok_def saved_verdict_def written_valid_def)
qed

lemma editor_ok_help:
  assumes "editor_ok V e"
  shows "\<exists>e'. editor_help e = (None, e') \<and> editor_ok V e'"
proof -
  have "dom (ed_doc e) = editor_ids" using assms by (simp add: editor_ok_def)
  then obtain d where d: "editor_help e = (None, e\<lparr>ed_help := \<not> ed_help e, ed_doc := d\<rparr>)"
      "dom d = editor_ids" "class_of d = class_of (ed_doc e) ++ map_of (rev
          (if ed_help e then editor_help_off (submitButtonState e) (validateButtonState e) (validIconState e)
           else editor_help_on))"
    using editor_help_result by blast
  let ?valid = "V (ed_value e) = []"
  have two: "shows_verdict ''2'' ?valid d = shows_verdict ''2'' ?valid (ed_doc e)"
    by (rule shows_verdict_cong) (auto simp: d(3) editor_help_off_def editor_help_on_def)
  have one: "shows_verdict '''' ?valid d" if "ed_help e" "saved_verdict ?valid e"
    using that by (simp add: d(3) shows_verdict_def saved_verdict_def editor_help_off_def class_text_def)
  show ?thesis using assms d(1,2) two one
    by (auto simp: editor_ok_def written_valid_def saved_verdict_def Let_def)
qed

lemma help_fields:
  assumes "editor_ok V e"
  shows "ed_help (snd (editor_help e)) = (\<not> ed_help e)"
    and "ed_value (snd (editor_help e)) = ed_value e"
    and "submitButtonState (snd (editor_help e)) = submitButtonState e"
proof -
  have "dom (ed_doc e) = editor_ids" using assms by (simp add: editor_ok_def)
  then obtain d where "editor_help e = (None, e\<lparr>ed_help := \<not> ed_help e, ed_doc := d\<rparr>)"
    using editor_help_result by blast
  then show "ed_help (snd (editor_help e)) = (\<not> ed_help e)"
      "ed_value (snd (editor_help e)) = ed_value e"
      "submitButtonState (snd (editor_help e)) = submitButtonState e" by simp_all
qed

lemma edit_fields:
  assumes "editor_ok V e"
  shows "ed_help (snd (edit V v e)) = ed_help e" and "ed_value (snd (edit V v e)) = v"
    and "submitButtonState (snd (edit V v e)) \<noteq> None"
proof -
  have "dom (ed_doc e) = editor_ids" using assms by (simp add: editor_ok_def)
  then obtain d where "edit V v e = (None, e\<lparr>ed_value := v, ed_doc := d,
        validateButtonState := Some (validation_class (V v = [])),
        submitButtonState := Some (submit_class (V v = [])),
        validIconState := Some (icon_class (V v = []))\<rparr>)"
    using edit_result [OF _ refl, of e V v] by metis
  then show "ed_help (snd (edit V v e)) = ed_help e" "ed_value (snd (edit V v e)) = v"
      "submitButtonState (snd (edit V v e)) \<noteq> None" by simp_all
qed

lemma editor_ok_step: "editor_step V name e e' \<Longrightarrow> editor_ok V e \<Longrightarrow> editor_ok V e'"
proof (induction rule: editor_step.induct)
  case (Edit e v)
  then show ?case using editor_ok_edit [of V e v] by auto
next
  case (Help e)
  then show ?case using editor_ok_help [of V e] by auto
next
  case (Submit e)
  then show ?case using submit_saves [of e V name] editor_ok_saves [of V e]
    by (auto simp: editor_ok_def [of V e])
next
  case (Submit_New e)
  then show ?case using submit_new_saves [of e V] editor_ok_saves [of V e]
    by (auto simp: editor_ok_def [of V e])
next
  case (Return e)
  then show ?case using return_saves [of e V] editor_ok_saves [of V e] by auto
next
  case (Type_Name e t)
  then show ?case using type_saves [of e t V] editor_ok_saves [of V e]
    by (auto simp: editor_ok_def [of V e])
qed

lemma editor_ok_reachable: "editor_reachable V name e \<Longrightarrow> editor_ok V e"
  unfolding editor_reachable_def
  by (induction rule: rtranclp_induct) (auto simp: editor_ok_start intro: editor_ok_step)

section \<open>What the buttons show and what is written\<close>

text \<open>
  C21. The editor page follows its validator: in every reachable state after the first edit, the
  second set of buttons (shown by the help) and, whenever the help is off, the first set and the
  icon have the classes of the verdict on the document being edited.
\<close>

theorem buttons_follow_validation:
  assumes "editor_reachable V name e" and "submitButtonState e \<noteq> None"
  shows "shows_verdict ''2'' (V (ed_value e) = []) (ed_doc e)
    \<and> (\<not> ed_help e \<longrightarrow> shows_verdict '''' (V (ed_value e) = []) (ed_doc e))"
  using editor_ok_reachable [OF assms(1)] assms(2) by (simp add: editor_ok_def Let_def)

text \<open>A validator that wants an object, and the states of a session with it.\<close>

definition wants_object :: "json \<Rightarrow> json list" where
  "wants_object v = (case v of JObj ps \<Rightarrow> [] | _ \<Rightarrow> [JStr ''not an object''])"

lemma reach_step: "editor_reachable V name e \<Longrightarrow> editor_step V name e e' \<Longrightarrow> editor_reachable V name e'"
  unfolding editor_reachable_def by (rule rtranclp.rtrancl_into_rtrancl)

lemma reach_start: "editor_reachable V name editor_start"
  by (simp add: editor_reachable_def)

lemma reach_help_edit:
  "editor_reachable V name (snd (edit V v (snd (editor_help editor_start))))"
  by (rule reach_step [OF reach_step [OF reach_start editor_step.Help] editor_step.Edit])

theorem buttons_follow_validation_witness:
  "class_of (ed_doc (snd (editor_help (snd (edit wants_object (JNum 3) (snd (editor_help editor_start)))))))
     ''validationField'' = Some ''btn btn-error''"
proof -
  let ?h = "snd (editor_help editor_start)"
  let ?e = "snd (edit wants_object (JNum 3) ?h)"
  let ?f = "snd (editor_help ?e)"
  have h: "editor_reachable wants_object ''None'' ?h" by (rule reach_step [OF reach_start editor_step.Help])
  have e: "editor_reachable wants_object ''None'' ?e" by (rule reach_help_edit)
  have "\<not> ed_help editor_start" by (simp add: editor_start_def)
  then have f: "\<not> ed_help ?f" "ed_value ?f = JNum 3" "submitButtonState ?f \<noteq> None"
    using help_fields [OF editor_ok_start] edit_fields [OF editor_ok_reachable [OF h]]
      help_fields [OF editor_ok_reachable [OF e]] by metis+
  have r: "editor_reachable wants_object ''None'' ?f"
    by (rule reach_step [OF reach_help_edit editor_step.Help])
  show ?thesis using buttons_follow_validation [OF r f(3)] f(1,2)
    by (simp add: shows_verdict_def validation_class_def wants_object_def)
qed

text \<open>
  C22. Only valid documents are saved under a file name: in every reachable state, every request
  that writes an output file carries the text of a document the validator accepts.
\<close>

theorem only_valid_written:
  assumes "editor_reachable V name e" and "(out_url file, body) \<in> set (posts e)"
  shows "\<exists>v. body = stringify 0 v \<and> V v = []"
proof -
  have "starts (out_url '''') (out_url file)" by (simp add: starts_def out_url_def)
  then show ?thesis
    using editor_ok_reachable [OF assms(1)] assms(2) by (auto simp: editor_ok_def written_valid_def)
qed

definition saved_session :: editor where
  "saved_session = snd (submit_helper wants_object ''run.json'' (snd (edit wants_object (JObj []) editor_start)))"

lemma reach_saved_session: "editor_reachable wants_object ''run.json'' saved_session"
  unfolding saved_session_def
  by (rule reach_step [OF reach_step [OF reach_start editor_step.Edit] editor_step.Submit])

theorem only_valid_written_witness:
  "(out_url ''run.json'', ''{}'') \<in> set (posts saved_session)
   \<and> (\<exists>v. ''{}'' = stringify 0 v \<and> wants_object v = [])"
proof -
  have p: "(out_url ''run.json'', ''{}'') \<in> set (posts saved_session)" by code_simp
  from only_valid_written [OF reach_saved_session p] p show ?thesis by blast
qed

text \<open>
  No event of the editor page throws in a reachable state: edits, help, the three saving
  buttons and typing a name all run to completion.
\<close>

theorem editor_never_throws:
  assumes "editor_reachable V name e"
  shows "fst (edit V v e) = None \<and> fst (editor_help e) = None \<and> fst (submit_helper V name e) = None
    \<and> fst (submitNewJSON V e) = None \<and> fst (returnToCanvas_helper e) = None
    \<and> fst (on_edoc (set_value ''fileNameNew'' t) e) = None"
proof -
  have ok: "editor_ok V e" using assms by (rule editor_ok_reachable)
  then have d: "dom (ed_doc e) = editor_ids" by (simp add: editor_ok_def)
  show ?thesis
    using editor_ok_edit [OF ok, of v] editor_ok_help [OF ok] submit_saves [OF d, of V name]
      submit_new_saves [OF d, of V] return_saves [of e V] type_saves [OF d, of t V]
    by auto
qed

theorem editor_never_throws_witness:
  "fst (editor_help saved_session) = None \<and> fst (submitNewJSON wants_object saved_session) = None"
  using editor_never_throws [OF reach_saved_session] by blast

text \<open>
  Clicking the help button twice before the first \<open>change\<close> event leaves the submit button
  with the class \<open>null\<close>, because the saved class is still \<open>null\<close>.
\<close>

theorem help_before_change_breaks_button:
  "class_of (ed_doc (snd (andThen editor_help editor_help editor_start))) ''submit'' = Some ''null''"
  by code_simp

end
