(* ===== verification/Dom.thy ===== *)
theory Dom
  imports Js_Strings "HOL-Library.Multiset"
begin

text \<open>
  Pages whose elements are created and removed by the scripts: a forest of elements, and the
  jQuery operations the control page uses. A selector \<open>#i\<close> means the first element with id \<open>i\<close>
  in document order; on no element an operation does nothing. Markup that only affects the look
  (icons, spaces, bold text) is left out; ids are taken as they are, so names that are no valid
  part of a selector are outside the model.
\<close>

section \<open>Elements\<close>

text \<open>What a click does; a handler is kept as data.\<close>

datatype action =
    Send_Include string
  | Send_Exclude string
  | Send_Command string
  | Choose_Config string
  | Click_On string
  | Open_Window string

text \<open>An element without id has the empty one; \<open>own_text\<close> is the text outside its children.\<close>

record attrs =
  eid :: string
  classes :: "string list"
  own_text :: string
  background :: string
  disabled :: bool
  visible :: bool
  checked :: bool
  clicks :: "action list"

datatype el = El (at: attrs) (kids: "el list")

definition leaf :: "string \<Rightarrow> string list \<Rightarrow> string \<Rightarrow> attrs" where
  "leaf i cs t = \<lparr>eid = i, classes = cs, own_text = t, background = '''', disabled = False,
     visible = True, checked = False, clicks = []\<rparr>"

text \<open>All elements in document order.\<close>

fun flat :: "el list \<Rightarrow> attrs list" where
  "flat [] = []"
| "flat (El a ks # es) = a # flat ks @ flat es"

definition el_ids :: "el list \<Rightarrow> string list" where
  "el_ids d = map eid (flat d)"

definition present :: "string \<Rightarrow> el list \<Rightarrow> bool" where
  "present i d = (i \<in> set (el_ids d))"

text \<open>Replace the first element with id \<open>i\<close>.\<close>

fun edit_first :: "string \<Rightarrow> (el \<Rightarrow> el list) \<Rightarrow> el list \<Rightarrow> el list" where
  "edit_first i f [] = []"
| "edit_first i f (El a ks # es) =
     (if eid a = i then f (El a ks) @ es
      else if present i ks then El a (edit_first i f ks) # es
      else El a ks # edit_first i f es)"

definition jq_remove :: "string \<Rightarrow> el list \<Rightarrow> el list" where
  "jq_remove i = edit_first i (\<lambda>e. [])"

definition jq_append :: "string \<Rightarrow> el \<Rightarrow> el list \<Rightarrow> el list" where
  "jq_append i x = edit_first i (\<lambda>e. [El (at e) (kids e @ [x])])"

definition jq_prepend :: "string \<Rightarrow> el \<Rightarrow> el list \<Rightarrow> el list" where
  "jq_prepend i x = edit_first i (\<lambda>e. [El (at e) (x # kids e)])"

definition jq_empty :: "string \<Rightarrow> el list \<Rightarrow> el list" where
  "jq_empty i = edit_first i (\<lambda>e. [El ((at e)\<lparr>own_text := ''''\<rparr>) []])"

definition jq_after :: "string \<Rightarrow> el list \<Rightarrow> el list \<Rightarrow> el list" where
  "jq_after i xs = edit_first i (\<lambda>e. e # xs)"

definition jq_attr :: "string \<Rightarrow> (attrs \<Rightarrow> attrs) \<Rightarrow> el list \<Rightarrow> el list" where
  "jq_attr i f = edit_first i (\<lambda>e. [El (f (at e)) (kids e)])"

definition jq_html :: "string \<Rightarrow> string \<Rightarrow> el list \<Rightarrow> el list \<Rightarrow> el list" where
  "jq_html i t ks = edit_first i (\<lambda>e. [El ((at e)\<lparr>own_text := t\<rparr>) ks])"

text \<open>\<open>$(".c").prop(...)\<close>: every element that satisfies a condition.\<close>

fun jq_all :: "(attrs \<Rightarrow> bool) \<Rightarrow> (attrs \<Rightarrow> attrs) \<Rightarrow> el list \<Rightarrow> el list" where
  "jq_all P f [] = []"
| "jq_all P f (El a ks # es) = El (if P a then f a else a) (jq_all P f ks) # jq_all P f es"

fun subelements :: "el list \<Rightarrow> el list" where
  "subelements [] = []"
| "subelements (El a ks # es) = El a ks # subelements ks @ subelements es"

definition first_el :: "string \<Rightarrow> el list \<Rightarrow> attrs option" where
  "first_el i d = find (\<lambda>a. eid a = i) (flat d)"

section \<open>Facts\<close>

lemma flat_append [simp]: "flat (d @ d') = flat d @ flat d'"
  by (induction d rule: flat.induct) auto

lemma el_ids_simps [simp]:
  "el_ids [] = []" "el_ids (El a ks # es) = eid a # el_ids ks @ el_ids es"
  "el_ids (d @ d') = el_ids d @ el_ids d'"
  by (simp_all add: el_ids_def)

lemma present_simps [simp]:
  "\<not> present i []" "present i (El a ks # es) \<longleftrightarrow> eid a = i \<or> present i ks \<or> present i es"
  "present i (d @ d') \<longleftrightarrow> present i d \<or> present i d'"
  by (auto simp: present_def)

lemma edit_absent: "\<not> present i d \<Longrightarrow> edit_first i f d = d"
  by (induction d rule: flat.induct) auto

text \<open>The one fact about \<open>edit_first\<close> that everything else follows from.\<close>

lemma edit_split:
  "present i d \<Longrightarrow> \<exists>u e v. eid (at e) = i \<and> flat d = u @ flat [e] @ v \<and> i \<notin> eid ` set u
     \<and> e \<in> set (subelements d) \<and> (\<forall>f. flat (edit_first i f d) = u @ flat (f e) @ v)"
proof (induction d rule: flat.induct)
  case (2 a ks es)
  consider (here) "eid a = i" | (below) "eid a \<noteq> i" "present i ks"
    | (later) "eid a \<noteq> i" "\<not> present i ks" "present i es"
    using "2.prems" by auto
  then show ?case
  proof cases
    case here
    show ?thesis
      by (rule exI [of _ "[]"], rule exI [of _ "El a ks"], rule exI [of _ "flat es"]) (simp add: here)
  next
    case below
    then obtain u e v where w: "eid (at e) = i" "flat ks = u @ flat [e] @ v" "i \<notin> eid ` set u"
        "e \<in> set (subelements ks)"
        "\<And>f. flat (edit_first i f ks) = u @ flat (f e) @ v"
      using "2.IH"(1) by blast
    show ?thesis
      by (rule exI [of _ "a # u"], rule exI [of _ e], rule exI [of _ "v @ flat es"]) (use below w in simp)
  next
    case later
    then obtain u e v where w: "eid (at e) = i" "flat es = u @ flat [e] @ v" "i \<notin> eid ` set u"
        "e \<in> set (subelements es)"
        "\<And>f. flat (edit_first i f es) = u @ flat (f e) @ v"
      using "2.IH"(2) by blast
    have "i \<notin> eid ` set (flat ks)" using later(2) by (simp add: present_def el_ids_def)
    then show ?thesis
      by (intro exI [of _ "a # flat ks @ u"] exI [of _ e] exI [of _ v]) (use later w in auto)
  qed
qed simp

lemma flat_Cons: "flat (e # es) = at e # flat (kids e) @ flat es"
  by (cases e) simp

lemma flat_all [simp]: "flat (jq_all P f d) = map (\<lambda>a. if P a then f a else a) (flat d)"
  by (induction P f d rule: jq_all.induct) auto

text \<open>The elements of a page as a multiset.\<close>

definition view :: "el list \<Rightarrow> attrs multiset" where
  "view d = mset (flat d)"

lemma view_append: "present i d \<Longrightarrow> view (jq_append i x d) = view d + mset (flat [x])"
  using edit_split [of i d] by (auto simp: view_def jq_append_def flat_Cons)

lemma view_prepend: "present i d \<Longrightarrow> view (jq_prepend i x d) = view d + mset (flat [x])"
  using edit_split [of i d] by (auto simp: view_def jq_prepend_def flat_Cons)

lemma view_after: "present i d \<Longrightarrow> view (jq_after i xs d) = view d + mset (flat xs)"
  using edit_split [of i d] by (auto simp: view_def jq_after_def flat_Cons)

lemma view_absent:
  assumes "\<not> present i d"
  shows "jq_append i x d = d" "jq_prepend i x d = d" "jq_after i xs d = d" "jq_remove i d = d"
    "jq_empty i d = d" "jq_attr i f d = d" "jq_html i t ks d = d"
  using edit_absent [OF assms]
  by (simp_all add: jq_append_def jq_prepend_def jq_after_def jq_remove_def jq_empty_def
      jq_attr_def jq_html_def)

lemma present_iff: "present i d \<longleftrightarrow> (\<exists>a \<in># view d. eid a = i)"
  by (auto simp: present_def el_ids_def view_def)

text \<open>How many elements have an id.\<close>

definition count_id :: "string \<Rightarrow> el list \<Rightarrow> nat" where
  "count_id i d = count (image_mset eid (view d)) i"

lemma present_count: "present i d \<longleftrightarrow> 0 < count_id i d"
  unfolding count_id_def count_greater_zero_iff by (auto simp: present_iff)

lemma count_id_cong: "view d' = view d \<Longrightarrow> count_id i d' = count_id i d"
  by (simp add: count_id_def)

lemma count_id_append:
  "present i d \<Longrightarrow> count_id j (jq_append i x d) = count_id j d + count_id j [x]"
  unfolding count_id_def by (simp only: view_append) (simp add: view_def)

lemma count_id_after:
  "present i d \<Longrightarrow> count_id j (jq_after i xs d) = count_id j d + count_id j xs"
  unfolding count_id_def by (simp only: view_after) (simp add: view_def)

lemma count_id_Cons: "count_id j (e # es) = count_id j [e] + count_id j es"
  by (simp add: count_id_def view_def flat_Cons)

lemma count_id_leaf [simp]: "count_id j [El a []] = (if eid a = j then 1 else 0)"
  by (simp add: count_id_def view_def)

lemma count_id_all:
  assumes "\<And>a. eid (f a) = eid a"
  shows "count_id j (jq_all P f d) = count_id j d"
proof -
  have "map eid (flat (jq_all P f d)) = map eid (flat d)" by (simp add: assms)
  then show ?thesis unfolding count_id_def view_def by (metis mset_map)
qed

lemma count_id_attr:
  assumes "\<And>a. eid (f a) = eid a"
  shows "count_id j (jq_attr i f d) = count_id j d"
proof (cases "present i d")
  case True
  from edit_split [OF this] obtain u e v where s: "flat d = u @ flat [e] @ v"
      "\<And>f. flat (edit_first i f d) = u @ flat (f e) @ v" by blast
  show ?thesis by (simp add: count_id_def view_def jq_attr_def s flat_Cons assms)
qed (simp add: view_absent)

text \<open>
  Elements without children, such as badges: removing one removes nothing else, and they stay
  without children as long as nothing is appended to them.
\<close>

definition childless :: "string \<Rightarrow> el list \<Rightarrow> bool" where
  "childless i d \<longleftrightarrow> (\<forall>e \<in> set (subelements d). eid (at e) = i \<longrightarrow> kids e = [])"

lemma childless_simps [simp]:
  "childless i []"
  "childless i (El a ks # es) \<longleftrightarrow> (eid a = i \<longrightarrow> ks = []) \<and> childless i ks \<and> childless i es"
  "childless i (d @ d') \<longleftrightarrow> childless i d \<and> childless i d'"
proof -
  show "childless i (d @ d') \<longleftrightarrow> childless i d \<and> childless i d'"
    by (induction d rule: subelements.induct) (auto simp: childless_def)
qed (auto simp: childless_def)

lemma childless_edit:
  "childless j d \<Longrightarrow> (\<And>e. eid (at e) = i \<Longrightarrow> childless j [e] \<Longrightarrow> childless j (f e)) \<Longrightarrow>
   childless j (edit_first i f d)"
proof (induction d rule: flat.induct)
  case (2 a ks es)
  consider (here) "eid a = i" | (below) "eid a \<noteq> i" "present i ks"
    | (later) "eid a \<noteq> i" "\<not> present i ks" by blast
  then show ?case
  proof cases
    case here
    then show ?thesis using "2.prems" by simp
  next
    case below
    then have "ks \<noteq> []" by auto
    then show ?thesis using below "2.prems" "2.IH"(1) by simp
  next
    case later
    then show ?thesis using "2.prems" "2.IH"(2) by simp
  qed
qed simp

lemma childless_append: "childless j d \<Longrightarrow> j \<noteq> i \<Longrightarrow> childless j [x] \<Longrightarrow> childless j (jq_append i x d)"
  unfolding jq_append_def by (rule childless_edit) (auto, metis childless_simps(2) el.collapse)

lemma childless_remove: "childless j d \<Longrightarrow> childless j (jq_remove i d)"
  unfolding jq_remove_def by (rule childless_edit) auto

lemma childless_single: "childless j [e] \<longleftrightarrow> (eid (at e) = j \<longrightarrow> kids e = []) \<and> childless j (kids e)"
  by (cases e) simp

lemma childless_attr:
  "childless j d \<Longrightarrow> (\<And>a. eid (f a) = eid a) \<Longrightarrow> childless j (jq_attr i f d)"
  unfolding jq_attr_def by (rule childless_edit) (auto simp: childless_single)

lemma childless_after: "childless j d \<Longrightarrow> childless j xs \<Longrightarrow> childless j (jq_after i xs d)"
  unfolding jq_after_def
proof (rule childless_edit)
  fix e assume "childless j [e]" "childless j xs"
  then have "childless j ([e] @ xs)" unfolding childless_simps(3) by simp
  then show "childless j (e # xs)" by simp
qed

lemma childless_child: "childless i d \<Longrightarrow> e \<in> set (subelements d) \<Longrightarrow> eid (at e) = i \<Longrightarrow> kids e = []"
  by (simp add: childless_def)

lemma remove_childless:
  "present i d \<Longrightarrow> childless i d \<Longrightarrow> \<exists>a. eid a = i \<and> view d = add_mset a (view (jq_remove i d))"
proof (induction d rule: flat.induct)
  case (2 a ks es)
  consider (here) "eid a = i" | (below) "eid a \<noteq> i" "present i ks"
    | (later) "eid a \<noteq> i" "\<not> present i ks" "present i es"
    using "2.prems" by auto
  then show ?case
  proof cases
    case here
    then show ?thesis using "2.prems" by (simp add: jq_remove_def view_def)
  next
    case below
    then obtain b where "eid b = i" "view ks = add_mset b (view (jq_remove i ks))"
      using "2.IH"(1) "2.prems" by auto
    then show ?thesis using below by (auto simp: jq_remove_def view_def)
  next
    case later
    then obtain b where "eid b = i" "view es = add_mset b (view (jq_remove i es))"
      using "2.IH"(2) "2.prems" by auto
    then show ?thesis using later by (auto simp: jq_remove_def view_def)
  qed
qed simp

lemma count_id_remove:
  assumes "childless i d"
  shows "count_id j (jq_remove i d) = count_id j d - (if j = i then 1 else 0)"
proof (cases "present i d")
  case True
  then obtain a where "eid a = i" "view d = add_mset a (view (jq_remove i d))"
    using remove_childless [OF _ assms] by blast
  then show ?thesis by (simp add: count_id_def)
next
  case False
  then have "count_id i d = 0" by (simp add: present_count)
  with False show ?thesis by (simp add: view_absent)
qed

text \<open>What the first element with an id looks like after an edit.\<close>

lemma find_append: "find P (xs @ ys) = (case find P xs of None \<Rightarrow> find P ys | Some x \<Rightarrow> Some x)"
  by (induction xs) auto

lemma find_id_None: "find (\<lambda>a. eid a = i) xs = None \<longleftrightarrow> i \<notin> eid ` set xs"
  by (auto simp: find_None_iff)

lemma find_none: "i \<notin> eid ` set xs \<Longrightarrow> find (\<lambda>a. eid a = i) xs = None"
  by (simp add: find_id_None)

lemma first_el_other:
  assumes "\<And>e. e \<in> set (subelements d) \<Longrightarrow> eid (at e) = i \<Longrightarrow>
      find (\<lambda>a. eid a = j) (flat (f e)) = find (\<lambda>a. eid a = j) (flat [e])"
  shows "first_el j (edit_first i f d) = first_el j d"
proof (cases "present i d")
  case True
  from edit_split [OF this] obtain u e v where s: "eid (at e) = i" "flat d = u @ flat [e] @ v"
      "e \<in> set (subelements d)" "\<And>f. flat (edit_first i f d) = u @ flat (f e) @ v" by blast
  show ?thesis unfolding first_el_def s(2,4) find_append by (simp only: assms [OF s(3,1)])
qed (simp add: edit_absent)

lemma first_el_attr:
  assumes "\<And>a. eid (f a) = eid a"
  shows "first_el j (jq_attr i f d) = (if j = i then map_option f (first_el j d) else first_el j d)"
proof (cases "j = i \<and> present i d")
  case True
  then obtain u e v where s: "eid (at e) = i" "flat d = u @ flat [e] @ v" "i \<notin> eid ` set u"
      "\<And>f. flat (edit_first i f d) = u @ flat (f e) @ v"
    using edit_split [of i d] by blast
  have "find (\<lambda>a. eid a = i) u = None" using s(3) by (simp add: find_id_None)
  then show ?thesis using True s(1)
    by (simp add: first_el_def jq_attr_def s(2,4) find_append flat_Cons assms)
next
  case False
  then consider "j \<noteq> i" | "j = i" "\<not> present i d" by blast
  then show ?thesis
  proof cases
    case 1
    then show ?thesis unfolding jq_attr_def by (simp add: first_el_other flat_Cons assms)
  next
    case 2
    then have "first_el j d = None" by (simp add: first_el_def find_id_None present_def el_ids_def)
    with 2 show ?thesis by (simp add: view_absent)
  qed
qed

lemma first_el_append: "j \<notin> eid ` set (flat [x]) \<Longrightarrow> first_el j (jq_append i x d) = first_el j d"
  unfolding jq_append_def
  by (rule first_el_other) (auto simp: flat_Cons find_append find_none split: option.split)

lemma first_el_remove: "childless i d \<Longrightarrow> j \<noteq> i \<Longrightarrow> first_el j (jq_remove i d) = first_el j d"
  unfolding jq_remove_def
  by (rule first_el_other) (auto simp: flat_Cons childless_def)

lemma first_el_present: "present i d \<longleftrightarrow> first_el i d \<noteq> None"
  by (simp add: first_el_def find_id_None present_def el_ids_def del: not_None_eq)

lemma first_el_after_other: "j \<notin> eid ` set (flat xs) \<Longrightarrow> first_el j (jq_after i xs d) = first_el j d"
  unfolding jq_after_def
  by (rule first_el_other) (auto simp: flat_Cons find_append find_none split: option.split)

lemma first_el_after_new:
  assumes "present i d" "\<not> present j d"
  shows "first_el j (jq_after i xs d) = first_el j xs"
proof -
  from edit_split [OF assms(1)] obtain u e v where s: "flat d = u @ flat [e] @ v"
      "\<And>f. flat (edit_first i f d) = u @ flat (f e) @ v" by blast
  have "j \<notin> eid ` set u" "j \<notin> eid ` set (flat [e])" "j \<notin> eid ` set v"
    using assms(2) by (auto simp: present_def el_ids_def s(1))
  then show ?thesis
    by (auto simp: first_el_def jq_after_def s(2) flat_Cons find_append find_none split: option.split)
qed

text \<open>A property of all elements survives an edit that keeps it on the edited element.\<close>

lemma all_edit:
  assumes "\<forall>a \<in> set (flat d). Q a"
    and "\<And>e. \<forall>a \<in> set (flat [e]). Q a \<Longrightarrow> \<forall>a \<in> set (flat (f e)). Q a"
  shows "\<forall>a \<in> set (flat (edit_first i f d)). Q a"
proof (cases "present i d")
  case True
  from edit_split [OF this] obtain u e v where s: "flat d = u @ flat [e] @ v"
      "\<And>f. flat (edit_first i f d) = u @ flat (f e) @ v" by blast
  have "\<forall>a \<in> set (flat [e]). Q a" using assms(1) by (simp add: s(1))
  from assms(2) [OF this] show ?thesis using assms(1) by (auto simp: s)
qed (simp add: edit_absent assms(1))

lemma all_append:
  "\<forall>a \<in> set (flat d). Q a \<Longrightarrow> \<forall>a \<in> set (flat [x]). Q a \<Longrightarrow> \<forall>a \<in> set (flat (jq_append i x d)). Q a"
  unfolding jq_append_def by (rule all_edit) (auto simp: flat_Cons)

lemma all_remove: "\<forall>a \<in> set (flat d). Q a \<Longrightarrow> \<forall>a \<in> set (flat (jq_remove i d)). Q a"
  unfolding jq_remove_def by (rule all_edit) auto

lemma all_attr:
  "\<forall>a \<in> set (flat d). Q a \<Longrightarrow> (\<And>a. Q a \<Longrightarrow> Q (f a)) \<Longrightarrow> \<forall>a \<in> set (flat (jq_attr i f d)). Q a"
  unfolding jq_attr_def by (rule all_edit) (auto simp: flat_Cons)

lemma all_html:
  "\<forall>a \<in> set (flat d). Q a \<Longrightarrow> (\<And>a. Q a \<Longrightarrow> Q (a\<lparr>own_text := t\<rparr>)) \<Longrightarrow>
   \<forall>a \<in> set (flat ks). Q a \<Longrightarrow> \<forall>a \<in> set (flat (jq_html i t ks d)). Q a"
  unfolding jq_html_def by (rule all_edit) (auto simp: flat_Cons)

end
