(* ===== verification/Control.thy ===== *)
theory Control
  imports Dom
begin

text \<open>
  The control page (\<open>scripts.js\<close> of the control GUI), first part: its state, the badges and
  checkboxes of the nodes, the lock that gives one user control, and the commands. The tree
  widget jstree and \<open>returnIcon\<close> (generated by the template) are outside \<open>scripts.js\<close>: the
  elements jstree has rendered are part of the page, the calls of \<open>set_icon\<close> are recorded, and
  \<open>returnIcon\<close> is a parameter.
\<close>

section \<open>State\<close>

text \<open>
  The state of a node as the server sends it: the name of a state, or for an inner node the names
  of several; a node the server has not spoken of yet is \<open>not_added\<close>.
\<close>

datatype node_state = One string | Several "string list"

record info =
  i_name :: string
  i_state :: node_state
  inconsistent :: bool
  included :: bool

text \<open>The value of \<open>d[name]\<close> in a message of the server.\<close>

type_synonym status = "node_state \<times> bool \<times> bool"

record links =
  kibana :: "string option"
  grafana :: "string list"

datatype ctl_request =
    Ajax_Command string string
  | Poll_States
  | Get_States
  | Toggle_Interlock
  | Select_Config string
  | Get_Log
  | Upload string
  | Get_Configs
  | Get_Tree
  | Get_Fsm
  | Get_Grafana

record storage =
  ss_checked :: "string list option"
  ss_unchecked :: "string list option"
  ss_node :: "string option"
  ss_log :: "string option"

text \<open>
  \<open>node\<close> is the id of the node of the last change (\<open>None\<close>: the initial \<open>{}\<close>), \<open>selected\<close> the
  id and text of the selected node of the tree widget, \<open>logcolor\<close> the global \<open>color\<close>,
  \<open>filterArray\<close> the global of that name, which the callback of a log request reads when it runs.
\<close>

record ctl =
  idList :: "(string \<times> info) list"
  fsmrules :: "(string \<times> string list) list"
  grafanarules :: "(string \<times> links) list"
  ownerFlag :: nat
  mainJson :: json
  node :: "string option"
  selected :: "(string \<times> string) option"
  body :: "el list"
  icons :: "(string \<times> string) list"
  state_text :: string
  cursor :: string
  requests :: "ctl_request list"
  session :: storage
  logcolor :: "string option"
  filterArray :: "string list"
  logHeight :: string
  alerts :: "string list"

record ctl_env =
  returnIcon :: "node_state \<Rightarrow> string"
  usr :: string
  currConfigFile :: string

definition on_body :: "(el list \<Rightarrow> el list) \<Rightarrow> ctl \<Rightarrow> ctl" where
  "on_body f c = c\<lparr>body := f (body c)\<rparr>"

definition request :: "ctl_request \<Rightarrow> ctl \<Rightarrow> ctl" where
  "request r c = c\<lparr>requests := requests c @ [r]\<rparr>"

definition state_string :: "node_state \<Rightarrow> string" where
  "state_string st = (case st of One s \<Rightarrow> s | Several ss \<Rightarrow> join '','' ss)"

section \<open>Commands\<close>

definition exclude_node :: "string \<Rightarrow> ctl \<Rightarrow> ctl" where
  "exclude_node n c = request (Ajax_Command n ''exclude'') (c\<lparr>cursor := ''progress''\<rparr>)"

definition include_node :: "string \<Rightarrow> ctl \<Rightarrow> ctl" where
  "include_node n c = request (Ajax_Command n ''include'') (c\<lparr>cursor := ''progress''\<rparr>)"

text \<open>
  The context menu: its labels and what they do; a node that is not in \<open>idList\<close> throws once the
  user is in control.
\<close>

definition customMenu :: "string \<Rightarrow> ctl \<Rightarrow> js_error + (string \<times> action option) list" where
  "customMenu i c =
     (if ownerFlag c = 0 then Inr [(''Not in control'', None)]
      else case map_of (idList c) i of
        None \<Rightarrow> Inl TypeError
      | Some v \<Rightarrow> Inr (if included v then [(''Exclude'', Some (Send_Exclude (i_name v)))]
                       else [(''Include'', Some (Send_Include (i_name v)))]))"

section \<open>Badges\<close>

definition badge :: "string \<Rightarrow> string \<Rightarrow> el" where
  "badge i t = El (leaf i [] t) []"

definition inconsistent_step :: "string \<times> info \<Rightarrow> el list \<Rightarrow> el list" where
  "inconsistent_step = (\<lambda>(key, v) d.
     let a = i_name v @ ''_inconsistent''; l = i_name v @ ''_inconsistentList'';
         d1 = jq_remove l (jq_remove a d)
     in if inconsistent v then
          jq_append (i_name v @ ''_a'') (badge l ''INCONSISTENT'')
            (jq_append (key @ ''_anchor'') (badge a ''INCONSISTENT'') d1)
        else d1)"

definition inconsistencyChecker :: "ctl \<Rightarrow> ctl" where
  "inconsistencyChecker c = on_body (fold inconsistent_step (idList c)) c"

section \<open>Checkboxes\<close>

definition checkbox_id :: "string \<Rightarrow> string" where
  "checkbox_id key = key @ ''_Checkbox''"

definition new_checkbox :: "string \<Rightarrow> el list" where
  "new_checkbox key = [El (leaf (checkbox_id key) [''regular-checkbox'', ''group1''] '''') [],
     El (leaf '''' [] '''') []]"

text \<open>
  One node: drop the old handlers, create the checkbox when the node is rendered without one, and
  set mark, handler, colour and badge by whether the node is included.
\<close>

definition include_step :: "string \<times> info \<Rightarrow> el list \<Rightarrow> el list" where
  "include_step = (\<lambda>(key, v) d.
     let cb = checkbox_id key; ex = key @ ''_include''; an = key @ ''_anchor'';
         d1 = jq_attr cb (\<lambda>a. a\<lparr>clicks := []\<rparr>) d;
         d2 = (if present key d1 \<and> \<not> present cb d1 then jq_after an (new_checkbox key) d1 else d1)
     in if \<not> included v then
          jq_append (i_name v @ ''_a'') (badge ex ''excluded'')
            (jq_remove ex
              (jq_attr cb (\<lambda>a. a\<lparr>clicks := clicks a @ [Send_Include (i_name v)]\<rparr>)
                (jq_attr cb (\<lambda>a. a\<lparr>checked := False\<rparr>)
                  (jq_attr an (\<lambda>a. a\<lparr>background := ''grey''\<rparr>) d2))))
        else
          jq_remove ex
            (jq_attr an (\<lambda>a. a\<lparr>background := ''''\<rparr>)
              (jq_attr cb (\<lambda>a. a\<lparr>clicks := clicks a @ [Send_Exclude (i_name v)]\<rparr>)
                (jq_attr cb (\<lambda>a. a\<lparr>checked := True\<rparr>) d2))))"

definition includeChecker :: "ctl \<Rightarrow> ctl" where
  "includeChecker c = on_body (fold include_step (idList c)) c"

section \<open>The lock\<close>

definition refreshIcons :: "ctl_env \<Rightarrow> ctl \<Rightarrow> ctl" where
  "refreshIcons R c = c\<lparr>icons := icons c @ map (\<lambda>(key, v). (CHR ''#'' # key, returnIcon R (i_state v))) (idList c)\<rparr>"

definition is_control :: "attrs \<Rightarrow> bool" where
  "is_control a = (''control'' \<in> set (classes a))"

definition is_group1 :: "attrs \<Rightarrow> bool" where
  "is_group1 a = (''group1'' \<in> set (classes a))"

definition set_disabled :: "bool \<Rightarrow> attrs \<Rightarrow> attrs" where
  "set_disabled b a = a\<lparr>disabled := b\<rparr>"

definition lock_page :: "bool \<Rightarrow> string \<Rightarrow> string \<Rightarrow> string \<Rightarrow> el list \<Rightarrow> el list" where
  "lock_page locked icon status colour d =
     jq_attr ''LockStatusText'' (\<lambda>a. a\<lparr>background := colour\<rparr>)
       (jq_html ''LockStatusText'' status []
         (jq_html ''lock'' icon []
           (jq_all is_group1 (set_disabled locked) (jq_all is_control (set_disabled locked) d))))"

definition redrawLock :: "ctl_env \<Rightarrow> ctl \<Rightarrow> ctl" where
  "redrawLock R c = refreshIcons R
     (if ownerFlag c = 0 then on_body (lock_page True ''unlock'' ''Monitoring GUI'' ''lightyellow'') c
      else if ownerFlag c = 1 then on_body (lock_page False ''lock'' ''Control GUI'' ''lightgreen'') c
      else c)"

definition lock_click :: "ctl \<Rightarrow> ctl" where
  "lock_click c = request Toggle_Interlock c"

definition lock_done :: "ctl_env \<Rightarrow> string \<Rightarrow> ctl \<Rightarrow> ctl" where
  "lock_done R msg c = redrawLock R
     ((if msg = ''Control has been released'' then c\<lparr>ownerFlag := 0\<rparr>
       else if msg = ''Control has been taken'' then c\<lparr>ownerFlag := 1\<rparr> else c)
      \<lparr>alerts := alerts c @ [msg]\<rparr>)"

text \<open>\<open>None\<close> is \<open>undefined\<close>: nobody has control.\<close>

definition interlockChng :: "ctl_env \<Rightarrow> string option \<Rightarrow> ctl \<Rightarrow> ctl" where
  "interlockChng R d c = redrawLock R
     ((on_body (jq_html ''wholocked'' (case d of None \<Rightarrow> ''None'' | Some u \<Rightarrow> u) []) c)
       \<lparr>ownerFlag := (if d = Some (usr R) then 1 else 0)\<rparr>)"

section \<open>Sending commands\<close>

definition sendComm :: "string \<Rightarrow> string \<Rightarrow> ctl \<Rightarrow> ctl" where
  "sendComm n command c = request (Ajax_Command n command)
     ((on_body (\<lambda>d. jq_attr ''buttondown'' (set_disabled True) (jq_attr ''buttonup'' (set_disabled True) d)) c)
       \<lparr>state_text := ''Executing...'', cursor := ''progress''\<rparr>)"

section \<open>States from the server\<close>

text \<open>A node the message does not name throws, with the nodes before it already updated.\<close>

fun set_states :: "(string \<times> status) list \<Rightarrow> (string \<times> info) list \<Rightarrow> js_error option \<times> (string \<times> info) list" where
  "set_states d [] = (None, [])"
| "set_states d ((key, v) # vs) =
     (case map_of d (i_name v) of
        None \<Rightarrow> (Some TypeError, (key, v) # vs)
      | Some (st, inc, incl) \<Rightarrow>
          (case set_states d vs of (r, vs') \<Rightarrow>
             (r, (key, v\<lparr>i_state := st, inconsistent := inc, included := incl\<rparr>) # vs')))"

definition update_states :: "(string \<times> status) list \<Rightarrow> ctl stmt" where
  "update_states d c = (case set_states d (idList c) of (r, l) \<Rightarrow> (r, c\<lparr>idList := l\<rparr>))"

fun findIdByName :: "string \<Rightarrow> (string \<times> info) list \<Rightarrow> string \<Rightarrow> string" where
  "findIdByName val [] ret = ret"
| "findIdByName val ((key, v) # vs) ret = findIdByName val vs (if i_name v = val then key else ret)"

end
