(* ===== verification/Control_Tree.thy ===== *)
theory Control_Tree
  imports Control
begin

text \<open>
  The control page, second part: searching the tree of the configuration, listing the children
  of a node, the buttons of the state machine, and the handlers that redraw the page when the
  selection or the states of the nodes change.
\<close>

section \<open>Iterating over JSON\<close>

text \<open>
  \<open>$.each(v, ...)\<close>: the elements of an array, the values of an object, nothing for
  \<open>undefined\<close>, \<open>null\<close> and the other false values; other primitive values throw (\<open>"length" in v\<close>).
\<close>

fun js_each :: "json option \<Rightarrow> js_error + json list" where
  "js_each None = Inr []"
| "js_each (Some JNull) = Inr []"
| "js_each (Some (JBool b)) = (if b then Inl TypeError else Inr [])"
| "js_each (Some (JNum n)) = (if n = 0 then Inr [] else Inl TypeError)"
| "js_each (Some (JStr s)) = (if s = '''' then Inr [] else Inl TypeError)"
| "js_each (Some (JArr xs)) = Inr xs"
| "js_each (Some (JObj ps)) = Inr (map snd ps)"

lemma js_each_smaller:
  "js_each (Some j) = Inr xs \<Longrightarrow> size_list size xs \<le> size j"
proof -
  have "size_list size (map snd ps) \<le> size_list (size_prod (\<lambda>x. 0) size) (ps :: obj)" for ps
    by (induction ps) auto
  then show "js_each (Some j) = Inr xs \<Longrightarrow> size_list size xs \<le> size j"
    by (cases j) (auto split: if_splits intro: le_SucI)
qed

section \<open>\<open>getObjects\<close>\<close>

definition is_object :: "json \<Rightarrow> bool" where
  "is_object v = (case v of JNull \<Rightarrow> True | JArr _ \<Rightarrow> True | JObj _ \<Rightarrow> True | _ \<Rightarrow> False)"

text \<open>
  All objects below \<open>obj\<close>, itself included, whose property \<open>key\<close> equals \<open>val\<close>, a property
  being either searched (when it is an object) or compared. The keys of an array are its indices.
\<close>

function (sequential) getObjects :: "json \<Rightarrow> string \<Rightarrow> string \<Rightarrow> json list" where
  "getObjects (JObj ps) key val = concat (map (\<lambda>(k, v).
     if is_object v then getObjects v key val
     else if k = key \<and> eq_str (Some v) val then [JObj ps] else []) ps)"
| "getObjects (JArr xs) key val = concat (map (\<lambda>(i, v).
     if is_object v then getObjects v key val
     else if nat_str i = key \<and> eq_str (Some v) val then [JArr xs] else []) (enumerate 0 xs))"
| "getObjects _ key val = []"
  by pat_completeness auto

lemma size_enumerate: "(i, v) \<in> set (enumerate n xs) \<Longrightarrow> size v < Suc (size_list size (xs :: json list))"
proof (induction xs arbitrary: n)
  case (Cons x xs)
  show ?case
  proof (cases "(i, v) = (n, x)")
    case False
    then have "(i, v) \<in> set (enumerate (Suc n) xs)" using Cons.prems by auto
    from Cons.IH [OF this] show ?thesis by simp
  qed simp
qed simp

lemma size_property: "(k, v) \<in> set ps \<Longrightarrow> size v < Suc (size_list (size_prod (\<lambda>x. 0) size) (ps :: obj))"
  by (induction ps) auto

termination getObjects
  by (relation "measure (\<lambda>(j, key, val). size j)") (auto dest: size_enumerate size_property)

section \<open>The list of children\<close>

definition child_item :: "string \<Rightarrow> node_state \<Rightarrow> el" where
  "child_item t st = El (leaf (t @ ''_a'') [''childItemList'', ''w-100''] (t @ '' - '' @ state_string st)) []"

definition child_list :: "string \<Rightarrow> el" where
  "child_list t = El (leaf (t @ ''_list'') [] '''') []"

text \<open>
  The name of an item with the state \<open>idList[findIdByName(item.text)].state\<close>: a text that is no
  string is the name of no node, and a name without node throws.
\<close>

definition item_node :: "(string \<times> info) list \<Rightarrow> json \<Rightarrow> js_error + string \<times> node_state" where
  "item_node nodes item =
     (case js_get (Some item) ''text'' of
        Inl e \<Rightarrow> Inl e
      | Inr t \<Rightarrow>
          (case map_of nodes (case t of Some (JStr s) \<Rightarrow> findIdByName s nodes '''' | _ \<Rightarrow> '''') of
             None \<Rightarrow> Inl TypeError
           | Some v \<Rightarrow> Inr (String t, i_state v)))"

definition own_children :: "json \<Rightarrow> json option" where
  "own_children item = (case item of JObj ps \<Rightarrow> obj_get ps ''children'' | _ \<Rightarrow> None)"

text \<open>
  The loop over the elements of \<open>json\<close> appends to the element \<open>l\<close>, and for an item with the
  property \<open>children\<close> a list to which the call for the children appends.
\<close>

function childrenTree :: "json list \<Rightarrow> string \<Rightarrow> ctl stmt" where
  "childrenTree [] l c = (None, c)"
| "childrenTree (item # rest) l c =
     (case item_node (idList c) item of
        Inl e \<Rightarrow> (Some e, c)
      | Inr (t, st) \<Rightarrow>
          (let c1 = on_body (jq_append l (child_item t st)) c in
           case own_children item of
             None \<Rightarrow> childrenTree rest l c1
           | Some ch \<Rightarrow>
               (let c2 = on_body (jq_append l (child_list t)) c1 in
                case js_each (Some ch) of
                  Inl e \<Rightarrow> (Some e, c2)
                | Inr xs \<Rightarrow>
                    (case childrenTree xs (t @ ''_list'') c2 of
                       (Some e, c3) \<Rightarrow> (Some e, c3)
                     | (None, c3) \<Rightarrow> childrenTree rest l c3))))"
  by pat_completeness auto

lemma own_children_smaller:
  assumes "own_children item = Some ch"
  shows "size ch < size item"
proof -
  from assms obtain ps where "item = JObj ps" "map_of ps ''children'' = Some ch"
    by (auto simp: own_children_def obj_get_def split: json.splits)
  then show ?thesis using size_property map_of_SomeD by fastforce
qed

termination childrenTree
  by (relation "measure (\<lambda>(xs, l, c). size_list size xs)")
    (auto dest!: own_children_smaller js_each_smaller)

section \<open>Buttons of the state machine\<close>

text \<open>The commands allowed in any of the states, each once, in order of first appearance.\<close>

definition state_array :: "node_state \<Rightarrow> string list" where
  "state_array st = (case st of One s \<Rightarrow> [s] | Several ss \<Rightarrow> ss)"

definition rules_for :: "(string \<times> string list) list \<Rightarrow> string \<Rightarrow> string list" where
  "rules_for rules s = (case map_of rules s of None \<Rightarrow> [] | Some vs \<Rightarrow> vs)"

definition push_new :: "string \<Rightarrow> string list \<Rightarrow> string list" where
  "push_new v values = (if v \<in> set values then values else values @ [v])"

definition fsm_values :: "(string \<times> string list) list \<Rightarrow> node_state \<Rightarrow> string list" where
  "fsm_values rules st = fold (\<lambda>s values. fold push_new (rules_for rules s) values) (state_array st) []"

definition state_button :: "string \<Rightarrow> el list \<Rightarrow> el list" where
  "state_button v d =
     jq_attr (v @ ''_button'') (\<lambda>a. a\<lparr>clicks := clicks a @ [Send_Command v]\<rparr>)
       (jq_append ''stateButtonsDiv''
          (El (leaf (v @ ''_button'') [''green'', ''button'', ''control''] (toUpperCase v)) []) d)"

text \<open>Drop the handlers of all controls, empty the area, and create the buttons.\<close>

definition state_buttons :: "(string \<times> string list) list \<Rightarrow> node_state \<Rightarrow> el list \<Rightarrow> el list" where
  "state_buttons rules st d =
     fold state_button (fsm_values rules st)
       (jq_empty ''stateButtonsDiv'' (jq_all is_control (\<lambda>a. a\<lparr>clicks := []\<rparr>) d))"

text \<open>The handler of a button reads the selected node when it is clicked.\<close>

definition command_click :: "string \<Rightarrow> ctl stmt" where
  "command_click v c = (case selected c of None \<Rightarrow> (Some TypeError, c)
     | Some (i, t) \<Rightarrow> (None, sendComm t v c))"

section \<open>The handler of a changed selection\<close>

text \<open>\<open>getObjects(mainJson, 'text', selText)[0].children\<close>, or the empty string if that throws.\<close>

definition part_json :: "json \<Rightarrow> string \<Rightarrow> json option" where
  "part_json main t = (case getObjects main ''text'' t of [] \<Rightarrow> Some (JStr '''') | j # _ \<Rightarrow> own_children j)"

definition frame :: "string \<Rightarrow> el" where
  "frame url = El (leaf '''' [''embed-responsive-item''] url) []"

definition show_links :: "(string \<times> links) list \<Rightarrow> string \<Rightarrow> el list \<Rightarrow> el list" where
  "show_links rules t d =
     (let d1 = jq_empty ''iframesector'' d in
      case map_of rules t of
        None \<Rightarrow> d1
      | Some ls \<Rightarrow>
          fold (\<lambda>url. jq_append ''iframesector'' (frame url)) (grafana ls)
            (case kibana ls of None \<Rightarrow> d1
             | Some url \<Rightarrow> jq_attr ''kibana'' (\<lambda>a. a\<lparr>clicks := [Open_Window url]\<rparr>) d1))"

definition name_line :: "string \<Rightarrow> el list \<Rightarrow> el list" where
  "name_line t = jq_html ''name'' (''Selected node: '' @ t)
     [El (leaf ''kibana'' [''text-center''] ''Node log'') []]"

text \<open>The detail page is shown for a node of the tree widget.\<close>

definition set_visible :: "bool \<Rightarrow> attrs \<Rightarrow> attrs" where
  "set_visible b a = a\<lparr>visible := b\<rparr>"

definition show_detail :: "string \<Rightarrow> el list \<Rightarrow> el list" where
  "show_detail i d =
     (let tree_node = (case first_el i d of None \<Rightarrow> False | Some a \<Rightarrow> ''jstree-node'' \<in> set (classes a))
      in jq_attr ''detailPage3'' (set_visible False)
           (jq_attr ''lock'' (set_disabled (\<not> tree_node))
             (jq_attr ''detailPage'' (set_visible tree_node) d)))"

definition changed :: "ctl_env \<Rightarrow> ctl stmt" where
  "changed R c0 =
     (case selected c0 of None \<Rightarrow> (Some TypeError, c0)
      | Some (i, t) \<Rightarrow>
     (case map_of (idList c0) i of None \<Rightarrow> (Some TypeError, c0)
      | Some v \<Rightarrow>
          (let c1 = redrawLock R (on_body (state_buttons (fsmrules c0) (i_state v)) c0);
               c2 = on_body (jq_empty ''childlist'' \<circ> jq_empty ''statelog'')
                      (c1\<lparr>state_text := state_string (i_state v)\<rparr>)
           in andThen
             (case js_each (part_json (mainJson c2) t) of
                Inl e \<Rightarrow> throw e
              | Inr xs \<Rightarrow> childrenTree xs ''childlist'')
             (\<lambda>c3.
                let c4 = inconsistencyChecker (includeChecker c3);
                    c5 = on_body (name_line t)
                           (c4\<lparr>node := Some i, session := (session c4)\<lparr>ss_node := Some i\<rparr>\<rparr>);
                    c6 = (if node c3 \<noteq> Some i then on_body (show_links (grafanarules c5) t) c5 else c5)
                in (None, on_body (show_detail i) c6)) c2)))"

section \<open>Handlers that end in the change handler\<close>

text \<open>\<open>exclude\<close>, \<open>include\<close>: when the server has answered.\<close>

definition command_done :: "ctl_env \<Rightarrow> ctl stmt" where
  "command_done R c = changed R (c\<lparr>cursor := ''default''\<rparr>)"

definition sendComm_done :: "ctl_env \<Rightarrow> ctl stmt" where
  "sendComm_done R c = changed R ((redrawLock R (refreshIcons R c))\<lparr>cursor := ''default''\<rparr>)"

text \<open>\<open>updateState\<close> posts and gets; the callbacks of the two requests.\<close>

definition updateState :: "ctl \<Rightarrow> ctl" where
  "updateState c = request Get_States (request Poll_States c)"

definition poll_done :: "ctl_env \<Rightarrow> ctl stmt" where
  "poll_done = sendComm_done"

definition states_arrived :: "ctl_env \<Rightarrow> string option \<Rightarrow> (string \<times> status) list \<Rightarrow> ctl stmt" where
  "states_arrived R whoLocked d =
     andThen (upd (\<lambda>c. c\<lparr>ownerFlag := (if whoLocked = Some (usr R) then 1 else 0)\<rparr>))
       (andThen (update_states d)
         (andThen (changed R)
           (upd (inconsistencyChecker \<circ> redrawLock R \<circ> refreshIcons R))))"

definition stsChng :: "ctl_env \<Rightarrow> (string \<times> status) list \<Rightarrow> ctl stmt" where
  "stsChng R d =
     andThen (update_states d)
       (andThen (upd (\<lambda>c. redrawLock R ((refreshIcons R (inconsistencyChecker c))\<lparr>cursor := ''default''\<rparr>)))
         (changed R))"

definition open_node :: "ctl_env \<Rightarrow> ctl \<Rightarrow> ctl" where
  "open_node R c = refreshIcons R (redrawLock R (includeChecker (inconsistencyChecker c)))"

text \<open>
  When the tree has loaded: every node of jstree becomes an entry of \<open>idList\<close>, and a node is
  selected, which triggers the change handler.
\<close>

definition register_nodes :: "(string \<times> string) list \<Rightarrow> ctl \<Rightarrow> ctl" where
  "register_nodes nodes c = c\<lparr>idList := fold (\<lambda>(i, t). alist_put i
     \<lparr>i_name = t, i_state = One ''not_added'', inconsistent = False, included = True\<rparr>) nodes (idList c)\<rparr>"

end
