(* ===== verification/Control_Log.thy ===== *)
theory Control_Log
  imports Control_Tree
begin

text \<open>
  The control page, third part: the menus of configurations and filters, the service log with its
  filters, and what happens when the page is ready and when the tree has loaded. The own text of
  a log line is the markup the script hands to jQuery for it.
\<close>

section \<open>Menus\<close>

definition filter_box :: "string \<Rightarrow> bool \<Rightarrow> el" where
  "filter_box i ch = El ((leaf i [''filterchng''] '''')\<lparr>checked := ch\<rparr>) []"

definition labelled :: "string \<Rightarrow> el \<Rightarrow> el" where
  "labelled t x = El (leaf '''' [] t) [x]"

definition list_item :: "el \<Rightarrow> el" where
  "list_item x = El (leaf '''' [] '''') [x]"

text \<open>The synchronous part of \<open>updateConfigs\<close>: the boxes for the levels and for general messages.\<close>

definition initial_filters :: "el list \<Rightarrow> el list" where
  "initial_filters d =
     jq_append ''filters2'' (labelled ''general'' (filter_box ''c_general'' True))
      (jq_append ''filters'' (labelled ''DEBUG'' (filter_box ''filterdebug'' False))
       (jq_append ''filters'' (labelled ''ERROR'' (filter_box ''filtererror'' False))
        (jq_append ''filters'' (labelled ''WARNING'' (filter_box ''filterwarning'' False))
         (jq_append ''filters'' (list_item (labelled ''INFO'' (filter_box ''filterinfo'' True)))
          (jq_empty ''filters'' (jq_empty ''filters2'' (jq_empty ''configMenuStart'' (jq_empty ''configMenu'' d))))))))"

definition updateConfigs :: "ctl \<Rightarrow> ctl" where
  "updateConfigs c = request Get_Configs (on_body initial_filters c)"

text \<open>One file of the answer: two buttons, a filter box, and the handlers of the buttons.\<close>

definition config_entry :: "string \<Rightarrow> el list \<Rightarrow> el list" where
  "config_entry file d =
     (let f = remove_first ''.'' file in
      jq_attr f (\<lambda>a. a\<lparr>clicks := clicks a @ [Choose_Config file]\<rparr>)
       (jq_attr (''m_'' @ f) (\<lambda>a. a\<lparr>clicks := clicks a @ [Click_On f]\<rparr>)
         (jq_append ''filters2'' (list_item (labelled file (filter_box (''c_'' @ f) False)))
           (jq_append ''configMenuStart'' (El (leaf (''m_'' @ f) [''green'', ''button''] file) [])
             (jq_append ''configMenu'' (El (leaf f [''green'', ''button''] file) []) d)))))"

definition configs_arrived :: "ctl_env \<Rightarrow> string list \<Rightarrow> ctl \<Rightarrow> ctl" where
  "configs_arrived R files = on_body (\<lambda>d.
     jq_attr (''c_'' @ remove_first ''.'' (currConfigFile R)) (\<lambda>a. a\<lparr>checked := True\<rparr>)
       (fold config_entry files d))"

text \<open>\<open>uploadFile\<close> posts the file and rebuilds the menus at once; the answer is shown when it comes.\<close>

definition uploadFile :: "string \<Rightarrow> ctl \<Rightarrow> ctl" where
  "uploadFile url c = updateConfigs (request (Upload url) c)"

definition upload_done :: "string \<Rightarrow> ctl \<Rightarrow> ctl" where
  "upload_done r c = c\<lparr>alerts := alerts c @ [r]\<rparr>"

section \<open>The filtered log\<close>

text \<open>\<open>item.match(/\[(.*?)\]/)[1]\<close>: the text of the first closed bracket on a line.\<close>

fun upto_close :: "string \<Rightarrow> string option" where
  "upto_close [] = None"
| "upto_close (c # cs) =
     (if c = CHR '']'' then Some []
      else if c \<in> {CHR 0x0A, CHR 0x0D} then None
      else map_option ((#) c) (upto_close cs))"

fun bracket :: "string \<Rightarrow> string option" where
  "bracket [] = None"
| "bracket (c # cs) =
     (if c = CHR ''['' then (case upto_close cs of Some g \<Rightarrow> Some g | None \<Rightarrow> bracket cs)
      else bracket cs)"

text \<open>The filter box a line depends on and the class it is shown with.\<close>

definition line_kind :: "string \<Rightarrow> string \<times> string" where
  "line_kind item =
     (if js_includes item ''INFO'' then (''filterinfo'', ''bg-info'')
      else if js_includes item ''WARNING'' then (''filterwarning'', ''bg-warning'')
      else if js_includes item ''ERROR'' then (''filtererror'', ''bg-danger'')
      else if js_includes item ''DEBUG'' then (''filterdebug'', ''bg-secondary'')
      else (''filterdebug'', ''bg-secondary''))"

text \<open>
  Whether a line is shown: its box must be checked (a missing box throws), and only then the
  bracket is read, which throws on a line without one.
\<close>

definition line_shown :: "string list \<Rightarrow> el list \<Rightarrow> string \<Rightarrow> js_error + bool" where
  "line_shown filters d item =
     (case first_el (fst (line_kind item)) d of
        None \<Rightarrow> Inl TypeError
      | Some a \<Rightarrow>
          if \<not> checked a then Inr False
          else (case bracket item of
             None \<Rightarrow> Inl TypeError
           | Some g \<Rightarrow> Inr (''c_'' @ remove_first ''.'' g \<in> set filters)))"

definition log_line :: "string \<Rightarrow> el" where
  "log_line item = El (leaf '''' [snd (line_kind item)] (strip_angles item)) []"

definition show_line :: "string \<Rightarrow> ctl stmt" where
  "show_line item c =
     (if item = '''' then (None, c)
      else case line_shown (filterArray c) (body c) item of
        Inl e \<Rightarrow> (Some e, c)
      | Inr b \<Rightarrow> (None, if b then on_body (jq_prepend ''logList'' (log_line item)) c else c))"

definition log_arrived :: "string \<Rightarrow> ctl stmt" where
  "log_arrived d = forEach (split_lines d) show_line"

definition is_filter :: "attrs \<Rightarrow> bool" where
  "is_filter a = (''filterchng'' \<in> set (classes a))"

definition applyFilters :: "ctl \<Rightarrow> ctl" where
  "applyFilters c =
     (let boxes = filter is_filter (flat (body c));
          on = map eid (filter checked boxes); off = map eid (filter (\<lambda>a. \<not> checked a) boxes)
      in request Get_Log (on_body (jq_empty ''logList'')
           (c\<lparr>filterArray := on, session := (session c)\<lparr>ss_checked := Some on, ss_unchecked := Some off\<rparr>\<rparr>)))"

text \<open>A change of a filter box by the user, and the button of a configuration file.\<close>

definition filter_change :: "string \<Rightarrow> ctl \<Rightarrow> ctl" where
  "filter_change i c = applyFilters (on_body (jq_attr i (\<lambda>a. a\<lparr>checked := \<not> checked a\<rparr>)) c)"

definition choose_config :: "string \<Rightarrow> ctl \<Rightarrow> ctl" where
  "choose_config file = request (Select_Config file)"

section \<open>The raw log\<close>

definition raw_color :: "string \<Rightarrow> string" where
  "raw_color item =
     (if js_includes item ''INFO'' then ''bg-info''
      else if js_includes item ''WARNING'' then ''bg-warning''
      else if js_includes item ''ERROR'' then ''bg-danger'' else ''white'')"

definition raw_line :: "string \<Rightarrow> ctl \<Rightarrow> ctl" where
  "raw_line item c = on_body (jq_prepend ''logList'' (El (leaf '''' [raw_color item] item) []))
     (c\<lparr>logcolor := Some (raw_color item)\<rparr>)"

definition getLog_arrived :: "string \<Rightarrow> ctl \<Rightarrow> ctl" where
  "getLog_arrived d c = applyFilters (fold raw_line (split_lines d) c)"

section \<open>New log messages\<close>

text \<open>\<open>radio\<close> is the value of the checked radio button of the group \<open>r_logging\<close>, if any.\<close>

definition log_add :: "string option \<Rightarrow> string \<Rightarrow> nat" where
  "log_add radio d =
     (if js_includes d ''INFO'' then
        (if radio \<in> {Some ''warning'', Some ''error'', Some ''debug''} then 0 else 1)
      else if js_includes d ''WARNING'' then (if radio \<in> {Some ''error'', Some ''debug''} then 0 else 1)
      else if js_includes d ''ERROR'' then (if radio = Some ''debug'' then 0 else 1)
      else 1)"

definition log_color :: "string \<Rightarrow> string option" where
  "log_color d =
     (if js_includes d ''INFO'' then Some ''bg-info''
      else if js_includes d ''WARNING'' then Some ''bg-warning''
      else if js_includes d ''ERROR'' then Some ''bg-danger''
      else if js_includes d ''DEBUG'' then Some ''bg-secondary'' else None)"

text \<open>
  The test \<open>if(add = 1)\<close> assigns and is always true; reading the global \<open>color\<close> throws when it
  has never been assigned.
\<close>

definition logChng :: "string option \<Rightarrow> string \<Rightarrow> ctl stmt" where
  "logChng radio d c =
     (let add = log_add radio d;
          c1 = (case log_color d of None \<Rightarrow> c | Some col \<Rightarrow> c\<lparr>logcolor := Some col\<rparr>);
          add = (1 :: nat)
      in if add \<noteq> 0 then
           (case logcolor c1 of
              None \<Rightarrow> (Some (JsError ''ReferenceError''), c1)
            | Some col \<Rightarrow> (None, on_body (jq_prepend ''logList'' (El (leaf '''' [col] (strip_angles d)) [])) c1))
         else (None, c1))"

section \<open>Showing and hiding the log\<close>

definition logShow_click :: "ctl \<Rightarrow> ctl" where
  "logShow_click c =
     (if logHeight c = ''0px'' then
        on_body (jq_html ''logShow'' ''Hide'' [])
          (c\<lparr>session := (session c)\<lparr>ss_log := Some ''open''\<rparr>, logHeight := ''370px''\<rparr>)
      else on_body (jq_html ''logShow'' ''Show'' [])
          (c\<lparr>session := (session c)\<lparr>ss_log := Some ''closed''\<rparr>, logHeight := ''0px''\<rparr>))"

definition restore_log :: "ctl \<Rightarrow> ctl" where
  "restore_log c =
     (if ss_log (session c) = Some ''closed'' then
        on_body (jq_html ''logShow'' ''Show'' []) (c\<lparr>logHeight := ''0px''\<rparr>)
      else on_body (jq_html ''logShow'' ''Hide'' []) (c\<lparr>logHeight := ''450px''\<rparr>))"

section \<open>Loading the page\<close>

text \<open>
  Both loops run over the checked ids; the second one passes the index of an id, not the id.
\<close>

definition restore_filters :: "ctl \<Rightarrow> ctl" where
  "restore_filters c =
     (case ss_checked (session c) of
        None \<Rightarrow> c
      | Some items \<Rightarrow>
          on_body (fold (\<lambda>n. jq_attr (nat_str n) (\<lambda>a. a\<lparr>checked := False\<rparr>)) [0..<length items]
            \<circ> fold (\<lambda>item. jq_attr item (\<lambda>a. a\<lparr>checked := True\<rparr>)) items) c)"

definition page_ready :: "ctl \<Rightarrow> ctl" where
  "page_ready c =
     applyFilters (restore_log (restore_filters
       (request Get_Log (request Get_Grafana (updateConfigs (request Get_Fsm
         (on_body (jq_attr ''lock'' (set_disabled True)) (request Get_Tree c))))))))"

definition tree_arrived :: "json \<Rightarrow> ctl \<Rightarrow> ctl" where
  "tree_arrived j c = c\<lparr>mainJson := j\<rparr>"

definition fsm_arrived :: "(string \<times> string list) list \<Rightarrow> ctl \<Rightarrow> ctl" where
  "fsm_arrived rules c = c\<lparr>fsmrules := rules\<rparr>"

definition grafana_arrived :: "(string \<times> links) list \<Rightarrow> ctl \<Rightarrow> ctl" where
  "grafana_arrived rules c = c\<lparr>grafanarules := rules\<rparr>"

text \<open>
  When the tree widget has built its nodes (ids and texts): the second argument of \<open>select_node\<close>
  suppresses the change event.
\<close>

definition loaded :: "(string \<times> string) list \<Rightarrow> ctl \<Rightarrow> ctl" where
  "loaded nodes c =
     (let c1 = register_nodes nodes (on_body (jq_attr ''lock'' (set_disabled False)) c);
          i = (case ss_node (session c1) of None \<Rightarrow> ''j1_1'' | Some i \<Rightarrow> i);
          c2 = (case map_of nodes i of None \<Rightarrow> c1 | Some t \<Rightarrow> c1\<lparr>selected := Some (i, t)\<rparr>)
      in applyFilters (updateState (includeChecker c2)))"

end
