(* ===== verification/Control_Nodes.thy ===== *)
theory Control_Nodes
  imports Control_Log
begin

text \<open>
  Properties of the control page, first part: states from the server, badges and checkboxes of
  the nodes, and the lock.
\<close>

section \<open>States from the server\<close>

definition known :: "(string \<times> status) list \<Rightarrow> string \<times> info \<Rightarrow> bool" where
  "known d = (\<lambda>(key, v). map_of d (i_name v) \<noteq> None)"

definition with_status :: "(string \<times> status) list \<Rightarrow> string \<times> info \<Rightarrow> string \<times> info" where
  "with_status d = (\<lambda>(key, v). case map_of d (i_name v) of None \<Rightarrow> (key, v)
     | Some (st, inc, incl) \<Rightarrow> (key, v\<lparr>i_state := st, inconsistent := inc, included := incl\<rparr>))"

lemma set_states_result:
  "set_states d vs = (if list_all (known d) vs then None else Some TypeError,
     map (with_status d) (takeWhile (known d) vs) @ dropWhile (known d) vs)"
proof (induction vs)
  case (Cons p vs)
  obtain key v where p: "p = (key, v)" by (cases p)
  show ?case
    using Cons by (cases "map_of d (i_name v)") (auto simp: p known_def with_status_def)
qed simp

text \<open>
  C27. States from the server: a message gives every node the state, inconsistency and inclusion it
  names; when it misses a node the handler throws there, the nodes before that one being updated
  and that one and the later ones not, and nothing else of the page changes.
\<close>

theorem update_states_result:
  "update_states d c = (if list_all (known d) (idList c) then None else Some TypeError,
     c\<lparr>idList := map (with_status d) (takeWhile (known d) (idList c)) @ dropWhile (known d) (idList c)\<rparr>)"
  by (simp add: update_states_def set_states_result)

section \<open>Badges\<close>

abbreviation badge_a :: "info \<Rightarrow> string" where
  "badge_a v \<equiv> i_name v @ ''_inconsistent''"

abbreviation badge_l :: "info \<Rightarrow> string" where
  "badge_l v \<equiv> i_name v @ ''_inconsistentList''"

lemma last_differs: "last xs \<noteq> last ys \<Longrightarrow> xs \<noteq> [] \<Longrightarrow> ys \<noteq> [] \<Longrightarrow> a @ xs \<noteq> b @ ys"
  by (metis last_appendR)

lemma badge_ids [simp]:
  "badge_a v \<noteq> k @ ''_anchor''" "badge_a v \<noteq> n @ ''_a''"
  "badge_l v \<noteq> k @ ''_anchor''" "badge_l v \<noteq> n @ ''_a''"
  by (rule last_differs; simp)+

lemma badge_a_not_l [simp]: "badge_a v \<noteq> badge_l w"
proof
  assume "badge_a v = badge_l w"
  then have "take 4 (rev (badge_a v)) = take 4 (rev (badge_l w))" by simp
  then show False by simp
qed

lemma childless_leaf [simp]: "childless j [El a []]"
  by simp

lemma badge_leaf: "badge i t = El (leaf i [] t) []"
  by (simp add: badge_def)

lemma eid_leaf [simp]: "eid (leaf i cs t) = i"
  by (simp add: leaf_def)

text \<open>How one node changes the number of elements of any id.\<close>

lemma inconsistent_step_count:
  assumes "childless (badge_a v) d" "childless (badge_l v) d"
  shows "count_id j (inconsistent_step (key, v) d) =
     count_id j d - (if j = badge_a v \<or> j = badge_l v then 1 else 0)
     + (if inconsistent v \<and> j = badge_a v \<and> present (key @ ''_anchor'') d then 1 else 0)
     + (if inconsistent v \<and> j = badge_l v \<and> present (i_name v @ ''_a'') d then 1 else 0)"
proof -
  let ?d1 = "jq_remove (badge_l v) (jq_remove (badge_a v) d)"
  have c1: "count_id i ?d1 = count_id i d - (if i = badge_a v \<or> i = badge_l v then 1 else 0)" for i
    using assms by (simp add: count_id_remove childless_remove)
  have p1: "present i ?d1 \<longleftrightarrow> present i d" if "i \<noteq> badge_a v" "i \<noteq> badge_l v" for i
    using that c1 [of i] by (simp add: present_count)
  let ?d2 = "jq_append (key @ ''_anchor'') (badge (badge_a v) ''INCONSISTENT'') ?d1"
  have c2: "count_id i ?d2 = count_id i ?d1
      + (if i = badge_a v \<and> present (key @ ''_anchor'') d then 1 else 0)" for i
  proof (cases "present (key @ ''_anchor'') ?d1")
    case True
    then show ?thesis using p1 [of "key @ ''_anchor''"] badge_ids [of v key]
      by (simp add: count_id_append badge_leaf)
  next
    case False
    then show ?thesis using p1 [of "key @ ''_anchor''"] badge_ids [of v key]
      by (simp add: view_absent)
  qed
  have p2: "present (i_name v @ ''_a'') ?d2 \<longleftrightarrow> present (i_name v @ ''_a'') d"
    using c2 [of "i_name v @ ''_a''"] p1 [of "i_name v @ ''_a''"] by (simp add: present_count)
  let ?d3 = "jq_append (i_name v @ ''_a'') (badge (badge_l v) ''INCONSISTENT'') ?d2"
  have c3: "count_id i ?d3 = count_id i ?d2
      + (if i = badge_l v \<and> present (i_name v @ ''_a'') d then 1 else 0)" for i
    using p2 by (cases "present (i_name v @ ''_a'') ?d2") (simp_all add: count_id_append badge_leaf view_absent)
  show ?thesis
  proof (cases "inconsistent v")
    case True
    then have "inconsistent_step (key, v) d = ?d3" by (simp add: inconsistent_step_def Let_def)
    then show ?thesis using True c1 c2 c3 by simp
  next
    case False
    then have "inconsistent_step (key, v) d = ?d1" by (simp add: inconsistent_step_def Let_def)
    then show ?thesis using False c1 by simp
  qed
qed

lemma inconsistent_step_childless:
  assumes "childless (badge_a w) d \<and> childless (badge_l w) d"
  shows "childless (badge_a w) (inconsistent_step (key, v) d)
    \<and> childless (badge_l w) (inconsistent_step (key, v) d)"
  using assms badge_ids [of w]
  by (auto simp: inconsistent_step_def Let_def badge_leaf intro!: childless_append childless_remove)

definition badge_ids_of :: "(string \<times> info) list \<Rightarrow> string set" where
  "badge_ids_of vs = (\<Union>(key, v) \<in> set vs. {badge_a v, badge_l v})"

text \<open>At most one badge of each kind for every node, and badges have no children.\<close>

definition badges_ok :: "(string \<times> info) list \<Rightarrow> el list \<Rightarrow> bool" where
  "badges_ok vs d \<longleftrightarrow> (\<forall>i \<in> badge_ids_of vs. childless i d \<and> count_id i d \<le> 1)"

definition shown_badges :: "string \<times> info \<Rightarrow> el list \<Rightarrow> el list \<Rightarrow> bool" where
  "shown_badges = (\<lambda>(key, v) d d'.
     count_id (badge_a v) d' = (if inconsistent v \<and> present (key @ ''_anchor'') d then 1 else 0)
     \<and> count_id (badge_l v) d' = (if inconsistent v \<and> present (i_name v @ ''_a'') d then 1 else 0))"

lemma badges_ok_step:
  assumes "badges_ok (p # vs) d" and "i_name (snd p) \<notin> (i_name \<circ> snd) ` set vs"
  shows "badges_ok vs (inconsistent_step p d)"
    and "shown_badges p d (inconsistent_step p d)"
    and "j \<notin> badge_ids_of [p] \<Longrightarrow> count_id j (inconsistent_step p d) = count_id j d"
proof -
  obtain key v where p: "p = (key, v)" by (cases p)
  have cl: "childless (badge_a v) d" "childless (badge_l v) d"
      "count_id (badge_a v) d \<le> 1" "count_id (badge_l v) d \<le> 1"
    using assms(1) by (simp_all add: badges_ok_def badge_ids_of_def p)
  note step = inconsistent_step_count [OF cl(1,2), where key = key, folded p]
  show c: "count_id j (inconsistent_step p d) = count_id j d" if "j \<notin> badge_ids_of [p]" for j
    using that step [of j] by (simp add: badge_ids_of_def p)
  show "shown_badges p d (inconsistent_step p d)"
    using step [of "badge_a v"] step [of "badge_l v"] cl badge_a_not_l [of v v, THEN not_sym]
    by (auto simp: shown_badges_def p)
  show "badges_ok vs (inconsistent_step p d)"
    unfolding badges_ok_def
  proof
    fix i assume i: "i \<in> badge_ids_of vs"
    then obtain k w where w: "(k, w) \<in> set vs" "i = badge_a w \<or> i = badge_l w"
      by (auto simp: badge_ids_of_def)
    have "i_name w \<noteq> i_name v" using assms(2) w(1) p by force
    then have "i \<notin> badge_ids_of [p]"
      using w(2) badge_a_not_l [of w v] badge_a_not_l [of v w] by (auto simp: badge_ids_of_def p)
    moreover have "childless (badge_a w) d \<and> childless (badge_l w) d" "count_id i d \<le> 1"
      using assms(1) w i by (auto simp: badges_ok_def badge_ids_of_def)
    ultimately show "childless i (inconsistent_step p d) \<and> count_id i (inconsistent_step p d) \<le> 1"
      using c inconsistent_step_childless [of w d key v] w(2) p by auto
  qed
qed

lemma not_badge_id: "k @ ''_anchor'' \<notin> badge_ids_of vs" "n @ ''_a'' \<notin> badge_ids_of vs"
  by (auto simp: badge_ids_of_def dest: badge_ids [THEN notE, OF sym])

lemma inconsistent_fold:
  assumes "badges_ok vs d" and "distinct (map (i_name \<circ> snd) vs)"
  shows "(\<forall>p \<in> set vs. shown_badges p d (fold inconsistent_step vs d))
    \<and> (\<forall>j. j \<notin> badge_ids_of vs \<longrightarrow> count_id j (fold inconsistent_step vs d) = count_id j d)"
  using assms
proof (induction vs arbitrary: d)
  case (Cons p vs)
  let ?d1 = "inconsistent_step p d" and ?d' = "fold inconsistent_step (p # vs) d"
  have fresh: "i_name (snd p) \<notin> (i_name \<circ> snd) ` set vs" using Cons.prems(2) by simp
  note step = badges_ok_step [OF Cons.prems(1) fresh]
  have IH: "shown_badges q ?d1 ?d'" if "q \<in> set vs" for q
    using Cons.IH [OF step(1)] Cons.prems(2) that by simp
  have rest: "count_id j ?d' = count_id j ?d1" if "j \<notin> badge_ids_of vs" for j
    using Cons.IH [OF step(1)] Cons.prems(2) that by simp
  have same: "present i ?d1 = present i d" if "i \<notin> badge_ids_of [p]" for i
    using step(3) [OF that] by (simp add: present_count)
  have mine: "badge_ids_of [p] \<inter> badge_ids_of vs = {}"
  proof -
    obtain key v where p: "p = (key, v)" by (cases p)
    have "badge_a v \<notin> badge_ids_of vs" "badge_l v \<notin> badge_ids_of vs"
      using fresh badge_a_not_l [of v] badge_a_not_l [of _ v]
      by (auto simp: badge_ids_of_def p image_iff)
    moreover have "badge_ids_of [p] = {badge_a v, badge_l v}" by (simp add: badge_ids_of_def p)
    ultimately show ?thesis by simp
  qed
  have "shown_badges p d ?d'"
  proof -
    obtain key v where p: "p = (key, v)" by (cases p)
    have "badge_a v \<in> badge_ids_of [p]" "badge_l v \<in> badge_ids_of [p]" by (auto simp: badge_ids_of_def p)
    with mine rest have "count_id (badge_a v) ?d' = count_id (badge_a v) ?d1"
        "count_id (badge_l v) ?d' = count_id (badge_l v) ?d1" by blast+
    with step(2) show ?thesis by (simp add: shown_badges_def p)
  qed
  moreover have "shown_badges q d ?d'" if "q \<in> set vs" for q
    using IH [OF that] same [OF not_badge_id(1)] same [OF not_badge_id(2)]
    by (auto simp: shown_badges_def split: prod.splits)
  moreover have "count_id j ?d' = count_id j d" if "j \<notin> badge_ids_of (p # vs)" for j
    using that rest [of j] step(3) [of j] by (auto simp: badge_ids_of_def)
  ultimately show ?case by auto
qed simp

text \<open>
  Inconsistency badges: on a page with at most one badge of each kind per node, and nodes with
  different names, the checker leaves exactly one badge at the tree node and one at the list item
  (as far as they are on the page) of every inconsistent node, none at any other node, and
  keeps the number of elements of every other id.
\<close>

theorem inconsistency_badges:
  assumes "badges_ok (idList c) (body c)" and "distinct (map (i_name \<circ> snd) (idList c))"
  shows "(\<forall>p \<in> set (idList c). shown_badges p (body c) (body (inconsistencyChecker c)))
    \<and> (\<forall>j. j \<notin> badge_ids_of (idList c) \<longrightarrow>
         count_id j (body (inconsistencyChecker c)) = count_id j (body c))"
  using inconsistent_fold [OF assms] by (simp add: inconsistencyChecker_def on_body_def)

section \<open>Checkboxes\<close>

abbreviation include_badge :: "string \<Rightarrow> string" where
  "include_badge key \<equiv> key @ ''_include''"

lemma checkbox_ids [simp]:
  "checkbox_id k \<noteq> n @ ''_anchor''" "checkbox_id k \<noteq> n @ ''_include''" "checkbox_id k \<noteq> n @ ''_a''"
  "checkbox_id k \<noteq> ''''" "checkbox_id k = checkbox_id k' \<longleftrightarrow> k = k'"
  by (simp_all add: checkbox_id_def last_differs)

lemma include_badge_ids [simp]:
  "include_badge k \<noteq> n @ ''_anchor''" "include_badge k \<noteq> n @ ''_a''" "include_badge k \<noteq> ''''"
  "include_badge k \<noteq> checkbox_id n"
  by (simp_all add: checkbox_id_def last_differs)

lemma flat_new_checkbox: "eid ` set (flat (new_checkbox k)) = {checkbox_id k, ''''}"
  by (auto simp: new_checkbox_def)

definition toggle_action :: "info \<Rightarrow> action" where
  "toggle_action v = (if included v then Send_Exclude (i_name v) else Send_Include (i_name v))"

text \<open>The checkbox shows whether the node is included, and a click asks for the opposite.\<close>

definition checkbox_right :: "string \<times> info \<Rightarrow> el list \<Rightarrow> bool" where
  "checkbox_right = (\<lambda>(key, v) d. \<exists>a. first_el (checkbox_id key) d = Some a
     \<and> checked a = included v \<and> clicks a = [toggle_action v])"

text \<open>The node is on the page: it has its checkbox already or the places to create one.\<close>

definition rendered :: "string \<Rightarrow> el list \<Rightarrow> bool" where
  "rendered key d \<longleftrightarrow> present (checkbox_id key) d \<or> (present key d \<and> present (key @ ''_anchor'') d)"

lemma include_step_own:
  assumes "rendered key d" "childless (include_badge key) d"
  shows "checkbox_right (key, v) (include_step (key, v) d)"
proof -
  let ?cb = "checkbox_id key" and ?an = "key @ ''_anchor''"
  let ?d1 = "jq_attr ?cb (\<lambda>a. a\<lparr>clicks := []\<rparr>) d"
  let ?d2 = "if present key ?d1 \<and> \<not> present ?cb ?d1 then jq_after ?an (new_checkbox key) ?d1 else ?d1"
  have p1: "present i ?d1 = present i d" for i by (simp add: present_count count_id_attr)
  obtain a where a: "first_el ?cb ?d2 = Some a" "clicks a = []"
  proof (cases "present ?cb d")
    case True
    then obtain a where "first_el ?cb d = Some a" by (auto simp: first_el_present)
    then show ?thesis using that [of "a\<lparr>clicks := []\<rparr>"] True p1 by (simp add: first_el_attr)
  next
    case False
    then have "present key d" "present ?an d" using assms(1) by (auto simp: rendered_def)
    then have "first_el ?cb ?d2 = first_el ?cb (new_checkbox key)"
      using False p1 by (simp add: first_el_after_new)
    then show ?thesis using that by (simp add: new_checkbox_def first_el_def leaf_def)
  qed
  have cl: "childless (include_badge key) ?d2"
    using assms(2) by (auto simp: new_checkbox_def intro!: childless_attr childless_after)
  show ?thesis
    using a cl
    by (cases "included v")
      (auto simp: include_step_def Let_def checkbox_right_def toggle_action_def first_el_attr
        first_el_append first_el_remove childless_attr badge_leaf simp del: if_split)
qed

lemma include_step_childless:
  assumes "childless (include_badge j) d"
  shows "childless (include_badge j) (include_step (key, v) d)"
proof -
  have new: "childless (include_badge j) (new_checkbox k)" for k by (simp add: new_checkbox_def)
  show ?thesis using assms new
    by (auto simp: include_step_def Let_def badge_leaf
        intro!: childless_append childless_remove childless_attr childless_after)
qed

lemma count_id_append_ge: "count_id j d \<le> count_id j (jq_append i x d)"
  by (cases "present i d") (simp_all add: count_id_append view_absent)

lemma count_id_after_ge: "count_id j d \<le> count_id j (jq_after i xs d)"
  by (cases "present i d") (simp_all add: count_id_after view_absent)

lemma include_step_present:
  assumes "childless (include_badge key) d" "i \<noteq> include_badge key" "present i d"
  shows "present i (include_step (key, v) d)"
proof -
  let ?d1 = "jq_attr (checkbox_id key) (\<lambda>a. a\<lparr>clicks := []\<rparr>) d"
  let ?d2 = "if present key ?d1 \<and> \<not> present (checkbox_id key) ?d1
    then jq_after (key @ ''_anchor'') (new_checkbox key) ?d1 else ?d1"
  have new: "childless (include_badge key) (new_checkbox key)" by (simp add: new_checkbox_def)
  have cl: "childless (include_badge key) ?d2"
    using assms(1) new by (auto intro!: childless_attr childless_after)
  have "0 < count_id i ?d2"
    using assms(3) count_id_after_ge [of i ?d1] by (auto simp: count_id_attr present_count intro: less_le_trans)
  then show ?thesis
    using assms(2) cl less_le_trans [OF _ count_id_append_ge]
    by (auto simp: include_step_def Let_def present_count count_id_attr count_id_remove childless_attr
        simp del: if_split split: if_split)
qed

lemma include_step_other:
  assumes "childless (include_badge k) d" "key \<noteq> k"
  shows "first_el (checkbox_id key) (include_step (k, v) d) = first_el (checkbox_id key) d"
proof -
  let ?d1 = "jq_attr (checkbox_id k) (\<lambda>a. a\<lparr>clicks := []\<rparr>) d"
  let ?d2 = "if present k ?d1 \<and> \<not> present (checkbox_id k) ?d1
    then jq_after (k @ ''_anchor'') (new_checkbox k) ?d1 else ?d1"
  have new: "childless (include_badge k) (new_checkbox k)" by (simp add: new_checkbox_def)
  have cl: "childless (include_badge k) ?d2"
    using assms(1) new by (auto intro!: childless_attr childless_after)
  have d2: "first_el (checkbox_id key) ?d2 = first_el (checkbox_id key) d"
    using assms(2) by (simp add: first_el_attr first_el_after_other flat_new_checkbox)
  show ?thesis
    using assms(2) cl d2
    by (cases "included v") (simp_all add: include_step_def Let_def first_el_attr first_el_append
        first_el_remove childless_attr badge_leaf del: if_split)
qed

definition checkboxes_ok :: "(string \<times> info) list \<Rightarrow> el list \<Rightarrow> bool" where
  "checkboxes_ok vs d \<longleftrightarrow> distinct (map fst vs)
     \<and> (\<forall>k \<in> fst ` set vs. childless (include_badge k) d \<and> k \<notin> include_badge ` fst ` set vs)"

lemma include_fold_other:
  assumes "\<forall>k \<in> fst ` set vs. childless (include_badge k) d" "key \<notin> fst ` set vs"
  shows "first_el (checkbox_id key) (fold include_step vs d) = first_el (checkbox_id key) d"
  using assms
proof (induction vs arbitrary: d)
  case (Cons p vs)
  obtain k v where p: "p = (k, v)" by (cases p)
  show ?case using Cons include_step_other [of k d key v] include_step_childless p by auto
qed simp

lemma include_fold:
  assumes "checkboxes_ok vs d" and "(key, v) \<in> set vs" and "rendered key d"
  shows "checkbox_right (key, v) (fold include_step vs d)"
  using assms
proof (induction vs arbitrary: d)
  case (Cons p vs)
  obtain k w where p: "p = (k, w)" by (cases p)
  let ?d1 = "include_step p d"
  have cl: "\<forall>j \<in> fst ` set vs. childless (include_badge j) ?d1"
    using Cons.prems(1) include_step_childless p by (auto simp: checkboxes_ok_def)
  show ?case
  proof (cases "(key, v) = p")
    case True
    then have "checkbox_right (key, v) ?d1"
      using include_step_own [OF Cons.prems(3)] Cons.prems(1) by (auto simp: checkboxes_ok_def)
    moreover have "key \<notin> fst ` set vs"
      using Cons.prems(1) by (simp add: checkboxes_ok_def flip: True)
    ultimately show ?thesis using include_fold_other [OF cl] by (simp add: checkbox_right_def)
  next
    case False
    then have v: "(key, v) \<in> set vs" using Cons.prems(2) by simp
    have key: "key \<noteq> include_badge k" "childless (include_badge k) d"
      using Cons.prems(1) v p by (auto simp: checkboxes_ok_def image_iff)
    have "rendered key ?d1"
      using Cons.prems(3) include_step_present [OF key(2), of _ w] key(1) include_badge_ids
      by (auto simp: rendered_def p)
    moreover have "checkboxes_ok vs ?d1" using Cons.prems(1) cl by (auto simp: checkboxes_ok_def)
    ultimately show ?thesis using Cons.IH [OF _ v] by simp
  qed
qed simp

text \<open>
  Inclusion checkboxes: after the checker has run, every node on the page has a checkbox that is
  checked exactly when the node is included, with a single click handler that asks the server for
  the opposite, however many times the checker has run before.
\<close>

theorem checkboxes_toggle:
  assumes "checkboxes_ok (idList c) (body c)" and "(key, v) \<in> set (idList c)"
    and "rendered key (body c)"
  shows "checkbox_right (key, v) (body (includeChecker c))"
  using include_fold [OF assms] by (simp add: includeChecker_def on_body_def)

section \<open>The lock\<close>

definition lockable :: "attrs \<Rightarrow> bool" where
  "lockable a = (is_control a \<or> is_group1 a)"

text \<open>Every command button and checkbox is enabled exactly when the user is in control.\<close>

definition lock_ok :: "ctl \<Rightarrow> bool" where
  "lock_ok c \<longleftrightarrow> ownerFlag c \<le> 1
     \<and> (\<forall>a \<in> set (flat (body c)). lockable a \<longrightarrow> disabled a = (ownerFlag c = 0))"

lemma lock_page_disables:
  "\<forall>a \<in> set (flat (lock_page b icon status colour d)). lockable a \<longrightarrow> disabled a = b"
  unfolding lock_page_def
  by (intro all_attr all_html)
    (auto simp: lockable_def is_control_def is_group1_def set_disabled_def)

lemma refreshIcons_simps [simp]:
  "body (refreshIcons R c) = body c" "ownerFlag (refreshIcons R c) = ownerFlag c"
  by (simp_all add: refreshIcons_def)

lemma redrawLock_owner [simp]: "ownerFlag (redrawLock R c) = ownerFlag c"
  by (simp add: redrawLock_def on_body_def)

lemma redrawLock_ok: "ownerFlag c \<le> 1 \<Longrightarrow> lock_ok (redrawLock R c)"
  using lock_page_disables by (auto simp: lock_ok_def redrawLock_def on_body_def)

lemma leaf_not_lockable: "lockable (leaf i [] t) = False"
  by (simp add: lockable_def is_control_def is_group1_def leaf_def)

lemma inconsistencyChecker_lock: "lock_ok c \<Longrightarrow> lock_ok (inconsistencyChecker c)"
proof -
  have step: "\<forall>a \<in> set (flat (inconsistent_step p d)). lockable a \<longrightarrow> disabled a = b"
    if "\<forall>a \<in> set (flat d). lockable a \<longrightarrow> disabled a = b" for p d b
  proof (cases p)
    case (Pair key v)
    have d: "\<forall>a \<in> set (flat (jq_remove (badge_l v) (jq_remove (badge_a v) d))). lockable a \<longrightarrow> disabled a = b"
      using that by (intro all_remove)
    have bl: "\<forall>a \<in> set (flat [badge i t]). lockable a \<longrightarrow> disabled a = b" for i t
      by (simp add: badge_leaf leaf_not_lockable)
    note two = all_append [OF all_append [OF d bl] bl]
    show ?thesis
    proof (cases "inconsistent v")
      case True
      then have "inconsistent_step p d = jq_append (i_name v @ ''_a'') (badge (badge_l v) ''INCONSISTENT'')
          (jq_append (key @ ''_anchor'') (badge (badge_a v) ''INCONSISTENT'')
            (jq_remove (badge_l v) (jq_remove (badge_a v) d)))"
        by (simp add: inconsistent_step_def Let_def Pair)
      then show ?thesis using two by simp
    next
      case False
      then have "inconsistent_step p d = jq_remove (badge_l v) (jq_remove (badge_a v) d)"
        by (simp add: inconsistent_step_def Let_def Pair)
      then show ?thesis using d by simp
    qed
  qed
  have f: "\<forall>a \<in> set (flat (fold inconsistent_step vs d)). lockable a \<longrightarrow> disabled a = b"
    if "\<forall>a \<in> set (flat d). lockable a \<longrightarrow> disabled a = b" for vs d b
    using that
  proof (induction vs arbitrary: d)
    case (Cons p vs)
    show ?case using Cons.IH [OF step [OF Cons.prems]] by simp
  qed simp
  show "lock_ok c \<Longrightarrow> lock_ok (inconsistencyChecker c)"
    using f [of "body c" "ownerFlag c = 0" "idList c"]
    by (simp add: lock_ok_def inconsistencyChecker_def on_body_def)
qed

lemma inconsistencyChecker_owner [simp]: "ownerFlag (inconsistencyChecker c) = ownerFlag c"
  by (simp add: inconsistencyChecker_def on_body_def)

text \<open>What holds for single appends, and composes, holds for the whole list of children.\<close>

lemma childrenTree_rel:
  assumes reflT: "\<And>c. T c c" and trans: "\<And>c c' c''. T c c' \<Longrightarrow> T c' c'' \<Longrightarrow> T c c''"
    and item: "\<And>l t st c. T c (on_body (jq_append l (child_item t st)) c)"
    and list: "\<And>l t c. T c (on_body (jq_append l (child_list t)) c)"
  shows "T c (snd (childrenTree xs l c))"
proof (induction xs l c rule: childrenTree.induct)
  case (1 l c)
  then show ?case by (simp add: reflT)
next
  case (2 item rest l c)
  show ?case
  proof (cases "item_node (idList c) item")
    case (Inl e)
    then show ?thesis by (simp add: reflT)
  next
    case (Inr r)
    obtain t st where r: "r = (t, st)" by (cases r)
    let ?c1 = "on_body (jq_append l (child_item t st)) c"
    let ?c2 = "on_body (jq_append l (child_list t)) ?c1"
    have c1: "T c ?c1" and c2: "T c ?c2" using item list trans by blast+
    show ?thesis
    proof (cases "own_children item")
      case None
      then have "T ?c1 (snd (childrenTree rest l ?c1))" using "2.IH"(1) [OF Inr r [symmetric] refl] by simp
      then show ?thesis using None Inr r c1 trans by (simp add: Let_def)
    next
      case (Some ch)
      show ?thesis
      proof (cases "js_each (Some ch)")
        case (Inl e)
        then show ?thesis using Some Inr r c2 by (simp add: Let_def)
      next
        case xs: (Inr xs)
        obtain e c3 where c3: "childrenTree xs (t @ ''_list'') ?c2 = (e, c3)" by fastforce
        have "T ?c2 c3" using "2.IH"(2) [OF Inr r [symmetric] refl Some refl xs] c3 by simp
        then have c: "T c c3" using c2 trans by blast
        have "T c3 (snd (childrenTree rest l c3))" if "e = None"
          using "2.IH"(3) [OF Inr r [symmetric] refl Some refl xs c3 [symmetric]] that by simp
        then have "e = None \<Longrightarrow> T c (snd (childrenTree rest l c3))" using c trans by blast
        then show ?thesis using Some Inr r xs c3 c by (cases e) (simp_all add: Let_def)
      qed
    qed
  qed
qed

lemma childrenTree_owner: "ownerFlag (snd (childrenTree xs l c)) = ownerFlag c"
  by (rule childrenTree_rel [where T = "\<lambda>c c'. ownerFlag c' = ownerFlag c"]) (simp_all add: on_body_def)

lemma changed_owner: "ownerFlag (snd (changed R c)) = ownerFlag c"
proof (cases "selected c")
  case (Some it)
  obtain i t where it: "it = (i, t)" by (cases it)
  show ?thesis
  proof (cases "map_of (idList c) i")
    case v: (Some v)
    let ?c1 = "redrawLock R (on_body (state_buttons (fsmrules c) (i_state v)) c)"
    let ?c2 = "on_body (jq_empty ''childlist'' \<circ> jq_empty ''statelog'') (?c1\<lparr>state_text := state_string (i_state v)\<rparr>)"
    have o2: "ownerFlag ?c2 = ownerFlag c" by (simp add: on_body_def)
    show ?thesis
    proof (cases "js_each (part_json (mainJson ?c2) t)")
      case (Inl e)
      then show ?thesis using o2 Some it v by (simp add: changed_def Let_def andThen_def throw_def)
    next
      case (Inr xs)
      obtain e c3 where c3: "childrenTree xs ''childlist'' ?c2 = (e, c3)" by fastforce
      then have "ownerFlag c3 = ownerFlag c" using childrenTree_owner [of xs "''childlist''" ?c2] o2 by simp
      then show ?thesis using Inr Some it v c3
        by (cases e) (simp_all add: changed_def Let_def andThen_def on_body_def includeChecker_def
            inconsistencyChecker_def)
    qed
  qed (simp add: changed_def Some it)
qed (simp add: changed_def)

text \<open>
  C25. The lock follows the owner: when the states have arrived and their handler has not thrown, and
  after every message about the lock, all command buttons and checkboxes of the page are
  enabled if the server names this user as the owner and disabled otherwise.
\<close>

theorem lock_follows_owner:
  assumes "states_arrived R who d c = (None, c')"
  shows "lock_ok c' \<and> (ownerFlag c' = 1 \<longleftrightarrow> who = Some (usr R))
    \<and> lock_ok (interlockChng R who c) \<and> (ownerFlag (interlockChng R who c) = 1 \<longleftrightarrow> who = Some (usr R))"
proof -
  let ?f = "if who = Some (usr R) then 1 else (0 :: nat)"
  let ?c0 = "c\<lparr>ownerFlag := ?f\<rparr>"
  obtain r c1 where c1: "update_states d ?c0 = (r, c1)" by fastforce
  obtain r2 c2 where c2: "changed R c1 = (r2, c2)" by fastforce
  from assms have r: "r = None" "r2 = None"
      and c': "c' = inconsistencyChecker (redrawLock R (refreshIcons R c2))"
    using c1 c2 by (auto simp: states_arrived_def js_defs split: option.splits)
  have "ownerFlag c1 = ?f" using c1 by (auto simp: update_states_result)
  then have o: "ownerFlag c2 = ?f" using changed_owner [of R c1] c2 by simp
  have "lock_ok c'" unfolding c' by (intro inconsistencyChecker_lock redrawLock_ok) (simp add: o)
  moreover have "ownerFlag c' = ?f" by (simp add: c' o)
  moreover have "lock_ok (interlockChng R who c)"
    unfolding interlockChng_def by (rule redrawLock_ok) simp
  moreover have "ownerFlag (interlockChng R who c) = ?f" by (simp add: interlockChng_def)
  ultimately show ?thesis by simp
qed

end
