(* ===== verification/Control_Lists.thy ===== *)
theory Control_Lists
  imports Control_Nodes
begin

text \<open>
  Properties of the control page, second part: the buttons of the state machine, the search in the
  configuration tree, the list of children, and the service log.
\<close>

section \<open>Buttons of the state machine\<close>

text \<open>Each element once, in order of first appearance.\<close>

definition nub :: "'a list \<Rightarrow> 'a list" where
  "nub xs = rev (remdups (rev xs))"

lemma remdups_drop: "x \<in> set zs \<Longrightarrow> remdups (ys @ x # zs) = remdups (ys @ zs)"
  by (induction ys) auto

lemma fold_push_new: "distinct acc \<Longrightarrow> fold push_new xs acc = nub (acc @ xs)"
proof (induction xs arbitrary: acc)
  case Nil
  then show ?case by (simp add: nub_def distinct_remdups_id)
next
  case (Cons x xs)
  show ?case
  proof (cases "x \<in> set acc")
    case True
    then have "nub (acc @ x # xs) = nub (acc @ xs)" by (simp add: nub_def remdups_drop)
    then show ?thesis using True Cons by (simp add: push_new_def)
  next
    case False
    then show ?thesis using Cons.IH [of "acc @ [x]"] Cons.prems by (simp add: push_new_def)
  qed
qed

lemma fsm_values_nub: "fsm_values rules st = nub (concat (map (rules_for rules) (state_array st)))"
proof -
  have "fold (\<lambda>s values. fold push_new (rules_for rules s) values) ss acc
      = fold push_new (concat (map (rules_for rules) ss)) acc" for ss acc
    by (induction ss arbitrary: acc) (simp_all add: fold_append)
  then show ?thesis by (simp add: fsm_values_def fold_push_new)
qed

text \<open>The button of a command, with its only handler.\<close>

definition command_button :: "string \<Rightarrow> attrs" where
  "command_button v = (leaf (v @ ''_button'') [''green'', ''button'', ''control''] (toUpperCase v))
     \<lparr>clicks := [Send_Command v]\<rparr>"

lemma view_attr_new:
  assumes "present p d" and "\<not> present i d" and "eid a = i" and "i \<noteq> p"
  shows "view (jq_attr i f (jq_append p (El a []) d)) = view d + {#f a#}"
proof -
  let ?d = "jq_append p (El a []) d"
  have v: "view ?d = view d + {#a#}" using assms(1) by (simp add: view_append)
  then have "present i ?d" using assms(3) by (auto simp: present_iff)
  from edit_split [OF this] obtain u e w where s: "eid (at e) = i" "flat ?d = u @ flat [e] @ w"
      "\<And>f. flat (edit_first i f ?d) = u @ flat (f e) @ w" by blast
  have "at e \<in># view ?d" by (simp add: view_def s(2) flat_Cons)
  moreover have "at e \<notin># view d" using assms(2) s(1) by (auto simp: present_iff)
  ultimately have e: "at e = a" using v by auto
  have "view ?d = mset u + {#a#} + mset (flat (kids e)) + mset w"
    by (simp add: view_def s(2) flat_Cons e)
  moreover have "view (jq_attr i f ?d) = mset u + {#f a#} + mset (flat (kids e)) + mset w"
    by (simp add: view_def jq_attr_def s(3) flat_Cons e)
  ultimately show ?thesis using v by (simp add: add.commute add.left_commute)
qed

lemma button_id_inject [simp]: "v @ ''_button'' = w @ ''_button'' \<longleftrightarrow> v = w"
  by simp

lemma state_buttons_fold:
  assumes "present ''stateButtonsDiv'' d" and "distinct vs"
    and "\<forall>v \<in> set vs. \<not> present (v @ ''_button'') d"
  shows "view (fold state_button vs d) = view d + mset (map command_button vs)"
  using assms
proof (induction vs arbitrary: d)
  case (Cons v vs)
  have neq: "w @ ''_button'' \<noteq> ''stateButtonsDiv''" for w
  proof
    assume "w @ ''_button'' = ''stateButtonsDiv''"
    then have "last (w @ ''_button'') = last ''stateButtonsDiv''" by simp
    then show False by simp
  qed
  let ?d = "state_button v d"
  have v: "view ?d = view d + {#command_button v#}"
    unfolding state_button_def command_button_def
    using view_attr_new [OF Cons.prems(1), of "v @ ''_button''"] Cons.prems(3) neq
    by (simp add: leaf_def)
  have "present ''stateButtonsDiv'' ?d" using Cons.prems(1) v by (auto simp: present_iff)
  moreover have "\<forall>w \<in> set vs. \<not> present (w @ ''_button'') ?d"
    using Cons.prems(2,3) v by (auto simp: present_iff command_button_def leaf_def)
  ultimately show ?case using Cons.IH [of ?d] Cons.prems(2) v by (simp add: add.assoc)
qed simp

text \<open>
  C26. Command buttons: the commands offered for a node are those the state machine allows in any of
  its states, each once, in order of first appearance; and on a page with the button area, the
  handler adds exactly one button per command, whose only click handler sends that command.
\<close>

theorem state_buttons_result:
  assumes "d0 = jq_empty ''stateButtonsDiv'' (jq_all is_control (\<lambda>a. a\<lparr>clicks := []\<rparr>) d)"
    and "present ''stateButtonsDiv'' d0" and "\<forall>v. \<not> present (v @ ''_button'') d0"
  shows "fsm_values rules st = nub (concat (map (rules_for rules) (state_array st)))
    \<and> view (state_buttons rules st d) = view d0 + mset (map command_button (fsm_values rules st))"
proof -
  have "distinct (fsm_values rules st)" by (simp add: fsm_values_nub nub_def)
  from state_buttons_fold [OF assms(2) this] assms(1,3) fsm_values_nub show ?thesis
    by (simp add: state_buttons_def)
qed

section \<open>Searching the tree\<close>

text \<open>All objects inside a value, itself included.\<close>

fun objects :: "json \<Rightarrow> obj set" where
  "objects (JObj ps) = insert ps (\<Union>(k, v) \<in> set ps. objects v)"
| "objects (JArr xs) = (\<Union>v \<in> set xs. objects v)"
| "objects _ = {}"

definition has_text :: "string \<Rightarrow> obj \<Rightarrow> bool" where
  "has_text t ps = (\<exists>v. (''text'', v) \<in> set ps \<and> \<not> is_object v \<and> eq_str (Some v) t)"

lemma nat_str_not_text: "nat_str i \<noteq> ''text''"
proof
  assume "nat_str i = ''text''"
  then have "is_digit CHR ''t''" using nat_str_digits [of "CHR ''t''" i] by simp
  then show False by (simp add: is_digit_def digit_val_def)
qed

lemma objects_primitive: "\<not> is_object v \<Longrightarrow> objects v = {}"
  by (cases v) (auto simp: is_object_def)

lemma getObjects_set: "set (getObjects j ''text'' t) = JObj ` {ps \<in> objects j. has_text t ps}"
proof (induction j rule: objects.induct)
  case (1 ps)
  have "set (getObjects (JObj ps) ''text'' t) =
      (\<Union>(k, v) \<in> set ps. if is_object v then set (getObjects v ''text'' t)
        else if k = ''text'' \<and> eq_str (Some v) t then {JObj ps} else {})"
    unfolding getObjects.simps set_concat set_map image_image
    by (intro SUP_cong refl) (auto split: prod.split)
  also have "\<dots> = (\<Union>(k, v) \<in> set ps. JObj ` {qs \<in> objects v. has_text t qs})
      \<union> (if has_text t ps then {JObj ps} else {})"
  proof -
    have "(if is_object v then set (getObjects v ''text'' t)
        else if k = ''text'' \<and> eq_str (Some v) t then {JObj ps} else {}) =
        JObj ` {qs \<in> objects v. has_text t qs}
        \<union> (if k = ''text'' \<and> \<not> is_object v \<and> eq_str (Some v) t then {JObj ps} else {})"
      if "(k, v) \<in> set ps" for k v
      using "1.IH" [OF that refl] objects_primitive [of v] by auto
    then have "(\<Union>(k, v) \<in> set ps. if is_object v then set (getObjects v ''text'' t)
        else if k = ''text'' \<and> eq_str (Some v) t then {JObj ps} else {}) =
        (\<Union>(k, v) \<in> set ps. JObj ` {qs \<in> objects v. has_text t qs}
          \<union> (if k = ''text'' \<and> \<not> is_object v \<and> eq_str (Some v) t then {JObj ps} else {}))"
      by (intro SUP_cong refl) (auto simp: split_def)
    also have "\<dots> = (\<Union>(k, v) \<in> set ps. JObj ` {qs \<in> objects v. has_text t qs})
        \<union> (if has_text t ps then {JObj ps} else {})"
      by (auto simp: has_text_def split: if_splits)
    finally show ?thesis .
  qed
  also have "\<dots> = JObj ` {qs \<in> objects (JObj ps). has_text t qs}" by auto
  finally show ?case .
next
  case (2 xs)
  have "set (case p of (i, v) \<Rightarrow> if is_object v then getObjects v ''text'' t
        else if nat_str i = ''text'' \<and> eq_str (Some v) t then [JArr xs] else [])
      = JObj ` {qs \<in> objects (snd p). has_text t qs}" if p: "p \<in> set (enumerate 0 xs)" for p
  proof -
    obtain i v where iv: "p = (i, v)" by (cases p)
    with p have v: "v \<in> set xs" by (auto simp: in_set_enumerate_eq)
    show ?thesis
    proof (cases "is_object v")
      case True
      then show ?thesis using "2.IH" [OF v] by (simp add: iv)
    next
      case False
      then show ?thesis by (simp add: iv nat_str_not_text objects_primitive)
    qed
  qed
  then have "set (getObjects (JArr xs) ''text'' t)
      = (\<Union>p \<in> set (enumerate 0 xs). JObj ` {qs \<in> objects (snd p). has_text t qs})"
    unfolding getObjects.simps set_concat set_map image_image by (intro SUP_cong refl) simp
  also have "\<dots> = (\<Union>v \<in> snd ` set (enumerate 0 xs). JObj ` {qs \<in> objects v. has_text t qs})"
    by simp
  also have "snd ` set (enumerate 0 xs) = set xs" by (metis list.set_map map_snd_enumerate)
  finally show ?case by auto
qed simp_all

text \<open>
  C24. Search: the objects found for a text are exactly the objects inside the configuration, at any
  depth, that have this text; and the children listed for the selected node are the children of
  one of them (so when there is only one, of that object), or the empty string when there is none.
\<close>

theorem search_finds_object:
  "set (getObjects main ''text'' t) = JObj ` {ps \<in> objects main. has_text t ps}
   \<and> part_json main t \<in>
       (if {ps \<in> objects main. has_text t ps} = {} then {Some (JStr '''')}
        else (\<lambda>ps. obj_get ps ''children'') ` {ps \<in> objects main. has_text t ps})"
proof (cases "getObjects main ''text'' t")
  case Nil
  then show ?thesis using getObjects_set [of main t] by (auto simp: part_json_def)
next
  case (Cons j js)
  then obtain ps where "ps \<in> {ps \<in> objects main. has_text t ps}" "j = JObj ps"
    using getObjects_set [of main t] by auto
  then show ?thesis
    using getObjects_set [of main t] Cons by (auto simp: part_json_def own_children_def)
qed

section \<open>The list of children\<close>

text \<open>The trees the configuration describes: nodes with a name and possibly a list of children.\<close>

datatype ntree = NTree (tname: string) (tkids: "ntree list option")

fun tree_names :: "ntree list \<Rightarrow> string set" where
  "tree_names [] = {}"
| "tree_names (NTree n None # ts) = insert n (tree_names ts)"
| "tree_names (NTree n (Some us) # ts) = insert n (tree_names us \<union> tree_names ts)"

definition named :: "json \<Rightarrow> string \<Rightarrow> bool" where
  "named j n = (js_get (Some j) ''text'' = Inr (Some (JStr n)))"

fun represents :: "ntree list \<Rightarrow> json list \<Rightarrow> bool" where
  "represents [] js = (js = [])"
| "represents (NTree n None # ts) js =
     (case js of [] \<Rightarrow> False | j # js' \<Rightarrow> named j n \<and> own_children j = None \<and> represents ts js')"
| "represents (NTree n (Some us) # ts) js =
     (case js of [] \<Rightarrow> False
      | j # js' \<Rightarrow> named j n \<and> represents ts js'
          \<and> (case own_children j of Some (JArr ks) \<Rightarrow> represents us ks | _ \<Rightarrow> False))"

text \<open>The elements the list shows: an item for every node below, and a list for the children.\<close>

fun forest_items :: "(string \<Rightarrow> node_state) \<Rightarrow> ntree list \<Rightarrow> attrs list" where
  "forest_items st [] = []"
| "forest_items st (NTree n None # ts) = at (child_item n (st n)) # forest_items st ts"
| "forest_items st (NTree n (Some us) # ts) =
     at (child_item n (st n)) # at (child_list n) # forest_items st us @ forest_items st ts"

definition node_of :: "(string \<times> info) list \<Rightarrow> string \<Rightarrow> info option" where
  "node_of nodes n = map_of nodes (findIdByName n nodes '''')"

definition state_of :: "(string \<times> info) list \<Rightarrow> string \<Rightarrow> node_state" where
  "state_of nodes n = (case node_of nodes n of None \<Rightarrow> One '''' | Some v \<Rightarrow> i_state v)"

lemma item_node_named: "named j n \<Longrightarrow> item_node nodes j =
  (case node_of nodes n of None \<Rightarrow> Inl TypeError | Some v \<Rightarrow> Inr (n, i_state v))"
  by (simp add: named_def item_node_def node_of_def split: option.split)

lemma findIdByName_unique:
  "distinct (map fst nodes) \<Longrightarrow> distinct (map (i_name \<circ> snd) nodes) \<Longrightarrow> (key, v) \<in> set nodes \<Longrightarrow>
   findIdByName (i_name v) nodes ret = key"
proof (induction nodes arbitrary: ret)
  case (Cons p nodes)
  obtain k w where p: "p = (k, w)" by (cases p)
  have none: "findIdByName n ns r = r" if "n \<notin> (i_name \<circ> snd) ` set ns" for n ns r
    using that by (induction ns arbitrary: r) auto
  show ?case
  proof (cases "(key, v) = p")
    case True
    then show ?thesis using Cons.prems(2) none by (simp add: p)
  next
    case False
    then have "(key, v) \<in> set nodes" using Cons.prems(3) by auto
    with Cons.IH Cons.prems(1,2) show ?thesis by (simp add: p)
  qed
qed simp

lemma node_of_known:
  assumes "distinct (map fst nodes)" "distinct (map (i_name \<circ> snd) nodes)" "(key, v) \<in> set nodes"
  shows "node_of nodes (i_name v) = Some v"
  using assms by (simp add: node_of_def findIdByName_unique)

lemma view_on_body: "present l (body c) \<Longrightarrow> flat (kids x) = [] \<Longrightarrow>
  view (body (on_body (jq_append l x) c)) = view (body c) + {#at x#}"
  by (simp add: on_body_def view_append flat_Cons)

lemma children_result:
  assumes "represents ts js" "present l (body c)" "\<forall>n \<in> tree_names ts. node_of (idList c) n \<noteq> None"
  shows "\<exists>d. childrenTree js l c = (None, c\<lparr>body := d\<rparr>)
     \<and> view d = view (body c) + mset (forest_items (state_of (idList c)) ts)"
  using assms
proof (induction "state_of (idList c)" ts arbitrary: js l c rule: forest_items.induct)
  case 1
  then show ?case by (auto intro: exI [of _ "body c"])
next
  case (2 n ts)
  then obtain j js' where js: "js = j # js'" "named j n" "own_children j = None" "represents ts js'"
    by (cases js) auto
  obtain v where v: "node_of (idList c) n = Some v" using "2.prems"(3) by auto
  let ?c1 = "on_body (jq_append l (child_item n (i_state v))) c"
  have st: "state_of (idList c) n = i_state v" by (simp add: state_of_def v)
  have view1: "view (body ?c1) = view (body c) + {#at (child_item n (i_state v))#}"
    using "2.prems"(2) by (simp add: view_on_body child_item_def)
  have "present l (body ?c1)" using "2.prems"(2) view1 by (auto simp: present_iff)
  then obtain d where "childrenTree js' l ?c1 = (None, ?c1\<lparr>body := d\<rparr>)"
      "view d = view (body ?c1) + mset (forest_items (state_of (idList c)) ts)"
    using "2.hyps" [of ?c1 js' l] js(4) "2.prems"(3) by (auto simp: on_body_def)
  then show ?case using js v view1 st by (auto simp: item_node_named Let_def on_body_def)
next
  case (3 n us ts)
  then obtain j js' ks where js: "js = j # js'" "named j n" "own_children j = Some (JArr ks)"
      "represents us ks" "represents ts js'"
    by (cases js) (auto split: option.splits json.splits)
  obtain v where v: "node_of (idList c) n = Some v" using "3.prems"(3) by auto
  let ?c1 = "on_body (jq_append l (child_item n (i_state v))) c"
  let ?c2 = "on_body (jq_append l (child_list n)) ?c1"
  have st: "state_of (idList c) n = i_state v" by (simp add: state_of_def v)
  have view1: "view (body ?c1) = view (body c) + {#at (child_item n (i_state v))#}"
    using "3.prems"(2) by (simp add: view_on_body child_item_def)
  have "present l (body ?c1)" using "3.prems"(2) view1 by (auto simp: present_iff)
  then have view2: "view (body ?c2) = view (body ?c1) + {#at (child_list n)#}"
    by (simp add: view_on_body child_list_def)
  then have "present (n @ ''_list'') (body ?c2)" by (auto simp: present_iff child_list_def)
  then obtain d where d: "childrenTree ks (n @ ''_list'') ?c2 = (None, ?c2\<lparr>body := d\<rparr>)"
      "view d = view (body ?c2) + mset (forest_items (state_of (idList c)) us)"
    using "3.hyps"(1) [of ?c2 ks "n @ ''_list''"] js(4) "3.prems"(3) by (auto simp: on_body_def)
  let ?c3 = "?c2\<lparr>body := d\<rparr>"
  have "present l (body ?c3)" using "3.prems"(2) view1 view2 d(2) by (auto simp: present_iff)
  then obtain d' where "childrenTree js' l ?c3 = (None, ?c3\<lparr>body := d'\<rparr>)"
      "view d' = view (body ?c3) + mset (forest_items (state_of (idList c)) ts)"
    using "3.hyps"(2) [of ?c3 js' l] js(5) "3.prems"(3) by (auto simp: on_body_def)
  then show ?case using js v view1 view2 st d by (auto simp: item_node_named Let_def on_body_def)
qed

lemma forest_items_cong:
  "(\<And>n. n \<in> tree_names ts \<Longrightarrow> st n = st' n) \<Longrightarrow> forest_items st ts = forest_items st' ts"
  by (induction st ts rule: forest_items.induct) auto

text \<open>
  C23. The list of children: for children that form a tree of known nodes, the loop throws nothing and
  adds to the page exactly one item with name and state for every node below, at any depth, and
  one nested list for every node that has children; nothing else of the page state changes.
\<close>

theorem children_listed:
  assumes "represents ts js" and "present l (body c)"
    and "distinct (map fst (idList c))" and "distinct (map (i_name \<circ> snd) (idList c))"
    and "tree_names ts \<subseteq> (i_name \<circ> snd) ` set (idList c)"
    and "\<forall>(key, v) \<in> set (idList c). st (i_name v) = i_state v"
  shows "\<exists>d. childrenTree js l c = (None, c\<lparr>body := d\<rparr>)
     \<and> view d = view (body c) + mset (forest_items st ts)"
proof -
  have known: "node_of (idList c) n \<noteq> None \<and> state_of (idList c) n = st n" if "n \<in> tree_names ts" for n
  proof -
    from that assms(5) obtain key v where v: "(key, v) \<in> set (idList c)" "n = i_name v" by auto
    then have "node_of (idList c) n = Some v" using node_of_known [OF assms(3,4)] by simp
    with v assms(6) show ?thesis by (auto simp: state_of_def)
  qed
  then have "forest_items (state_of (idList c)) ts = forest_items st ts"
    by (intro forest_items_cong) simp
  with children_result [OF assms(1,2)] known show ?thesis by simp
qed

text \<open>Without the place to append to, the loop still throws nothing.\<close>

lemma children_total:
  "represents ts js \<Longrightarrow> \<forall>n \<in> tree_names ts. node_of (idList c) n \<noteq> None \<Longrightarrow>
   \<exists>d. childrenTree js l c = (None, c\<lparr>body := d\<rparr>)"
proof (induction "\<lambda>n :: string. One n" ts arbitrary: js l c rule: forest_items.induct)
  case 1
  then show ?case by (auto intro: exI [of _ "body c"])
next
  case (2 n ts)
  then obtain j js' v where j: "js = j # js'" "named j n" "own_children j = None" "represents ts js'"
      "node_of (idList c) n = Some v"
    by (cases js) auto
  let ?c1 = "on_body (jq_append l (child_item n (i_state v))) c"
  from 2(1) [OF j(4), of ?c1 l] 2(3) obtain d where "childrenTree js' l ?c1 = (None, ?c1\<lparr>body := d\<rparr>)"
    by (auto simp: on_body_def)
  with j show ?case by (auto simp: item_node_named Let_def on_body_def)
next
  case (3 n us ts)
  then obtain j js' ks v where j: "js = j # js'" "named j n" "own_children j = Some (JArr ks)"
      "represents us ks" "represents ts js'" "node_of (idList c) n = Some v"
    by (cases js) (auto split: option.splits json.splits)
  let ?c2 = "on_body (jq_append l (child_list n)) (on_body (jq_append l (child_item n (i_state v))) c)"
  from 3(1) [OF j(4), of ?c2 "n @ ''_list''"] 3(4) obtain d
    where d: "childrenTree ks (n @ ''_list'') ?c2 = (None, ?c2\<lparr>body := d\<rparr>)"
    by (auto simp: on_body_def)
  from 3(2) [OF j(5), of "?c2\<lparr>body := d\<rparr>" l] 3(4) obtain d'
    where "childrenTree js' l (?c2\<lparr>body := d\<rparr>) = (None, ?c2\<lparr>body := d'\<rparr>)"
    by (auto simp: on_body_def)
  with j d show ?case by (auto simp: item_node_named Let_def on_body_def)
qed

lemma changed_total:
  assumes "selected c = Some (i, t)" and "map_of (idList c) i = Some v"
    and "js_each (part_json (mainJson c) t) = Inr xs" and "represents ts xs"
    and "\<forall>n \<in> tree_names ts. node_of (idList c) n \<noteq> None"
  shows "fst (changed R c) = None"
proof -
  let ?c1 = "redrawLock R (on_body (state_buttons (fsmrules c) (i_state v)) c)"
  let ?c2 = "on_body (jq_empty ''childlist'' \<circ> jq_empty ''statelog'') (?c1\<lparr>state_text := state_string (i_state v)\<rparr>)"
  have frame: "idList ?c2 = idList c" "mainJson ?c2 = mainJson c"
    by (simp_all add: redrawLock_def refreshIcons_def on_body_def)
  obtain d where "childrenTree xs ''childlist'' ?c2 = (None, ?c2\<lparr>body := d\<rparr>)"
    using children_total [OF assms(4), of ?c2] assms(5) frame by auto
  then show ?thesis using assms(1-3) frame by (simp add: changed_def Let_def andThen_def)
qed

section \<open>The service log\<close>

text \<open>The children of the first element with an id.\<close>

definition prepend_all :: "el list \<Rightarrow> el \<Rightarrow> el list" where
  "prepend_all xs e = [El (at e) (xs @ kids e)]"

lemma edit_edit:
  assumes "\<And>e. eid (at e) = i \<Longrightarrow> \<exists>e'. g e = [e'] \<and> eid (at e') = i"
  shows "edit_first i f (edit_first i g d) = edit_first i (\<lambda>e. f (hd (g e))) d"
proof (induction d rule: flat.induct)
  case (2 a ks es)
  consider (here) "eid a = i" | (below) "eid a \<noteq> i" "present i ks" | (later) "eid a \<noteq> i" "\<not> present i ks"
    by blast
  then show ?case
  proof cases
    case here
    then obtain e' where e': "g (El a ks) = [e']" "eid (at e') = i" using assms [of "El a ks"] by auto
    then show ?thesis using here by (cases e') simp
  next
    case below
    have "present i (edit_first i g ks)"
    proof -
      from edit_split [OF below(2)] obtain u e v where s: "eid (at e) = i"
          "\<And>f. flat (edit_first i f ks) = u @ flat (f e) @ v" by blast
      obtain e' where "g e = [e']" "eid (at e') = i" using assms [OF s(1)] by blast
      then show ?thesis by (simp add: present_def el_ids_def s(2) flat_Cons)
    qed
    then show ?thesis using below 2 by simp
  next
    case later
    then show ?thesis using 2 by simp
  qed
qed simp

lemma prepend_prepend:
  "jq_prepend i x (edit_first i (prepend_all xs) d) = edit_first i (prepend_all (x # xs)) d"
  unfolding jq_prepend_def by (subst edit_edit) (auto simp: prepend_all_def [abs_def])

lemma prepend_nothing: "edit_first i (prepend_all []) d = d"
  by (induction d rule: flat.induct) (auto simp: prepend_all_def edit_absent)

text \<open>The lines of the log a filter lets through.\<close>

definition passes :: "string list \<Rightarrow> el list \<Rightarrow> string \<Rightarrow> bool" where
  "passes filters d item = (item \<noteq> '''' \<and> line_shown filters d item = Inr True)"

definition readable :: "string list \<Rightarrow> el list \<Rightarrow> string \<Rightarrow> bool" where
  "readable filters d item = (item \<noteq> '''' \<longrightarrow> (\<exists>b. line_shown filters d item = Inr b))"

lemma first_el_prepend_lines:
  assumes "i \<noteq> ''''"
  shows "first_el i (edit_first ''logList'' (prepend_all (map log_line xs)) d) = first_el i d"
proof (rule first_el_other)
  fix e
  have "i \<notin> eid ` set (flat (map log_line xs))"
    using assms by (induction xs) (auto simp: log_line_def)
  then show "find (\<lambda>a. eid a = i) (flat (prepend_all (map log_line xs) e)) = find (\<lambda>a. eid a = i) (flat [e])"
    by (auto simp: prepend_all_def flat_Cons find_append find_none)
qed

lemma line_shown_prepend:
  "line_shown fs (edit_first ''logList'' (prepend_all (map log_line xs)) d) item = line_shown fs d item"
proof -
  have "fst (line_kind item) \<noteq> ''''" by (simp add: line_kind_def)
  then show ?thesis by (simp add: line_shown_def first_el_prepend_lines)
qed

lemma show_lines:
  assumes "\<forall>item \<in> set items. readable (filterArray c) d item"
  shows "forEach items show_line (c\<lparr>body := edit_first ''logList'' (prepend_all (map log_line xs)) d\<rparr>)
    = (None, c\<lparr>body := edit_first ''logList'' (prepend_all (map log_line
         (rev (filter (passes (filterArray c) d) items) @ xs))) d\<rparr>)"
  using assms
proof (induction items arbitrary: xs)
  case (Cons item items)
  let ?c = "c\<lparr>body := edit_first ''logList'' (prepend_all (map log_line xs)) d\<rparr>"
  have "show_line item ?c = (None, if passes (filterArray c) d item
      then c\<lparr>body := edit_first ''logList'' (prepend_all (map log_line (item # xs))) d\<rparr> else ?c)"
    using Cons.prems
    by (auto simp: show_line_def passes_def readable_def line_shown_prepend on_body_def prepend_prepend)
  then show ?case using Cons.IH [of xs] Cons.IH [of "item # xs"] Cons.prems by simp
qed simp

text \<open>
  C28. The filtered log: when the log arrives and every line of it can be classified, exactly the lines
  that pass the filters are added to the log, the last one on top and above what was shown,
  each without the characters that open or close a tag.
\<close>

theorem log_shows_filtered:
  assumes "\<forall>item \<in> set (split_lines d). readable (filterArray c) (body c) item"
    and "shown = rev (filter (passes (filterArray c) (body c)) (split_lines d))"
  shows "log_arrived d c = (None, on_body (edit_first ''logList'' (prepend_all (map log_line shown))) c)
    \<and> (\<forall>x \<in> set (map log_line shown). CHR ''<'' \<notin> set (own_text (at x)) \<and> CHR ''>'' \<notin> set (own_text (at x)))"
proof -
  have "log_arrived d c = (None, c\<lparr>body := edit_first ''logList'' (prepend_all (map log_line shown)) (body c)\<rparr>)"
    using show_lines [OF assms(1), of "[]"] unfolding assms(2) by (simp add: log_arrived_def prepend_nothing)
  moreover have "CHR ''<'' \<notin> set (own_text (at x)) \<and> CHR ''>'' \<notin> set (own_text (at x))"
    if "x \<in> set (map log_line shown)" for x
  proof -
    from that obtain item where "own_text (at x) = strip_angles item" by (auto simp: log_line_def leaf_def)
    then show ?thesis by (simp only: strip_angles_safe not_False_eq_True simp_thms)
  qed
  ultimately show ?thesis by (simp add: on_body_def)
qed

lemma passes_prepend:
  "passes fs (edit_first ''logList'' (prepend_all (map log_line xs)) d) = passes fs d"
  "readable fs (edit_first ''logList'' (prepend_all (map log_line xs)) d) = readable fs d"
  by (simp_all add: passes_def readable_def line_shown_prepend fun_eq_iff)

text \<open>
  Overlapping requests for the log: when two requests are answered one after the other, each
  having emptied the list only when it was sent, every line that passes the filters is in the
  list twice.
\<close>

theorem log_shown_twice:
  assumes "\<forall>item \<in> set (split_lines d). readable (filterArray c) (body c) item"
    and "shown = rev (filter (passes (filterArray c) (body c)) (split_lines d))"
  shows "andThen (log_arrived d) (log_arrived d) c
    = (None, on_body (edit_first ''logList'' (prepend_all (map log_line (shown @ shown)))) c)"
proof -
  let ?c = "c\<lparr>body := edit_first ''logList'' (prepend_all (map log_line shown)) (body c)\<rparr>"
  have one: "log_arrived d c = (None, ?c)"
    using show_lines [OF assms(1), of "[]"] unfolding assms(2) by (simp add: log_arrived_def prepend_nothing)
  have "log_arrived d ?c = (None, c\<lparr>body := edit_first ''logList'' (prepend_all (map log_line (shown @ shown))) (body c)\<rparr>)"
    using show_lines [OF assms(1), of shown] unfolding assms(2) by (simp add: log_arrived_def)
  then show ?thesis using one by (simp add: andThen_def on_body_def)
qed

end
