(* ===== verification/Control_Samples.thy ===== *)
theory Control_Samples
  imports Control_Lists
begin

text \<open>
  A control page with two nodes: the theorems about the control page at work on it, and what the
  page does in situations its code does not foresee.
\<close>

section \<open>The page\<close>

definition box :: "string \<Rightarrow> el" where
  "box i = El (leaf i [] '''') []"

definition tree_node :: "string \<Rightarrow> el" where
  "tree_node key = El (leaf key [''jstree-node''] '''') [box (key @ ''_anchor'')]"

definition sample_body :: "el list" where
  "sample_body = tree_node ''j1_1'' # tree_node ''j1_2'' #
     map box [''lock'', ''LockStatusText'', ''wholocked'', ''name'', ''detailPage'', ''detailPage3'',
       ''stateButtonsDiv'', ''iframesector'', ''childlist'', ''logList'', ''logShow'',
       ''configMenu'', ''configMenuStart'', ''filters'', ''filters2'']"

definition sample_nodes :: "(string \<times> info) list" where
  "sample_nodes =
    [(''j1_1'', \<lparr>i_name = ''Root'', i_state = Several [''running'', ''ready''], inconsistent = False, included = True\<rparr>),
     (''j1_2'', \<lparr>i_name = ''unit01'', i_state = One ''ready'', inconsistent = True, included = False\<rparr>)]"

definition sample_tree :: json where
  "sample_tree = JArr [JObj [(''text'', JStr ''Root''),
     (''children'', JArr [JObj [(''text'', JStr ''unit01'')]])]]"

definition sample_rules :: "(string \<times> string list) list" where
  "sample_rules = [(''running'', [''stop'', ''pause'']), (''ready'', [''start'', ''stop''])]"

definition sample_ctl :: ctl where
  "sample_ctl = \<lparr>idList = sample_nodes, fsmrules = sample_rules,
     grafanarules = [(''Root'', \<lparr>kibana = Some ''log'', grafana = [''plot'']\<rparr>)],
     ownerFlag = 0, mainJson = sample_tree, node = None, selected = Some (''j1_1'', ''Root''),
     body = sample_body, icons = [], state_text = '''', cursor = '''', requests = [],
     session = \<lparr>ss_checked = None, ss_unchecked = None, ss_node = None, ss_log = None\<rparr>,
     logcolor = None, filterArray = [], logHeight = ''0px'', alerts = []\<rparr>"

definition sample_R :: ctl_env where
  "sample_R = \<lparr>returnIcon = (\<lambda>st. ''green.png''), usr = ''alice'', currConfigFile = ''run.a''\<rparr>"

lemma sample_simps [simp]:
  "idList sample_ctl = sample_nodes" "body sample_ctl = sample_body" "ownerFlag sample_ctl = 0"
  by (simp_all add: sample_ctl_def)

section \<open>Witnesses\<close>

theorem inconsistency_badges_witness:
  "count_id ''unit01_inconsistent'' (body (inconsistencyChecker sample_ctl)) = 1
   \<and> count_id ''Root_inconsistent'' (body (inconsistencyChecker sample_ctl)) = 0"
proof -
  have ok: "badges_ok (idList sample_ctl) (body sample_ctl)"
    unfolding badges_ok_def badge_ids_of_def by code_simp
  have d: "distinct (map (i_name \<circ> snd) (idList sample_ctl))" by code_simp
  have p: "present (''j1_2'' @ ''_anchor'') sample_body" by code_simp
  show ?thesis using inconsistency_badges [OF ok d] p
    by (auto simp: sample_nodes_def shown_badges_def)
qed

theorem checkboxes_toggle_witness:
  "\<exists>a. first_el ''j1_2_Checkbox'' (body (includeChecker sample_ctl)) = Some a
     \<and> \<not> checked a \<and> clicks a = [Send_Include ''unit01'']"
proof -
  have ok: "checkboxes_ok (idList sample_ctl) (body sample_ctl)" by code_simp
  have r: "rendered ''j1_2'' (body sample_ctl)" by code_simp
  have m: "(''j1_2'', snd (sample_nodes ! 1)) \<in> set (idList sample_ctl)" by (simp add: sample_nodes_def)
  show ?thesis using checkboxes_toggle [OF ok m r]
    by (simp add: checkbox_right_def toggle_action_def sample_nodes_def checkbox_id_def)
qed

definition sample_states :: "(string \<times> status) list" where
  "sample_states = [(''Root'', One ''running'', False, True), (''unit01'', One ''running'', False, True)]"

theorem lock_follows_owner_witness:
  "lock_ok (snd (states_arrived sample_R (Some ''alice'') sample_states sample_ctl))
   \<and> ownerFlag (snd (states_arrived sample_R (Some ''alice'') sample_states sample_ctl)) = 1"
proof -
  let ?c = "sample_ctl\<lparr>ownerFlag := 1\<rparr>"
  let ?nodes = "map (with_status sample_states) sample_nodes"
  have u: "update_states sample_states ?c = (None, ?c\<lparr>idList := ?nodes\<rparr>)"
    unfolding update_states_result by (auto simp: sample_nodes_def sample_states_def known_def)
  have "fst (changed sample_R (?c\<lparr>idList := ?nodes\<rparr>)) = None"
    by (rule changed_total [where i = "''j1_1''" and t = "''Root''" and v = "snd (?nodes ! 0)"
          and xs = "[JObj [(''text'', JStr ''unit01'')]]" and ts = "[NTree ''unit01'' None]"])
      (simp_all add: sample_ctl_def sample_nodes_def sample_states_def with_status_def part_json_def
        sample_tree_def is_object_def eq_str_def own_children_def obj_get_def named_def node_of_def)
  with u have "fst (states_arrived sample_R (Some ''alice'') sample_states sample_ctl) = None"
    by (auto simp: states_arrived_def js_defs sample_R_def split: prod.split option.split)
  then have "states_arrived sample_R (Some ''alice'') sample_states sample_ctl
      = (None, snd (states_arrived sample_R (Some ''alice'') sample_states sample_ctl))"
    by (metis prod.collapse)
  from lock_follows_owner [OF this] show ?thesis by (simp add: sample_R_def)
qed

text \<open>The node with two states offers three commands, and its button area gets three buttons.\<close>

theorem state_buttons_result_witness:
  "view (state_buttons sample_rules (Several [''running'', ''ready'']) sample_body)
     = view (jq_empty ''stateButtonsDiv'' (jq_all is_control (\<lambda>a. a\<lparr>clicks := []\<rparr>) sample_body))
       + {#command_button ''stop'', command_button ''pause'', command_button ''start''#}"
proof -
  let ?d0 = "jq_empty ''stateButtonsDiv'' (jq_all is_control (\<lambda>a. a\<lparr>clicks := []\<rparr>) sample_body)"
  have ids: "el_ids ?d0 = el_ids sample_body" by code_simp
  have p: "present ''stateButtonsDiv'' ?d0" unfolding present_def ids by code_simp
  have "\<not> present (v @ ''_button'') ?d0" for v
  proof
    assume "present (v @ ''_button'') ?d0"
    then have "(take 7 \<circ> rev) (v @ ''_button'') \<in> (take 7 \<circ> rev) ` set (el_ids sample_body)"
      unfolding present_def ids by (rule imageI)
    then have "''nottub_'' \<in> set (map (take 7 \<circ> rev) (el_ids sample_body))" by simp
    moreover have "''nottub_'' \<notin> set (map (take 7 \<circ> rev) (el_ids sample_body))" by code_simp
    ultimately show False by simp
  qed
  then have n: "\<forall>v. \<not> present (v @ ''_button'') ?d0" by blast
  have "fsm_values sample_rules (Several [''running'', ''ready'']) = [''stop'', ''pause'', ''start'']"
    by code_simp
  then show ?thesis
    using state_buttons_result [OF refl p n, of sample_rules "Several [''running'', ''ready'']"]
    by (simp add: add_mset_commute)
qed

lemma objects_sample:
  "objects sample_tree = {[(''text'', JStr ''Root''), (''children'', JArr [JObj [(''text'', JStr ''unit01'')]])],
     [(''text'', JStr ''unit01'')]}"
  by (auto simp: sample_tree_def)

theorem search_finds_object_witness:
  "part_json sample_tree ''Root'' = Some (JArr [JObj [(''text'', JStr ''unit01'')]])"
proof -
  have "{ps \<in> objects sample_tree. has_text ''Root'' ps}
      = {[(''text'', JStr ''Root''), (''children'', JArr [JObj [(''text'', JStr ''unit01'')]])]}"
    unfolding objects_sample by (auto simp: has_text_def is_object_def eq_str_def)
  then show ?thesis using search_finds_object [of sample_tree "''Root''"] by (simp add: obj_get_def)
qed

theorem children_listed_witness:
  "\<exists>d. childrenTree [JObj [(''text'', JStr ''unit01'')]] ''childlist'' sample_ctl
       = (None, sample_ctl\<lparr>body := d\<rparr>)
     \<and> view d = view sample_body + {#at (child_item ''unit01'' (One ''ready''))#}"
proof -
  have r: "represents [NTree ''unit01'' None] [JObj [(''text'', JStr ''unit01'')]]"
    by (simp add: named_def obj_get_def own_children_def)
  have p: "present ''childlist'' (body sample_ctl)" by code_simp
  let ?st = "\<lambda>n. if n = ''Root'' then Several [''running'', ''ready''] else One ''ready''"
  have "distinct (map fst (idList sample_ctl))" "distinct (map (i_name \<circ> snd) (idList sample_ctl))"
      "tree_names [NTree ''unit01'' None] \<subseteq> (i_name \<circ> snd) ` set (idList sample_ctl)"
      "\<forall>(key, v) \<in> set (idList sample_ctl). ?st (i_name v) = i_state v"
    by (simp_all add: sample_nodes_def)
  from children_listed [OF r p this] show ?thesis by simp
qed

text \<open>A page whose filters let the messages of one configuration through, and a log of three lines.\<close>

definition filter_page :: ctl where
  "filter_page = sample_ctl\<lparr>body := [box ''logList'', filter_box ''filterinfo'' True,
     filter_box ''filterwarning'' False], filterArray := [''filterinfo'', ''c_runa'']\<rparr>"

definition sample_log :: string where
  "sample_log = ''[run.a] INFO: <b>start'' @ CHR 0x0A # ''[other] INFO: stop'' @ CHR 0x0A # ''WARNING: no source''"

lemma sample_log_lines:
  "\<forall>item \<in> set (split_lines sample_log). readable (filterArray filter_page) (body filter_page) item"
  "filter (passes (filterArray filter_page) (body filter_page)) (split_lines sample_log)
     = [''[run.a] INFO: <b>start'']"
proof -
  have "line_shown (filterArray filter_page) (body filter_page) ''[run.a] INFO: <b>start'' = Inr True"
    "line_shown (filterArray filter_page) (body filter_page) ''[other] INFO: stop'' = Inr False"
    "line_shown (filterArray filter_page) (body filter_page) ''WARNING: no source'' = Inr False"
    by code_simp+
  moreover have "split_lines sample_log = [''[run.a] INFO: <b>start'', ''[other] INFO: stop'', ''WARNING: no source'']"
    by code_simp
  ultimately show "\<forall>item \<in> set (split_lines sample_log). readable (filterArray filter_page) (body filter_page) item"
      "filter (passes (filterArray filter_page) (body filter_page)) (split_lines sample_log)
     = [''[run.a] INFO: <b>start'']"
    by (auto simp: readable_def passes_def)
qed

theorem log_shows_filtered_witness:
  "log_arrived sample_log filter_page =
     (None, on_body (edit_first ''logList'' (prepend_all [log_line ''[run.a] INFO: <b>start''])) filter_page)"
  using log_shows_filtered [OF sample_log_lines(1) refl] sample_log_lines(2) by simp

theorem log_shown_twice_witness:
  "andThen (log_arrived sample_log) (log_arrived sample_log) filter_page =
     (None, on_body (edit_first ''logList'' (prepend_all
        [log_line ''[run.a] INFO: <b>start'', log_line ''[run.a] INFO: <b>start''])) filter_page)"
  using log_shown_twice [OF sample_log_lines(1) refl] sample_log_lines(2) by simp

section \<open>Situations the code does not foresee\<close>

text \<open>
  The checkboxes created when the tree has loaded are enabled for a user who is not in control: no
  \<open>redrawLock\<close> follows \<open>includeChecker\<close>, and the same holds in the change handler.
\<close>

theorem new_checkbox_enabled:
  "map_option (\<lambda>a. (disabled a, clicks a))
     (first_el ''j1_1_Checkbox'' (body (loaded [(''j1_1'', ''Root'')] (sample_ctl\<lparr>idList := []\<rparr>))))
   = Some (False, [Send_Exclude ''Root''])"
  by code_simp

text \<open>
  Every change event writes the line with the \<open>Node log\<close> button anew, but attaches its handler only
  when the node is another one: after the first refresh of the same node the button does nothing.
\<close>

theorem node_log_handler_lost:
  "map_option clicks (first_el ''kibana'' (name_line ''Root''
      (show_links (grafanarules sample_ctl) ''Root'' (name_line ''Root'' sample_body)))) = Some []"
  by code_simp

text \<open>
  Boxes that were unchecked when the page was left are not unchecked when it is loaded again: the
  box of the INFO messages is checked by default and stays so.
\<close>

theorem unchecked_filters_not_restored:
  "map_option checked (first_el ''filterinfo'' (body (restore_filters
     (filter_page\<lparr>session := \<lparr>ss_checked = Some [''filterwarning''], ss_unchecked = Some [''filterinfo''],
        ss_node = None, ss_log = None\<rparr>\<rparr>)))) = Some True"
  by code_simp

text \<open>The radio buttons of the log level have no effect on new messages.\<close>

theorem log_level_ignored: "logChng radio d c = logChng radio' d c"
  by (simp add: logChng_def)

text \<open>A warning that mentions INFO is filtered and shown as an information.\<close>

theorem warning_shown_as_info:
  "line_kind ''[run.a] WARNING: no INFO file'' = (''filterinfo'', ''bg-info'')"
  by code_simp

end
