(* ===== verification/Grid_Order.thy ===== *)
theory Grid_Order
  imports Js_Prelude
begin

text \<open>
  The \<open>Utils\<close> class of \<open>jquery.gridstrap.js\<close>, the grid plugin the control page loads: the moves
  of an element among its siblings, \<open>Debounce\<close> and \<open>Limit\<close>, the offsets of a dragged element.

  Elements are numbers. The elements whose order matters are the children of the grid's element
  and those of the container of the visible cells; a document is the two lists. jQuery's
  \<open>next\<close>, \<open>prev\<close>, \<open>index\<close>, \<open>detach\<close>, \<open>before\<close>, \<open>after\<close>, \<open>prepend\<close> and \<open>append\<close> act on the
  list that holds the element. The lemmas give the two moves by their effect on the list:
  \<open>SwapJQueryElements\<close> exchanges two elements and leaves all others where they are, and
  \<open>DetachAndInsertInPlaceJQueryElement\<close> puts an element at the index another one has.
\<close>

section \<open>Elements among their siblings\<close>

datatype place = In_Element | In_Container

type_synonym siblings = "place \<Rightarrow> nat list"

text \<open>jQuery \<open>next()\<close>, \<open>prev()\<close> and \<open>index()\<close> on a list of siblings.\<close>

fun next_in :: "nat \<Rightarrow> nat list \<Rightarrow> nat option" where
  "next_in e [] = None"
| "next_in e (x # xs) = (if x = e then (case xs of [] \<Rightarrow> None | y # _ \<Rightarrow> Some y) else next_in e xs)"

definition prev_in :: "nat \<Rightarrow> nat list \<Rightarrow> nat option" where
  "prev_in e xs = next_in e (rev xs)"

fun index_in :: "nat \<Rightarrow> nat list \<Rightarrow> nat" where
  "index_in e [] = 0"
| "index_in e (x # xs) = (if x = e then 0 else Suc (index_in e xs))"

text \<open>jQuery \<open>before\<close> and \<open>after\<close>; a list without the reference element stays as it is.\<close>

fun ins_before :: "nat \<Rightarrow> nat \<Rightarrow> nat list \<Rightarrow> nat list" where
  "ins_before r x [] = []"
| "ins_before r x (y # ys) = (if y = r then x # y # ys else y # ins_before r x ys)"

fun ins_after :: "nat \<Rightarrow> nat \<Rightarrow> nat list \<Rightarrow> nat list" where
  "ins_after r x [] = []"
| "ins_after r x (y # ys) = (if y = r then y # x # ys else y # ins_after r x ys)"

definition parent_of :: "siblings \<Rightarrow> nat \<Rightarrow> place option" where
  "parent_of d e =
     (if e \<in> set (d In_Container) then Some In_Container
      else if e \<in> set (d In_Element) then Some In_Element else None)"

definition detach :: "nat \<Rightarrow> siblings \<Rightarrow> siblings" where
  "detach e d = (\<lambda>p. removeAll e (d p))"

definition next_of :: "siblings \<Rightarrow> nat \<Rightarrow> nat option" where
  "next_of d e = Option.bind (parent_of d e) (\<lambda>p. next_in e (d p))"

definition prev_of :: "siblings \<Rightarrow> nat \<Rightarrow> nat option" where
  "prev_of d e = Option.bind (parent_of d e) (\<lambda>p. prev_in e (d p))"

section \<open>The two moves\<close>

text \<open>
  \<open>getInPlaceFunction\<close> of \<open>SwapJQueryElements\<close> returns a closure that puts a new element where
  the given one was; a spot is what the closure captured.
\<close>

datatype spot = Before nat | After nat | Prepend "place option" | Append "place option"

definition getInPlaceFunction :: "nat \<Rightarrow> nat \<Rightarrow> siblings \<Rightarrow> nat \<Rightarrow> spot" where
  "getInPlaceFunction a b d e =
     (let other = (if e = a then b else a) in
      case next_of d e of
        Some n \<Rightarrow>
          if n \<noteq> other then Before n
          else (case prev_of d e of
                  Some p \<Rightarrow> if p \<noteq> other then After p else Prepend (parent_of d e)
                | None \<Rightarrow> Prepend (parent_of d e))
      | None \<Rightarrow>
          (case prev_of d e of
             Some p \<Rightarrow> if p \<noteq> other then After p else Append (parent_of d e)
           | None \<Rightarrow> Append (parent_of d e)))"

fun put :: "spot \<Rightarrow> nat \<Rightarrow> siblings \<Rightarrow> siblings" where
  "put (Before n) x d = (\<lambda>p. ins_before n x (d p))"
| "put (After n) x d = (\<lambda>p. ins_after n x (d p))"
| "put (Prepend (Some q)) x d = d(q := x # d q)"
| "put (Append (Some q)) x d = d(q := d q @ [x])"
| "put (Prepend None) x d = d"
| "put (Append None) x d = d"

definition swapJQueryElements :: "nat \<Rightarrow> nat \<Rightarrow> siblings \<Rightarrow> siblings" where
  "swapJQueryElements a b d =
     (let aSpot = getInPlaceFunction a b d a;
          bSpot = getInPlaceFunction a b d b
      in put aSpot b (put bSpot a (detach b (detach a d))))"

definition sibling_index :: "siblings \<Rightarrow> nat \<Rightarrow> int" where
  "sibling_index d e = (case parent_of d e of Some p \<Rightarrow> int (index_in e (d p)) | None \<Rightarrow> -1)"

definition detachAndInsertInPlace :: "nat \<Rightarrow> nat \<Rightarrow> siblings \<Rightarrow> siblings" where
  "detachAndInsertInPlace x r d =
     (let inPlaceElementIndex = sibling_index d r;
          detachElementIndex = sibling_index d x
      in if inPlaceElementIndex < detachElementIndex
         then put (Before r) x (detach x d)
         else put (After r) x (detach x d))"

section \<open>Lists of siblings\<close>

lemma next_in_append:
  "e \<notin> set xs \<Longrightarrow> next_in e (xs @ e # ys) = (case ys of [] \<Rightarrow> None | y # _ \<Rightarrow> Some y)"
  by (induction xs) auto

lemma prev_in_append:
  "e \<notin> set ys \<Longrightarrow> prev_in e (xs @ e # ys) = (if xs = [] then None else Some (last xs))"
  by (cases xs rule: rev_cases) (simp_all add: prev_in_def next_in_append)

lemma next_in_mem: "next_in e xs = Some y \<Longrightarrow> y \<in> set xs"
  by (induction xs) (auto split: if_splits list.splits)

lemma ins_before_append:
  "r \<notin> set xs \<Longrightarrow> ins_before r x (xs @ r # ys) = xs @ x # r # ys"
  by (induction xs) auto

lemma ins_after_append:
  "r \<notin> set xs \<Longrightarrow> ins_after r x (xs @ r # ys) = xs @ r # x # ys"
  by (induction xs) auto

lemma ins_before_absent [simp]: "r \<notin> set xs \<Longrightarrow> ins_before r x xs = xs"
  by (induction xs) auto

lemma ins_after_absent [simp]: "r \<notin> set xs \<Longrightarrow> ins_after r x xs = xs"
  by (induction xs) auto

lemma index_in_append: "e \<notin> set xs \<Longrightarrow> index_in e (xs @ e # ys) = length xs"
  by (induction xs) auto

lemma set_ins_before: "set (ins_before r x xs) = (if r \<in> set xs then insert x (set xs) else set xs)"
  by (induction xs) auto

lemma set_ins_after: "set (ins_after r x xs) = (if r \<in> set xs then insert x (set xs) else set xs)"
  by (induction xs) auto

lemma distinct_ins_before: "distinct xs \<Longrightarrow> x \<notin> set xs \<Longrightarrow> distinct (ins_before r x xs)"
  by (induction xs) (auto simp: set_ins_before)

lemma distinct_ins_after: "distinct xs \<Longrightarrow> x \<notin> set xs \<Longrightarrow> distinct (ins_after r x xs)"
  by (induction xs) (auto simp: set_ins_after)

lemma removeAll_absent [simp]: "x \<notin> set xs \<Longrightarrow> removeAll x xs = xs"
  by (rule removeAll_id)

section \<open>The moves by their effect\<close>

text \<open>Documents in which an element has one place.\<close>

definition proper :: "siblings \<Rightarrow> bool" where
  "proper d \<longleftrightarrow> distinct (d In_Element) \<and> distinct (d In_Container) \<and>
     set (d In_Element) \<inter> set (d In_Container) = {}"

lemma proper_distinct: "proper d \<Longrightarrow> distinct (d p)"
  by (cases p) (simp_all add: proper_def)

lemma proper_elsewhere: "proper d \<Longrightarrow> e \<in> set (d p) \<Longrightarrow> q \<noteq> p \<Longrightarrow> e \<notin> set (d q)"
  by (cases p; cases q) (auto simp: proper_def)

lemma parent_of_in: "proper d \<Longrightarrow> e \<in> set (d p) \<Longrightarrow> parent_of d e = Some p"
  by (cases p) (auto simp: proper_def parent_of_def)

lemma next_of_in: "proper d \<Longrightarrow> e \<in> set (d p) \<Longrightarrow> next_of d e = next_in e (d p)"
  by (simp add: next_of_def parent_of_in)

lemma prev_of_in: "proper d \<Longrightarrow> e \<in> set (d p) \<Longrightarrow> prev_of d e = prev_in e (d p)"
  by (simp add: prev_of_def parent_of_in)

lemma proper_detach: "proper d \<Longrightarrow> proper (detach e d)"
  by (auto simp: proper_def detach_def distinct_removeAll)

text \<open>The spots of two elements, the one that comes first and the one that comes second.\<close>

lemma spot_first:
  assumes d: "proper d" and l: "d p = xs @ e # ys @ f # zs" and ef: "{e, f} = {a, b}" "a \<noteq> b"
  shows "getInPlaceFunction a b d e =
           (if ys \<noteq> [] then Before (hd ys) else if xs \<noteq> [] then After (last xs) else Prepend (Some p))"
proof -
  have dist: "distinct (xs @ e # ys @ f # zs)" using proper_distinct [OF d, of p] l by simp
  have other: "(if e = a then b else a) = f" using ef by (auto simp: doubleton_eq_iff)
  have n: "next_of d e = Some (hd (ys @ [f]))"
    using dist l by (simp add: next_of_in [OF d, of e p] next_in_append split: list.splits)
      (cases ys; simp)
  have p: "prev_of d e = (if xs = [] then None else Some (last xs))"
    using dist l by (simp add: prev_of_in [OF d, of e p] prev_in_append)
  have ne: "ys \<noteq> [] \<Longrightarrow> hd ys \<noteq> f" "xs \<noteq> [] \<Longrightarrow> last xs \<noteq> f"
    using dist by (cases ys; auto)+
  show ?thesis
    unfolding getInPlaceFunction_def Let_def other n p
    using ne by (cases ys) (auto simp: parent_of_in [OF d, of e p] l)
qed

lemma spot_second:
  assumes d: "proper d" and l: "d p = xs @ e # ys @ f # zs" and ef: "{e, f} = {a, b}" "a \<noteq> b"
  shows "getInPlaceFunction a b d f =
           (if zs \<noteq> [] then Before (hd zs) else if ys \<noteq> [] then After (last ys) else Append (Some p))"
proof -
  have dist: "distinct (xs @ e # ys @ f # zs)" using proper_distinct [OF d, of p] l by simp
  have l2: "d p = (xs @ e # ys) @ f # zs" using l by simp
  have other: "(if f = a then b else a) = e" using ef by (auto simp: doubleton_eq_iff)
  have n: "next_of d f = (case zs of [] \<Rightarrow> None | z # _ \<Rightarrow> Some z)"
    using dist l2 next_in_append [of f "xs @ e # ys" zs] by (simp add: next_of_in [OF d, of f p])
  have p: "prev_of d f = Some (last (e # ys))"
    using dist l2 prev_in_append [of f zs "xs @ e # ys"] by (simp add: prev_of_in [OF d, of f p])
  have ne: "ys \<noteq> [] \<Longrightarrow> last ys \<noteq> e" "zs \<noteq> [] \<Longrightarrow> hd zs \<noteq> e"
    using dist by (cases ys; cases zs; auto)+
  show ?thesis
    unfolding getInPlaceFunction_def Let_def other n p
    using ne by (cases zs) (auto simp: parent_of_in [OF d, of f p] l)
qed

lemma detach_two:
  assumes d: "proper d" and l: "d p = xs @ e # ys @ f # zs"
  shows "detach f (detach e d) = d(p := xs @ ys @ zs)" "detach e (detach f d) = d(p := xs @ ys @ zs)"
proof -
  have dist: "distinct (xs @ e # ys @ f # zs)" using proper_distinct [OF d, of p] l by simp
  have q: "e \<notin> set (d q)" "f \<notin> set (d q)" if "q \<noteq> p" for q
    using proper_elsewhere [OF d, of _ p q] l that by auto
  show "detach f (detach e d) = d(p := xs @ ys @ zs)"
    "detach e (detach f d) = d(p := xs @ ys @ zs)"
    using dist by (auto simp: detach_def fun_eq_iff l q)
qed

text \<open>Where the spots put the two elements, in either order.\<close>

lemma put_at:
  assumes e: "\<And>q. q \<noteq> p \<Longrightarrow> r \<notin> set (d q)" and l: "d p = xs @ r # ys" and r: "r \<notin> set xs"
  shows "put (Before r) x d = d(p := xs @ x # r # ys)" "put (After r) x d = d(p := xs @ r # x # ys)"
  using assms by (auto simp: fun_eq_iff ins_before_append ins_after_append)

lemma put_spots:
  assumes d: "proper d" and l: "d p = xs @ e # ys @ f # zs"
  defines "one \<equiv> (if ys \<noteq> [] then Before (hd ys) else if xs \<noteq> [] then After (last xs)
                  else Prepend (Some p))"
    and "two \<equiv> (if zs \<noteq> [] then Before (hd zs) else if ys \<noteq> [] then After (last ys)
                else Append (Some p))"
  shows "put one f (put two e (d(p := xs @ ys @ zs))) = d(p := xs @ f # ys @ e # zs)"
    and "put two e (put one f (d(p := xs @ ys @ zs))) = d(p := xs @ f # ys @ e # zs)"
proof -
  let ?D = "d(p := xs @ ys @ zs)"
  have dist: "distinct (xs @ e # ys @ f # zs)" using proper_distinct [OF d, of p] l by simp
  have q: "r \<notin> set (d q)" if "q \<noteq> p" "r \<in> set xs \<union> set ys \<union> set zs" for q r
    using proper_elsewhere [OF d, of r p q] l that by auto
  have one: "put one f (d(p := xs @ ys @ us)) = d(p := xs @ f # ys @ us)"
    if us: "set us \<subseteq> insert e (set zs)" for us
  proof (cases ys)
    case (Cons y ys')
    show ?thesis using dist q [of _ y] Cons put_at [of p y "d(p := xs @ ys @ us)" xs "ys' @ us" f]
      by (simp add: one_def)
  next
    case Nil
    show ?thesis
    proof (cases xs rule: rev_cases)
      case (snoc xs' x)
      show ?thesis using dist q [of _ x] Nil snoc put_at [of p x "d(p := xs @ ys @ us)" xs' us f]
        by (simp add: one_def)
    qed (simp add: one_def Nil)
  qed
  have two: "put two e (d(p := us @ ys @ zs)) = d(p := us @ ys @ e # zs)"
    if us: "set us \<subseteq> insert f (set xs)" for us
  proof (cases zs)
    case (Cons z zs')
    have "z \<notin> set us \<union> set ys" using dist us Cons by auto
    then show ?thesis
      using q [of _ z] Cons put_at [of p z "d(p := us @ ys @ zs)" "us @ ys" zs' e]
      by (simp add: two_def)
  next
    case Nil
    show ?thesis
    proof (cases ys rule: rev_cases)
      case (snoc ys' y)
      have "y \<notin> set us \<union> set ys'" using dist us snoc by auto
      then show ?thesis
        using q [of _ y] Nil snoc put_at [of p y "d(p := us @ ys @ zs)" "us @ ys'" "[]" e]
        by (simp add: two_def)
    qed (simp add: two_def Nil)
  qed
  show "put one f (put two e ?D) = d(p := xs @ f # ys @ e # zs)"
    using one [of "e # zs"] by (simp add: two [of xs] subset_insertI)
  show "put two e (put one f ?D) = d(p := xs @ f # ys @ e # zs)"
    using two [of "xs @ [f]"] by (simp add: one [of zs] subset_insertI)
qed

definition exchange :: "nat \<Rightarrow> nat \<Rightarrow> nat \<Rightarrow> nat" where
  "exchange a b x = (if x = a then b else if x = b then a else x)"

lemma map_exchange:
  assumes "distinct (xs @ e # ys @ f # zs)" "{e, f} = {a, b}"
  shows "map (exchange a b) (xs @ e # ys @ f # zs) = xs @ f # ys @ e # zs"
proof -
  have "map (exchange a b) us = us" if "a \<notin> set us" "b \<notin> set us" for us
    using that by (induction us) (auto simp: exchange_def)
  then show ?thesis using assms by (auto simp: exchange_def doubleton_eq_iff)
qed

lemma two_positions:
  assumes "a \<in> set l" "b \<in> set l" "a \<noteq> b"
  obtains xs ys zs e f where "l = xs @ e # ys @ f # zs" "{e, f} = {a, b}"
proof -
  obtain us vs where u: "l = us @ a # vs" using split_list [OF assms(1)] by auto
  show ?thesis
  proof (cases "b \<in> set us")
    case True
    then obtain us1 us2 where "us = us1 @ b # us2" using split_list [of b us] by auto
    then show ?thesis using u that [of us1 b us2 a vs] by auto
  next
    case False
    then obtain vs1 vs2 where "vs = vs1 @ b # vs2" using split_list [of b vs] u assms by auto
    then show ?thesis using u that [of us a vs1 b vs2] by auto
  qed
qed

lemma swapJQueryElements_exchange:
  assumes d: "proper d" and a: "a \<in> set (d p)" and b: "b \<in> set (d p)" and ab: "a \<noteq> b"
  shows "swapJQueryElements a b d = d(p := map (exchange a b) (d p))"
proof -
  obtain xs ys zs e f where l: "d p = xs @ e # ys @ f # zs" and ef: "{e, f} = {a, b}"
    by (rule two_positions [OF a b ab])
  have dist: "distinct (xs @ e # ys @ f # zs)" using proper_distinct [OF d, of p] l by simp
  have m: "map (exchange a b) (d p) = xs @ f # ys @ e # zs"
    using map_exchange [OF dist ef] l by simp
  note facts = spot_first [OF d l ef ab] spot_second [OF d l ef ab] detach_two [OF d l]
    put_spots [OF d l]
  consider "e = a \<and> f = b" | "e = b \<and> f = a" using ef by (auto simp: doubleton_eq_iff)
  then show ?thesis
  proof cases
    case 1
    then have e: "e = a" and f: "f = b" by simp_all
    from facts [unfolded e f] show ?thesis
      unfolding swapJQueryElements_def Let_def m e f by (simp only:)
  next
    case 2
    then have e: "e = b" and f: "f = a" by simp_all
    from facts [unfolded e f] show ?thesis
      unfolding swapJQueryElements_def Let_def m e f by (simp only:)
  qed
qed

lemma proper_map_exchange:
  assumes "proper d" "a \<in> set (d p)" "b \<in> set (d p)"
  shows "proper (d(p := map (exchange a b) (d p)))"
proof -
  have i: "inj_on (exchange a b) A" for A by (auto simp: inj_on_def exchange_def split: if_splits)
  have s: "exchange a b ` set (d p) = set (d p)"
    using assms(2,3) by (force simp: exchange_def image_iff)
  show ?thesis
    using assms(1) i s by (cases p) (simp_all add: proper_def distinct_map)
qed

text \<open>The list with \<open>x\<close> taken out and put back at index \<open>k\<close>.\<close>

definition reinsert :: "nat \<Rightarrow> nat \<Rightarrow> nat list \<Rightarrow> nat list" where
  "reinsert x k xs = take k (removeAll x xs) @ x # drop k (removeAll x xs)"

lemma set_reinsert: "x \<in> set xs \<Longrightarrow> set (reinsert x k xs) = set xs"
  using set_append [of "take k (removeAll x xs)" "drop k (removeAll x xs)"]
  by (auto simp: reinsert_def)

lemma distinct_reinsert: "distinct xs \<Longrightarrow> distinct (reinsert x k xs)"
  unfolding reinsert_def
  by (auto simp: distinct_removeAll dest: in_set_takeD in_set_dropD
        set_take_disj_set_drop_if_distinct)
     (metis disjoint_iff distinct_removeAll le_refl set_take_disj_set_drop_if_distinct)

lemma removeAll_reinsert: "removeAll x (reinsert x k xs) = removeAll x xs"
proof -
  have "removeAll x (take k (removeAll x xs)) = take k (removeAll x xs)"
    "removeAll x (drop k (removeAll x xs)) = drop k (removeAll x xs)"
    by (rule removeAll_id, auto dest: in_set_takeD in_set_dropD)+
  then show ?thesis by (simp add: reinsert_def)
qed

lemma index_reinsert:
  "k \<le> length (removeAll x xs) \<Longrightarrow> index_in x (reinsert x k xs) = k"
  by (simp add: reinsert_def index_in_append [where e = x] min_absorb2
        contra_subsetD [OF set_take_subset])

lemma detachAndInsertInPlace_reinsert:
  assumes d: "proper d" and x: "x \<in> set (d p)" and r: "r \<in> set (d p)" and xr: "x \<noteq> r"
  shows "detachAndInsertInPlace x r d = d(p := reinsert x (index_in r (d p)) (d p))"
proof -
  have dist: "distinct (d p)" using proper_distinct [OF d] .
  have q: "x \<notin> set (d q)" "r \<notin> set (d q)" if "q \<noteq> p" for q
    using proper_elsewhere [OF d x that] proper_elsewhere [OF d r that] by auto
  have idx: "sibling_index d x = int (index_in x (d p))" "sibling_index d r = int (index_in r (d p))"
    by (simp_all add: sibling_index_def parent_of_in [OF d x] parent_of_in [OF d r])
  obtain xs ys zs e f where l: "d p = xs @ e # ys @ f # zs" and ef: "{e, f} = {x, r}"
    by (rule two_positions [OF x r xr])
  have i: "index_in e (d p) = length xs" "index_in f (d p) = Suc (length xs + length ys)"
    using dist index_in_append [of e xs "ys @ f # zs"] index_in_append [of f "xs @ e # ys" zs]
    by (simp_all add: l)
  have D: "detach x d = d(p := removeAll x (d p))"
    using q by (auto simp: detach_def fun_eq_iff)
  consider "e = x \<and> f = r" | "e = r \<and> f = x" using ef by (auto simp: doubleton_eq_iff)
  then show ?thesis
  proof cases
    case 1
    then have e: "e = x" and f: "f = r" by simp_all
    have rem: "removeAll x (d p) = (xs @ ys) @ r # zs" using dist by (simp add: l e f)
    have "put (After r) x (detach x d) = d(p := (xs @ ys) @ r # x # zs)"
      unfolding D rem using dist q by (subst put_at(2) [where p = p and xs = "xs @ ys" and ys = zs])
        (simp_all add: l e f)
    then show ?thesis
      using i by (simp add: detachAndInsertInPlace_def idx e f reinsert_def rem)
  next
    case 2
    then have e: "e = r" and f: "f = x" by simp_all
    have rem: "removeAll x (d p) = xs @ r # ys @ zs" using dist by (simp add: l e f)
    have "put (Before r) x (detach x d) = d(p := xs @ x # r # ys @ zs)"
      unfolding D rem using dist q by (subst put_at(1) [where p = p and xs = xs and ys = "ys @ zs"])
        (simp_all add: l e f)
    then show ?thesis
      using i by (simp add: detachAndInsertInPlace_def idx e f reinsert_def rem)
  qed
qed

lemma reinsert_simps:
  assumes "distinct (xs @ e # ys @ f # zs)"
  shows "reinsert e (index_in f (xs @ e # ys @ f # zs)) (xs @ e # ys @ f # zs) = xs @ ys @ f # e # zs"
    "reinsert f (index_in e (xs @ e # ys @ f # zs)) (xs @ e # ys @ f # zs) = xs @ f # e # ys @ zs"
proof -
  have i: "index_in f (xs @ e # ys @ f # zs) = Suc (length xs + length ys)"
    "index_in e (xs @ e # ys @ f # zs) = length xs"
    using assms index_in_append [of f "xs @ e # ys" zs] index_in_append [of e xs "ys @ f # zs"]
    by simp_all
  have r: "removeAll e (xs @ e # ys @ f # zs) = (xs @ ys @ [f]) @ zs"
    "removeAll f (xs @ e # ys @ f # zs) = xs @ e # ys @ zs"
    using assms by simp_all
  show "reinsert e (index_in f (xs @ e # ys @ f # zs)) (xs @ e # ys @ f # zs) = xs @ ys @ f # e # zs"
    "reinsert f (index_in e (xs @ e # ys @ f # zs)) (xs @ e # ys @ f # zs) = xs @ f # e # ys @ zs"
    unfolding i reinsert_def r by simp_all
qed

end
