(* ===== verification/Grid_Timing.thy ===== *)
theory Grid_Timing
  imports Complex_Main Grid_Order
begin

text \<open>
  The rest of the \<open>Utils\<close> class of \<open>jquery.gridstrap.js\<close>: \<open>Debounce\<close> and \<open>Limit\<close>, which decide
  when the handlers of the grid run, the selector of a list of classes, touch events and the
  position of a dragged element.

  Time is the number \<open>Date.getTime()\<close> or \<open>setTimeout\<close> counts in, milliseconds. A debounced
  function is its variable \<open>timeout\<close>: the timer it names, that is the time it is due and the
  arguments it was armed with.
\<close>

section \<open>Debounce\<close>

text \<open>
  One call of the function \<open>Debounce\<close> returns, at time \<open>t\<close>: whether the callback runs at once,
  and the timer afterwards.
\<close>

definition debounce_call ::
  "int \<Rightarrow> bool \<Rightarrow> int \<Rightarrow> 'a \<Rightarrow> (int \<times> 'a) option \<Rightarrow> (int \<times> 'a) list \<times> (int \<times> 'a) option" where
  "debounce_call ms leading t args timeout =
     (let callNow = (ms = 0 \<or> leading \<and> timeout = None) in
      if callNow then ([(t, args)], None) else ([], Some (t + ms, args)))"

text \<open>\<open>later\<close>, the function the timer runs.\<close>

definition debounce_later :: "bool \<Rightarrow> int \<times> 'a \<Rightarrow> (int \<times> 'a) list" where
  "debounce_later leading p = (if leading then [] else [p])"

text \<open>
  The callbacks made for a sequence of calls: before each call the timer runs if it is due, and
  after the last one it runs when its time comes.
\<close>

fun debounced :: "int \<Rightarrow> bool \<Rightarrow> (int \<times> 'a) list \<Rightarrow> (int \<times> 'a) option \<Rightarrow> (int \<times> 'a) list" where
  "debounced ms leading [] None = []"
| "debounced ms leading [] (Some p) = debounce_later leading p"
| "debounced ms leading ((t, a) # cs) None =
     (let (run, timeout) = debounce_call ms leading t a None
      in run @ debounced ms leading cs timeout)"
| "debounced ms leading ((t, a) # cs) (Some p) =
     (if fst p \<le> t
      then (let (run, timeout) = debounce_call ms leading t a None
            in debounce_later leading p @ run @ debounced ms leading cs timeout)
      else (let (run, timeout) = debounce_call ms leading t a (Some p)
            in run @ debounced ms leading cs timeout))"

section \<open>Limit\<close>

text \<open>
  \<open>Limit\<close> runs the callback when more than \<open>ms\<close> have passed since the time in \<open>Utils.limit\<close>,
  which every grid of the page shares; before the first callback it is undefined, read as 0.
\<close>

definition limit_passes :: "int \<Rightarrow> int \<Rightarrow> int option \<Rightarrow> bool" where
  "limit_passes ms n limit = (n - (case limit of None \<Rightarrow> 0 | Some l \<Rightarrow> l) > ms)"

fun limited :: "int \<Rightarrow> int list \<Rightarrow> int option \<Rightarrow> int list" where
  "limited ms [] limit = []"
| "limited ms (n # ns) limit =
     (if limit_passes ms n limit then n # limited ms ns (Some n) else limited ms ns limit)"

section \<open>Selectors, touches and offsets\<close>

text \<open>\<open>cssClass.replace(/(^ *| +)/g, '.')\<close>.\<close>

fun dots :: "string \<Rightarrow> bool \<Rightarrow> string" where
  "dots [] after_space = []"
| "dots (c # cs) after_space =
     (if c = CHR '' '' then (if after_space then dots cs True else CHR ''.'' # dots cs True)
      else c # dots cs False)"

definition convertCssClassToJQuerySelector :: "string \<Rightarrow> string" where
  "convertCssClassToJQuerySelector cssClass = CHR ''.'' # dots cssClass True"

record mouse_point =
  pageX :: rat
  pageY :: rat
  clientX :: rat
  clientY :: rat

text \<open>\<open>ConvertTouchToMouseEvent\<close>: the coordinates of the changed touch with identifier 0.\<close>

fun touch_zero :: "(int \<times> mouse_point) list \<Rightarrow> mouse_point option" where
  "touch_zero [] = None"
| "touch_zero ((i, p) # ts) = (if i = 0 then Some p else touch_zero ts)"

definition convertTouchToMouseEvent :: "(int \<times> mouse_point) list \<Rightarrow> js_error + mouse_point" where
  "convertTouchToMouseEvent changedTouches =
     (case touch_zero changedTouches of None \<Rightarrow> Inl TypeError | Some p \<Rightarrow> Inr p)"

record position_size =
  pleft :: rat
  ptop :: rat
  pwidth :: rat
  pheight :: rat

text \<open>
  \<open>GetAbsoluteOffsetForElementFromMouseEvent\<close>: \<open>absolute\<close> is the offset of the parent less its
  position, \<open>adjustment\<close> the point of the element under the mouse.
\<close>

definition absoluteOffset :: "rat \<times> rat \<Rightarrow> mouse_point \<Rightarrow> rat \<times> rat \<Rightarrow> rat \<times> rat" where
  "absoluteOffset absolute mouseEvent adjustment =
     (pageX mouseEvent - fst absolute - fst adjustment,
      pageY mouseEvent - snd absolute - snd adjustment)"

section \<open>When the callbacks run\<close>

text \<open>The calls after which the debounced function was left alone for the delay.\<close>

definition settled :: "int \<Rightarrow> (int \<times> 'a) list \<Rightarrow> (int \<times> 'a) list" where
  "settled ms cs =
     map ((!) cs) (filter (\<lambda>i. Suc i = length cs \<or> fst (cs ! i) + ms \<le> fst (cs ! Suc i))
                          [0..<length cs])"

lemma settled_simps [simp]:
  "settled ms [] = []"
  "settled ms [c] = [c]"
  "settled ms (c # d # cs) =
     (if fst c + ms \<le> fst d then c # settled ms (d # cs) else settled ms (d # cs))"
proof -
  have u: "[0..<length (c # d # cs)] = 0 # map Suc [0..<length (d # cs)]"
    by (simp add: map_Suc_upt upt_conv_Cons del: upt_Suc)
  show "settled ms (c # d # cs) =
     (if fst c + ms \<le> fst d then c # settled ms (d # cs) else settled ms (d # cs))"
    unfolding settled_def u by (simp add: filter_map comp_def del: upt_Suc)
qed (simp_all add: settled_def)

lemma debounced_settled:
  assumes "0 < ms"
  shows "debounced ms False cs None = map (\<lambda>(t, a). (t + ms, a)) (settled ms cs)"
    and "debounced ms False cs (Some (t + ms, a)) =
           map (\<lambda>(t, a). (t + ms, a)) (settled ms ((t, a) # cs))"
proof (induction cs arbitrary: t a)
  case Nil
  show "debounced ms False [] None = map (\<lambda>(t, a). (t + ms, a)) (settled ms [])" by simp
  show "debounced ms False [] (Some (t + ms, a)) =
          map (\<lambda>(t, a). (t + ms, a)) (settled ms ((t, a) # []))" for t a
    by (simp add: debounce_later_def)
next
  case (Cons c cs)
  obtain u b where c: "c = (u, b)" by fastforce
  show "debounced ms False (c # cs) None = map (\<lambda>(t, a). (t + ms, a)) (settled ms (c # cs))"
    using assms Cons.IH(2) [of u b] by (simp add: c debounce_call_def)
  show "debounced ms False (c # cs) (Some (t + ms, a)) =
          map (\<lambda>(t, a). (t + ms, a)) (settled ms ((t, a) # c # cs))" for t a
    using assms Cons.IH(2) [of u b] by (simp add: c debounce_call_def debounce_later_def)
qed

lemma settled_at: "c \<in> set (settled ms cs) \<Longrightarrow> c \<in> set cs"
  by (auto simp: settled_def)

lemma settled_spaced:
  assumes "sorted (map fst cs)" "0 \<le> ms"
  shows "sorted_wrt (\<lambda>x y. fst x + ms \<le> fst y) (settled ms cs)"
  using assms
proof (induction cs rule: induct_list012)
  case (3 c d cs)
  have "fst c + ms \<le> fst x" if "fst c + ms \<le> fst d" "x \<in> set (settled ms (d # cs))" for x
    using settled_at [OF that(2)] that(1) 3(3) by auto
  then show ?case using 3 by auto
qed simp_all

text \<open>With \<open>leading\<close> the timer is never armed, so every call runs: nothing is debounced.\<close>

lemma debounced_leading: "debounced ms True cs None = cs"
  by (induction cs) (auto simp: debounce_call_def)

lemma limited_spaced:
  assumes "0 \<le> ms"
  shows "sorted_wrt (\<lambda>x y. x + ms < y) (limited ms ns limit) \<and>
         (\<forall>l. limit = Some l \<longrightarrow> (\<forall>n \<in> set (limited ms ns limit). l + ms < n))"
proof (induction ns arbitrary: limit)
  case (Cons n ns)
  show ?case
  proof (cases "limit_passes ms n limit")
    case True
    have "l + ms < m" if "limit = Some l" "m \<in> set (limited ms ns (Some n))" for l m
    proof -
      have "n + ms < m" using Cons [of "Some n"] that(2) by simp
      moreover have "l + ms < n" using True that(1) by (simp add: limit_passes_def)
      ultimately show ?thesis using assms by simp
    qed
    then show ?thesis using True Cons [of "Some n"] by (auto simp: limit_passes_def)
  qed (use Cons [of limit] in auto)
qed simp

lemma touch_zero_mem: "touch_zero ts = Some p \<Longrightarrow> (0, p) \<in> set ts"
  by (induction ts rule: touch_zero.induct) (auto split: if_splits)

lemma touch_zero_None: "touch_zero ts = None \<longleftrightarrow> 0 \<notin> fst ` set ts"
  by (induction ts rule: touch_zero.induct) auto

end
