(* ===== verification/Grid.thy ===== *)
theory Grid
  imports Grid_Timing
begin

text \<open>
  A grid of \<open>jquery.gridstrap.js\<close>: its state and the operations of the classes \<open>Internal\<close> and
  \<open>Methods\<close>.

  Every cell of a grid is two elements: the visible cell, positioned absolutely in a container,
  and a hidden copy of it among the children of the grid's element, whose place in the flow of
  the page says where the visible one belongs. Elements are numbers; the state holds the children
  of the grid's element and of the container, the classes, inline style and content of the
  elements, the data the plugin attaches to them, and the array of managed cells.

  What the plugin reads from the browser is a parameter: the position and size the layout gives
  an element, the page offset of an element, the element under a point (as the list of the
  element and its ancestors, innermost first) and whether a listener of the page prevents one of
  the plugin's events. Listeners only prevent, they do not change the grid. The model is one grid
  with the default cell selector (its cells are children of its element) and the default
  container parent; the HTML of a new cell is one element. Grids inside cells are left out; the
  branches for cells moved between linked grids are in \<open>Grid_Linked\<close>. The five class names are distinct.
\<close>

section \<open>State\<close>

datatype css_class = Hidden_Cell | Visible_Cell | Placeholder_Cell | Drag_Cell | Resize_Cell

datatype css_prop = Css_left | Css_top | Css_width | Css_height

record grid_options =
  draggable :: bool
  rearrangeOnDrag :: bool
  resizeHandleSelector :: bool  \<comment> \<open>whether it is set\<close>
  resizeOnDrag :: bool
  swapMode :: bool
  nonContiguousCellHtml :: "string option"
  autoPadNonContiguousCells :: bool
  dragCellHandleSelector :: "(nat \<Rightarrow> bool) option"  \<comment> \<open>the elements it matches, \<open>None\<close> for \<open>'*'\<close>\<close>
  dragMouseoverThrottle :: int

definition defaultOptions :: grid_options where
  "defaultOptions =
     \<lparr> draggable = True, rearrangeOnDrag = True, resizeHandleSelector = False,
       resizeOnDrag = True, swapMode = False, nonContiguousCellHtml = None,
       autoPadNonContiguousCells = True, dragCellHandleSelector = None,
       dragMouseoverThrottle = 150 \<rparr>"

record grid =
  options :: grid_options
  tree :: siblings
  classes :: "nat \<Rightarrow> css_class set"
  style :: "nat \<Rightarrow> css_prop \<Rightarrow> rat option"
  inner :: "nat \<Rightarrow> string"
  hiddenOf :: "nat \<Rightarrow> nat option"  \<comment> \<open>\<open>DATA_HIDDEN_CELL\<close>\<close>
  visibleOf :: "nat \<Rightarrow> nat option"  \<comment> \<open>\<open>DATA_VISIBLE_CELL\<close>\<close>
  posSize :: "nat \<Rightarrow> position_size option"  \<comment> \<open>\<open>DATA_CELL_POSITION_AND_SIZE\<close>\<close>
  downDiff :: "nat \<Rightarrow> (rat \<times> rat) option"  \<comment> \<open>\<open>DATA_MOUSEDOWN_POSITION_DIFF\<close>\<close>
  downSize :: "nat \<Rightarrow> (rat \<times> rat) option"  \<comment> \<open>\<open>DATA_MOUSEDOWN_SIZE\<close>\<close>
  cellsArray :: "nat list"
  lastTarget :: "nat option"  \<comment> \<open>\<open>LastMouseOverCellTarget\<close>\<close>
  el :: nat
  above :: "nat list"  \<comment> \<open>the ancestors of the grid's element\<close>
  gridstraps :: "nat list"  \<comment> \<open>the elements with \<open>DATA_GRIDSTRAP\<close>\<close>
  container :: nat
  limitTime :: "int option"  \<comment> \<open>\<open>Utils.limit\<close>\<close>
  nextId :: nat

datatype cell_event =
    Cell_Redraw position_size nat
  | Cell_Drag rat rat nat
  | Cell_Resize rat rat nat

record browser =
  box_of :: "grid \<Rightarrow> nat \<Rightarrow> position_size"
  page_offset :: "grid \<Rightarrow> nat \<Rightarrow> rat \<times> rat"
  element_at :: "grid \<Rightarrow> nat option \<Rightarrow> rat \<times> rat \<Rightarrow> nat list"
  prevented :: "cell_event \<Rightarrow> bool"

section \<open>Elements\<close>

definition addClass :: "nat \<Rightarrow> css_class \<Rightarrow> grid \<Rightarrow> grid" where
  "addClass e c g = g\<lparr>classes := (classes g)(e := insert c (classes g e))\<rparr>"

definition removeClass :: "nat \<Rightarrow> css_class \<Rightarrow> grid \<Rightarrow> grid" where
  "removeClass e c g = g\<lparr>classes := (classes g)(e := classes g e - {c})\<rparr>"

definition hasClass :: "grid \<Rightarrow> nat \<Rightarrow> css_class \<Rightarrow> bool" where
  "hasClass g e c = (c \<in> classes g e)"

definition set_css :: "nat \<Rightarrow> css_prop \<Rightarrow> rat \<Rightarrow> grid \<Rightarrow> grid" where
  "set_css e p n g = g\<lparr>style := (style g)(e := (style g e)(p := Some n))\<rparr>"

definition clearAbsoluteCSS :: "nat \<Rightarrow> grid \<Rightarrow> grid" where
  "clearAbsoluteCSS e g = g\<lparr>style := (style g)(e := (\<lambda>p. None))\<rparr>"

definition clearMouseDownData :: "nat option \<Rightarrow> grid \<Rightarrow> grid" where
  "clearMouseDownData e g =
     (case e of None \<Rightarrow> g
      | Some e \<Rightarrow> g\<lparr>downDiff := (downDiff g)(e := None), downSize := (downSize g)(e := None)\<rparr>)"

text \<open>A new element, not in the document yet, without data.\<close>

definition create_element ::
  "css_class set \<Rightarrow> (css_prop \<Rightarrow> rat option) \<Rightarrow> string \<Rightarrow> grid \<Rightarrow> grid" where
  "create_element cs st html g =
     (let e = nextId g in
      g\<lparr>classes := (classes g)(e := cs), style := (style g)(e := st), inner := (inner g)(e := html),
        hiddenOf := (hiddenOf g)(e := None), visibleOf := (visibleOf g)(e := None),
        posSize := (posSize g)(e := None), downDiff := (downDiff g)(e := None),
        downSize := (downSize g)(e := None), nextId := Suc e\<rparr>)"

definition put_element :: "spot \<Rightarrow> nat \<Rightarrow> grid \<Rightarrow> grid" where
  "put_element s e g = g\<lparr>tree := put s e (tree g)\<rparr>"

definition detach_element :: "nat \<Rightarrow> grid \<Rightarrow> grid" where
  "detach_element e g = g\<lparr>tree := detach e (tree g)\<rparr>"

text \<open>jQuery \<open>remove()\<close> also takes the data of the element away.\<close>

definition remove_element :: "nat \<Rightarrow> grid \<Rightarrow> grid" where
  "remove_element e g =
     (detach_element e g)\<lparr>hiddenOf := (hiddenOf g)(e := None), visibleOf := (visibleOf g)(e := None),
        posSize := (posSize g)(e := None), downDiff := (downDiff g)(e := None),
        downSize := (downSize g)(e := None)\<rparr>"

text \<open>An element and its ancestors; the elements below the grid's element in document order.\<close>

definition chain_of :: "grid \<Rightarrow> nat \<Rightarrow> nat list" where
  "chain_of g e =
     e # (case parent_of (tree g) e of
            Some In_Container \<Rightarrow> container g # el g # above g
          | Some In_Element \<Rightarrow> el g # above g
          | None \<Rightarrow> [])"

definition document_order :: "grid \<Rightarrow> nat list" where
  "document_order g =
     concat (map (\<lambda>k. if k = container g then k # tree g In_Container else [k]) (tree g In_Element))"

text \<open>jQuery \<open>eq\<close>, which counts a negative index from the end.\<close>

definition eq_at :: "nat list \<Rightarrow> int \<Rightarrow> nat option" where
  "eq_at xs i =
     (let j = (if i < 0 then i + int (length xs) else i) in
      if 0 \<le> j \<and> j < int (length xs) then Some (xs ! nat j) else None)"

section \<open>Finding cells\<close>

definition closestGridstrap :: "grid \<Rightarrow> nat list \<Rightarrow> nat option" where
  "closestGridstrap g chain = find (\<lambda>e. e \<in> set (gridstraps g)) chain"

fun index_from :: "nat \<Rightarrow> nat list \<Rightarrow> (nat \<Rightarrow> bool) \<Rightarrow> (nat \<times> nat) option" where
  "index_from i [] P = None"
| "index_from i (c # cs) P = (if P c then Some (i, c) else index_from (Suc i) cs P)"

definition getCellAndInternalIndex :: "grid \<Rightarrow> nat list \<Rightarrow> (nat \<times> nat) option" where
  "getCellAndInternalIndex g chain =
     (if chain = [] then None
      else index_from 0 (cellsArray g)
             (\<lambda>c. c \<in> set chain \<and> closestGridstrap g chain = Some (el g)))"

definition getCellOfElement :: "grid \<Rightarrow> nat list \<Rightarrow> nat option" where
  "getCellOfElement g chain = map_option snd (getCellAndInternalIndex g chain)"

definition getDraggingCell :: "grid \<Rightarrow> nat option" where
  "getDraggingCell g =
     (case find (\<lambda>c. hasClass g c Drag_Cell) (tree g In_Container) of
        None \<Rightarrow> None
      | Some c \<Rightarrow> if closestGridstrap g (chain_of g c) = Some (el g) then Some c else None)"

definition hiddenCells :: "grid \<Rightarrow> nat list" where
  "hiddenCells g =
     filter (\<lambda>h. hasClass g h Hidden_Cell \<and>
                 (case visibleOf g h of None \<Rightarrow> False | Some v \<Rightarrow> v \<in> set (cellsArray g)))
            (document_order g)"

definition getCells :: "grid \<Rightarrow> nat list" where
  "getCells g = List.map_filter (visibleOf g) (hiddenCells g)"

definition index_in_set :: "nat list \<Rightarrow> nat option \<Rightarrow> int" where
  "index_in_set xs e =
     (case e of None \<Rightarrow> -1 | Some e \<Rightarrow> if e \<in> set xs then int (index_in e xs) else -1)"

definition getCellIndexOfElement :: "grid \<Rightarrow> nat list \<Rightarrow> int" where
  "getCellIndexOfElement g chain = index_in_set (getCells g) (getCellOfElement g chain)"

definition getCellFromCoordinates :: "browser \<Rightarrow> grid \<Rightarrow> rat \<Rightarrow> rat \<Rightarrow> nat option" where
  "getCellFromCoordinates B g x y =
     map_option snd (getCellAndInternalIndex g (element_at B g None (x, y)))"

definition getCellIndexFromCoordinates :: "browser \<Rightarrow> grid \<Rightarrow> rat \<Rightarrow> rat \<Rightarrow> int" where
  "getCellIndexFromCoordinates B g x y =
     (case getCellAndInternalIndex g (element_at B g None (x, y)) of
        None \<Rightarrow> -1 | Some (i, c) \<Rightarrow> index_in_set (getCells g) (Some c))"

section \<open>Positions\<close>

definition setCellAbsolutePositionAndSize ::
  "browser \<Rightarrow> nat \<Rightarrow> position_size \<Rightarrow> grid \<Rightarrow> grid" where
  "setCellAbsolutePositionAndSize B c p g =
     (if prevented B (Cell_Redraw p c) then g
      else set_css c Css_height (pheight p) (set_css c Css_width (pwidth p)
             (set_css c Css_top (ptop p) (set_css c Css_left (pleft p)
                (g\<lparr>posSize := (posSize g)(c := Some p)\<rparr>)))))"

text \<open>The body of the loop of \<open>updateVisibleCellCoordinates\<close>: a cell goes where its hidden copy is.\<close>

definition redraw_cell :: "browser \<Rightarrow> nat \<Rightarrow> grid stmt" where
  "redraw_cell B c =
     readThen (\<lambda>g. hiddenOf g c) (\<lambda>hidden.
       case hidden of
         None \<Rightarrow> throw TypeError
       | Some h \<Rightarrow> readThen (\<lambda>g. box_of B g h) (\<lambda>p. upd (setCellAbsolutePositionAndSize B c p)))"

definition updateVisibleCellCoordinates :: "browser \<Rightarrow> grid stmt" where
  "updateVisibleCellCoordinates B = readThen cellsArray (\<lambda>cs. forEach cs (redraw_cell B))"

section \<open>Attaching and detaching\<close>

definition initCellsHiddenCopyAndSetAbsolutePosition :: "browser \<Rightarrow> nat \<Rightarrow> grid \<Rightarrow> grid" where
  "initCellsHiddenCopyAndSetAbsolutePosition B c g =
     (let g1 = g\<lparr>cellsArray := cellsArray g @ [c]\<rparr>;
          positionNSize = box_of B g1 c;
          hiddenClone = nextId g1;
          g2 = put_element (Before c) hiddenClone
                 (create_element (classes g1 c) (style g1 c) (inner g1 c) g1);
          g3 = addClass c Visible_Cell (addClass hiddenClone Hidden_Cell g2);
          g4 = g3\<lparr>hiddenOf := (hiddenOf g3)(c := Some hiddenClone),
                  visibleOf := (visibleOf g3)(hiddenClone := Some c)\<rparr>;
          g5 = put_element (Append (Some In_Container)) c (detach_element c g4)
      in setCellAbsolutePositionAndSize B c positionNSize g5)"

definition ERROR_INVALID_ATTACH_ELEMENT :: js_error where
  "ERROR_INVALID_ATTACH_ELEMENT =
     JsError ''Cannot attach element that is not a child of gridstrap parent.''"

definition ERROR_NONCONTIGUOUS_HTML_UNDEFINED :: js_error where
  "ERROR_NONCONTIGUOUS_HTML_UNDEFINED =
     JsError ''nonContiguousCellHtml option cannot be null.''"

text \<open>The argument is a jQuery set of at most one element.\<close>

definition attachCell :: "browser \<Rightarrow> nat option \<Rightarrow> grid stmt" where
  "attachCell B element =
     (case element of
        None \<Rightarrow> throw ERROR_INVALID_ATTACH_ELEMENT
      | Some e \<Rightarrow>
          readThen (\<lambda>g. parent_of (tree g) e) (\<lambda>parent.
            if parent = None then throw ERROR_INVALID_ATTACH_ELEMENT
            else andThen (upd (initCellsHiddenCopyAndSetAbsolutePosition B e))
                         (updateVisibleCellCoordinates B)))"

fun remove_at :: "nat \<Rightarrow> 'a list \<Rightarrow> 'a list" where
  "remove_at i [] = []"
| "remove_at 0 (x # xs) = xs"
| "remove_at (Suc i) (x # xs) = x # remove_at i xs"

definition detachCell :: "browser \<Rightarrow> nat list \<Rightarrow> grid stmt" where
  "detachCell B chain =
     readThen (\<lambda>g. getCellAndInternalIndex g chain) (\<lambda>cellNIndex.
       case cellNIndex of
         None \<Rightarrow> throw TypeError
       | Some (i, c) \<Rightarrow>
           readThen (\<lambda>g. hiddenOf g c) (\<lambda>hiddenClone.
             andThen (upd (\<lambda>g. removeClass c Visible_Cell
                                ((clearAbsoluteCSS c (detach_element c g))
                                   \<lparr>hiddenOf := (hiddenOf g)(c := None)\<rparr>)))
               (case hiddenClone of
                  None \<Rightarrow> throw TypeError
                | Some h \<Rightarrow>
                    andThen (upd (put_element (After h) c))
                      (andThen (upd (remove_element h))
                        (andThen (upd (\<lambda>g. g\<lparr>cellsArray := remove_at i (cellsArray g)\<rparr>))
                          (updateVisibleCellCoordinates B))))))"

definition removeCell :: "browser \<Rightarrow> nat list \<Rightarrow> grid stmt" where
  "removeCell B chain =
     readThen (\<lambda>g. getCellOfElement g chain) (\<lambda>cell.
       andThen (detachCell B chain)
         (andThen (case cell of None \<Rightarrow> skip | Some c \<Rightarrow> upd (remove_element c))
                  (updateVisibleCellCoordinates B)))"

section \<open>Inserting, with placeholder cells\<close>

text \<open>
  \<open>insertCell\<close> after its padding: \<open>$(cellHtml)\<close> goes after the last hidden cell, before the one
  at the index, or into the empty grid; past the end jQuery inserts it nowhere and returns the
  empty set.
\<close>

definition insertHere :: "browser \<Rightarrow> string \<Rightarrow> int \<Rightarrow> grid stmt" where
  "insertHere B cellHtml index =
     readThen hiddenCells (\<lambda>existing. readThen nextId (\<lambda>new.
       andThen (upd (create_element {} (\<lambda>p. None) cellHtml))
         (if index = int (length existing)
          then andThen (upd (put_element (if existing = [] then Append (Some In_Element)
                                          else After (last existing)) new))
                       (attachCell B (Some new))
          else (case eq_at existing index of
                  Some h \<Rightarrow> andThen (upd (put_element (Before h) new)) (attachCell B (Some new))
                | None \<Rightarrow> attachCell B None))))"

text \<open>A condition of \<open>AppendOrRemoveNonContiguousCellsWhile\<close>: of the hidden cells, when appending.\<close>

type_synonym pad_condition = "grid \<Rightarrow> nat list \<Rightarrow> bool \<Rightarrow> js_error + bool"

text \<open>\<open>$hiddenCells.add(h)\<close> is in document order.\<close>

definition add_in_order :: "grid \<Rightarrow> nat \<Rightarrow> nat list \<Rightarrow> nat list" where
  "add_in_order g h hs = filter (\<lambda>e. e \<in> set (h # hs)) (document_order g)"

text \<open>
  The first loop. It need not end: the result is \<open>None\<close> then. A new cell goes at the number of
  hidden cells, so the padding of \<open>insertCell\<close> itself does not run.
\<close>

partial_function (option) appendWhile ::
  "browser \<Rightarrow> pad_condition \<Rightarrow> string \<Rightarrow> nat list \<Rightarrow> bool \<Rightarrow> grid \<Rightarrow>
     ((js_error + nat list \<times> bool) \<times> grid) option" where
  "appendWhile B P html hs changed g =
     (case P g hs True of
        Inl e \<Rightarrow> Some (Inl e, g)
      | Inr again \<Rightarrow>
          if again
          then (case insertHere B html (int (length hs)) g of
                  (result, g1) \<Rightarrow>
                    (case result of
                       Some e \<Rightarrow> Some (Inl e, g1)
                     | None \<Rightarrow>
                         appendWhile B P html
                           (case hiddenOf g1 (nextId g) of
                              None \<Rightarrow> hs
                            | Some h \<Rightarrow> add_in_order g1 h hs)
                           True (addClass (nextId g) Placeholder_Cell g1)))
          else Some (Inr (hs, changed), g))"

definition bottomRow :: "browser \<Rightarrow> grid \<Rightarrow> nat list \<Rightarrow> nat list" where
  "bottomRow B g hs = filter (\<lambda>e. ptop (box_of B g e) = ptop (box_of B g (last hs))) hs"

definition is_placeholder :: "grid \<Rightarrow> nat \<Rightarrow> bool" where
  "is_placeholder g h =
     (case visibleOf g h of None \<Rightarrow> False | Some v \<Rightarrow> hasClass g v Placeholder_Cell)"

text \<open>The second loop removes a cell in every round.\<close>

function removeWhile ::
  "browser \<Rightarrow> pad_condition \<Rightarrow> nat list \<Rightarrow> bool \<Rightarrow> grid \<Rightarrow> (js_error + bool) \<times> grid" where
  "removeWhile B P hs changed g =
     (case P g hs False of
        Inl e \<Rightarrow> (Inl e, g)
      | Inr again \<Rightarrow>
          (if \<not> again then (Inr changed, g)
           else if list_ex (\<lambda>h. visibleOf g h = None) (bottomRow B g hs) then (Inl TypeError, g)
           else if bottomRow B g hs = [] \<or> \<not> list_all (is_placeholder g) (bottomRow B g hs)
           then (Inr changed, g)
           else (case visibleOf g (last hs) of
                   None \<Rightarrow> (Inl TypeError, g)
                 | Some v \<Rightarrow>
                     (case removeCell B (chain_of g v) g of
                        (Some e, g1) \<Rightarrow> (Inl e, g1)
                      | (None, g1) \<Rightarrow> removeWhile B P (removeAll (last hs) hs) True g1))))"
  by pat_completeness auto

lemma length_without_last: "hs \<noteq> [] \<Longrightarrow> length (removeAll (last hs) hs) < length hs"
  by (intro length_removeAll_less) simp

termination removeWhile
  by (relation "measure (\<lambda>(B, P, hs, changed, g). length hs)")
    (auto simp: bottomRow_def intro!: length_without_last)

declare removeWhile.simps [simp del]

definition appendOrRemoveNonContiguousCellsWhile ::
  "browser \<Rightarrow> pad_condition \<Rightarrow> string \<Rightarrow> grid \<Rightarrow> ((js_error + bool) \<times> grid) option" where
  "appendOrRemoveNonContiguousCellsWhile B P html g =
     (case appendWhile B P html (hiddenCells g) False g of
        None \<Rightarrow> None
      | Some (Inl e, g1) \<Rightarrow> Some (Inl e, g1)
      | Some (Inr (hs, changed), g1) \<Rightarrow> Some (removeWhile B P hs changed g1))"

definition insertCell ::
  "browser \<Rightarrow> string \<Rightarrow> int option \<Rightarrow> grid \<Rightarrow> (js_error option \<times> grid) option" where
  "insertCell B cellHtml index g =
     (let existing = hiddenCells g;
          i = (case index of None \<Rightarrow> int (length existing) | Some i \<Rightarrow> i)
      in (case nonContiguousCellHtml (options g) of
            Some html \<Rightarrow>
              if i > int (length existing) \<and> autoPadNonContiguousCells (options g)
              then (case appendOrRemoveNonContiguousCellsWhile B
                           (\<lambda>g hs appending. Inr (appending \<and> int (length hs) < i)) html g of
                      None \<Rightarrow> None
                    | Some (Inl e, g1) \<Rightarrow> Some (Some e, g1)
                    | Some (Inr changed, g1) \<Rightarrow> Some (insertHere B cellHtml i g1))
              else Some (insertHere B cellHtml i g)
          | None \<Rightarrow> Some (insertHere B cellHtml i g)))"

definition padWithNonContiguousCells ::
  "browser \<Rightarrow> (nat \<Rightarrow> nat \<Rightarrow> bool) \<Rightarrow> grid \<Rightarrow> (js_error option \<times> grid) option" where
  "padWithNonContiguousCells B callback g =
     (case nonContiguousCellHtml (options g) of
        None \<Rightarrow> Some (Some ERROR_NONCONTIGUOUS_HTML_UNDEFINED, g)
      | Some html \<Rightarrow>
          (case appendOrRemoveNonContiguousCellsWhile B
                  (\<lambda>g hs appending.
                     if \<not> appending then Inr False
                     else Inr (callback (length hs) (length (filter (is_placeholder g) hs))))
                  html g of
             None \<Rightarrow> None
           | Some (Inl e, g1) \<Rightarrow> Some (Some e, g1)
           | Some (Inr changed, g1) \<Rightarrow> Some (None, g1)))"

section \<open>Moving\<close>

text \<open>
  \<open>MoveCell\<close> and its branch for a move inside one grid; the target may be the empty set.
\<close>

definition internalMove :: "browser \<Rightarrow> nat \<Rightarrow> nat \<Rightarrow> grid stmt" where
  "internalMove B hiddenDragged hiddenTarget =
     readThen (\<lambda>g. swapMode (options g)) (\<lambda>swap.
       andThen (upd (\<lambda>g. g\<lparr>tree :=
                   (if swap then swapJQueryElements hiddenDragged hiddenTarget (tree g)
                    else detachAndInsertInPlace hiddenDragged hiddenTarget (tree g))\<rparr>))
         (updateVisibleCellCoordinates B))"

declare internalMove_def [js_defs]

definition moveCellTo :: "browser \<Rightarrow> nat \<Rightarrow> nat option \<Rightarrow> grid stmt" where
  "moveCellTo B moving target =
     readThen (\<lambda>g. hiddenOf g moving) (\<lambda>hiddenDragged.
     readThen (\<lambda>g. Option.bind target (hiddenOf g)) (\<lambda>hiddenTarget.
       case hiddenDragged of
         None \<Rightarrow> throw TypeError
       | Some d \<Rightarrow>
           if hiddenTarget = Some d then skip
           else (case hiddenTarget of
                   None \<Rightarrow> throw TypeError
                 | Some t \<Rightarrow> internalMove B d t)))"

definition moveToIndex :: "browser \<Rightarrow> nat list \<Rightarrow> int \<Rightarrow> grid stmt" where
  "moveToIndex B chain toIndex =
     readThen getCells (\<lambda>existing. readThen (\<lambda>g. getCellAndInternalIndex g chain) (\<lambda>cellNIndex.
       case cellNIndex of
         None \<Rightarrow> throw TypeError
       | Some (i, c) \<Rightarrow> moveCellTo B c (eq_at existing toIndex)))"

definition moveCell ::
  "browser \<Rightarrow> nat list \<Rightarrow> int \<Rightarrow> grid \<Rightarrow> (js_error option \<times> grid) option" where
  "moveCell B chain toIndex g =
     (case nonContiguousCellHtml (options g) of
        Some html \<Rightarrow>
          if toIndex > int (length (getCells g)) \<and> autoPadNonContiguousCells (options g)
          then (case appendOrRemoveNonContiguousCellsWhile B
                       (\<lambda>g hs appending. Inr (appending \<and> int (length hs) \<le> toIndex)) html g of
                  None \<Rightarrow> None
                | Some (Inl e, g1) \<Rightarrow> Some (Some e, g1)
                | Some (Inr changed, g1) \<Rightarrow> Some (moveToIndex B chain toIndex g1))
          else Some (moveToIndex B chain toIndex g)
      | None \<Rightarrow> Some (moveToIndex B chain toIndex g))"

section \<open>Other operations\<close>

definition resizeCell :: "browser \<Rightarrow> nat \<Rightarrow> rat \<Rightarrow> rat \<Rightarrow> grid stmt" where
  "resizeCell B c w h =
     (if prevented B (Cell_Resize w h c) then skip
      else readThen (\<lambda>g. hiddenOf g c) (\<lambda>hidden.
        case hidden of
          None \<Rightarrow> throw TypeError
        | Some hc \<Rightarrow> andThen (upd (\<lambda>g. set_css hc Css_height h (set_css hc Css_width w g)))
                             (updateVisibleCellCoordinates B)))"

text \<open>
  \<open>modifyCell\<close> hands two functions to the callback, the visible cell and its hidden copy. The
  callback is what it does with each: a new content, or nothing when it does not ask for the cell.
\<close>

definition change_inner :: "nat option \<Rightarrow> (string \<Rightarrow> string) option \<Rightarrow> grid \<Rightarrow> grid" where
  "change_inner e f g =
     (case (e, f) of
        (Some e, Some f) \<Rightarrow> g\<lparr>inner := (inner g)(e := f (inner g e))\<rparr>
      | _ \<Rightarrow> g)"

definition modifyCell ::
  "browser \<Rightarrow> int \<Rightarrow> (string \<Rightarrow> string) option \<Rightarrow> (string \<Rightarrow> string) option \<Rightarrow> grid stmt" where
  "modifyCell B cellIndex onVisible onHidden =
     readThen (\<lambda>g. eq_at (getCells g) cellIndex) (\<lambda>visibleCell.
     readThen (\<lambda>g. Option.bind visibleCell (hiddenOf g)) (\<lambda>hiddenCell.
       andThen (upd (\<lambda>g. change_inner hiddenCell onHidden (change_inner visibleCell onVisible g)))
         (andThen (if onVisible = None then skip
                   else (case (visibleCell, hiddenCell) of
                           (Some v, Some h) \<Rightarrow> upd (\<lambda>g. g\<lparr>inner := (inner g)(h := inner g v)\<rparr>)
                         | _ \<Rightarrow> throw TypeError))
                  (updateVisibleCellCoordinates B))))"

definition updateOptions :: "(grid_options \<Rightarrow> grid_options) \<Rightarrow> grid \<Rightarrow> grid" where
  "updateOptions newOptions g = g\<lparr>options := newOptions (options g)\<rparr>"

text \<open>
  The constructor \<open>$.Gridstrap\<close>: nothing when the element has a grid already; else the cells are
  the children it has before the container is appended.
\<close>

definition setup_grid :: "grid_options \<Rightarrow> grid \<Rightarrow> grid" where
  "setup_grid opts g =
     (let g1 = g\<lparr>options := opts, gridstraps := el g # gridstraps g\<rparr>;
          wrapper = nextId g1;
          g2 = create_element {} (\<lambda>p. None) '''' g1
      in put_element (Append (Some In_Element)) wrapper (g2\<lparr>container := wrapper\<rparr>))"

definition initOriginalCells :: "browser \<Rightarrow> nat list \<Rightarrow> grid \<Rightarrow> grid" where
  "initOriginalCells B originalCells g =
     fold (initCellsHiddenCopyAndSetAbsolutePosition B) originalCells (g\<lparr>cellsArray := []\<rparr>)"

definition gridstrap :: "browser \<Rightarrow> grid_options \<Rightarrow> grid \<Rightarrow> grid" where
  "gridstrap B opts g =
     (if el g \<in> set (gridstraps g) then g
      else initOriginalCells B (tree g In_Element) (setup_grid opts g))"

end
