(* ===== verification/Grid_Inv.thy ===== *)
theory Grid_Inv
  imports Grid
begin

text \<open>
  What every operation of a grid keeps (\<open>grid_ok\<close>): the managed cells are exactly the children of
  the container, each is linked both ways to one hidden copy among the children of the grid's
  element, and nothing else is linked. The order of the cells, \<open>getCells\<close>, is then the order of
  the hidden copies, and each operation is described by what it does to that list: attaching puts
  a cell where its element was, detaching takes it out, moving moves it.
\<close>

named_theorems grid_simps \<open>fields of updated grids\<close>

section \<open>The invariant\<close>

definition outside :: "grid \<Rightarrow> nat set" where
  "outside g = insert (el g) (set (above g) \<union> set (gridstraps g))"

definition links_ok :: "grid \<Rightarrow> bool" where
  "links_ok g \<longleftrightarrow>
     (\<forall>c \<in> set (cellsArray g). \<exists>h. hiddenOf g c = Some h \<and> visibleOf g h = Some c \<and>
        h \<in> set (tree g In_Element) \<and> hasClass g h Hidden_Cell) \<and>
     (\<forall>h v. visibleOf g h = Some v \<longrightarrow> v \<in> set (cellsArray g) \<and> hiddenOf g v = Some h) \<and>
     (\<forall>c h. hiddenOf g c = Some h \<longrightarrow> c \<in> set (cellsArray g)) \<and>
     visibleOf g (container g) = None"

definition tree_ok :: "grid \<Rightarrow> bool" where
  "tree_ok g \<longleftrightarrow>
     proper (tree g) \<and> container g \<in> set (tree g In_Element) \<and>
     (\<forall>p. \<forall>e \<in> set (tree g p). e < nextId g \<and> e \<notin> outside g) \<and>
     (\<forall>e \<in> outside g. e < nextId g) \<and> el g \<in> set (gridstraps g)"

definition grid_ok :: "grid \<Rightarrow> bool" where
  "grid_ok g \<longleftrightarrow>
     tree_ok g \<and> links_ok g \<and> distinct (cellsArray g) \<and>
     set (tree g In_Container) = set (cellsArray g)"

text \<open>Two grids that differ in geometry, style, content and mouse data only.\<close>

definition same_cells :: "grid \<Rightarrow> grid \<Rightarrow> bool" where
  "same_cells g g' \<longleftrightarrow>
     tree g' = tree g \<and> classes g' = classes g \<and> hiddenOf g' = hiddenOf g \<and>
     visibleOf g' = visibleOf g \<and> cellsArray g' = cellsArray g \<and> el g' = el g \<and>
     above g' = above g \<and> gridstraps g' = gridstraps g \<and> container g' = container g \<and>
     nextId g' = nextId g \<and> options g' = options g"

lemma same_cells_refl [simp]: "same_cells g g"
  by (simp add: same_cells_def)

lemma same_cells_trans: "same_cells g g1 \<Longrightarrow> same_cells g1 g2 \<Longrightarrow> same_cells g g2"
  by (simp add: same_cells_def)

lemma same_cells_ok: "same_cells g g' \<Longrightarrow> grid_ok g' = grid_ok g"
  by (simp add: same_cells_def grid_ok_def tree_ok_def links_ok_def outside_def hasClass_def)

lemma same_cells_hidden: "same_cells g g' \<Longrightarrow> hiddenCells g' = hiddenCells g"
  by (simp add: same_cells_def hiddenCells_def document_order_def hasClass_def
      cong: option.case_cong if_cong)

lemma same_cells_getCells: "same_cells g g' \<Longrightarrow> getCells g' = getCells g"
  by (simp add: getCells_def same_cells_hidden) (simp add: same_cells_def)

section \<open>Redrawing\<close>

lemma set_css_same: "same_cells g (set_css e p n g)"
  by (simp add: same_cells_def set_css_def)

lemma setCell_same: "same_cells g (setCellAbsolutePositionAndSize B c p g)"
  by (simp add: setCellAbsolutePositionAndSize_def same_cells_def set_css_def)

lemma redraw_cell_same:
  "hiddenOf g c = Some h \<Longrightarrow> \<exists>g'. redraw_cell B c g = (None, g') \<and> same_cells g g'"
  by (simp add: redraw_cell_def js_defs setCell_same)

lemma forEach_redraw:
  assumes "\<forall>c \<in> set cs. hiddenOf g c \<noteq> None"
  shows "\<exists>g'. forEach cs (redraw_cell B) g = (None, g') \<and> same_cells g g'"
  using assms
proof (induction cs arbitrary: g)
  case (Cons c cs)
  obtain h where "hiddenOf g c = Some h" using Cons.prems by auto
  then obtain g1 where g1: "redraw_cell B c g = (None, g1)" "same_cells g g1"
    using redraw_cell_same [of g c h B] by auto
  then have "\<forall>c \<in> set cs. hiddenOf g1 c \<noteq> None" using Cons.prems by (simp add: same_cells_def)
  from Cons.IH [OF this] obtain g2 where "forEach cs (redraw_cell B) g1 = (None, g2)"
    "same_cells g1 g2" by auto
  then show ?case using g1 same_cells_trans [of g g1 g2] by simp
qed simp

text \<open>The loop over the cells does not throw: every managed cell has a hidden copy.\<close>

lemma update_links:
  assumes "links_ok g"
  obtains g' where "updateVisibleCellCoordinates B g = (None, g')" "same_cells g g'"
proof -
  have "\<forall>c \<in> set (cellsArray g). hiddenOf g c \<noteq> None" using assms by (auto simp: links_ok_def)
  from forEach_redraw [OF this, of B] that show thesis
    by (auto simp: updateVisibleCellCoordinates_def readThen_def)
qed

lemma update_ok:
  assumes "grid_ok g"
  obtains g' where "updateVisibleCellCoordinates B g = (None, g')" "same_cells g g'" "grid_ok g'"
    "getCells g' = getCells g"
proof -
  have "links_ok g" using assms by (simp add: grid_ok_def)
  then obtain g' where g': "updateVisibleCellCoordinates B g = (None, g')" "same_cells g g'"
    by (rule update_links)
  then show thesis
    using that [of g'] assms same_cells_ok [of g g'] same_cells_getCells [of g g'] by simp
qed

section \<open>The order of the cells\<close>

lemma filter_document_order:
  assumes "\<forall>e \<in> set (tree g In_Container). \<not> P e"
  shows "filter P (document_order g) = filter P (tree g In_Element)"
proof -
  have "filter P (concat (map (\<lambda>k. if k = container g then k # tree g In_Container else [k]) xs)) =
          filter P xs" for xs
    using assms by (induction xs) auto
  then show ?thesis by (simp add: document_order_def)
qed

definition cells_of :: "grid \<Rightarrow> nat list \<Rightarrow> nat list" where
  "cells_of g xs = List.map_filter (visibleOf g) xs"

lemma cells_of_simps [simp]:
  "cells_of g [] = []"
  "cells_of g (x # xs) = (case visibleOf g x of None \<Rightarrow> cells_of g xs | Some v \<Rightarrow> v # cells_of g xs)"
  "cells_of g (xs @ ys) = cells_of g xs @ cells_of g ys"
  by (simp_all add: cells_of_def List.map_filter_def split: option.splits)

lemma cells_of_cong: "(\<And>x. x \<in> set xs \<Longrightarrow> visibleOf g x = visibleOf g' x) \<Longrightarrow> cells_of g xs = cells_of g' xs"
  by (induction xs) (auto split: option.splits)

lemma visible_hidden:
  assumes "grid_ok g" "visibleOf g h = Some v"
  shows "h \<in> set (tree g In_Element)" "hasClass g h Hidden_Cell" "v \<in> set (cellsArray g)"
    "hiddenOf g v = Some h" "h \<noteq> container g"
  using assms unfolding grid_ok_def links_ok_def by fastforce+

text \<open>
  Links stay in order when the cells that remain keep their hidden copies and nothing new is linked.
\<close>

lemma links_ok_sub:
  assumes ok: "grid_ok g" and cells: "set (cellsArray g') \<subseteq> set (cellsArray g)"
    and keep: "\<And>c h. c \<in> set (cellsArray g') \<Longrightarrow> hiddenOf g c = Some h \<Longrightarrow> visibleOf g h = Some c \<Longrightarrow>
        h \<in> set (tree g In_Element) \<Longrightarrow> hasClass g h Hidden_Cell \<Longrightarrow>
        hiddenOf g' c = Some h \<and> visibleOf g' h = Some c \<and> h \<in> set (tree g' In_Element) \<and>
        hasClass g' h Hidden_Cell"
    and vis: "\<And>h v. visibleOf g' h = Some v \<Longrightarrow> visibleOf g h = Some v \<and> v \<in> set (cellsArray g')"
    and hid: "\<And>c h. hiddenOf g' c = Some h \<Longrightarrow> c \<in> set (cellsArray g')"
    and cont: "visibleOf g' (container g') = None"
  shows "links_ok g'"
  unfolding links_ok_def
proof (intro conjI ballI allI impI)
  fix c assume c: "c \<in> set (cellsArray g')"
  then obtain h where "hiddenOf g c = Some h" "visibleOf g h = Some c"
    "h \<in> set (tree g In_Element)" "hasClass g h Hidden_Cell"
    using ok cells unfolding grid_ok_def links_ok_def by blast
  then show "\<exists>h. hiddenOf g' c = Some h \<and> visibleOf g' h = Some c \<and>
      h \<in> set (tree g' In_Element) \<and> hasClass g' h Hidden_Cell"
    using keep [OF c] by blast
next
  fix h v assume v: "visibleOf g' h = Some v"
  show "v \<in> set (cellsArray g')" using vis [OF v] by blast
  show "hiddenOf g' v = Some h"
    using vis [OF v] keep [of v h] visible_hidden [OF ok] by blast
qed (use hid cont in auto)

lemma not_in_container:
  assumes "grid_ok g" "visibleOf g h = Some v"
  shows "h \<notin> set (tree g In_Container)"
  using visible_hidden(1) [OF assms] assms(1)
  by (auto simp: grid_ok_def tree_ok_def proper_def)

lemma hiddenCells_kids:
  assumes "grid_ok g"
  shows "hiddenCells g = filter (\<lambda>h. visibleOf g h \<noteq> None) (tree g In_Element)"
proof -
  have "hiddenCells g = filter (\<lambda>h. visibleOf g h \<noteq> None) (document_order g)"
    unfolding hiddenCells_def
    by (rule filter_cong) (auto split: option.splits dest: visible_hidden [OF assms])
  also have "\<dots> = filter (\<lambda>h. visibleOf g h \<noteq> None) (tree g In_Element)"
    using not_in_container [OF assms] by (intro filter_document_order) blast
  finally show ?thesis .
qed

lemma getCells_kids: "grid_ok g \<Longrightarrow> getCells g = cells_of g (tree g In_Element)"
  by (simp add: getCells_def hiddenCells_kids cells_of_def List.map_filter_def comp_def)

lemma getCells_map: "grid_ok g \<Longrightarrow> getCells g = map (\<lambda>h. the (visibleOf g h)) (hiddenCells g)"
  by (simp add: getCells_def hiddenCells_kids List.map_filter_def comp_def)

lemma length_getCells: "grid_ok g \<Longrightarrow> length (hiddenCells g) = length (getCells g)"
  by (simp add: getCells_map)

lemma set_cells_of: "set (cells_of g xs) = {v. \<exists>h \<in> set xs. visibleOf g h = Some v}"
  by (induction xs) (auto split: option.splits)

lemma distinct_cells_of:
  assumes "grid_ok g" "distinct xs"
  shows "distinct (cells_of g xs)"
  using assms(2)
proof (induction xs)
  case (Cons x xs)
  have "x = y" if "visibleOf g x = Some v" "visibleOf g y = Some v" for v y
    using visible_hidden(4) [OF assms(1) that(1)] visible_hidden(4) [OF assms(1) that(2)] by simp
  then show ?case using Cons by (auto simp: set_cells_of split: option.splits)
qed simp

lemma set_getCells: "grid_ok g \<Longrightarrow> set (getCells g) = set (cellsArray g)"
  unfolding getCells_kids set_cells_of
  by (auto dest: visible_hidden) (auto simp: grid_ok_def links_ok_def)

lemma distinct_getCells: "grid_ok g \<Longrightarrow> distinct (getCells g)"
  using distinct_cells_of [of g "tree g In_Element"] proper_distinct [of "tree g" In_Element]
  by (simp add: getCells_kids) (simp add: grid_ok_def tree_ok_def)

section \<open>Attaching a cell\<close>

text \<open>A child of the grid's element that is neither the container nor a hidden copy.\<close>

definition plain :: "grid \<Rightarrow> nat \<Rightarrow> bool" where
  "plain g e \<longleftrightarrow> e \<in> set (tree g In_Element) \<and> e \<noteq> container g \<and> visibleOf g e = None"

lemma grid_okD:
  assumes "grid_ok g"
  shows "proper (tree g)" "container g \<in> set (tree g In_Element)"
    "e \<in> set (tree g p) \<Longrightarrow> e < nextId g" "e \<in> set (tree g p) \<Longrightarrow> e \<notin> outside g"
    "e \<in> outside g \<Longrightarrow> e < nextId g" "el g \<in> set (gridstraps g)" "distinct (cellsArray g)"
    "set (tree g In_Container) = set (cellsArray g)" "links_ok g" "tree_ok g"
    "visibleOf g (container g) = None" "hiddenOf g c = Some h \<Longrightarrow> c \<in> set (cellsArray g)"
  using assms by (auto simp: grid_ok_def tree_ok_def links_ok_def)

lemma plain_unmanaged:
  assumes "grid_ok g" "plain g e"
  shows "e \<notin> set (cellsArray g)" "e \<notin> set (tree g In_Container)" "e < nextId g" "e \<notin> outside g"
  using assms grid_okD(1,8) [OF assms(1)] grid_okD(3,4) [OF assms(1), of e In_Element]
  by (auto simp: plain_def proper_def)

text \<open>The state \<open>InitCellsHiddenCopyAndSetAbsolutePosition\<close> reaches, but for the geometry.\<close>

definition attached :: "nat \<Rightarrow> nat list \<Rightarrow> nat list \<Rightarrow> grid \<Rightarrow> grid" where
  "attached e xs ys g =
     g\<lparr>tree := (tree g)(In_Element := xs @ nextId g # ys, In_Container := tree g In_Container @ [e]),
       classes := (classes g)(nextId g := insert Hidden_Cell (classes g e),
                              e := insert Visible_Cell (classes g e)),
       hiddenOf := (hiddenOf g)(nextId g := None, e := Some (nextId g)),
       visibleOf := (visibleOf g)(nextId g := Some e),
       cellsArray := cellsArray g @ [e], nextId := Suc (nextId g)\<rparr>"

lemma tree_attached:
  assumes ok: "grid_ok g" and e: "plain g e" and l: "tree g In_Element = xs @ e # ys"
    and n: "n \<notin> set (tree g In_Element)" "n \<notin> set (tree g In_Container)"
  shows "put (Append (Some In_Container)) e (detach e (put (Before e) n (tree g))) =
           (tree g)(In_Element := xs @ n # ys, In_Container := tree g In_Container @ [e])"
proof -
  note e' = plain_unmanaged [OF ok e]
  have dist: "distinct (xs @ e # ys)" using grid_okD(1) [OF ok] l by (simp add: proper_def)
  have "e \<notin> set (tree g q)" if "q \<noteq> In_Element" for q using e'(2) that by (cases q) simp_all
  then have "put (Before e) n (tree g) = (tree g)(In_Element := xs @ n # e # ys)"
    using dist put_at(1) [of In_Element e "tree g" xs ys n] l by simp
  moreover have "n \<noteq> e" using n l by auto
  ultimately show ?thesis
    using dist e'(2) by (intro ext, case_tac x) (simp_all add: detach_def)
qed

lemma init_attached:
  assumes ok: "grid_ok g" and e: "plain g e" and l: "tree g In_Element = xs @ e # ys"
  shows "same_cells (attached e xs ys g) (initCellsHiddenCopyAndSetAbsolutePosition B e g)"
proof -
  have n: "nextId g \<notin> set (tree g p)" for p using grid_okD(3) [OF ok, of "nextId g" p] by auto
  have ne: "nextId g \<noteq> e" using plain_unmanaged(3) [OF ok e] by simp
  have t: "put (Append (Some In_Container)) e (detach e (put (Before e) (nextId g) (tree g))) =
             (tree g)(In_Element := xs @ nextId g # ys, In_Container := tree g In_Container @ [e])"
    using tree_attached [OF ok e l n n] .
  show ?thesis
    unfolding initCellsHiddenCopyAndSetAbsolutePosition_def Let_def
    using ne by (simp add: same_cells_def attached_def setCellAbsolutePositionAndSize_def set_css_def
        put_element_def create_element_def addClass_def detach_element_def Let_def t del: put.simps)
qed

lemma proper_insert:
  assumes "proper d" "d In_Element = xs @ e # ys" "\<And>p. n \<notin> set (d p)"
  shows "proper (d(In_Element := xs @ n # ys, In_Container := d In_Container @ [e]))"
  using assms(1,2) assms(3) [of In_Element] assms(3) [of In_Container]
  by (auto simp: proper_def)

lemma tree_ok_change:
  assumes "tree_ok g" "proper (tree g')" "container g \<in> set (tree g' In_Element)"
    "\<And>p e. e \<in> set (tree g' p) \<Longrightarrow> (\<exists>q. e \<in> set (tree g q)) \<or> nextId g \<le> e \<and> e < nextId g'"
    "nextId g \<le> nextId g'" "el g' = el g" "above g' = above g" "gridstraps g' = gridstraps g"
    "container g' = container g"
  shows "tree_ok g'"
proof -
  have o: "outside g' = outside g" using assms(6-8) by (simp add: outside_def)
  have "e < nextId g' \<and> e \<notin> outside g'" if "e \<in> set (tree g' p)" for e p
    using assms(4) [OF that] assms(1,5) unfolding tree_ok_def o by fastforce
  then show ?thesis
    using assms(1-3,5-9) unfolding tree_ok_def o by fastforce
qed

lemma attached_ok:
  assumes ok: "grid_ok g" and e: "plain g e" and l: "tree g In_Element = xs @ e # ys"
  shows "grid_ok (attached e xs ys g)"
proof -
  note e' = plain_unmanaged [OF ok e] and D = grid_okD [OF ok]
  have n: "nextId g \<notin> set (tree g p)" for p using D(3) [of "nextId g" p] by auto
  have nv: "visibleOf g (nextId g) = None"
    using visible_hidden(1) [OF ok, of "nextId g"] n by (cases "visibleOf g (nextId g)") auto
  have nc: "nextId g \<notin> set (cellsArray g)" using n [of In_Container] D(8) by simp
  have t: "tree_ok (attached e xs ys g)"
  proof (rule tree_ok_change [OF D(10)])
    fix p f assume "f \<in> set (tree (attached e xs ys g) p)"
    then show "(\<exists>q. f \<in> set (tree g q)) \<or>
                 nextId g \<le> f \<and> f < nextId (attached e xs ys g)"
      using l by (cases p) (auto simp: attached_def intro: exI [of _ In_Element] exI [of _ In_Container])
  next
    show "container g \<in> set (tree (attached e xs ys g) In_Element)"
      using D(2) e l by (auto simp: attached_def plain_def)
  qed (use proper_insert [OF D(1) l n] in \<open>simp_all add: attached_def\<close>)
  have "links_ok (attached e xs ys g)"
    unfolding links_ok_def
  proof (intro conjI ballI allI impI)
    fix c assume c: "c \<in> set (cellsArray (attached e xs ys g))"
    show "\<exists>h. hiddenOf (attached e xs ys g) c = Some h \<and> visibleOf (attached e xs ys g) h = Some c \<and>
            h \<in> set (tree (attached e xs ys g) In_Element) \<and>
            hasClass (attached e xs ys g) h Hidden_Cell"
    proof (cases "c = e")
      case True
      then show ?thesis using e'(3) by (simp add: attached_def hasClass_def)
    next
      case False
      then have "c \<in> set (cellsArray g)" using c by (simp add: attached_def)
      then obtain h where h: "hiddenOf g c = Some h" "visibleOf g h = Some c"
        "h \<in> set (tree g In_Element)" "hasClass g h Hidden_Cell" "c \<noteq> nextId g"
        using D(9) nc unfolding links_ok_def by blast
      moreover have "h \<noteq> nextId g" "h \<noteq> e" using h nv e by (auto simp: plain_def)
      ultimately show ?thesis using False l by (auto simp: attached_def hasClass_def)
    qed
  next
    fix h v assume v: "visibleOf (attached e xs ys g) h = Some v"
    have "hiddenOf (attached e xs ys g) v = Some h \<and> v \<in> set (cellsArray (attached e xs ys g))"
    proof (cases "h = nextId g")
      case True
      then show ?thesis using v by (simp add: attached_def)
    next
      case False
      then have "visibleOf g h = Some v" using v by (simp add: attached_def)
      then have "v \<in> set (cellsArray g)" "hiddenOf g v = Some h"
        using visible_hidden(3,4) [OF ok] by auto
      then show ?thesis using e'(1) nc by (auto simp: attached_def)
    qed
    then show "v \<in> set (cellsArray (attached e xs ys g))"
      and "hiddenOf (attached e xs ys g) v = Some h" by simp_all
  next
    fix c h assume "hiddenOf (attached e xs ys g) c = Some h"
    then show "c \<in> set (cellsArray (attached e xs ys g))"
      using D(12) [of c] by (auto simp: attached_def split: if_splits)
  next
    show "visibleOf (attached e xs ys g) (container (attached e xs ys g)) = None"
      using D(11) D(2) n by (auto simp: attached_def)
  qed
  then show ?thesis
    using t D(7,8) e'(1) by (auto simp: grid_ok_def attached_def)
qed

lemma cells_attached:
  assumes ok: "grid_ok g" and e: "plain g e" and l: "tree g In_Element = xs @ e # ys"
  shows "getCells (attached e xs ys g) = cells_of g xs @ e # cells_of g ys"
proof -
  have "nextId g \<notin> set (tree g In_Element)" using grid_okD(3) [OF ok, of "nextId g"] by auto
  then have "cells_of (attached e xs ys g) xs = cells_of g xs"
    "cells_of (attached e xs ys g) ys = cells_of g ys"
    using l by (auto intro!: cells_of_cong simp: attached_def)
  then show ?thesis
    unfolding getCells_kids [OF attached_ok [OF assms]]
    by (simp add: attached_def)
qed

lemma attachCell_result:
  assumes ok: "grid_ok g" and e: "plain g e" and l: "tree g In_Element = xs @ e # ys"
  obtains g' where "attachCell B (Some e) g = (None, g')" "grid_ok g'"
    "same_cells (attached e xs ys g) g'" "getCells g' = cells_of g xs @ e # cells_of g ys"
proof -
  let ?g1 = "initCellsHiddenCopyAndSetAbsolutePosition B e g"
  note same1 = init_attached [OF assms, of B]
  have ok1: "grid_ok ?g1" using same_cells_ok [OF same1] attached_ok [OF assms] by simp
  obtain g' where g': "updateVisibleCellCoordinates B ?g1 = (None, g')" "same_cells ?g1 g'"
    "grid_ok g'" "getCells g' = getCells ?g1" using update_ok [OF ok1] .
  have "parent_of (tree g) e = Some In_Element"
    using parent_of_in [OF grid_okD(1) [OF ok], of e In_Element] l by simp
  then have "attachCell B (Some e) g = (None, g')"
    using g'(1) by (simp add: attachCell_def js_defs)
  then show thesis
    using that [of g'] g' same_cells_trans [OF same1 g'(2)] same_cells_getCells [OF same1]
      cells_attached [OF assms] by simp
qed

section \<open>Inserting a cell\<close>

definition placed :: "string \<Rightarrow> nat list \<Rightarrow> nat list \<Rightarrow> grid \<Rightarrow> grid" where
  "placed html xs ys g =
     (create_element {} (\<lambda>p. None) html g)\<lparr>tree := (tree g)(In_Element := xs @ nextId g # ys)\<rparr>"

lemma fresh_element:
  assumes "grid_ok g"
  shows "nextId g \<notin> set (tree g p)" "visibleOf g (nextId g) = None" "nextId g \<notin> set (cellsArray g)"
    "nextId g \<noteq> container g"
proof -
  show n: "nextId g \<notin> set (tree g p)" for p using grid_okD(3) [OF assms, of "nextId g" p] by auto
  show "visibleOf g (nextId g) = None"
    using visible_hidden(1) [OF assms, of "nextId g"] n by (cases "visibleOf g (nextId g)") auto
  show "nextId g \<notin> set (cellsArray g)" using n [of In_Container] grid_okD(8) [OF assms] by simp
  show "nextId g \<noteq> container g" using n [of In_Element] grid_okD(2) [OF assms] by auto
qed

lemma placed_ok:
  assumes ok: "grid_ok g" and l: "tree g In_Element = xs @ ys"
  shows "grid_ok (placed html xs ys g)" "plain (placed html xs ys g) (nextId g)"
    "nextId (placed html xs ys g) = Suc (nextId g)"
    "cells_of (placed html xs ys g) zs = cells_of g zs"
proof -
  let ?g = "placed html xs ys g"
  note D = grid_okD [OF ok] and n = fresh_element [OF ok]
  have "proper ((tree g)(In_Element := xs @ nextId g # ys))"
    using D(1) n(1) [of In_Element] n(1) [of In_Container] l by (auto simp: proper_def)
  then have "tree_ok ?g"
  proof (intro tree_ok_change [OF D(10)])
    fix p f assume "f \<in> set (tree ?g p)"
    then show "(\<exists>q. f \<in> set (tree g q)) \<or> nextId g \<le> f \<and> f < nextId ?g"
      using l by (cases p) (auto simp: placed_def create_element_def Let_def
          intro: exI [of _ In_Element] exI [of _ In_Container])
  qed (use D(2) l in \<open>auto simp: placed_def create_element_def Let_def\<close>)
  moreover have "links_ok ?g"
    using n(1) [of In_Element] n(2,3) l D(11,12)
    by (intro links_ok_sub [OF ok])
      (auto simp: placed_def create_element_def Let_def hasClass_def split: if_splits
        dest: visible_hidden(3) [OF ok])
  ultimately show "grid_ok ?g"
    using D(7,8) by (simp add: grid_ok_def placed_def create_element_def Let_def)
  show "plain ?g (nextId g)" "nextId ?g = Suc (nextId g)"
    using n(4) by (simp_all add: plain_def placed_def create_element_def Let_def)
  show "cells_of ?g zs = cells_of g zs"
    using n(2) by (intro cells_of_cong) (simp add: placed_def create_element_def Let_def)
qed

lemma filter_split_nth:
  "i < length (filter P xs) \<Longrightarrow>
     \<exists>us vs. xs = us @ filter P xs ! i # vs \<and> filter P us = take i (filter P xs) \<and>
             filter P vs = drop (Suc i) (filter P xs)"
proof (induction xs arbitrary: i)
  case (Cons x xs)
  show ?case
  proof (cases "P x \<and> i = 0")
    case True
    then show ?thesis by (intro exI [of _ "[]"] exI [of _ xs]) simp
  next
    case False
    define j where "j = (if P x then i - 1 else i)"
    have "j < length (filter P xs)" using Cons.prems False by (auto simp: j_def split: if_splits)
    from Cons.IH [OF this] obtain us vs where
      "xs = us @ filter P xs ! j # vs \<and> filter P us = take j (filter P xs) \<and>
       filter P vs = drop (Suc j) (filter P xs)" by blast
    then show ?thesis
      using False by (intro exI [of _ "x # us"] exI [of _ vs])
        (auto simp: j_def nth_Cons' take_Cons' drop_Cons')
  qed
qed simp

lemma cells_of_filter:
  "cells_of g xs = map (\<lambda>h. the (visibleOf g h)) (filter (\<lambda>h. visibleOf g h \<noteq> None) xs)"
  by (induction xs) (auto split: option.splits)

text \<open>The children of the grid's element around the hidden copy of the \<open>i\<close>th cell.\<close>

lemma kids_at:
  assumes ok: "grid_ok g" and i: "i < length (getCells g)"
  obtains xs ys where "tree g In_Element = xs @ hiddenCells g ! i # ys"
    "cells_of g xs = take i (getCells g)" "cells_of g ys = drop (Suc i) (getCells g)"
    "visibleOf g (hiddenCells g ! i) = Some (getCells g ! i)"
proof -
  have h: "i < length (filter (\<lambda>h. visibleOf g h \<noteq> None) (tree g In_Element))"
    using i length_getCells [OF ok] by (simp add: hiddenCells_kids [OF ok])
  from filter_split_nth [OF h] obtain xs ys where
    s: "tree g In_Element = xs @ hiddenCells g ! i # ys"
    "filter (\<lambda>h. visibleOf g h \<noteq> None) xs = take i (hiddenCells g)"
    "filter (\<lambda>h. visibleOf g h \<noteq> None) ys = drop (Suc i) (hiddenCells g)"
    unfolding hiddenCells_kids [OF ok] by blast
  from nth_mem [OF h] have "visibleOf g (hiddenCells g ! i) \<noteq> None"
    unfolding hiddenCells_kids [OF ok] by simp
  then show thesis
    using that [OF s(1)] s(2,3) h
    by (auto simp: cells_of_filter getCells_map [OF ok] take_map drop_map hiddenCells_kids [OF ok])
qed

lemma put_kid:
  assumes ok: "grid_ok g" and h: "visibleOf g h = Some v" and l: "tree g In_Element = xs @ h # ys"
  shows "put (Before h) n (tree g) = (tree g)(In_Element := xs @ n # h # ys)"
    "put (After h) n (tree g) = (tree g)(In_Element := xs @ h # n # ys)"
proof -
  have q: "h \<notin> set (tree g q)" if "q \<noteq> In_Element" for q
    using not_in_container [OF ok h] that by (cases q) simp_all
  have "h \<notin> set xs" using proper_distinct [OF grid_okD(1) [OF ok], of In_Element] l by simp
  from put_at [of In_Element h "tree g", OF q l this]
  show "put (Before h) n (tree g) = (tree g)(In_Element := xs @ n # h # ys)"
    "put (After h) n (tree g) = (tree g)(In_Element := xs @ h # n # ys)" by simp_all
qed

text \<open>Where \<open>insertCell\<close> puts the new element for an index within the cells.\<close>

lemma insert_spot:
  assumes ok: "grid_ok g" and i: "i \<le> length (getCells g)"
  defines "spot \<equiv> (if i = length (hiddenCells g)
                    then (if hiddenCells g = [] then Append (Some In_Element)
                          else After (last (hiddenCells g)))
                    else Before (hiddenCells g ! i))"
  obtains xs ys where "tree g In_Element = xs @ ys"
    "cells_of g xs = take i (getCells g)" "cells_of g ys = drop i (getCells g)"
    "put_element spot (nextId g) (create_element {} (\<lambda>p. None) html g) = placed html xs ys g"
proof -
  note len = length_getCells [OF ok]
  let ?hs = "hiddenCells g" and ?cs = "getCells g"
  have placed: "put_element s (nextId g) (create_element {} (\<lambda>p. None) html g) = placed html xs ys g"
    if "put s (nextId g) (tree g) = (tree g)(In_Element := xs @ nextId g # ys)" for s xs ys
    using that by (simp add: put_element_def placed_def create_element_def Let_def)
  consider "?cs = []" | "i = length ?cs" "?cs \<noteq> []" | "i < length ?cs"
    using i by fastforce
  then show thesis
  proof cases
    case 1
    then have "i = 0" "?hs = []" using i len by simp_all
    then show thesis
      using that [of "tree g In_Element" "[]"] placed [of spot "tree g In_Element" "[]"]
        getCells_kids [OF ok] 1 by (simp add: spot_def)
  next
    case 2
    let ?j = "length ?cs - 1"
    have "?j < length ?cs" using 2 by simp
    from kids_at [OF ok this] obtain xs ys where k: "tree g In_Element = xs @ ?hs ! ?j # ys"
      "cells_of g xs = take ?j ?cs" "cells_of g ys = drop (Suc ?j) ?cs"
      "visibleOf g (?hs ! ?j) = Some (?cs ! ?j)" .
    have h1: "?hs \<noteq> []" using 2(2) len by (cases ?hs) auto
    then have h: "?hs \<noteq> []" "last ?hs = ?hs ! ?j" using len by (simp_all add: last_conv_nth)
    have s: "spot = After (?hs ! ?j)" using 2 len h by (simp add: spot_def)
    have "put spot (nextId g) (tree g) =
        (tree g)(In_Element := (xs @ [?hs ! ?j]) @ nextId g # ys)"
      unfolding s using put_kid(2) [OF ok k(4,1)] by simp
    moreover have "cells_of g (xs @ [?hs ! ?j]) = take i ?cs"
      using 2 k(2,4) take_Suc_conv_app_nth [of ?j ?cs] by simp
    moreover have "cells_of g ys = drop i ?cs" using 2 k(3) by simp
    ultimately show thesis
      using that [of "xs @ [?hs ! ?j]" ys] placed [of spot "xs @ [?hs ! ?j]" ys] k(1) by simp
  next
    case 3
    from kids_at [OF ok 3] obtain xs ys where k: "tree g In_Element = xs @ ?hs ! i # ys"
      "cells_of g xs = take i ?cs" "cells_of g ys = drop (Suc i) ?cs"
      "visibleOf g (?hs ! i) = Some (?cs ! i)" .
    have s: "spot = Before (?hs ! i)" using 3 len by (simp add: spot_def)
    have "put spot (nextId g) (tree g) = (tree g)(In_Element := xs @ nextId g # ?hs ! i # ys)"
      unfolding s using put_kid(1) [OF ok k(4,1)] by simp
    moreover have "cells_of g (?hs ! i # ys) = drop i ?cs"
      using 3 k(3,4) by (simp add: Cons_nth_drop_Suc)
    ultimately show thesis
      using that [of xs "?hs ! i # ys"] placed [of spot xs "?hs ! i # ys"] k(1,2) by simp
  qed
qed

lemma insertHere_result:
  assumes ok: "grid_ok g" and i: "i \<le> length (getCells g)"
  obtains g' where "insertHere B html (int i) g = (None, g')" "grid_ok g'"
    "getCells g' = take i (getCells g) @ nextId g # drop i (getCells g)"
    "cellsArray g' = cellsArray g @ [nextId g]" "nextId g' = Suc (Suc (nextId g))"
    "options g' = options g"
    "\<And>e. e \<noteq> nextId g \<Longrightarrow> e \<noteq> Suc (nextId g) \<Longrightarrow> classes g' e = classes g e"
    "hiddenOf g' (nextId g) = Some (Suc (nextId g))"
    "visibleOf g' = (visibleOf g)(nextId g := None, Suc (nextId g) := Some (nextId g))"
proof -
  obtain xs ys where s: "tree g In_Element = xs @ ys"
    "cells_of g xs = take i (getCells g)" "cells_of g ys = drop i (getCells g)"
    "put_element (if i = length (hiddenCells g)
                    then (if hiddenCells g = [] then Append (Some In_Element)
                          else After (last (hiddenCells g)))
                    else Before (hiddenCells g ! i)) (nextId g)
       (create_element {} (\<lambda>p. None) html g) = placed html xs ys g"
    using insert_spot [OF ok i, of html] .
  let ?g1 = "placed html xs ys g"
  note p = placed_ok [OF ok s(1), of html]
  have "tree ?g1 In_Element = xs @ nextId g # ys" by (simp add: placed_def)
  from attachCell_result [OF p(1,2) this, of B] obtain g' where
    g': "attachCell B (Some (nextId g)) ?g1 = (None, g')" "grid_ok g'"
      "same_cells (attached (nextId g) xs ys ?g1) g'"
      "getCells g' = cells_of ?g1 xs @ nextId g # cells_of ?g1 ys" .
  have "insertHere B html (int i) g = (None, g')"
  proof (cases "i = length (hiddenCells g)")
    case True
    then show ?thesis using s(4) g'(1) by (simp add: insertHere_def js_defs)
  next
    case False
    then have "i < length (hiddenCells g)" using i length_getCells [OF ok] by simp
    then show ?thesis
      using False s(4) g'(1) by (simp add: insertHere_def js_defs eq_at_def)
  qed
  then show thesis
    using that [of g'] g'(2,3) g'(4) s(2,3) p(4)
    by (simp add: same_cells_def attached_def p(3))
       (simp add: placed_def create_element_def Let_def)
qed

end
