(* ===== verification/Grid_Cells.thy ===== *)
theory Grid_Cells
  imports Grid_Inv
begin

text \<open>
  Taking cells out of a grid and moving them: \<open>detachCell\<close>, \<open>removeCell\<close>, \<open>MoveCell\<close> and
  \<open>moveCell\<close>, by their effect on \<open>getCells\<close>, and the padding with placeholder cells, which ends
  when its condition turns false.
\<close>

section \<open>Finding a managed cell\<close>

lemma closest_cell:
  assumes ok: "grid_ok g" and c: "c \<in> set (cellsArray g)"
  shows "closestGridstrap g (chain_of g c) = Some (el g)"
    "c' \<in> set (cellsArray g) \<Longrightarrow> c' \<in> set (chain_of g c) \<longleftrightarrow> c' = c"
proof -
  note D = grid_okD [OF ok]
  have c1: "c \<in> set (tree g In_Container)" using c D(8) by simp
  have chain: "chain_of g c = c # container g # el g # above g"
    using parent_of_in [OF D(1) c1] by (simp add: chain_of_def)
  have "c \<notin> set (gridstraps g)" "container g \<notin> set (gridstraps g)"
    using D(4) [OF c1] D(4) [OF D(2)] by (auto simp: outside_def)
  then show "closestGridstrap g (chain_of g c) = Some (el g)"
    using D(6) by (simp add: closestGridstrap_def chain)
  assume c': "c' \<in> set (cellsArray g)"
  then have c1': "c' \<in> set (tree g In_Container)" using D(8) by simp
  then have "c' \<noteq> container g" using D(1,2) by (auto simp: proper_def)
  moreover have "c' \<notin> set (el g # above g)" using D(4) [OF c1'] by (auto simp: outside_def)
  ultimately show "c' \<in> set (chain_of g c) \<longleftrightarrow> c' = c" by (auto simp: chain)
qed

lemma index_from_unique:
  "c \<in> set cs \<Longrightarrow> (\<And>x. x \<in> set cs \<Longrightarrow> P x \<longleftrightarrow> x = c) \<Longrightarrow>
     index_from i cs P = Some (i + index_in c cs, c)"
  by (induction cs arbitrary: i) auto

lemma getCell_managed:
  assumes ok: "grid_ok g" and c: "c \<in> set (cellsArray g)"
  shows "getCellAndInternalIndex g (chain_of g c) = Some (index_in c (cellsArray g), c)"
    "getCellOfElement g (chain_of g c) = Some c"
proof -
  have "chain_of g c \<noteq> []" by (simp add: chain_of_def)
  moreover have "index_from 0 (cellsArray g)
      (\<lambda>x. x \<in> set (chain_of g c) \<and> closestGridstrap g (chain_of g c) = Some (el g)) =
      Some (0 + index_in c (cellsArray g), c)"
    using closest_cell [OF ok c] by (intro index_from_unique [OF c]) simp
  ultimately show "getCellAndInternalIndex g (chain_of g c) = Some (index_in c (cellsArray g), c)"
    by (simp add: getCellAndInternalIndex_def)
  then show "getCellOfElement g (chain_of g c) = Some c" by (simp add: getCellOfElement_def)
qed

lemma remove_at_index: "distinct cs \<Longrightarrow> remove_at (index_in c cs) cs = removeAll c cs"
  by (induction cs) auto

section \<open>Detaching a cell\<close>

definition detached :: "nat \<Rightarrow> nat \<Rightarrow> nat list \<Rightarrow> nat list \<Rightarrow> grid \<Rightarrow> grid" where
  "detached c h xs ys g =
     g\<lparr>tree := (tree g)(In_Element := xs @ c # ys,
                        In_Container := removeAll c (tree g In_Container)),
       classes := (classes g)(c := classes g c - {Visible_Cell}),
       hiddenOf := (hiddenOf g)(c := None, h := None), visibleOf := (visibleOf g)(h := None),
       cellsArray := removeAll c (cellsArray g)\<rparr>"

lemma managed_links:
  assumes ok: "grid_ok g" and c: "c \<in> set (cellsArray g)"
  obtains h xs ys where "hiddenOf g c = Some h" "visibleOf g h = Some c"
    "tree g In_Element = xs @ h # ys" "h \<notin> set xs \<union> set ys" "c \<noteq> h"
    "c \<notin> set (tree g In_Element)"
proof -
  obtain h where h: "hiddenOf g c = Some h" "visibleOf g h = Some c" "h \<in> set (tree g In_Element)"
    using grid_okD(9) [OF ok] c by (auto simp: links_ok_def)
  obtain xs ys where l: "tree g In_Element = xs @ h # ys" using split_list [OF h(3)] by auto
  have "c \<notin> set (tree g In_Element)"
    using grid_okD(1,8) [OF ok] c by (auto simp: proper_def)
  then show thesis
    using that [OF h(1,2) l] h(3) proper_distinct [OF grid_okD(1) [OF ok], of In_Element] l by auto
qed

lemma tree_detached:
  assumes ok: "grid_ok g" and c: "c \<in> set (cellsArray g)" and h: "visibleOf g h = Some c"
    and l: "tree g In_Element = xs @ h # ys"
  shows "detach h (put (After h) c (detach c (tree g))) =
           (tree g)(In_Element := xs @ c # ys, In_Container := removeAll c (tree g In_Container))"
proof -
  have dist: "h \<notin> set xs \<union> set ys"
    using proper_distinct [OF grid_okD(1) [OF ok], of In_Element] l by simp
  have ck: "c \<notin> set (tree g In_Element)" using grid_okD(1,8) [OF ok] c by (auto simp: proper_def)
  have hc: "h \<notin> set (tree g In_Container)" using not_in_container [OF ok h] .
  have d1: "detach c (tree g) = (tree g)(In_Container := removeAll c (tree g In_Container))"
    using ck by (intro ext, case_tac x) (simp_all add: detach_def)
  have "put (After h) c (detach c (tree g)) =
      (tree g)(In_Element := xs @ h # c # ys, In_Container := removeAll c (tree g In_Container))"
    unfolding d1 using hc dist l ins_after_append [of h xs c ys]
    by (intro ext, case_tac x) (simp_all del: removeAll_absent)
  moreover have "c \<noteq> h" using ck l by auto
  ultimately show ?thesis
    using dist hc by (intro ext, case_tac x) (simp_all add: detach_def)
qed

lemma detached_ok:
  assumes ok: "grid_ok g" and c: "c \<in> set (cellsArray g)"
    and h: "hiddenOf g c = Some h" "visibleOf g h = Some c" and l: "tree g In_Element = xs @ h # ys"
  shows "grid_ok (detached c h xs ys g)" "plain (detached c h xs ys g) c"
    "getCells (detached c h xs ys g) = removeAll c (getCells g)"
proof -
  let ?g = "detached c h xs ys g"
  note D = grid_okD [OF ok]
  have ck: "c \<notin> set (tree g In_Element)" using D(1,8) c by (auto simp: proper_def)
  have dist: "h \<notin> set xs" "h \<notin> set ys" "distinct xs" "distinct ys" "set xs \<inter> set ys = {}"
    using proper_distinct [OF D(1), of In_Element] l by auto
  have vc: "visibleOf g c = None"
    using visible_hidden(1) [OF ok, of c] ck by (cases "visibleOf g c") auto
  have hcont: "h \<noteq> container g" using visible_hidden(5) [OF ok h(2)] .
  have cont: "c \<noteq> container g" using ck D(2) by auto
  have "proper (tree ?g)"
    using D(1) ck l dist by (auto simp: proper_def detached_def distinct_removeAll)
  then have t: "tree_ok ?g"
  proof (intro tree_ok_change [OF D(10)])
    fix p f assume "f \<in> set (tree ?g p)"
    then show "(\<exists>q. f \<in> set (tree g q)) \<or> nextId g \<le> f \<and> f < nextId ?g"
      using l c D(8) by (cases p)
        (auto simp: detached_def intro: exI [of _ In_Element] exI [of _ In_Container])
  qed (use D(2) l hcont in \<open>auto simp: detached_def\<close>)
  have apart: "v \<noteq> c" "k \<noteq> h" if "visibleOf g k = Some v" "k \<noteq> h \<or> v \<noteq> c" for k v
    using visible_hidden(4) [OF ok that(1)] h that by auto
  have hc: "h \<notin> set (cellsArray g)" using D(1,8) l by (auto simp: proper_def)
  have "links_ok ?g"
  proof (rule links_ok_sub [OF ok])
    fix v k assume "v \<in> set (cellsArray ?g)" "hiddenOf g v = Some k" "visibleOf g k = Some v"
      "k \<in> set (tree g In_Element)" "hasClass g k Hidden_Cell"
    moreover from this have "k \<noteq> h" "v \<noteq> h" "k \<noteq> c" "v \<noteq> c"
      using apart [of k v] hc ck by (auto simp: detached_def)
    ultimately show "hiddenOf ?g v = Some k \<and> visibleOf ?g k = Some v \<and>
        k \<in> set (tree ?g In_Element) \<and> hasClass ?g k Hidden_Cell"
      using l by (auto simp: detached_def hasClass_def)
  next
    fix k v assume "visibleOf ?g k = Some v"
    then have "visibleOf g k = Some v" "k \<noteq> h" by (auto simp: detached_def split: if_splits)
    then show "visibleOf g k = Some v \<and> v \<in> set (cellsArray ?g)"
      using apart [of k v] visible_hidden(3) [OF ok] by (auto simp: detached_def)
  next
    fix v k assume "hiddenOf ?g v = Some k"
    then show "v \<in> set (cellsArray ?g)"
      using D(12) [of v] by (auto simp: detached_def split: if_splits)
  qed (use D(11) in \<open>auto simp: detached_def\<close>)
  then show ok': "grid_ok ?g"
    using t D(7,8) by (simp add: grid_ok_def detached_def distinct_removeAll)
  show "plain ?g c" using vc cont by (simp add: plain_def detached_def)
  have cells: "cells_of ?g zs = cells_of g zs" if "h \<notin> set zs" for zs
    using that by (intro cells_of_cong) (auto simp: detached_def)
  have "k = h" if "visibleOf g k = Some c" for k
    using visible_hidden(4) [OF ok that] h(1) by simp
  then have "c \<notin> set (cells_of g xs)" "c \<notin> set (cells_of g ys)"
    using dist by (auto simp: set_cells_of)
  moreover have "visibleOf ?g c = None" using vc by (simp add: detached_def)
  ultimately show "getCells ?g = removeAll c (getCells g)"
    unfolding getCells_kids [OF ok'] getCells_kids [OF ok] using dist h(2) l
    by (simp add: detached_def) (simp add: cells [unfolded detached_def])
qed

text \<open>\<open>detachCell\<close> leaves the cell where its hidden copy was, as an ordinary child.\<close>

lemma detachCell_result:
  assumes ok: "grid_ok g" and c: "c \<in> set (cellsArray g)"
    and h: "hiddenOf g c = Some h" "visibleOf g h = Some c" and l: "tree g In_Element = xs @ h # ys"
  obtains g' where "detachCell B (chain_of g c) g = (None, g')" "grid_ok g'" "plain g' c"
    "same_cells (detached c h xs ys g) g'" "getCells g' = removeAll c (getCells g)"
proof -
  let ?i = "index_in c (cellsArray g)"
  have ch: "c \<noteq> h" using grid_okD(1,8) [OF ok] c l by (auto simp: proper_def)
  define g1 where "g1 = removeClass c Visible_Cell
     ((clearAbsoluteCSS c (detach_element c g))\<lparr>hiddenOf := (hiddenOf g)(c := None)\<rparr>)"
  define g2 where "g2 = remove_element h (put_element (After h) c g1)"
  define g3 where "g3 = g2\<lparr>cellsArray := remove_at ?i (cellsArray g2)\<rparr>"
  have "tree g2 = (tree g)(In_Element := xs @ c # ys,
      In_Container := removeAll c (tree g In_Container))"
    using tree_detached [OF ok c h(2) l]
    by (simp add: g2_def g1_def remove_element_def detach_element_def put_element_def
        removeClass_def clearAbsoluteCSS_def)
  then have same: "same_cells (detached c h xs ys g) g3"
    using remove_at_index [OF grid_okD(7) [OF ok], of c]
    by (simp add: same_cells_def g3_def detached_def g2_def g1_def remove_element_def
        detach_element_def put_element_def removeClass_def clearAbsoluteCSS_def)
  note det = detached_ok [OF ok c h l]
  have "grid_ok g3" using same_cells_ok [OF same] det(1) by simp
  then obtain g' where g': "updateVisibleCellCoordinates B g3 = (None, g')" "same_cells g3 g'"
    "grid_ok g'" "getCells g' = getCells g3" by (rule update_ok)
  have "detachCell B (chain_of g c) g = (None, g')"
    using g'(1) getCell_managed(1) [OF ok c] h(1)
    by (simp add: detachCell_def js_defs g1_def [symmetric] g2_def [symmetric] g3_def [symmetric])
  moreover have "plain g' c"
    using det(2) same_cells_trans [OF same g'(2)] by (simp add: plain_def same_cells_def)
  ultimately show thesis
    using that [of g'] g'(3,4) same_cells_trans [OF same g'(2)] same_cells_getCells [OF same] det(3)
    by simp
qed

lemma remove_plain_ok:
  assumes ok: "grid_ok g" and e: "plain g e"
  shows "grid_ok (remove_element e g)" "getCells (remove_element e g) = getCells g"
proof -
  let ?g = "remove_element e g"
  note D = grid_okD [OF ok] and e' = plain_unmanaged [OF ok e]
  have tr: "tree ?g = (\<lambda>p. removeAll e (tree g p))"
    by (simp add: remove_element_def detach_element_def detach_def)
  have cont: "tree ?g In_Container = tree g In_Container" using e'(2) by (simp add: tr)
  have "tree_ok ?g"
  proof (rule tree_ok_change [OF D(10)])
    show "proper (tree ?g)" using proper_detach [OF D(1)] by (simp add: tr detach_def)
  qed (use D(2) e in \<open>auto simp: plain_def remove_element_def detach_element_def detach_def\<close>)
  moreover have "links_ok ?g"
    using e'(1) e D(11,12)
    by (intro links_ok_sub [OF ok])
      (auto simp: plain_def hasClass_def remove_element_def detach_element_def detach_def
        split: if_splits dest: visible_hidden(3) [OF ok])
  ultimately show ok': "grid_ok ?g"
    using D(7,8) cont by (simp add: grid_ok_def) (simp add: remove_element_def detach_element_def)
  have v: "visibleOf ?g = visibleOf g"
    using e by (auto simp: remove_element_def plain_def)
  have "cells_of g (removeAll e zs) = cells_of g zs" for zs
    using e by (induction zs) (auto simp: plain_def split: option.splits)
  then show "getCells ?g = getCells g"
    unfolding getCells_kids [OF ok'] getCells_kids [OF ok]
    by (simp add: cells_of_def v tr)
qed

lemma removeCell_result:
  assumes ok: "grid_ok g" and c: "c \<in> set (cellsArray g)"
  obtains g' where "removeCell B (chain_of g c) g = (None, g')" "grid_ok g'"
    "getCells g' = removeAll c (getCells g)" "cellsArray g' = removeAll c (cellsArray g)"
    "options g' = options g" "nextId g' = nextId g"
    "\<And>e. e \<noteq> c \<Longrightarrow> classes g' e = classes g e"
    "\<And>v. v \<in> set (cellsArray g) \<Longrightarrow> v \<noteq> c \<Longrightarrow> hiddenOf g' v = hiddenOf g v"
proof -
  obtain h xs ys where h: "hiddenOf g c = Some h" "visibleOf g h = Some c"
    "tree g In_Element = xs @ h # ys" "h \<notin> set xs \<union> set ys" "c \<noteq> h"
    "c \<notin> set (tree g In_Element)" using managed_links [OF ok c] .
  from detachCell_result [OF ok c h(1-3), of B] obtain g1 where
    g1: "detachCell B (chain_of g c) g = (None, g1)" "grid_ok g1" "plain g1 c"
      "same_cells (detached c h xs ys g) g1" "getCells g1 = removeAll c (getCells g)" .
  note rem = remove_plain_ok [OF g1(2,3)]
  obtain g' where g': "updateVisibleCellCoordinates B (remove_element c g1) = (None, g')"
    "same_cells (remove_element c g1) g'" "grid_ok g'" "getCells g' = getCells (remove_element c g1)"
    using update_ok [OF rem(1)] .
  have "removeCell B (chain_of g c) g = (None, g')"
    using g1(1) g'(1) getCell_managed(2) [OF ok c] by (simp add: removeCell_def js_defs)
  moreover have "hiddenOf g' v = hiddenOf g v" if "v \<in> set (cellsArray g)" "v \<noteq> c" for v
  proof -
    have "v \<noteq> h" using that(1) grid_okD(1,8) [OF ok] h(3) by (auto simp: proper_def)
    then show ?thesis using that(2) g'(2) g1(4)
      by (simp add: same_cells_def detached_def remove_element_def detach_element_def)
  qed
  ultimately show thesis
    using that [of g'] g'(2-4) rem(2) g1(4,5)
    by (simp add: same_cells_def detached_def remove_element_def detach_element_def)
qed

section \<open>Moving a cell\<close>

text \<open>The children of the grid's element in another order.\<close>

lemma reorder_ok:
  assumes ok: "grid_ok g" and d: "distinct kids" and s: "set kids = set (tree g In_Element)"
  shows "grid_ok (g\<lparr>tree := (tree g)(In_Element := kids)\<rparr>)"
    "getCells (g\<lparr>tree := (tree g)(In_Element := kids)\<rparr>) = cells_of g kids"
proof -
  let ?g = "g\<lparr>tree := (tree g)(In_Element := kids)\<rparr>"
  note D = grid_okD [OF ok]
  have "tree_ok ?g"
  proof (rule tree_ok_change [OF D(10)])
    show "proper (tree ?g)" using D(1) d s by (simp add: proper_def)
    fix p e assume "e \<in> set (tree ?g p)"
    then show "(\<exists>q. e \<in> set (tree g q)) \<or> nextId g \<le> e \<and> e < nextId ?g"
      using s by (cases p) (auto intro: exI [of _ In_Element] exI [of _ In_Container])
  qed (use D(2) s in simp_all)
  moreover have "links_ok ?g"
    using D(9) s unfolding links_ok_def hasClass_def by simp
  ultimately show ok': "grid_ok ?g" using D(7,8) by (simp add: grid_ok_def)
  show "getCells ?g = cells_of g kids"
    unfolding getCells_kids [OF ok'] by (simp add: cells_of_def)
qed

lemma cells_of_exchange:
  assumes "visibleOf g d = Some c" "visibleOf g r = Some t"
    "\<And>x v. visibleOf g x = Some v \<Longrightarrow> v = c \<longleftrightarrow> x = d" "\<And>x v. visibleOf g x = Some v \<Longrightarrow> v = t \<longleftrightarrow> x = r"
  shows "cells_of g (map (exchange d r) xs) = map (exchange c t) (cells_of g xs)"
proof (induction xs)
  case (Cons x xs)
  have "visibleOf g (exchange d r x) = map_option (exchange c t) (visibleOf g x)"
    using assms by (cases "visibleOf g x") (auto simp: exchange_def)
  then show ?case using Cons by (cases "visibleOf g x") simp_all
qed simp

lemma cells_of_reinsert:
  assumes ok: "grid_ok g" and dist: "distinct xs" and d: "d \<in> set xs" and r: "r \<in> set xs"
    and dr: "d \<noteq> r" and v: "visibleOf g d = Some c" "visibleOf g r = Some t"
  shows "cells_of g (reinsert d (index_in r xs) xs) =
           reinsert c (index_in t (cells_of g xs)) (cells_of g xs)"
proof -
  obtain us ys zs e f where l: "xs = us @ e # ys @ f # zs" and ef: "{e, f} = {d, r}"
    by (rule two_positions [OF d r dr])
  have dc: "distinct (cells_of g xs)" using distinct_cells_of [OF ok dist] .
  consider "e = d \<and> f = r" | "e = r \<and> f = d" using ef by (auto simp: doubleton_eq_iff)
  then show ?thesis
  proof cases
    case 1
    have cs: "cells_of g xs = cells_of g us @ c # cells_of g ys @ t # cells_of g zs"
      using v 1 by (simp add: l)
    have "reinsert d (index_in r xs) xs = us @ ys @ r # d # zs"
      using reinsert_simps(1) [of us e ys f zs] dist l 1 by simp
    moreover have "reinsert c (index_in t (cells_of g xs)) (cells_of g xs) =
        cells_of g us @ cells_of g ys @ t # c # cells_of g zs"
      unfolding cs by (rule reinsert_simps(1)) (use dc cs in simp)
    ultimately show ?thesis using v by simp
  next
    case 2
    have cs: "cells_of g xs = cells_of g us @ t # cells_of g ys @ c # cells_of g zs"
      using v 2 by (simp add: l)
    have "reinsert d (index_in r xs) xs = us @ d # r # ys @ zs"
      using reinsert_simps(2) [of us e ys f zs] dist l 2 by simp
    moreover have "reinsert c (index_in t (cells_of g xs)) (cells_of g xs) =
        cells_of g us @ c # t # cells_of g ys @ cells_of g zs"
      unfolding cs by (rule reinsert_simps(2)) (use dc cs in simp)
    ultimately show ?thesis using v by simp
  qed
qed

text \<open>The order of the cells after \<open>c\<close> was moved onto \<open>t\<close>.\<close>

definition moved :: "bool \<Rightarrow> nat \<Rightarrow> nat \<Rightarrow> nat list \<Rightarrow> nat list" where
  "moved swap c t cs =
     (if c = t then cs else if swap then map (exchange c t) cs else reinsert c (index_in t cs) cs)"

lemma moveCellTo_result:
  assumes ok: "grid_ok g" and c: "c \<in> set (cellsArray g)" and t: "t \<in> set (cellsArray g)"
  obtains g' where "moveCellTo B c (Some t) g = (None, g')" "grid_ok g'"
    "getCells g' = moved (swapMode (options g)) c t (getCells g)"
    "cellsArray g' = cellsArray g" "options g' = options g" "classes g' = classes g"
    "hiddenOf g' = hiddenOf g" "visibleOf g' = visibleOf g" "nextId g' = nextId g"
proof -
  obtain d xs1 ys1 where d: "hiddenOf g c = Some d" "visibleOf g d = Some c"
    "tree g In_Element = xs1 @ d # ys1" using managed_links [OF ok c] by blast
  obtain r xs2 ys2 where r: "hiddenOf g t = Some r" "visibleOf g r = Some t"
    "tree g In_Element = xs2 @ r # ys2" using managed_links [OF ok t] by blast
  show thesis
  proof (cases "c = t")
    case True
    then have "moveCellTo B c (Some t) g = (None, g)"
      using d(1) by (simp add: moveCellTo_def js_defs)
    then show thesis using that [of g] ok True by (simp add: moved_def)
  next
    case False
    then have dr: "d \<noteq> r" using d(2) r(2) by auto
    let ?kids = "tree g In_Element"
    have din: "d \<in> set ?kids" using d(3) by simp
    have rin: "r \<in> set ?kids" using r(3) by simp
    note p = grid_okD(1) [OF ok]
    have dist: "distinct ?kids" using proper_distinct [OF p] .
    define kids' where "kids' = (if swapMode (options g) then map (exchange d r) ?kids
                                 else reinsert d (index_in r ?kids) ?kids)"
    have tree: "(if swapMode (options g) then swapJQueryElements d r (tree g)
                 else detachAndInsertInPlace d r (tree g)) = (tree g)(In_Element := kids')"
      using swapJQueryElements_exchange [OF p din rin dr]
        detachAndInsertInPlace_reinsert [OF p din rin dr] by (simp add: kids'_def)
    have k: "distinct kids'" "set kids' = set ?kids"
      using proper_distinct [OF proper_map_exchange [OF p din rin], of In_Element] din rin
        distinct_reinsert [OF dist] set_reinsert [OF din]
      by (auto simp: kids'_def exchange_def image_iff)
    have inj: "v = c \<longleftrightarrow> x = d" "v = t \<longleftrightarrow> x = r" if "visibleOf g x = Some v" for x v
      using visible_hidden(4) [OF ok that] d(1,2) r(1,2) that by auto
    have cs: "cells_of g kids' = moved (swapMode (options g)) c t (getCells g)"
      using False cells_of_exchange [OF d(2) r(2) inj] 
        cells_of_reinsert [OF ok dist din rin dr d(2) r(2)]
      by (simp add: moved_def kids'_def getCells_kids [OF ok])
    note o = reorder_ok [OF ok k]
    obtain g' where g': "updateVisibleCellCoordinates B (g\<lparr>tree := (tree g)(In_Element := kids')\<rparr>)
        = (None, g')" "same_cells (g\<lparr>tree := (tree g)(In_Element := kids')\<rparr>) g'" "grid_ok g'"
      "getCells g' = cells_of g kids'" using update_ok [OF o(1)] unfolding o(2) .
    have "moveCellTo B c (Some t) g = (None, g')"
      using d(1) r(1) dr g'(1) tree by (simp add: moveCellTo_def js_defs)
    then show thesis using that [of g'] g'(2-4) cs by (simp add: same_cells_def)
  qed
qed

end
