(* ===== verification/Grid_Padding.thy ===== *)
theory Grid_Padding
  imports Grid_Cells
begin

text \<open>
  The two loops of \<open>AppendOrRemoveNonContiguousCellsWhile\<close>. The list of hidden cells the loops
  keep is always the list of hidden cells of the grid; the first loop ends when its condition is
  false for large grids, the second one because it removes cells; placeholders go behind the
  cells that were there, and only placeholders are removed.
\<close>

section \<open>Classes\<close>

lemma addClass_ok: "grid_ok g \<Longrightarrow> grid_ok (addClass e c g)"
  by (fastforce simp: grid_ok_def tree_ok_def links_ok_def outside_def addClass_def hasClass_def)

lemma hiddenCells_cong:
  assumes "tree g' = tree g" "visibleOf g' = visibleOf g" "cellsArray g' = cellsArray g"
    "container g' = container g" "\<And>h. hasClass g' h Hidden_Cell = hasClass g h Hidden_Cell"
  shows "hiddenCells g' = hiddenCells g" "getCells g' = getCells g"
  using assms
  by (simp_all add: getCells_def hiddenCells_def document_order_def
      cong: option.case_cong if_cong)

lemma addClass_hidden:
  assumes "c \<noteq> Hidden_Cell"
  shows "hiddenCells (addClass e c g) = hiddenCells g" "getCells (addClass e c g) = getCells g"
  using assms by (intro hiddenCells_cong; auto simp: hasClass_def addClass_def)+

lemma removeClass_ok: "grid_ok g \<Longrightarrow> c \<noteq> Hidden_Cell \<Longrightarrow> grid_ok (removeClass e c g)"
  by (fastforce simp: grid_ok_def tree_ok_def links_ok_def outside_def removeClass_def hasClass_def)

lemma removeClass_hidden:
  assumes "c \<noteq> Hidden_Cell"
  shows "hiddenCells (removeClass e c g) = hiddenCells g" "getCells (removeClass e c g) = getCells g"
  using assms by (intro hiddenCells_cong; auto simp: hasClass_def removeClass_def)+

section \<open>The list the loops keep\<close>

lemma set_hiddenCells: "grid_ok g \<Longrightarrow> set (hiddenCells g) = {h. visibleOf g h \<noteq> None}"
  by (auto simp: hiddenCells_kids dest: visible_hidden(1))

lemma hiddenCells_filter:
  assumes "grid_ok g" "set hs = set (hiddenCells g)"
  shows "filter (\<lambda>e. e \<in> set hs) (document_order g) = hiddenCells g"
proof -
  have n: "visibleOf g e = None" if "e \<in> set (tree g In_Container)" for e
    using not_in_container [OF assms(1), of e] that by (cases "visibleOf g e") auto
  have "filter (\<lambda>e. e \<in> set hs) (document_order g) =
        filter (\<lambda>e. e \<in> set hs) (tree g In_Element)"
    using n by (intro filter_document_order) (auto simp: assms(2) set_hiddenCells [OF assms(1)])
  then show ?thesis
    by (simp add: hiddenCells_kids [OF assms(1)] assms(2) cong: filter_cong)
qed

lemma hiddenCells_getCells:
  assumes ok: "grid_ok g"
  shows "hiddenCells g = map (\<lambda>v. the (hiddenOf g v)) (getCells g)"
proof -
  have "map (\<lambda>h. the (hiddenOf g (the (visibleOf g h)))) (hiddenCells g) = hiddenCells g"
  proof (rule map_idI)
    fix h assume "h \<in> set (hiddenCells g)"
    then obtain v where "visibleOf g h = Some v" by (auto simp: set_hiddenCells [OF ok])
    then show "the (hiddenOf g (the (visibleOf g h))) = h"
      using visible_hidden(4) [OF ok] by simp
  qed
  then show ?thesis by (simp add: getCells_map [OF ok] comp_def)
qed

lemma hiddenCells_removed:
  assumes ok: "grid_ok g" and ok': "grid_ok g'" and h: "hiddenOf g c = Some h" "visibleOf g h = Some c"
    and cells: "getCells g' = removeAll c (getCells g)"
    and same: "\<And>v. v \<in> set (cellsArray g) \<Longrightarrow> v \<noteq> c \<Longrightarrow> hiddenOf g' v = hiddenOf g v"
  shows "hiddenCells g' = removeAll h (hiddenCells g)"
proof -
  have inj: "the (hiddenOf g v) = h \<longleftrightarrow> v = c" if "v \<in> set (getCells g)" for v
    using that h grid_okD(9) [OF ok] by (auto simp: set_getCells [OF ok] links_ok_def)
  have "map (\<lambda>v. the (hiddenOf g' v)) (removeAll c cs) = removeAll h (map (\<lambda>v. the (hiddenOf g v)) cs)"
    if "set cs \<subseteq> set (getCells g)" for cs
    using that
  proof (induction cs)
    case (Cons v cs)
    then show ?case using inj [of v] same [of v] by (auto simp: set_getCells [OF ok])
  qed simp
  then show ?thesis
    by (simp add: hiddenCells_getCells [OF ok] hiddenCells_getCells [OF ok'] cells)
qed

section \<open>Appending placeholders\<close>

text \<open>The grid after one round of the first loop.\<close>

lemma append_round:
  assumes ok: "grid_ok g"
  obtains g' where "insertHere B html (int (length (hiddenCells g))) g = (None, g')"
    "grid_ok (addClass (nextId g) Placeholder_Cell g')"
    "getCells (addClass (nextId g) Placeholder_Cell g') = getCells g @ [nextId g]"
    "hiddenOf g' (nextId g) = Some (Suc (nextId g))"
    "add_in_order g' (Suc (nextId g)) (hiddenCells g) =
       hiddenCells (addClass (nextId g) Placeholder_Cell g')"
    "cellsArray g' = cellsArray g @ [nextId g]" "nextId g' = Suc (Suc (nextId g))"
    "options g' = options g"
    "\<forall>e < nextId g. classes g' e = classes g e"
proof -
  have "length (hiddenCells g) \<le> length (getCells g)" using length_getCells [OF ok] by simp
  from insertHere_result [OF ok this, of B html] obtain g' where g':
    "insertHere B html (int (length (hiddenCells g))) g = (None, g')" "grid_ok g'"
    "getCells g' = take (length (hiddenCells g)) (getCells g) @ nextId g #
                   drop (length (hiddenCells g)) (getCells g)"
    "cellsArray g' = cellsArray g @ [nextId g]" "nextId g' = Suc (Suc (nextId g))"
    "options g' = options g"
    "\<And>e. e \<noteq> nextId g \<Longrightarrow> e \<noteq> Suc (nextId g) \<Longrightarrow> classes g' e = classes g e"
    "hiddenOf g' (nextId g) = Some (Suc (nextId g))"
    "visibleOf g' = (visibleOf g)(nextId g := None, Suc (nextId g) := Some (nextId g))" by blast
  have fresh: "visibleOf g (nextId g) = None" using fresh_element(2) [OF ok] .
  have "set (Suc (nextId g) # hiddenCells g) = set (hiddenCells g')"
    using fresh by (auto simp: set_hiddenCells [OF ok] set_hiddenCells [OF g'(2)] g'(9))
  then have "add_in_order g' (Suc (nextId g)) (hiddenCells g) = hiddenCells g'"
    unfolding add_in_order_def by (rule hiddenCells_filter [OF g'(2)])
  moreover have "classes g' e = classes g e" if "e < nextId g" for e
    using g'(7) [of e] that by simp
  ultimately show thesis
    using that [of g'] g' addClass_ok [OF g'(2)] length_getCells [OF ok]
    by (simp add: addClass_hidden)
qed

definition placeholder_ids :: "nat \<Rightarrow> nat \<Rightarrow> nat list" where
  "placeholder_ids n k = map (\<lambda>j. n + 2 * j) [0..<k]"

lemma placeholder_ids_Suc:
  "placeholder_ids n (Suc k) = n # placeholder_ids (Suc (Suc n)) k"
proof -
  have "[0..<Suc k] = 0 # map Suc [0..<k]" by (simp add: map_Suc_upt upt_conv_Cons del: upt_Suc)
  then show ?thesis by (simp add: placeholder_ids_def comp_def del: upt_Suc)
qed

definition padded :: "grid \<Rightarrow> nat \<Rightarrow> grid \<Rightarrow> bool" where
  "padded g k g' \<longleftrightarrow>
     grid_ok g' \<and> getCells g' = getCells g @ placeholder_ids (nextId g) k \<and>
     cellsArray g' = cellsArray g @ placeholder_ids (nextId g) k \<and>
     nextId g' = nextId g + 2 * k \<and> options g' = options g \<and>
     (\<forall>e < nextId g. classes g' e = classes g e) \<and>
     (\<forall>c \<in> set (placeholder_ids (nextId g) k). hasClass g' c Placeholder_Cell)"

lemma padded_0: "grid_ok g \<Longrightarrow> padded g 0 g"
  by (simp add: padded_def placeholder_ids_def)

text \<open>
  The first loop ends when its condition does not throw and fails for grids of \<open>n\<close> cells: it has
  added some number of placeholders, and its condition fails then.
\<close>

lemma appendWhile_ends:
  assumes ok: "grid_ok g"
    and P: "\<And>g. grid_ok g \<Longrightarrow> \<exists>b. P g (hiddenCells g) True = Inr b \<and> (b \<longrightarrow> length (getCells g) < n)"
  shows "\<exists>k g'. appendWhile B P html (hiddenCells g) changed g =
                  Some (Inr (hiddenCells g', changed \<or> 0 < k), g') \<and>
                padded g k g' \<and> P g' (hiddenCells g') True = Inr False \<and>
                (0 < k \<longrightarrow> length (getCells g) + k \<le> n)"
  using ok
proof (induction "n - length (getCells g)" arbitrary: g changed rule: less_induct)
  case less
  obtain b where b: "P g (hiddenCells g) True = Inr b" "b \<longrightarrow> length (getCells g) < n"
    using P [OF less.prems] by blast
  show ?case
  proof (cases b)
    case False
    then have "appendWhile B P html (hiddenCells g) changed g = Some (Inr (hiddenCells g, changed), g)"
      using b by (simp add: appendWhile.simps)
    then show ?thesis
      using False b padded_0 [OF less.prems] by (intro exI [of _ 0] exI [of _ g]) simp
  next
    case True
    obtain g1 where g1: "insertHere B html (int (length (hiddenCells g))) g = (None, g1)"
      "grid_ok (addClass (nextId g) Placeholder_Cell g1)"
      "getCells (addClass (nextId g) Placeholder_Cell g1) = getCells g @ [nextId g]"
      "hiddenOf g1 (nextId g) = Some (Suc (nextId g))"
      "add_in_order g1 (Suc (nextId g)) (hiddenCells g) =
         hiddenCells (addClass (nextId g) Placeholder_Cell g1)"
      "cellsArray g1 = cellsArray g @ [nextId g]" "nextId g1 = Suc (Suc (nextId g))"
      "options g1 = options g" "\<forall>e < nextId g. classes g1 e = classes g e"
      by (rule append_round [OF less.prems, of B html])
    let ?g2 = "addClass (nextId g) Placeholder_Cell g1"
    have "n - length (getCells ?g2) < n - length (getCells g)" using True b g1(3) by simp
    from less.hyps [OF this g1(2), of True] obtain k g' where k:
      "appendWhile B P html (hiddenCells ?g2) True ?g2 = Some (Inr (hiddenCells g', True), g')"
      "padded ?g2 k g'" "P g' (hiddenCells g') True = Inr False"
      "0 < k \<longrightarrow> length (getCells ?g2) + k \<le> n" by auto
    have e: "appendWhile B P html (hiddenCells g) changed g =
        Some (Inr (hiddenCells g', changed \<or> 0 < Suc k), g')"
      using True b(1) g1(1,4,5) k(1) by (subst appendWhile.simps) simp
    have n2: "nextId ?g2 = Suc (Suc (nextId g))" "options ?g2 = options g"
      "cellsArray ?g2 = cellsArray g @ [nextId g]"
      using g1(6-8) by (simp_all add: addClass_def)
    have cl: "classes ?g2 e = classes g e" if "e < nextId g" for e
      using that g1(9) by (simp add: addClass_def)
    have "hasClass g' (nextId g) Placeholder_Cell"
      using k(2) n2(1) by (simp add: padded_def hasClass_def) (simp add: addClass_def)
    then have "padded g (Suc k) g'"
      using k(2) n2 g1(3) cl by (simp add: padded_def placeholder_ids_Suc)
    moreover have "length (getCells g) + Suc k \<le> n"
      using k(4) True b(2) g1(3) by (cases "k = 0") auto
    ultimately show ?thesis using e k(3) by blast
  qed
qed

lemma removeWhile_stops: "P g hs False = Inr False \<Longrightarrow> removeWhile B P hs changed g = (Inr changed, g)"
  by (subst removeWhile.simps) simp

text \<open>A condition that only appends.\<close>

lemma appendOrRemove_appends:
  assumes ok: "grid_ok g"
    and P: "\<And>g. grid_ok g \<Longrightarrow> \<exists>b. P g (hiddenCells g) True = Inr b \<and> (b \<longrightarrow> length (getCells g) < n)"
    and R: "\<And>g hs. P g hs False = Inr False"
  obtains k g' where
    "appendOrRemoveNonContiguousCellsWhile B P html g = Some (Inr (0 < k), g')"
    "padded g k g'" "P g' (hiddenCells g') True = Inr False"
    "0 < k \<longrightarrow> length (getCells g) + k \<le> n"
proof -
  from appendWhile_ends [of g P n B html False, OF ok P] obtain k g' where
    "appendWhile B P html (hiddenCells g) False g = Some (Inr (hiddenCells g', 0 < k), g')"
    "padded g k g'" "P g' (hiddenCells g') True = Inr False"
    "0 < k \<longrightarrow> length (getCells g) + k \<le> n" by auto
  then show thesis
    using that [of k g'] removeWhile_stops [of P g' "hiddenCells g'" B "0 < k", OF R]
    by (simp add: appendOrRemoveNonContiguousCellsWhile_def)
qed

section \<open>Removing placeholders\<close>

definition only_removed :: "grid \<Rightarrow> grid \<Rightarrow> bool" where
  "only_removed g g' \<longleftrightarrow>
     (\<exists>rest. getCells g = getCells g' @ rest \<and>
             set (cellsArray g') = set (cellsArray g) - set rest \<and>
             (\<forall>c \<in> set rest. hasClass g c Placeholder_Cell)) \<and>
     options g' = options g \<and> nextId g' = nextId g \<and>
     (\<forall>e \<in> set (getCells g'). classes g' e = classes g e)"

lemma only_removed_refl: "only_removed g g"
  by (auto simp: only_removed_def)

lemma only_removed_step:
  assumes ok: "grid_ok g" and last: "getCells g \<noteq> []" "c = last (getCells g)"
    and pl: "hasClass g c Placeholder_Cell" and cells: "getCells g1 = removeAll c (getCells g)"
    and arr: "cellsArray g1 = removeAll c (cellsArray g)"
    and opt: "options g1 = options g" "nextId g1 = nextId g"
    and cl: "\<And>e. e \<noteq> c \<Longrightarrow> classes g1 e = classes g e" and more: "only_removed g1 g'"
  shows "only_removed g g'"
proof -
  have "distinct (butlast (getCells g) @ [c])" using distinct_getCells [OF ok] last by simp
  then have b: "removeAll c (getCells g) = butlast (getCells g)"
    using last append_butlast_last_id [of "getCells g"]
    by (metis append_Nil2 distinct.simps(2) distinct_append removeAll.simps removeAll_append
        removeAll_id not_distinct_conv_prefix)
  obtain rest where rest: "getCells g1 = getCells g' @ rest"
    "set (cellsArray g') = set (cellsArray g1) - set rest"
    "\<forall>c \<in> set rest. hasClass g1 c Placeholder_Cell" using more by (auto simp: only_removed_def)
  have "getCells g = butlast (getCells g) @ [c]" using last by simp
  also have "butlast (getCells g) = getCells g' @ rest" using b cells rest(1) by simp
  finally have g: "getCells g = getCells g' @ rest @ [c]" by simp
  have nc: "c \<notin> set (getCells g') \<union> set rest" using distinct_getCells [OF ok] g by auto
  have "classes g1 x = classes g x" if "x \<in> set rest" for x using that nc cl [of x] by blast
  then have "\<forall>x \<in> set (rest @ [c]). hasClass g x Placeholder_Cell"
    using rest(3) pl by (auto simp: hasClass_def)
  moreover have "set (cellsArray g') = set (cellsArray g) - set (rest @ [c])"
    using rest(2) arr by auto
  moreover have "classes g1 e = classes g e" if "e \<in> set (getCells g')" for e
    using that nc cl [of e] by blast
  then have "\<forall>e \<in> set (getCells g'). classes g' e = classes g e"
    using more by (simp add: only_removed_def)
  ultimately show ?thesis
    using g more opt unfolding only_removed_def by (metis append.assoc)
qed

text \<open>One round of the second loop.\<close>

lemma remove_round:
  assumes ok: "grid_ok g" and hs: "hs = hiddenCells g"
    and row: "bottomRow B g hs \<noteq> []" "list_all (is_placeholder g) (bottomRow B g hs)"
    and v: "visibleOf g (last hs) = Some v"
  obtains g1 where "removeCell B (chain_of g v) g = (None, g1)" "grid_ok g1"
    "hiddenCells g1 = removeAll (last hs) hs" "getCells g1 = removeAll v (getCells g)"
    "\<forall>g'. only_removed g1 g' \<longrightarrow> only_removed g g'" "hasClass g v Placeholder_Cell"
    "\<forall>e. e \<noteq> v \<longrightarrow> classes g1 e = classes g e"
proof -
  have ne: "hs \<noteq> []" using row(1) by (auto simp: bottomRow_def)
  then have "last hs \<in> set (bottomRow B g hs)" by (simp add: bottomRow_def)
  then have pl: "hasClass g v Placeholder_Cell"
    using row(2) v by (auto simp: list_all_iff is_placeholder_def)
  have last: "getCells g \<noteq> []" "v = last (getCells g)"
    using ne hs v by (auto simp: getCells_map [OF ok] last_map)
  then have vc: "v \<in> set (cellsArray g)" using set_getCells [OF ok] last_in_set by blast
  from removeCell_result [OF ok vc, of B] obtain g1 where g1:
    "removeCell B (chain_of g v) g = (None, g1)" "grid_ok g1"
    "getCells g1 = removeAll v (getCells g)" "cellsArray g1 = removeAll v (cellsArray g)"
    "options g1 = options g" "nextId g1 = nextId g"
    "\<And>e. e \<noteq> v \<Longrightarrow> classes g1 e = classes g e"
    "\<And>w. w \<in> set (cellsArray g) \<Longrightarrow> w \<noteq> v \<Longrightarrow> hiddenOf g1 w = hiddenOf g w" by blast
  have "hiddenOf g v = Some (last hs)" using visible_hidden(4) [OF ok v] .
  then have h: "hiddenCells g1 = removeAll (last hs) hs"
    using hiddenCells_removed [OF ok g1(2) _ v g1(3,8)] hs by simp
  show thesis
    using that [OF g1(1,2) h g1(3) _ pl] only_removed_step [OF ok last pl g1(3-7)] g1(7) by blast
qed

lemma removeWhile_safe:
  assumes "grid_ok g" "hs = hiddenCells g"
  shows "grid_ok (snd (removeWhile B P hs changed g)) \<and>
         only_removed g (snd (removeWhile B P hs changed g))"
  using assms
proof (induction B P hs changed g rule: removeWhile.induct)
  case (1 B P hs changed g)
  show ?case
  proof (cases "P g hs False = Inr True \<and> \<not> list_ex (\<lambda>h. visibleOf g h = None) (bottomRow B g hs) \<and>
      bottomRow B g hs \<noteq> [] \<and> list_all (is_placeholder g) (bottomRow B g hs) \<and>
      visibleOf g (last hs) \<noteq> None")
    case False
    then have "snd (removeWhile B P hs changed g) = g"
      by (subst removeWhile.simps) (auto split: sum.splits option.splits)
    then show ?thesis using 1(2) only_removed_refl by simp
  next
    case True
    then obtain v where v: "visibleOf g (last hs) = Some v" by blast
    have row: "bottomRow B g hs \<noteq> []" "list_all (is_placeholder g) (bottomRow B g hs)"
      using True by simp_all
    obtain g1 where g1: "removeCell B (chain_of g v) g = (None, g1)" "grid_ok g1"
      "hiddenCells g1 = removeAll (last hs) hs" "getCells g1 = removeAll v (getCells g)"
      "\<forall>g'. only_removed g1 g' \<longrightarrow> only_removed g g'" "hasClass g v Placeholder_Cell"
      "\<forall>e. e \<noteq> v \<longrightarrow> classes g1 e = classes g e"
      by (rule remove_round [OF 1(2,3) row v])
    have "removeWhile B P hs changed g = removeWhile B P (removeAll (last hs) hs) True g1"
      using True v g1(1) by (subst removeWhile.simps) simp
    then show ?thesis
      using 1(1) [OF _ _ _ _ v g1(1) [symmetric] refl] True g1(2,3,5) by simp
  qed
qed

text \<open>
  With a cell that is no placeholder the grid never gets empty, so a condition that only throws
  on an empty grid never throws.
\<close>

lemma removeWhile_returns:
  assumes "grid_ok g" "hs = hiddenCells g" "x \<in> set (getCells g)" "\<not> hasClass g x Placeholder_Cell"
    and "\<And>g. grid_ok g \<Longrightarrow> x \<in> set (getCells g) \<Longrightarrow> \<exists>b. P g (hiddenCells g) False = Inr b"
  shows "\<exists>ch g'. removeWhile B P hs changed g = (Inr ch, g')"
  using assms
proof (induction B P hs changed g rule: removeWhile.induct)
  case (1 B P hs changed g)
  obtain b where b: "P g hs False = Inr b" using 1(3,4,6) 1(2) by blast
  have vis: "\<exists>v. visibleOf g h = Some v" if "h \<in> set hs" for h
    using that 1(2,3) by (auto simp: set_hiddenCells)
  show ?case
  proof (cases "b \<and> bottomRow B g hs \<noteq> [] \<and> list_all (is_placeholder g) (bottomRow B g hs)")
    case False
    have "\<not> list_ex (\<lambda>h. visibleOf g h = None) (bottomRow B g hs)"
      using vis by (fastforce simp: bottomRow_def list_ex_iff)
    then show ?thesis using False b by (subst removeWhile.simps) auto
  next
    case True
    then have "hs \<noteq> []" by (auto simp: bottomRow_def)
    then obtain v where v: "visibleOf g (last hs) = Some v" using vis [of "last hs"] by auto
    have row: "bottomRow B g hs \<noteq> []" "list_all (is_placeholder g) (bottomRow B g hs)"
      using True by simp_all
    obtain g1 where g1: "removeCell B (chain_of g v) g = (None, g1)" "grid_ok g1"
      "hiddenCells g1 = removeAll (last hs) hs" "getCells g1 = removeAll v (getCells g)"
      "\<forall>g'. only_removed g1 g' \<longrightarrow> only_removed g g'" "hasClass g v Placeholder_Cell"
      "\<forall>e. e \<noteq> v \<longrightarrow> classes g1 e = classes g e"
      by (rule remove_round [OF 1(2,3) row v])
    have xv: "x \<noteq> v" using g1(6) 1(5) by auto
    have x: "x \<in> set (getCells g1)" "\<not> hasClass g1 x Placeholder_Cell"
      using g1(4,7) xv 1(4,5) by (auto simp: hasClass_def)
    have ex: "\<not> list_ex (\<lambda>h. visibleOf g h = None) (bottomRow B g hs)"
      using vis by (fastforce simp: bottomRow_def list_ex_iff)
    have "removeWhile B P hs changed g = removeWhile B P (removeAll (last hs) hs) True g1"
      using True b ex v g1(1) by (subst removeWhile.simps) simp
    then show ?thesis
      using 1(1) [OF b _ ex _ v g1(1) [symmetric] refl] True g1(2,3) x 1(6) by simp
  qed
qed

end
