(* ===== verification/Grid_Events.thy ===== *)
theory Grid_Events
  imports Grid_Padding
begin

text \<open>
  The mouse and touch handlers of a grid (\<open>Handlers\<close> and the parts of \<open>Internal\<close> they call):
  dragging a cell, rearranging the cells under the mouse, resizing a cell.

  An event is its coordinates, its target with the ancestors of the target, whether the target is
  in a resize handle, and the time. Moving a dragged cell triggers a \<open>mouseover\<close> on the cell under
  the mouse, whose handler runs at once; jQuery calls a delegated handler for every element
  between the target and the grid's element that matches the selector.
\<close>

record mouse_event = mouse_point +
  target :: "nat list"
  on_handle :: bool
  now :: int

section \<open>Delegated events\<close>

definition appendNamespace :: "string \<Rightarrow> string" where
  "appendNamespace eventName = eventName @ ''.gridstrap''"

definition lenient :: "grid \<Rightarrow> string \<Rightarrow> bool" where
  "lenient g eventName \<longleftrightarrow>
     dragCellHandleSelector (options g) = None \<or> eventName = ''mouseover''"

text \<open>The elements up to the grid's element that match \<open>draggableSelector\<close>.\<close>

definition delegates :: "grid \<Rightarrow> string \<Rightarrow> nat list \<Rightarrow> nat list" where
  "delegates g eventName chain =
     (if el g \<in> set chain
      then (let below = takeWhile (\<lambda>e. e \<noteq> el g) chain in
            filter (\<lambda>e. if e = last below then lenient g eventName
                        else (case dragCellHandleSelector (options g) of
                                None \<Rightarrow> True | Some handle \<Rightarrow> handle e)) below)
      else [])"

definition handleCellMouseEvent ::
  "string \<Rightarrow> bool \<Rightarrow> (mouse_event \<Rightarrow> nat option \<Rightarrow> grid stmt) \<Rightarrow> mouse_event \<Rightarrow> grid stmt" where
  "handleCellMouseEvent eventName onlyCallWhenTargetsCell callback mouseEvent =
     readThen (\<lambda>g. delegates g eventName (target mouseEvent)) (\<lambda>ds.
       forEach ds (\<lambda>d.
         readThen (\<lambda>g. getCellOfElement g (target mouseEvent)) (\<lambda>managedCell.
           if onlyCallWhenTargetsCell \<and> managedCell = None then skip
           else callback mouseEvent managedCell)))"

section \<open>Dragging\<close>

definition setMouseDownData :: "browser \<Rightarrow> mouse_event \<Rightarrow> nat \<Rightarrow> grid \<Rightarrow> grid" where
  "setMouseDownData B mouseEvent c g =
     (let cellOffset = page_offset B g c; box = box_of B g c in
      g\<lparr>downDiff := (downDiff g)(c := Some (pageX mouseEvent - fst cellOffset,
                                           pageY mouseEvent - snd cellOffset)),
        downSize := (downSize g)(c := Some (pwidth box, pheight box))\<rparr>)"

text \<open>The page offset of the parent of a cell less its position.\<close>

definition parent_absolute :: "browser \<Rightarrow> grid \<Rightarrow> nat \<Rightarrow> (rat \<times> rat) option" where
  "parent_absolute B g c =
     map_option (\<lambda>p. let e = (case p of In_Container \<Rightarrow> container g | In_Element \<Rightarrow> el g) in
                     (fst (page_offset B g e) - pleft (box_of B g e),
                      snd (page_offset B g e) - ptop (box_of B g e)))
       (parent_of (tree g) c)"

definition getAbsoluteOffset ::
  "browser \<Rightarrow> mouse_event \<Rightarrow> nat \<Rightarrow> (rat \<times> rat) option \<Rightarrow> grid \<Rightarrow> (rat \<times> rat) option" where
  "getAbsoluteOffset B mouseEvent c adjustment g =
     (case (parent_absolute B g c, adjustment) of
        (Some a, Some d) \<Rightarrow> Some (absoluteOffset a (mouse_point.truncate mouseEvent) d)
      | _ \<Rightarrow> None)"

text \<open>\<open>MoveDraggedCell\<close> up to the question what is under the mouse.\<close>

definition placeDraggedCell :: "browser \<Rightarrow> mouse_event \<Rightarrow> nat \<Rightarrow> grid stmt \<Rightarrow> grid stmt" where
  "placeDraggedCell B mouseEvent c look =
     readThen (\<lambda>g. getAbsoluteOffset B mouseEvent c (downDiff g c) g) (\<lambda>offset.
       case offset of
         None \<Rightarrow> throw TypeError
       | Some (x, y) \<Rightarrow>
           if prevented B (Cell_Drag x y c) then skip
           else andThen (upd (\<lambda>g. set_css c Css_top y (set_css c Css_left x g))) look)"

definition onMouseover :: "browser \<Rightarrow> mouse_event \<Rightarrow> nat option \<Rightarrow> grid stmt" where
  "onMouseover B mouseEvent cell =
     andThen (upd (\<lambda>g. g\<lparr>lastTarget := None\<rparr>))
       (readThen (\<lambda>g. if draggable (options g) then getDraggingCell g else None) (\<lambda>draggedCell.
          case (draggedCell, cell) of
            (Some d, Some c) \<Rightarrow>
              readThen (\<lambda>g. c \<in> set (chain_of g d)) (\<lambda>inside.
                if inside then skip
                else andThen (upd (\<lambda>g. g\<lparr>lastTarget := Some c\<rparr>))
                  (readThen (\<lambda>g. limit_passes (dragMouseoverThrottle (options g))
                                   (now mouseEvent) (limitTime g)) (\<lambda>passes.
                     onlyIf passes
                       (andThen (readThen (\<lambda>g. rearrangeOnDrag (options g)) (\<lambda>rearrange.
                                   onlyIf rearrange
                                     (andThen (moveCellTo B d (Some c))
                                              (placeDraggedCell B mouseEvent d skip))))
                                (upd (\<lambda>g. g\<lparr>limitTime := Some (now mouseEvent)\<rparr>))))))
          | _ \<Rightarrow> skip))"

text \<open>
  While the browser is asked what is under the mouse, the dragged cell takes no pointer events.
  \<open>MoveDraggedCell\<close> goes on to trigger \<open>mouseover\<close> on the cell below the dragged one.
\<close>

definition getNonDraggedElementFromPoint :: "browser \<Rightarrow> mouse_event \<Rightarrow> nat \<Rightarrow> grid \<Rightarrow> nat list" where
  "getNonDraggedElementFromPoint B mouseEvent c g =
     element_at B g (Some c) (clientX mouseEvent, clientY mouseEvent)"

definition triggerMouseOver :: "browser \<Rightarrow> mouse_event \<Rightarrow> nat \<Rightarrow> grid stmt" where
  "triggerMouseOver B mouseEvent c =
     readThen (\<lambda>g. getCellOfElement g (getNonDraggedElementFromPoint B mouseEvent c g))
       (\<lambda>overlappedCell.
          case overlappedCell of
            None \<Rightarrow> skip
          | Some o' \<Rightarrow>
              readThen (\<lambda>g. chain_of g o') (\<lambda>chain.
                handleCellMouseEvent (appendNamespace ''mouseover'') False (onMouseover B)
                  (mouseEvent\<lparr>target := chain\<rparr>)))"

definition moveDraggedCell :: "browser \<Rightarrow> mouse_event \<Rightarrow> nat \<Rightarrow> grid stmt" where
  "moveDraggedCell B mouseEvent c =
     placeDraggedCell B mouseEvent c (triggerMouseOver B mouseEvent c)"

definition onMousedown :: "browser \<Rightarrow> mouse_event \<Rightarrow> nat option \<Rightarrow> grid stmt" where
  "onMousedown B mouseEvent cell =
     (case cell of
        None \<Rightarrow> skip
      | Some c \<Rightarrow>
          readThen (\<lambda>g. hasClass g c Placeholder_Cell) (\<lambda>placeholder.
            if placeholder then skip
            else readThen (\<lambda>g. resizeHandleSelector (options g) \<and> on_handle mouseEvent) (\<lambda>resizing.
              if resizing
              then readThen (\<lambda>g. hasClass g c Resize_Cell) (\<lambda>already.
                     if already then skip
                     else upd (\<lambda>g. setMouseDownData B mouseEvent c (addClass c Resize_Cell g)))
              else readThen (\<lambda>g. draggable (options g) \<and> \<not> hasClass g c Drag_Cell) (\<lambda>drags.
                     onlyIf drags
                       (andThen (upd (\<lambda>g. addClass c Drag_Cell (setMouseDownData B mouseEvent c g)))
                                (moveDraggedCell B mouseEvent c))))))"

definition getResizedCell :: "grid \<Rightarrow> nat option" where
  "getResizedCell g = find (\<lambda>c. hasClass g c Resize_Cell) (tree g In_Container)"

section \<open>Padding while a cell is dragged\<close>

definition compare_corner :: "position_size \<Rightarrow> rat" where
  "compare_corner p = pleft p + pwidth p + (ptop p + pheight p) * 100000"

definition furthest :: "browser \<Rightarrow> grid \<Rightarrow> nat \<Rightarrow> position_size" where
  "furthest B g d =
     fold (\<lambda>h f. if \<not> is_placeholder g h \<and> compare_corner (box_of B g h) > compare_corner f
                  then box_of B g h else f)
       (hiddenCells g) (box_of B g d)"

definition row_condition :: "browser \<Rightarrow> position_size \<Rightarrow> pad_condition" where
  "row_condition B f g hs appending =
     (if hs = [] then Inl TypeError
      else (let distance = ptop (box_of B g (last hs)) - ptop f in
            Inr (if appending then distance < pheight f * 2 else distance > pheight f * 2)))"

definition updateNonContiguousCellsForDrag ::
  "browser \<Rightarrow> string \<Rightarrow> nat \<Rightarrow> mouse_event \<Rightarrow> grid \<Rightarrow> (js_error option \<times> grid) option" where
  "updateNonContiguousCellsForDrag B html d mouseEvent g =
     (case appendOrRemoveNonContiguousCellsWhile B (row_condition B (furthest B g d)) html g of
        None \<Rightarrow> None
      | Some (Inl e, g1) \<Rightarrow> Some (Some e, g1)
      | Some (Inr changed, g1) \<Rightarrow> Some (onlyIf changed (moveDraggedCell B mouseEvent d) g1))"

section \<open>Moving and releasing the mouse\<close>

definition resizeByMouse :: "browser \<Rightarrow> mouse_event \<Rightarrow> nat \<Rightarrow> grid stmt" where
  "resizeByMouse B mouseEvent r =
     readThen (\<lambda>g. (getAbsoluteOffset B mouseEvent r (downDiff g r) g, downSize g r, posSize g r))
       (\<lambda>d. case d of
          (Some (x, y), Some (w, h), Some p) \<Rightarrow>
            (let newW = w + x - pleft p; newH = h + y - ptop p in
             andThen (upd (\<lambda>g. set_css r Css_height newH (set_css r Css_width newW g)))
               (readThen (\<lambda>g. resizeOnDrag (options g)) (\<lambda>on_drag.
                  onlyIf on_drag (resizeCell B r newW newH))))
        | _ \<Rightarrow> throw TypeError)"

definition onMousemove :: "browser \<Rightarrow> mouse_event \<Rightarrow> grid \<Rightarrow> (js_error option \<times> grid) option" where
  "onMousemove B mouseEvent g =
     (case getResizedCell g of
        Some r \<Rightarrow> Some (resizeByMouse B mouseEvent r g)
      | None \<Rightarrow>
          (case getDraggingCell g of
             None \<Rightarrow> Some (None, g)
           | Some d \<Rightarrow>
               (case moveDraggedCell B mouseEvent d g of
                  (Some e, g1) \<Rightarrow> Some (Some e, g1)
                | (None, g1) \<Rightarrow>
                    (case nonContiguousCellHtml (options g1) of
                       Some html \<Rightarrow>
                         if rearrangeOnDrag (options g1) \<and> autoPadNonContiguousCells (options g1)
                         then updateNonContiguousCellsForDrag B html d mouseEvent g1
                         else Some (None, g1)
                     | None \<Rightarrow> Some (None, g1)))))"

definition endResize :: "browser \<Rightarrow> nat \<Rightarrow> grid stmt" where
  "endResize B r =
     readThen (\<lambda>g. resizeOnDrag (options g)) (\<lambda>on_drag.
       if on_drag
       then upd (\<lambda>g. clearMouseDownData (Some r) (removeClass r Resize_Cell g))
       else throw (JsError ''originalMouseDownCellPosition is not defined''))"

definition endDrag :: "browser \<Rightarrow> nat \<Rightarrow> grid stmt" where
  "endDrag B d =
     andThen (readThen getResizedCell (\<lambda>r.
                upd (\<lambda>g. clearMouseDownData r (removeClass d Drag_Cell g))))
       (andThen
          (readThen (\<lambda>g. posSize g d) (\<lambda>p.
             case p of None \<Rightarrow> throw TypeError
             | Some p \<Rightarrow> upd (setCellAbsolutePositionAndSize B d p)))
          (readThen (\<lambda>g. (lastTarget g, rearrangeOnDrag (options g))) (\<lambda>t.
             case t of (Some t, False) \<Rightarrow> moveCellTo B d (Some t) | _ \<Rightarrow> skip)))"

text \<open>
  With placeholders and without rearranging on the way, \<open>onMouseup\<close> calls
  \<open>internal.$GetNonDraggedCellFromPoint\<close>, which the class does not have.
\<close>

definition onMouseup :: "browser \<Rightarrow> mouse_event \<Rightarrow> grid \<Rightarrow> (js_error option \<times> grid) option" where
  "onMouseup B mouseEvent g =
     (if \<not> draggable (options g) then Some (None, g)
      else (case (resizeHandleSelector (options g), getResizedCell g) of
              (True, Some r) \<Rightarrow> Some (endResize B r g)
            | _ \<Rightarrow>
                (case getDraggingCell g of
                   None \<Rightarrow> Some (None, g)
                 | Some d \<Rightarrow>
                     (case nonContiguousCellHtml (options g) of
                        Some html \<Rightarrow>
                          if \<not> rearrangeOnDrag (options g) \<and> autoPadNonContiguousCells (options g)
                          then (case updateNonContiguousCellsForDrag B html d mouseEvent g of
                                  None \<Rightarrow> None
                                | Some (Some e, g1) \<Rightarrow> Some (Some e, g1)
                                | Some (None, g1) \<Rightarrow> Some (throw TypeError g1))
                          else Some (endDrag B d g)
                      | None \<Rightarrow> Some (endDrag B d g)))))"

section \<open>Touches\<close>

definition touch_event :: "(int \<times> mouse_point) list \<Rightarrow> mouse_event \<Rightarrow> js_error + mouse_event" where
  "touch_event changedTouches e =
     map_sum id (\<lambda>p. e\<lparr>pageX := pageX p, pageY := pageY p, clientX := clientX p,
                     clientY := clientY p\<rparr>)
       (convertTouchToMouseEvent changedTouches)"

definition onTouchStart ::
  "browser \<Rightarrow> nat \<Rightarrow> (int \<times> mouse_point) list \<Rightarrow> mouse_event \<Rightarrow> nat option \<Rightarrow> grid stmt" where
  "onTouchStart B touches changedTouches touchEvent cell =
     (if touches = 0 then skip
      else (case touch_event changedTouches touchEvent of
              Inl e \<Rightarrow> throw e
            | Inr m \<Rightarrow> onMousedown B m cell))"

definition onTouchmove ::
  "browser \<Rightarrow> (int \<times> mouse_point) list \<Rightarrow> mouse_event \<Rightarrow> grid \<Rightarrow> (js_error option \<times> grid) option" where
  "onTouchmove B changedTouches touchEvent g =
     (case touch_event changedTouches touchEvent of
        Inl e \<Rightarrow> Some (Some e, g)
      | Inr m \<Rightarrow> onMousemove B m g)"

definition onTouchend :: "browser \<Rightarrow> mouse_event \<Rightarrow> grid \<Rightarrow> (js_error option \<times> grid) option" where
  "onTouchend B touchEvent g = onMouseup B touchEvent g"

end
