(* ===== verification/Grid_Session.thy ===== *)
theory Grid_Session
  imports Grid_Events
begin

text \<open>
  A grid over time: the constructor, then operations of \<open>Methods\<close> and events in any order. Every
  grid that can be reached is well formed, whatever the browser answers and whether or not the
  operations throw.
\<close>

section \<open>Padding that may not end\<close>

lemma padded_step:
  assumes ok: "grid_ok g" and g1: "insertHere B html (int (length (hiddenCells g))) g = (None, g1)"
    and k: "padded (addClass (nextId g) Placeholder_Cell g1) k g'"
  shows "padded g (Suc k) g'"
proof -
  let ?g2 = "addClass (nextId g) Placeholder_Cell g1"
  obtain g1' where r: "insertHere B html (int (length (hiddenCells g))) g = (None, g1')"
    "grid_ok (addClass (nextId g) Placeholder_Cell g1')"
    "getCells (addClass (nextId g) Placeholder_Cell g1') = getCells g @ [nextId g]"
    "hiddenOf g1' (nextId g) = Some (Suc (nextId g))"
    "add_in_order g1' (Suc (nextId g)) (hiddenCells g) =
         hiddenCells (addClass (nextId g) Placeholder_Cell g1')"
    "cellsArray g1' = cellsArray g @ [nextId g]" "nextId g1' = Suc (Suc (nextId g))"
    "options g1' = options g" "\<forall>e < nextId g. classes g1' e = classes g e"
      by (rule append_round [OF ok, of B html])
  have "g1' = g1" using g1 r(1) by simp
  note r = r [unfolded this]
  have n2: "nextId ?g2 = Suc (Suc (nextId g))" "options ?g2 = options g"
    "cellsArray ?g2 = cellsArray g @ [nextId g]" using r(6-8) by (simp_all add: addClass_def)
  have cl: "classes ?g2 e = classes g e" if "e < nextId g" for e
    using that r(9) by (simp add: addClass_def)
  have "hasClass g' (nextId g) Placeholder_Cell"
    using k n2(1) by (simp add: padded_def hasClass_def) (simp add: addClass_def)
  then show ?thesis
    using k n2 r(3) cl by (simp add: padded_def placeholder_ids_Suc)
qed

definition pad_safe :: "grid \<Rightarrow> nat list \<Rightarrow> (js_error + nat list \<times> bool) \<times> grid \<Rightarrow> bool" where
  "pad_safe g hs x \<longleftrightarrow>
     (grid_ok g \<longrightarrow> hs = hiddenCells g \<longrightarrow>
      (\<exists>k. padded g k (snd x)) \<and> (\<forall>hs' ch. fst x = Inr (hs', ch) \<longrightarrow> hs' = hiddenCells (snd x)))"

lemma pad_safe_stop: "r = Inl e \<or> r = Inr (hs, ch) \<Longrightarrow> pad_safe g hs (r, g)"
  using padded_0 [of g] by (auto simp: pad_safe_def)

lemma appendWhile_safe:
  assumes "appendWhile B P html hs changed g = Some x"
  shows "pad_safe g hs x"
proof -
  have "(\<lambda>(((((B, P), html), hs), ch), g). pad_safe g hs) (((((B, P), html), hs), changed), g) x"
  proof (rule appendWhile.raw_induct [OF _ assms, rotated], goal_cases)
    case (1 rec B P html hs changed g x)
    have "pad_safe g hs x"
    proof (cases "\<exists>e. P g hs True = Inl e \<or> P g hs True = Inr False")
      case True
      then show ?thesis using 1(2) pad_safe_stop by (auto split: sum.splits)
    next
      case False
      then have more: "P g hs True = Inr True" by (cases "P g hs True") auto
      show ?thesis
        unfolding pad_safe_def
      proof (intro impI)
        assume ok: "grid_ok g" and hs: "hs = hiddenCells g"
        obtain g1 where g: "insertHere B html (int (length (hiddenCells g))) g = (None, g1)"
          "grid_ok (addClass (nextId g) Placeholder_Cell g1)"
          "getCells (addClass (nextId g) Placeholder_Cell g1) = getCells g @ [nextId g]"
          "hiddenOf g1 (nextId g) = Some (Suc (nextId g))"
          "add_in_order g1 (Suc (nextId g)) (hiddenCells g) =
         hiddenCells (addClass (nextId g) Placeholder_Cell g1)"
          "cellsArray g1 = cellsArray g @ [nextId g]" "nextId g1 = Suc (Suc (nextId g))"
          "options g1 = options g" "\<forall>e < nextId g. classes g1 e = classes g e"
          by (rule append_round [OF ok, of B html])
        note g1 = g(1) and ok2 = g(2) and h = g(4,5)
        let ?g2 = "addClass (nextId g) Placeholder_Cell g1"
        have "rec B P html (hiddenCells ?g2) True ?g2 = Some x"
          using 1(2) more g1 h hs by simp
        from 1(1) [OF this] have "pad_safe ?g2 (hiddenCells ?g2) x" by simp
        then obtain k where "padded ?g2 k (snd x)"
          "\<forall>hs' ch. fst x = Inr (hs', ch) \<longrightarrow> hs' = hiddenCells (snd x)"
          using ok2 by (auto simp: pad_safe_def)
        then show "(\<exists>k. padded g k (snd x)) \<and>
            (\<forall>hs' ch. fst x = Inr (hs', ch) \<longrightarrow> hs' = hiddenCells (snd x))"
          using padded_step [OF ok g1] by blast
      qed
    qed
    then show ?case by simp
  qed
  then show ?thesis by simp
qed

lemma appendOrRemove_safe:
  assumes r: "appendOrRemoveNonContiguousCellsWhile B P html g = Some (r, g')" and ok: "grid_ok g"
  shows "\<exists>k g1. padded g k g1 \<and> grid_ok g' \<and> only_removed g1 g'"
proof -
  obtain x where x: "appendWhile B P html (hiddenCells g) False g = Some x"
    using r by (auto simp: appendOrRemoveNonContiguousCellsWhile_def split: option.splits)
  from appendWhile_safe [OF this] obtain k where k: "padded g k (snd x)"
    and hs: "\<And>hs' ch. fst x = Inr (hs', ch) \<Longrightarrow> hs' = hiddenCells (snd x)"
    using ok by (auto simp: pad_safe_def)
  have ok1: "grid_ok (snd x)" using k by (simp add: padded_def)
  show ?thesis
  proof (cases "fst x")
    case (Inl e)
    then have "g' = snd x"
      using r x by (cases x) (simp add: appendOrRemoveNonContiguousCellsWhile_def)
    then show ?thesis using k ok1 only_removed_refl by blast
  next
    case (Inr p)
    obtain hs' ch where p: "p = (hs', ch)" by fastforce
    have "(r, g') = removeWhile B P hs' ch (snd x)"
      using r x Inr p by (cases x) (simp add: appendOrRemoveNonContiguousCellsWhile_def)
    then have "g' = snd (removeWhile B P hs' ch (snd x))" by (metis snd_conv)
    then show ?thesis
      using removeWhile_safe [OF ok1, of hs' B P ch] hs [of hs' ch] Inr p k by auto
  qed
qed

section \<open>Operations that keep the set of cells\<close>

text \<open>A statement keeps a property of the state, whether it throws or not.\<close>

definition keeps :: "('s \<Rightarrow> bool) \<Rightarrow> 's stmt \<Rightarrow> bool" where
  "keeps J f \<longleftrightarrow> (\<forall>g. J g \<longrightarrow> J (snd (f g)))"

named_theorems keeps_intros \<open>statements that keep a property of the grid\<close>

lemma keeps_skip [keeps_intros]: "keeps J skip"
  by (simp add: keeps_def skip_def)

lemma keeps_throw [keeps_intros]: "keeps J (throw e)"
  by (simp add: keeps_def throw_def)

lemma keeps_upd [keeps_intros]: "(\<And>g. J g \<Longrightarrow> J (f g)) \<Longrightarrow> keeps J (upd f)"
  by (simp add: keeps_def upd_def)

lemma keeps_andThen [keeps_intros]: "keeps J a \<Longrightarrow> keeps J b \<Longrightarrow> keeps J (andThen a b)"
  by (fastforce simp: keeps_def andThen_def split: prod.splits option.splits)

lemma keeps_readThen [keeps_intros]:
  "(\<And>g. J g \<Longrightarrow> keeps J (k (r g))) \<Longrightarrow> keeps J (readThen r k)"
  by (simp add: keeps_def readThen_def)

lemma keeps_onlyIf [keeps_intros]: "keeps J a \<Longrightarrow> keeps J (onlyIf b a)"
  by (simp add: onlyIf_def keeps_skip)

lemma keeps_forEach [keeps_intros]: "(\<And>x. keeps J (f x)) \<Longrightarrow> keeps J (forEach xs f)"
proof (induction xs)
  case (Cons x xs)
  then have "keeps J (f x)" "keeps J (forEach xs f)" by simp_all
  then show ?case by (fastforce simp: keeps_def split: prod.splits option.splits)
qed (simp add: keeps_def)

text \<open>
  The two properties: the grid is well formed and its cells are \<open>C\<close>; and the classes are \<open>K\<close> too.
\<close>

definition holds :: "nat list \<Rightarrow> grid \<Rightarrow> bool" where
  "holds C g \<longleftrightarrow> grid_ok g \<and> cellsArray g = C"

definition holds_classes :: "nat list \<Rightarrow> (nat \<Rightarrow> css_class set) \<Rightarrow> grid \<Rightarrow> bool" where
  "holds_classes C K g \<longleftrightarrow> holds C g \<and> classes g = K"

abbreviation safe :: "nat list \<Rightarrow> grid stmt \<Rightarrow> bool" where
  "safe C \<equiv> keeps (holds C)"

abbreviation steady :: "nat list \<Rightarrow> (nat \<Rightarrow> css_class set) \<Rightarrow> grid stmt \<Rightarrow> bool" where
  "steady C K \<equiv> keeps (holds_classes C K)"

lemma steady_safe: "(\<And>K. steady C K f) \<Longrightarrow> safe C f"
  by (auto simp: keeps_def holds_classes_def)

lemma holds_same: "same_cells g g' \<Longrightarrow> holds C g \<Longrightarrow> holds C g'"
  using same_cells_ok [of g g'] by (simp add: holds_def) (simp add: same_cells_def)

lemma steady_same: "same_cells g g' \<Longrightarrow> holds_classes C K g \<Longrightarrow> holds_classes C K g'"
  using holds_same [of g g'] by (simp add: holds_classes_def) (simp add: same_cells_def)

lemma holds_class:
  "holds C g \<Longrightarrow> holds C (addClass e c g)"
  "holds C g \<Longrightarrow> c \<noteq> Hidden_Cell \<Longrightarrow> holds C (removeClass e c g)"
  by (simp_all add: holds_def addClass_ok removeClass_ok) (simp_all add: addClass_def removeClass_def)

text \<open>Geometry, mouse data, the last target and the time of the last callback do not matter.\<close>

lemma same_geometry:
  "same_cells g (set_css e p n g)" "same_cells g (setMouseDownData B m c g)"
  "same_cells g (clearMouseDownData o' g)" "same_cells g (g\<lparr>lastTarget := t\<rparr>)"
  "same_cells g (g\<lparr>limitTime := l\<rparr>)" "same_cells g (setCellAbsolutePositionAndSize B c ps g)"
  "same_cells g (change_inner o' f g)" "same_cells g (g\<lparr>inner := i\<rparr>)"
  by (rule set_css_same setCell_same |
      simp add: same_cells_def setMouseDownData_def Let_def clearMouseDownData_def change_inner_def
        split: option.splits)+

lemmas holds_geometry = same_geometry [THEN holds_same] same_geometry [THEN steady_same]

lemma steady_update: "steady C K (updateVisibleCellCoordinates B)"
  unfolding keeps_def
proof (intro allI impI)
  fix g assume h: "holds_classes C K g"
  then obtain g' where "updateVisibleCellCoordinates B g = (None, g')" "same_cells g g'"
    using update_links [of g B] by (auto simp: holds_classes_def holds_def grid_ok_def)
  then show "holds_classes C K (snd (updateVisibleCellCoordinates B g))" using h steady_same by simp
qed

lemma steady_moveCellTo: "steady C K (moveCellTo B c t)"
  unfolding keeps_def
proof (intro allI impI)
  fix g assume h: "holds_classes C K g"
  show "holds_classes C K (snd (moveCellTo B c t g))"
  proof (cases "hiddenOf g c = None \<or> Option.bind t (hiddenOf g) = None")
    case True
    then show ?thesis using h by (auto simp: moveCellTo_def js_defs split: option.splits)
  next
    case False
    then obtain t' where t: "t = Some t'" "c \<in> set (cellsArray g)" "t' \<in> set (cellsArray g)"
      using grid_okD(12) [of g] h by (cases t) (auto simp: holds_classes_def holds_def)
    obtain g' where "moveCellTo B c (Some t') g = (None, g')" "grid_ok g'" "cellsArray g' = cellsArray g"
      "classes g' = classes g"
      using moveCellTo_result [of g c t' B] t(2,3) h by (auto simp: holds_classes_def holds_def)
    then show ?thesis using h t(1) by (simp add: holds_classes_def holds_def)
  qed
qed

lemmas leaf_intros [keeps_intros] =
  steady_update steady_update [THEN steady_safe] steady_moveCellTo steady_moveCellTo [THEN steady_safe]

lemma safe_resizeCell [keeps_intros]: "safe C (resizeCell B c w h)"
  unfolding resizeCell_def
  by (auto intro!: keeps_intros holds_geometry split: option.split)

lemma safe_modifyCell: "safe C (modifyCell B i f h)"
  unfolding modifyCell_def
  by (auto intro!: keeps_intros holds_geometry split: option.split)

section \<open>Events\<close>

text \<open>Dragging and rearranging change neither the set of cells nor the classes.\<close>

lemma keeps_place [keeps_intros]:
  "keeps J look \<Longrightarrow> (\<And>g e p n. J g \<Longrightarrow> J (set_css e p n g)) \<Longrightarrow> keeps J (placeDraggedCell B m c look)"
  unfolding placeDraggedCell_def by (auto intro!: keeps_intros split: option.split)

lemma steady_onMouseover [keeps_intros]: "steady C K (onMouseover B m cell)"
  unfolding onMouseover_def
  by (auto intro!: keeps_intros holds_geometry split: option.split)

lemma keeps_handle [keeps_intros]:
  "(\<And>m c. keeps J (callback m c)) \<Longrightarrow> keeps J (handleCellMouseEvent e only callback m)"
  unfolding handleCellMouseEvent_def by (auto intro!: keeps_intros)

lemma steady_moveDraggedCell [keeps_intros]: "steady C K (moveDraggedCell B m c)"
  unfolding moveDraggedCell_def triggerMouseOver_def
  by (auto intro!: keeps_intros holds_geometry split: option.split)

lemmas safe_drag [keeps_intros] =
  steady_onMouseover [THEN steady_safe] steady_moveDraggedCell [THEN steady_safe]

lemma safe_onMousedown [keeps_intros]: "safe C (onMousedown B m c)"
  unfolding onMousedown_def
  by (auto intro!: keeps_intros holds_geometry holds_class split: option.split)

lemma safe_resizeByMouse: "safe C (resizeByMouse B m r)"
  unfolding resizeByMouse_def Let_def
  by (auto intro!: keeps_intros holds_geometry split: option.split)

lemma safe_endResize: "safe C (endResize B r)"
  unfolding endResize_def
  by (auto intro!: keeps_intros holds_geometry holds_class)

lemma safe_endDrag: "safe C (endDrag B d)"
  unfolding endDrag_def
  by (auto intro!: keeps_intros holds_geometry holds_class split: option.split bool.split)

lemma safe_ok: "safe (cellsArray g) f \<Longrightarrow> grid_ok g \<Longrightarrow> grid_ok (snd (f g))"
  by (auto simp: keeps_def holds_def)

lemma updateNonContiguous_ok:
  assumes "updateNonContiguousCellsForDrag B html d m g = Some (r, g')" "grid_ok g"
  shows "grid_ok g'"
proof -
  obtain x g1 where x: "appendOrRemoveNonContiguousCellsWhile B (row_condition B (furthest B g d))
      html g = Some (x, g1)"
    using assms(1) by (auto simp: updateNonContiguousCellsForDrag_def split: option.splits)
  then have ok1: "grid_ok g1" using appendOrRemove_safe [OF x assms(2)] by blast
  show ?thesis
  proof (cases x)
    case (Inl e)
    then show ?thesis using assms(1) x ok1 by (simp add: updateNonContiguousCellsForDrag_def)
  next
    case (Inr ch)
    then have "g' = snd (onlyIf ch (moveDraggedCell B m d) g1)"
      using assms(1) x by (simp add: updateNonContiguousCellsForDrag_def)
    then show ?thesis
      using safe_ok [OF keeps_onlyIf [OF safe_drag(2)] ok1] by simp
  qed
qed

section \<open>The constructor\<close>

text \<open>The page before the plugin runs on the element.\<close>

definition page_ok :: "grid \<Rightarrow> bool" where
  "page_ok g \<longleftrightarrow>
     distinct (tree g In_Element) \<and> tree g In_Container = [] \<and>
     (\<forall>e \<in> set (tree g In_Element). e < nextId g \<and> e \<notin> outside g) \<and>
     (\<forall>e \<in> outside g. e < nextId g) \<and> el g \<notin> set (gridstraps g) \<and>
     hiddenOf g = (\<lambda>e. None) \<and> visibleOf g = (\<lambda>e. None)"

lemma all_place: "(\<forall>p. P p) \<longleftrightarrow> P In_Element \<and> P In_Container"
  by (metis place.exhaust)

lemma setup_ok:
  assumes "page_ok g"
  shows "grid_ok ((setup_grid opts g)\<lparr>cellsArray := []\<rparr>)"
    "tree (setup_grid opts g) In_Element = tree g In_Element @ [nextId g]"
    "container (setup_grid opts g) = nextId g" "visibleOf (setup_grid opts g) = visibleOf g"
  using assms
  by (auto simp: page_ok_def setup_grid_def Let_def create_element_def put_element_def grid_ok_def
      tree_ok_def links_ok_def proper_def outside_def less_Suc_eq all_place)

lemma init_fold:
  assumes "grid_ok g" "tree g In_Element = xs @ es @ ys" "\<forall>e \<in> set es. plain g e"
  shows "grid_ok (fold (initCellsHiddenCopyAndSetAbsolutePosition B) es g) \<and>
         getCells (fold (initCellsHiddenCopyAndSetAbsolutePosition B) es g) =
           cells_of g xs @ es @ cells_of g ys"
  using assms
proof (induction es arbitrary: g xs)
  case Nil
  then show ?case by (simp add: getCells_kids)
next
  case (Cons e es)
  let ?g1 = "initCellsHiddenCopyAndSetAbsolutePosition B e g"
  let ?a = "attached e xs (es @ ys) g"
  have l: "tree g In_Element = xs @ e # (es @ ys)" using Cons.prems(2) by simp
  have e: "plain g e" using Cons.prems(3) by simp
  note same = init_attached [OF Cons.prems(1) e l, of B]
  have ok1: "grid_ok ?g1" using same_cells_ok [OF same] attached_ok [OF Cons.prems(1) e l] by simp
  have t1: "tree ?g1 In_Element = (xs @ [nextId g]) @ es @ ys"
    and v1: "visibleOf ?g1 = (visibleOf g)(nextId g := Some e)" and c1: "container ?g1 = container g"
    using same by (simp_all add: same_cells_def attached_def)
  have n: "nextId g \<notin> set (xs @ es @ ys)"
    using fresh_element(1) [OF Cons.prems(1), of In_Element] l by simp
  have "\<forall>f \<in> set es. plain ?g1 f"
    using Cons.prems(3) n t1 c1 by (auto simp: plain_def v1)
  from Cons.IH [OF ok1 t1 this]
  have "grid_ok (fold (initCellsHiddenCopyAndSetAbsolutePosition B) es ?g1) \<and>
     getCells (fold (initCellsHiddenCopyAndSetAbsolutePosition B) es ?g1) =
       cells_of ?g1 (xs @ [nextId g]) @ es @ cells_of ?g1 ys" .
  moreover have "cells_of ?g1 zs = cells_of g zs" if "nextId g \<notin> set zs" for zs
    using that by (intro cells_of_cong) (auto simp: v1)
  ultimately show ?case using n v1 by simp
qed

lemma gridstrap_result:
  assumes "page_ok g"
  shows "grid_ok (gridstrap B opts g)" "getCells (gridstrap B opts g) = tree g In_Element"
proof -
  let ?g = "(setup_grid opts g)\<lparr>cellsArray := []\<rparr>"
  note s = setup_ok [OF assms, of opts]
  have p: "\<forall>e \<in> set (tree g In_Element). plain ?g e"
    using assms s by (auto simp: plain_def page_ok_def)
  have l: "tree ?g In_Element = [] @ tree g In_Element @ [nextId g]" using s(2) by simp
  have v: "cells_of ?g [nextId g] = []" using assms s(4) by (simp add: page_ok_def)
  have "el g \<notin> set (gridstraps g)" using assms by (simp add: page_ok_def)
  then show "grid_ok (gridstrap B opts g)" "getCells (gridstrap B opts g) = tree g In_Element"
    using init_fold [OF s(1) l p, of B] v by (simp_all add: gridstrap_def initOriginalCells_def)
qed

section \<open>Operations that change the set of cells\<close>

lemma create_ok:
  assumes ok: "grid_ok g"
  shows "grid_ok (create_element cs st html g)"
proof -
  note D = grid_okD [OF ok] and n = fresh_element [OF ok]
  let ?g = "create_element cs st html g"
  have "tree_ok ?g"
    by (rule tree_ok_change [OF D(10)]) (use D(1,2) in \<open>auto simp: create_element_def Let_def\<close>)
  moreover have "links_ok ?g"
    using n(1) [of In_Element] n(2,3) D(11,12)
    by (intro links_ok_sub [OF ok])
      (auto simp: create_element_def Let_def hasClass_def split: if_splits
        dest: visible_hidden(3) [OF ok])
  ultimately show ?thesis
    using D(7,8) by (simp add: grid_ok_def) (simp add: create_element_def Let_def)
qed

lemma insertHere_at_ok:
  assumes ok: "grid_ok g" and i: "i \<le> length (getCells g)"
  shows "grid_ok (snd (insertHere B html (int i) g))"
proof (rule insertHere_result [OF ok i, of B html])
  fix g' assume "insertHere B html (int i) g = (None, g')" "grid_ok g'"
  then show ?thesis by simp
qed

lemma insertHere_ok:
  assumes ok: "grid_ok g"
  shows "grid_ok (snd (insertHere B html i g))"
proof (cases "i = int (length (hiddenCells g))")
  case True
  then show ?thesis
    using insertHere_at_ok [OF ok, of "length (hiddenCells g)" B html] length_getCells [OF ok] by simp
next
  case False
  show ?thesis
  proof (cases "eq_at (hiddenCells g) i")
    case None
    then have "snd (insertHere B html i g) = create_element {} (\<lambda>p. None) html g"
      using False by (simp add: insertHere_def js_defs attachCell_def)
    then show ?thesis using create_ok [OF ok] by simp
  next
    case (Some h)
    define j where "j = nat (if i < 0 then i + int (length (hiddenCells g)) else i)"
    have j: "j < length (hiddenCells g)" "h = hiddenCells g ! j"
      using Some by (auto simp: eq_at_def Let_def j_def split: if_splits)
    then have "eq_at (hiddenCells g) (int j) = Some h" by (simp add: eq_at_def)
    then have "insertHere B html i g = insertHere B html (int j) g"
      using False Some j(1) by (simp add: insertHere_def js_defs)
    moreover have "j \<le> length (getCells g)" using j(1) length_getCells [OF ok] by simp
    ultimately show ?thesis using insertHere_at_ok [OF ok] by simp
  qed
qed

section \<open>Sessions\<close>

text \<open>The public operations and the events of the page.\<close>

datatype grid_op =
    Insert_Cell string "int option"
  | Attach_Cell nat
  | Detach_Cell "nat list"
  | Remove_Cell "nat list"
  | Move_Cell "nat list" int
  | Pad_Cells "nat \<Rightarrow> nat \<Rightarrow> bool"
  | Modify_Cell int "(string \<Rightarrow> string) option" "(string \<Rightarrow> string) option"
  | Update_Options "grid_options \<Rightarrow> grid_options"
  | Update_Coordinates
  | Mouse_Down mouse_event
  | Mouse_Over mouse_event
  | Mouse_Move mouse_event
  | Mouse_Up mouse_event
  | Touch_Start nat "(int \<times> mouse_point) list" mouse_event
  | Touch_Move "(int \<times> mouse_point) list" mouse_event
  | Touch_End mouse_event
  | Set_Position nat position_size

text \<open>
  \<open>InitEventHandlers\<close> binds the handlers to their events; a resize of the window updates the
  coordinates. \<open>None\<close> when the operation does not return.
\<close>

fun perform :: "browser \<Rightarrow> grid_op \<Rightarrow> grid \<Rightarrow> (js_error option \<times> grid) option" where
  "perform B (Insert_Cell html i) g = insertCell B html i g"
| "perform B (Attach_Cell e) g = Some (attachCell B (Some e) g)"
| "perform B (Detach_Cell chain) g = Some (detachCell B chain g)"
| "perform B (Remove_Cell chain) g = Some (removeCell B chain g)"
| "perform B (Move_Cell chain i) g = moveCell B chain i g"
| "perform B (Pad_Cells callback) g = padWithNonContiguousCells B callback g"
| "perform B (Modify_Cell i f h) g = Some (modifyCell B i f h g)"
| "perform B (Update_Options f) g = Some (None, updateOptions f g)"
| "perform B Update_Coordinates g = Some (updateVisibleCellCoordinates B g)"
| "perform B (Mouse_Down m) g =
     Some (handleCellMouseEvent (appendNamespace ''mousedown'') True (onMousedown B) m g)"
| "perform B (Mouse_Over m) g =
     Some (handleCellMouseEvent (appendNamespace ''mouseover'') False (onMouseover B) m g)"
| "perform B (Mouse_Move m) g = onMousemove B m g"
| "perform B (Mouse_Up m) g = onMouseup B m g"
| "perform B (Touch_Start n ts m) g =
     Some (handleCellMouseEvent (appendNamespace ''touchstart'') True (onTouchStart B n ts) m g)"
| "perform B (Touch_Move ts m) g = onTouchmove B ts m g"
| "perform B (Touch_End m) g = onTouchend B m g"
| "perform B (Set_Position e p) g = Some (None, setCellAbsolutePositionAndSize B e p g)"

text \<open>
  Only an element that is not managed yet may be attached: \<open>attachCell\<close> does not check it, and
  would push the same cell twice (\<open>attach_managed_twice\<close>).
\<close>

definition permitted :: "grid_op \<Rightarrow> grid \<Rightarrow> bool" where
  "permitted q g = (case q of Attach_Cell e \<Rightarrow> plain g e | _ \<Rightarrow> True)"

inductive reachable :: "grid \<Rightarrow> bool" where
  start: "page_ok g \<Longrightarrow> reachable (gridstrap B opts g)"
| step: "reachable g \<Longrightarrow> permitted q g \<Longrightarrow> perform B q g = Some (r, g') \<Longrightarrow> reachable g'"

lemma index_from_found:
  "index_from i cs P = Some (j, c) \<Longrightarrow> c \<in> set cs"
  by (induction cs arbitrary: i) (auto split: if_splits)

lemma found_managed:
  "getCellAndInternalIndex g chain = Some (i, c) \<Longrightarrow> c \<in> set (cellsArray g)"
  by (auto simp: getCellAndInternalIndex_def split: if_splits dest: index_from_found)

lemma index_from_index:
  "index_from i cs P = Some (j, c) \<Longrightarrow> P c \<and> j = i + index_in c cs"
proof (induction cs arbitrary: i)
  case (Cons a cs)
  then show ?case using Cons.IH [of "Suc i"] by (cases "P a") auto
qed simp

text \<open>An operation on an element acts on its cell.\<close>

lemma found_same:
  assumes ok: "grid_ok g" and f: "getCellAndInternalIndex g chain = Some (i, c)"
  shows "getCellAndInternalIndex g (chain_of g c) = Some (i, c)"
proof -
  have "c \<in> set (cellsArray g)" using found_managed [OF f] .
  moreover have "i = index_in c (cellsArray g)"
    using f by (auto simp: getCellAndInternalIndex_def split: if_splits dest: index_from_index [THEN conjunct2])
  ultimately show ?thesis using getCell_managed(1) [OF ok] by simp
qed

lemma on_cell:
  assumes ok: "grid_ok g" and f: "getCellAndInternalIndex g chain = Some (i, c)"
  shows "detachCell B chain g = detachCell B (chain_of g c) g"
    "removeCell B chain g = removeCell B (chain_of g c) g"
    "moveToIndex B chain k g = moveToIndex B (chain_of g c) k g"
  using found_same [OF ok f] f
  by (simp_all add: detachCell_def removeCell_def moveToIndex_def readThen_def andThen_def
      getCellOfElement_def)

lemma detach_ok: "grid_ok g \<Longrightarrow> grid_ok (snd (detachCell B chain g))"
proof (cases "getCellAndInternalIndex g chain")
  case (Some p)
  assume ok: "grid_ok g"
  obtain i c where p: "getCellAndInternalIndex g chain = Some (i, c)" using Some by (cases p) simp
  have c: "c \<in> set (cellsArray g)" using found_managed [OF p] .
  obtain h xs ys where l: "hiddenOf g c = Some h" "visibleOf g h = Some c"
    "tree g In_Element = xs @ h # ys" using managed_links [OF ok c] by metis
  show ?thesis
  proof (rule detachCell_result [OF ok c l, of B])
    fix g' assume "detachCell B (chain_of g c) g = (None, g')" "grid_ok g'"
    then show ?thesis using on_cell(1) [OF ok p] by simp
  qed
qed (simp add: detachCell_def js_defs)

lemma remove_ok: "grid_ok g \<Longrightarrow> grid_ok (snd (removeCell B chain g))"
proof (cases "getCellAndInternalIndex g chain")
  case (Some p)
  assume ok: "grid_ok g"
  obtain i c where p: "getCellAndInternalIndex g chain = Some (i, c)" using Some by (cases p) simp
  have c: "c \<in> set (cellsArray g)" using found_managed [OF p] .
  show ?thesis
  proof (rule removeCell_result [OF ok c, of B])
    fix g' assume "removeCell B (chain_of g c) g = (None, g')" "grid_ok g'"
    then show ?thesis using on_cell(2) [OF ok p] by simp
  qed
qed (simp add: removeCell_def detachCell_def js_defs getCellOfElement_def)

lemma attach_ok:
  assumes ok: "grid_ok g" and e: "plain g e"
  shows "grid_ok (snd (attachCell B (Some e) g))"
proof -
  obtain xs ys where l: "tree g In_Element = xs @ e # ys"
    using e split_list [of e "tree g In_Element"] by (auto simp: plain_def)
  show ?thesis
  proof (rule attachCell_result [OF ok e l, of B])
    fix g' assume "attachCell B (Some e) g = (None, g')" "grid_ok g'"
    then show ?thesis by simp
  qed
qed

lemma safe_moveToIndex: "safe C (moveToIndex B chain k)"
  unfolding moveToIndex_def by (auto intro!: keeps_intros split: option.split)

lemma appendOrRemove_ok:
  "appendOrRemoveNonContiguousCellsWhile B P html g = Some (r, g') \<Longrightarrow> grid_ok g \<Longrightarrow> grid_ok g'"
  using appendOrRemove_safe by blast

lemma insertCell_ok:
  assumes r: "insertCell B html i g = Some (r, g')" and ok: "grid_ok g"
  shows "grid_ok g'"
proof -
  have here: "grid_ok g2" if "insertHere B html k g1 = (x, g2)" "grid_ok g1" for k g1 x g2
    using insertHere_ok [OF that(2), of B html k] that(1) by simp
  from r show ?thesis
    using ok here
    by (auto dest!: appendOrRemove_ok simp: insertCell_def Let_def split: option.splits if_splits sum.splits)
qed

lemma pad_ok:
  "padWithNonContiguousCells B callback g = Some (r, g') \<Longrightarrow> grid_ok g \<Longrightarrow> grid_ok g'"
  by (auto dest!: appendOrRemove_ok simp: padWithNonContiguousCells_def split: option.splits sum.splits)

lemma moveCell_ok:
  assumes r: "moveCell B chain k g = Some (r, g')" and ok: "grid_ok g"
  shows "grid_ok g'"
proof -
  have here: "grid_ok g2" if "moveToIndex B chain k g1 = (x, g2)" "grid_ok g1" for g1 x g2
    using safe_ok [OF safe_moveToIndex that(2), of B chain k] that(1) by simp
  from r show ?thesis
    using ok here
    by (auto dest!: appendOrRemove_ok simp: moveCell_def split: option.splits if_splits sum.splits)
qed

lemma mousemove_ok:
  assumes r: "onMousemove B m g = Some (r, g')" and ok: "grid_ok g"
  shows "grid_ok g'"
proof (cases "getResizedCell g")
  case (Some c)
  then have "g' = snd (resizeByMouse B m c g)" using r by (simp add: onMousemove_def)
  then show ?thesis using safe_ok [OF safe_resizeByMouse ok] by simp
next
  case None
  show ?thesis
  proof (cases "getDraggingCell g")
    case (Some d)
    obtain e g1 where m: "moveDraggedCell B m d g = (e, g1)" by fastforce
    then have ok1: "grid_ok g1" using safe_ok [OF safe_drag(2) ok, of B m d] by simp
    then show ?thesis
      using r None Some m updateNonContiguous_ok [OF _ ok1]
      by (auto simp: onMousemove_def split: option.splits if_splits)
  qed (use r ok None in \<open>simp add: onMousemove_def\<close>)
qed

lemma mouseup_ok:
  assumes r: "onMouseup B m g = Some (r, g')" and ok: "grid_ok g"
  shows "grid_ok g'"
proof -
  have *: "grid_ok g2" if "f g = (x, g2)" "\<And>C. safe C f" for f x g2
    using safe_ok [OF that(2) ok] that(1) by simp
  from r show ?thesis
    using ok * [OF _ safe_endResize] * [OF _ safe_endDrag] updateNonContiguous_ok [OF _ ok]
    by (auto simp: onMouseup_def throw_def split: option.splits if_splits bool.splits)
qed

lemma perform_ok:
  assumes ok: "grid_ok g" and p: "permitted q g" and r: "perform B q g = Some (r, g')"
  shows "grid_ok g'"
proof -
  have touch: "safe C (onTouchStart B n ts m c)" for C n ts m c
    unfolding onTouchStart_def by (auto intro!: keeps_intros split: sum.split)
  show ?thesis
  proof (cases q)
    case (Update_Options f)
    then show ?thesis
      using r ok by (auto simp: updateOptions_def grid_ok_def tree_ok_def links_ok_def outside_def
          hasClass_def)
  next
    case (Touch_Move ts m)
    then show ?thesis
      using r ok mousemove_ok by (auto simp: onTouchmove_def split: sum.splits)
  next
    case (Attach_Cell e)
    then show ?thesis using r p attach_ok [OF ok, of e B] by (simp add: permitted_def)
  next
    case (Detach_Cell chain)
    then show ?thesis using r detach_ok [OF ok, of B chain] by simp
  next
    case (Remove_Cell chain)
    then show ?thesis using r remove_ok [OF ok, of B chain] by simp
  next
    case (Modify_Cell i f h)
    then show ?thesis using r safe_ok [OF safe_modifyCell ok, of B i f h] by simp
  next
    case Update_Coordinates
    then show ?thesis using r safe_ok [OF leaf_intros(2) ok, of B] by simp
  next
    case (Set_Position e p)
    then show ?thesis using r ok same_cells_ok [OF setCell_same] by auto
  next
    case (Mouse_Down m)
    then show ?thesis
      using r safe_ok [OF keeps_handle ok, of "onMousedown B"] safe_onMousedown by (metis option.inject perform.simps(10) snd_conv)
  next
    case (Mouse_Over m)
    then show ?thesis
      using r safe_ok [OF keeps_handle ok, of "onMouseover B"] safe_drag(1) by (metis option.inject perform.simps(11) snd_conv)
  next
    case (Touch_Start n ts m)
    then show ?thesis
      using r safe_ok [OF keeps_handle ok, of "onTouchStart B n ts"] touch by (metis option.inject perform.simps(14) snd_conv)
  qed (use r ok in \<open>auto intro: insertCell_ok pad_ok moveCell_ok mousemove_ok mouseup_ok
         simp: onTouchend_def\<close>)
qed

lemma reachable_ok: "reachable g \<Longrightarrow> grid_ok g"
proof (induction rule: reachable.induct)
  case (start g B opts)
  then show ?case by (rule gridstrap_result)
next
  case (step g q B r g')
  then show ?case using perform_ok by blast
qed

text \<open>What \<open>attachCell\<close> does when it is given a cell that is managed already.\<close>

lemma attach_managed_twice:
  assumes ok: "grid_ok g" and c: "c \<in> set (cellsArray g)"
  shows "cellsArray (snd (attachCell B (Some c) g)) = cellsArray g @ [c]"
    "\<not> distinct (cellsArray (snd (attachCell B (Some c) g)))"
proof -
  have k: "keeps (\<lambda>g. cellsArray g = cs) (updateVisibleCellCoordinates B)" for cs
    unfolding updateVisibleCellCoordinates_def redraw_cell_def
    by (auto intro!: keeps_intros simp: setCellAbsolutePositionAndSize_def set_css_def split: option.split)
  have "parent_of (tree g) c = Some In_Container"
    using parent_of_in [OF grid_okD(1) [OF ok]] c grid_okD(8) [OF ok] by simp
  moreover have "cellsArray (initCellsHiddenCopyAndSetAbsolutePosition B c g) = cellsArray g @ [c]"
    by (simp add: initCellsHiddenCopyAndSetAbsolutePosition_def Let_def put_element_def create_element_def
        addClass_def detach_element_def setCellAbsolutePositionAndSize_def set_css_def)
  ultimately show "cellsArray (snd (attachCell B (Some c) g)) = cellsArray g @ [c]"
    using k [of "cellsArray g @ [c]"] by (simp add: attachCell_def js_defs keeps_def)
  then show "\<not> distinct (cellsArray (snd (attachCell B (Some c) g)))" using c by simp
qed

end
