(* ===== verification/Grid_Props.thy ===== *)
theory Grid_Props
  imports Grid_Session
begin

text \<open>
  What a grid promises: its cells and their hidden copies stay paired; inserting, moving, padding
  and dragging do to the order of the cells what they are for; and where the code falls short.
\<close>

section \<open>A grid to try things on\<close>

text \<open>A page with an element of three children, and a browser in which everything is a point.\<close>

definition grid_page :: grid where
  "grid_page =
     \<lparr> options = defaultOptions, tree = (\<lambda>p. case p of In_Element \<Rightarrow> [1, 2, 3] | In_Container \<Rightarrow> []),
       classes = (\<lambda>e. {}), style = (\<lambda>e p. None), inner = (\<lambda>e. ''''), hiddenOf = (\<lambda>e. None),
       visibleOf = (\<lambda>e. None), posSize = (\<lambda>e. None), downDiff = (\<lambda>e. None), downSize = (\<lambda>e. None),
       cellsArray = [], lastTarget = None, el = 0, above = [], gridstraps = [], container = 0,
       limitTime = None, nextId = 4 \<rparr>"

definition flat_browser :: browser where
  "flat_browser =
     \<lparr> box_of = (\<lambda>g e. \<lparr> pleft = 0, ptop = 0, pwidth = 0, pheight = 0 \<rparr>),
       page_offset = (\<lambda>g e. (0, 0)), element_at = (\<lambda>g e p. []), prevented = (\<lambda>e. False) \<rparr>"

definition placeholder_options :: grid_options where
  "placeholder_options = defaultOptions\<lparr>nonContiguousCellHtml := Some ''''\<rparr>"

definition sample_grid :: "grid_options \<Rightarrow> grid" where
  "sample_grid opts = gridstrap flat_browser opts grid_page"

lemma grid_page_ok: "page_ok grid_page"
  by (simp add: page_ok_def grid_page_def outside_def)

lemma sample_reachable: "reachable (sample_grid opts)"
  unfolding sample_grid_def by (rule reachable.start [OF grid_page_ok])

lemma sample_cells: "getCells (sample_grid opts) = [1, 2, 3]"
  unfolding sample_grid_def gridstrap_result(2) [OF grid_page_ok] by (simp add: grid_page_def)

lemma options_same [simp]:
  "options (addClass e c g) = options g" "options (put_element s e g) = options g"
  "options (detach_element e g) = options g" "options (create_element cs st html g) = options g"
  by (simp_all add: addClass_def put_element_def detach_element_def create_element_def Let_def)

lemma init_options [simp]: "options (initCellsHiddenCopyAndSetAbsolutePosition B e g) = options g"
  using setCell_same unfolding same_cells_def initCellsHiddenCopyAndSetAbsolutePosition_def Let_def
  by simp

lemma gridstrap_options:
  assumes "el g \<notin> set (gridstraps g)"
  shows "options (gridstrap B opts g) = opts"
proof -
  have "options (fold (initCellsHiddenCopyAndSetAbsolutePosition B) es g) = options g" for es g
    by (induction es arbitrary: g) simp_all
  then show ?thesis
    using assms by (simp add: gridstrap_def initOriginalCells_def setup_grid_def Let_def)
qed

lemma sample_options: "options (sample_grid opts) = opts"
  by (simp add: sample_grid_def gridstrap_options grid_page_def)

section \<open>Cells and their hidden copies\<close>

lemma index_nth: "distinct xs \<Longrightarrow> k < length xs \<Longrightarrow> index_in (xs ! k) xs = k"
proof (induction xs arbitrary: k)
  case (Cons x xs)
  then show ?case by (cases k) (auto simp: nth_Cons')
qed simp

lemma cell_index:
  assumes ok: "grid_ok g" and k: "k < length (getCells g)"
  shows "getCellIndexOfElement g (chain_of g (getCells g ! k)) = int k"
proof -
  have c: "getCells g ! k \<in> set (getCells g)" using k by simp
  then have "getCells g ! k \<in> set (cellsArray g)" using set_getCells [OF ok] by simp
  then show ?thesis
    using c index_nth [OF distinct_getCells [OF ok] k] getCell_managed(2) [OF ok]
    by (simp add: getCellIndexOfElement_def index_in_set_def)
qed

text \<open>
  C32. Whatever operations and events a grid has seen, its cells are exactly the elements of the
  container, each managed once; the index of a cell is its place in \<open>$getCells\<close>; and each cell has
  one hidden copy among the children of the grid's element, linked both ways.
\<close>

theorem grid_well_formed:
  assumes "reachable g"
  shows "distinct (getCells g) \<and> distinct (cellsArray g) \<and>
         set (getCells g) = set (tree g In_Container) \<and> set (getCells g) = set (cellsArray g) \<and>
         (\<forall>k < length (getCells g). getCellIndexOfElement g (chain_of g (getCells g ! k)) = int k) \<and>
         (\<forall>c \<in> set (getCells g). \<exists>h \<in> set (tree g In_Element).
            hiddenOf g c = Some h \<and> visibleOf g h = Some c \<and> hasClass g h Hidden_Cell)"
proof -
  have ok: "grid_ok g" using reachable_ok [OF assms] .
  have "\<exists>h \<in> set (tree g In_Element). hiddenOf g c = Some h \<and> visibleOf g h = Some c \<and>
          hasClass g h Hidden_Cell" if "c \<in> set (getCells g)" for c
    using that grid_okD(9) [OF ok] unfolding set_getCells [OF ok] links_ok_def by blast
  then show ?thesis
    using cell_index [OF ok] distinct_getCells [OF ok] set_getCells [OF ok] grid_okD(7,8) [OF ok]
    by simp
qed

theorem grid_well_formed_witness:
  "reachable (sample_grid defaultOptions) \<and>
   set (getCells (sample_grid defaultOptions)) = set (tree (sample_grid defaultOptions) In_Container)"
  using grid_well_formed [OF sample_reachable] sample_reachable by blast

section \<open>Inserting\<close>

text \<open>The grid after the padding of \<open>insertCell\<close>, and the insertion that follows.\<close>

lemma insert_after_padding:
  assumes ok: "grid_ok g" and p: "padded g m g1" and k: "k = length (getCells g) + m"
  shows "\<exists>g'. insertHere B html (int k) g1 = (None, g') \<and> grid_ok g' \<and>
              getCells g' = getCells g @ placeholder_ids (nextId g) m @ [nextId g + 2 * m] \<and>
              (\<forall>c \<in> set (placeholder_ids (nextId g) m). hasClass g' c Placeholder_Cell)"
proof -
  have ok1: "grid_ok g1" and c1: "getCells g1 = getCells g @ placeholder_ids (nextId g) m"
    and n1: "nextId g1 = nextId g + 2 * m" using p by (simp_all add: padded_def)
  have len: "length (getCells g1) = k" using c1 k by (simp add: placeholder_ids_def)
  show ?thesis
  proof (rule insertHere_result [OF ok1, of k B html])
    fix g'
    assume g': "insertHere B html (int k) g1 = (None, g')" "grid_ok g'"
      "getCells g' = take k (getCells g1) @ nextId g1 # drop k (getCells g1)"
      and cl: "\<And>e. e \<noteq> nextId g1 \<Longrightarrow> e \<noteq> Suc (nextId g1) \<Longrightarrow> classes g' e = classes g1 e"
    have "classes g' c = classes g1 c" if "c \<in> set (placeholder_ids (nextId g) m)" for c
      using that n1 by (intro cl) (auto simp: placeholder_ids_def)
    then show ?thesis
      using g' c1 n1 len p by (auto simp: padded_def hasClass_def)
  qed (use len in simp)
qed

lemma insertCell_within:
  assumes ok: "grid_ok g" and k: "k \<le> length (getCells g)"
    and idx: "idx = Some (int k) \<or> idx = None \<and> k = length (getCells g)"
  shows "insertCell B html idx g = Some (insertHere B html (int k) g)"
  using k idx length_getCells [OF ok]
  by (auto simp: insertCell_def Let_def split: option.split)

lemma insertCell_beyond:
  assumes ok: "grid_ok g" and k: "length (getCells g) < k"
    and opt: "nonContiguousCellHtml (options g) = Some ph" "autoPadNonContiguousCells (options g)"
  obtains g1 where "insertCell B html (Some (int k)) g = Some (insertHere B html (int k) g1)"
    "padded g (k - length (getCells g)) g1"
proof -
  let ?P = "\<lambda>(g :: grid) (hs :: nat list) appending.
              (Inr (appending \<and> int (length hs) < int k) :: js_error + bool)"
  have P: "\<exists>b. ?P g (hiddenCells g) True = Inr b \<and> (b \<longrightarrow> length (getCells g) < k)"
    if "grid_ok g" for g using length_getCells [OF that] by simp
  obtain m g1 where m: "appendOrRemoveNonContiguousCellsWhile B ?P ph g = Some (Inr (0 < m), g1)"
    "padded g m g1" "?P g1 (hiddenCells g1) True = Inr False" "0 < m \<longrightarrow> length (getCells g) + m \<le> k"
    using appendOrRemove_appends [of g ?P k B ph, OF ok P] by auto
  have "length (getCells g1) = length (getCells g) + m"
    using m(2) by (simp add: padded_def placeholder_ids_def)
  moreover have "k \<le> length (getCells g1)"
    using m(3) length_getCells [of g1] m(2) by (simp add: padded_def)
  ultimately have "m = k - length (getCells g)" using m(4) k by (cases "m = 0") auto
  then show thesis
    using that [of g1] m(1,2) opt k length_getCells [OF ok] by (simp add: insertCell_def Let_def)
qed

lemma insertCell_inserts:
  assumes ok: "grid_ok g"
    and idx: "idx = Some (int k) \<or> idx = None \<and> k = length (getCells g)"
    and pads: "k \<le> length (getCells g) \<or>
               nonContiguousCellHtml (options g) \<noteq> None \<and> autoPadNonContiguousCells (options g)"
  defines "m \<equiv> k - length (getCells g)"
  shows "\<exists>g'. insertCell B html idx g = Some (None, g') \<and> grid_ok g' \<and>
              getCells g' = take k (getCells g) @ placeholder_ids (nextId g) m @
                            [nextId g + 2 * m] @ drop k (getCells g) \<and>
              (\<forall>c \<in> set (placeholder_ids (nextId g) m). hasClass g' c Placeholder_Cell)"
proof (cases "k \<le> length (getCells g)")
  case True
  then have m: "m = 0" by (simp add: m_def)
  show ?thesis
  proof (rule insertHere_result [OF ok True, of B html])
    fix g' assume "insertHere B html (int k) g = (None, g')" "grid_ok g'"
      "getCells g' = take k (getCells g) @ nextId g # drop k (getCells g)"
    then show ?thesis
      using insertCell_within [OF ok True idx, of B html] by (simp add: m placeholder_ids_def)
  qed
next
  case False
  then have k: "length (getCells g) < k" "idx = Some (int k)" using idx by auto
  obtain ph where ph: "nonContiguousCellHtml (options g) = Some ph"
    "autoPadNonContiguousCells (options g)" using pads False by auto
  obtain g1 where g1: "insertCell B html (Some (int k)) g = Some (insertHere B html (int k) g1)"
    "padded g (k - length (getCells g)) g1" using insertCell_beyond [OF ok k(1) ph] .
  have "k = length (getCells g) + m" using k(1) by (simp add: m_def)
  from insert_after_padding [OF ok g1(2) [folded m_def] this, of B html]
  show ?thesis using g1(1) k by auto
qed

text \<open>
  C34. \<open>insertCell\<close> puts the new cell at the index asked for, or at the end without an index; the
  cells before and behind it keep their order. An index past the end is reached with placeholder
  cells, when there is HTML for them and padding is on.
\<close>

theorem insertCell_order:
  assumes "reachable g" "idx = Some (int k) \<or> idx = None \<and> k = length (getCells g)"
    "k \<le> length (getCells g) \<or>
     nonContiguousCellHtml (options g) \<noteq> None \<and> autoPadNonContiguousCells (options g)"
  shows "\<exists>g' new pads. insertCell B html idx g = Some (None, g') \<and>
           getCells g' = take k (getCells g) @ pads @ [new] @ drop k (getCells g) \<and>
           getCellIndexOfElement g' (chain_of g' new) = int k \<and>
           length pads = k - length (getCells g) \<and>
           (\<forall>c \<in> set pads. hasClass g' c Placeholder_Cell)"
proof -
  have ok: "grid_ok g" using reachable_ok [OF assms(1)] .
  let ?m = "k - length (getCells g)"
  let ?pads = "placeholder_ids (nextId g) ?m" and ?new = "nextId g + 2 * ?m"
  from insertCell_inserts [OF ok assms(2,3), of B html] obtain g' where
    g': "insertCell B html idx g = Some (None, g')" "grid_ok g'"
      "getCells g' = take k (getCells g) @ ?pads @ [?new] @ drop k (getCells g)"
      "\<forall>c \<in> set ?pads. hasClass g' c Placeholder_Cell" by auto
  have l: "length ?pads = ?m" by (simp add: placeholder_ids_def)
  have k: "length (take k (getCells g) @ ?pads) = k" using l by simp
  have "getCells g' ! k = ?new"
    using nth_append_length [of "take k (getCells g) @ ?pads"] unfolding g'(3) k by simp
  then have "getCellIndexOfElement g' (chain_of g' ?new) = int k"
    using cell_index [OF g'(2), of k] g'(3) l by simp
  then show ?thesis using g' l by blast
qed

theorem insertCell_order_witness:
  "\<exists>g' new pads. insertCell flat_browser ''x'' (Some 5) (sample_grid placeholder_options) = Some (None, g') \<and>
     getCells g' = [1, 2, 3] @ pads @ [new] \<and> length pads = 2"
proof -
  have "nonContiguousCellHtml (options (sample_grid placeholder_options)) \<noteq> None \<and>
        autoPadNonContiguousCells (options (sample_grid placeholder_options))"
    by (simp add: sample_options placeholder_options_def defaultOptions_def)
  from insertCell_order [OF sample_reachable, of "Some 5" 5 placeholder_options flat_browser "''x''"] this
  show ?thesis by (auto simp: sample_cells)
qed

section \<open>Moving\<close>

lemma index_exchange:
  "c \<in> set xs \<Longrightarrow> t \<in> set xs \<Longrightarrow> c \<noteq> t \<Longrightarrow> index_in c (map (exchange c t) xs) = index_in t xs"
proof (induction xs)
  case (Cons x xs)
  have e: "exchange c t x = c \<longleftrightarrow> x = t" using Cons.prems(3) by (auto simp: exchange_def)
  have "index_in c (map (exchange c t) xs) = index_in t xs" if "c \<notin> set xs" "t \<in> set xs" for xs
    using that Cons.prems(3) by (induction xs) (auto simp: exchange_def split: if_splits)
  then show ?case using Cons e by (cases "x = t"; cases "c \<in> set xs") auto
qed simp

lemma moved_index:
  assumes "distinct cs" "c \<in> set cs" "t \<in> set cs"
  shows "index_in c (moved swap c t cs) = index_in t cs" "set (moved swap c t cs) = set cs"
    "length (moved swap c t cs) = length cs" "distinct (moved swap c t cs)"
proof -
  have lr: "length (removeAll c cs) = length cs - 1" "0 < length cs"
    using assms length_remove1 [of c cs]
    by (auto simp: distinct_remove1_removeAll [OF assms(1), of c, symmetric])
  have lt: "index_in t cs < length cs" using assms(3) by (induction cs) auto
  then have k: "index_in t cs \<le> length (removeAll c cs)" using lr by simp
  show "index_in c (moved swap c t cs) = index_in t cs"
    using index_exchange [OF assms(2,3)] index_reinsert [OF k]
    by (simp add: moved_def)
  have "inj (exchange c t)" by (auto simp: inj_def exchange_def split: if_splits)
  then show "set (moved swap c t cs) = set cs" "distinct (moved swap c t cs)"
    using assms set_reinsert [OF assms(2)] distinct_reinsert [OF assms(1)]
    by (auto simp: moved_def exchange_def image_iff distinct_map intro: inj_on_subset)
  show "length (moved swap c t cs) = length cs"
    using lr lt by (auto simp: moved_def reinsert_def)
qed

lemma moveCell_within:
  assumes ok: "grid_ok g" and c: "c \<in> set (getCells g)" and k: "k < length (getCells g)"
  obtains g' where "moveCell B (chain_of g c) (int k) g = Some (None, g')" "grid_ok g'"
    "getCells g' = moved (swapMode (options g)) c (getCells g ! k) (getCells g)"
proof -
  have cs: "c \<in> set (cellsArray g)" "getCells g ! k \<in> set (cellsArray g)"
    using c nth_mem [OF k] unfolding set_getCells [OF ok] by simp_all
  show thesis
  proof (rule moveCellTo_result [OF ok cs, of B])
    fix g' assume g': "moveCellTo B c (Some (getCells g ! k)) g = (None, g')" "grid_ok g'"
      "getCells g' = moved (swapMode (options g)) c (getCells g ! k) (getCells g)"
    have "moveToIndex B (chain_of g c) (int k) g = (None, g')"
      using g'(1) getCell_managed(1) [OF ok cs(1)] k by (simp add: moveToIndex_def js_defs eq_at_def)
    moreover have "\<not> int k > int (length (getCells g))" using k by simp
    ultimately have "moveCell B (chain_of g c) (int k) g = Some (None, g')"
      unfolding moveCell_def by (simp split: option.split)
    then show thesis by (rule that [OF _ g'(2,3)])
  qed
qed

text \<open>
  C33. \<open>moveCell\<close> takes a cell to the index asked for and keeps the set of cells. In insert mode the
  other cells keep their order, in swap mode the cell changes places with the one that was there.
\<close>

theorem moveCell_order:
  assumes "reachable g" "c \<in> set (getCells g)" "k < length (getCells g)"
  shows "\<exists>g'. moveCell B (chain_of g c) (int k) g = Some (None, g') \<and>
           getCellIndexOfElement g' (chain_of g' c) = int k \<and>
           set (getCells g') = set (getCells g) \<and> length (getCells g') = length (getCells g) \<and>
           (if swapMode (options g)
            then getCells g' = map (exchange c (getCells g ! k)) (getCells g)
            else removeAll c (getCells g') = removeAll c (getCells g))"
proof -
  have ok: "grid_ok g" using reachable_ok [OF assms(1)] .
  let ?t = "getCells g ! k"
  obtain g' where g': "moveCell B (chain_of g c) (int k) g = Some (None, g')" "grid_ok g'"
    "getCells g' = moved (swapMode (options g)) c ?t (getCells g)"
    using moveCell_within [OF ok assms(2,3)] .
  have t: "?t \<in> set (getCells g)" using assms(3) by simp
  note m = moved_index [OF distinct_getCells [OF ok] assms(2) t, of "swapMode (options g)"]
  have "index_in c (getCells g') = k"
    using m(1) index_nth [OF distinct_getCells [OF ok] assms(3)] g'(3) by simp
  moreover have "c \<in> set (getCells g')" using m(2) assms(2) g'(3) by simp
  moreover have "c \<in> set (cellsArray g')" using calculation(2) set_getCells [OF g'(2)] by simp
  ultimately have "getCellIndexOfElement g' (chain_of g' c) = int k"
    using getCell_managed(2) [OF g'(2)] by (simp add: getCellIndexOfElement_def index_in_set_def)
  moreover have "map (exchange c c) (getCells g) = getCells g"
    by (simp add: exchange_def map_idI)
  ultimately show ?thesis
    using g' m removeAll_reinsert [of c] by (auto simp: moved_def)
qed

theorem moveCell_order_witness:
  "\<exists>g'. moveCell flat_browser (chain_of (sample_grid defaultOptions) 3) 0 (sample_grid defaultOptions)
         = Some (None, g') \<and> set (getCells g') = {1, 2, 3} \<and> removeAll 3 (getCells g') = [1, 2]"
  using moveCell_order [OF sample_reachable, of 3 defaultOptions 0 flat_browser]
  by (auto simp: sample_cells sample_options defaultOptions_def)

text \<open>
  Past the last cell, or at an index just past it even with padding on, the target is the empty
  set: \<open>MoveCell\<close> throws and nothing has changed.
\<close>

lemma moveCell_past_end:
  assumes ok: "grid_ok g" and c: "c \<in> set (getCells g)"
    and k: "k = length (getCells g) \<or>
            length (getCells g) < k \<and> nonContiguousCellHtml (options g) = None"
  shows "moveCell B (chain_of g c) (int k) g = Some (Some TypeError, g)"
proof -
  have cc: "c \<in> set (cellsArray g)" using c set_getCells [OF ok] by simp
  obtain h where h: "hiddenOf g c = Some h"
    using cc grid_okD(9) [OF ok] by (auto simp: links_ok_def)
  have "eq_at (getCells g) (int k) = None" using k by (auto simp: eq_at_def)
  then have "moveToIndex B (chain_of g c) (int k) g = (Some TypeError, g)"
    using h getCell_managed(1) [OF ok cc] by (simp add: moveToIndex_def moveCellTo_def js_defs)
  then show ?thesis using k by (auto simp: moveCell_def split: option.split)
qed

section \<open>The grid as an ordered collection\<close>

text \<open>
  The contract of the public operations, for a client that sees a grid as the list of its cells:
  cells can be inserted at an index, taken out and moved, and nothing else happens to the list.
\<close>

locale cell_collection =
  fixes valid :: "'g \<Rightarrow> bool"
    and cells :: "'g \<Rightarrow> nat list"
    and new_cell :: "'g \<Rightarrow> nat"
    and insert_at :: "nat \<Rightarrow> 'g \<Rightarrow> 'g"
    and take_out :: "nat \<Rightarrow> 'g \<Rightarrow> 'g"
    and move_to :: "nat \<Rightarrow> nat \<Rightarrow> 'g \<Rightarrow> 'g"
  assumes cells_distinct: "valid g \<Longrightarrow> distinct (cells g)"
    and new_fresh: "valid g \<Longrightarrow> new_cell g \<notin> set (cells g)"
    and insert_valid: "valid g \<Longrightarrow> k \<le> length (cells g) \<Longrightarrow> valid (insert_at k g)"
    and insert_cells: "valid g \<Longrightarrow> k \<le> length (cells g) \<Longrightarrow>
          cells (insert_at k g) = take k (cells g) @ new_cell g # drop k (cells g)"
    and take_valid: "valid g \<Longrightarrow> c \<in> set (cells g) \<Longrightarrow> valid (take_out c g)"
    and take_cells: "valid g \<Longrightarrow> c \<in> set (cells g) \<Longrightarrow> cells (take_out c g) = removeAll c (cells g)"
    and move_valid: "valid g \<Longrightarrow> c \<in> set (cells g) \<Longrightarrow> k < length (cells g) \<Longrightarrow> valid (move_to c k g)"
    and move_at: "valid g \<Longrightarrow> c \<in> set (cells g) \<Longrightarrow> k < length (cells g) \<Longrightarrow>
          cells (move_to c k g) ! k = c"
    and move_set: "valid g \<Longrightarrow> c \<in> set (cells g) \<Longrightarrow> k < length (cells g) \<Longrightarrow>
          set (cells (move_to c k g)) = set (cells g)"
begin

lemma take_out_inserted:
  assumes "valid g" "k \<le> length (cells g)"
  shows "cells (take_out (new_cell g) (insert_at k g)) = cells g"
proof -
  have new: "new_cell g \<notin> set (take k (cells g))" "new_cell g \<notin> set (drop k (cells g))"
    using new_fresh [OF assms(1)] by (auto dest: in_set_takeD in_set_dropD)
  have "new_cell g \<in> set (cells (insert_at k g))" by (simp add: insert_cells [OF assms])
  from take_cells [OF insert_valid [OF assms] this]
  show ?thesis using new by (simp add: insert_cells [OF assms])
qed

lemma move_keeps_length:
  assumes "valid g" "c \<in> set (cells g)" "k < length (cells g)"
  shows "length (cells (move_to c k g)) = length (cells g)"
  using distinct_card [OF cells_distinct [OF move_valid [OF assms]]]
    distinct_card [OF cells_distinct [OF assms(1)]] move_set [OF assms] by simp

lemma take_out_moved:
  assumes "valid g" "c \<in> set (cells g)" "k < length (cells g)"
  shows "set (cells (take_out c (move_to c k g))) = set (cells g) - {c}"
  using take_cells [OF move_valid [OF assms]] move_set [OF assms] assms(2) by simp

end

text \<open>The operations of a grid, for a browser and the HTML of new cells.\<close>

definition grid_insert :: "browser \<Rightarrow> string \<Rightarrow> nat \<Rightarrow> grid \<Rightarrow> grid" where
  "grid_insert B html k g =
     (case insertCell B html (Some (int k)) g of None \<Rightarrow> g | Some (r, g') \<Rightarrow> g')"

definition grid_remove :: "browser \<Rightarrow> nat \<Rightarrow> grid \<Rightarrow> grid" where
  "grid_remove B c g = snd (removeCell B (chain_of g c) g)"

definition grid_move :: "browser \<Rightarrow> nat \<Rightarrow> nat \<Rightarrow> grid \<Rightarrow> grid" where
  "grid_move B c k g =
     (case moveCell B (chain_of g c) (int k) g of None \<Rightarrow> g | Some (r, g') \<Rightarrow> g')"

lemma grid_insert_law:
  assumes ok: "grid_ok g" and k: "k \<le> length (getCells g)"
  shows "grid_ok (grid_insert B html k g) \<and>
         getCells (grid_insert B html k g) = take k (getCells g) @ nextId g # drop k (getCells g)"
  using insertCell_inserts [OF ok, of "Some (int k)" k B html] k
  by (auto simp: grid_insert_def placeholder_ids_def)

lemma grid_remove_law:
  assumes ok: "grid_ok g" and c: "c \<in> set (getCells g)"
  shows "grid_ok (grid_remove B c g) \<and> getCells (grid_remove B c g) = removeAll c (getCells g)"
proof -
  have "c \<in> set (cellsArray g)" using c unfolding set_getCells [OF ok] .
  from removeCell_result [OF ok this, of B] show ?thesis by (metis grid_remove_def snd_conv)
qed

lemma grid_move_law:
  assumes ok: "grid_ok g" and c: "c \<in> set (getCells g)" and k: "k < length (getCells g)"
  shows "grid_ok (grid_move B c k g) \<and> getCells (grid_move B c k g) ! k = c \<and>
         set (getCells (grid_move B c k g)) = set (getCells g)"
proof -
  obtain g' where g': "moveCell B (chain_of g c) (int k) g = Some (None, g')" "grid_ok g'"
    "getCells g' = moved (swapMode (options g)) c (getCells g ! k) (getCells g)"
    by (rule moveCell_within [OF ok c k])
  note m = moved_index [OF distinct_getCells [OF ok] c nth_mem [OF k], of "swapMode (options g)"]
  have "index_in c (getCells g') = k"
    using m(1) index_nth [OF distinct_getCells [OF ok] k] g'(3) by simp
  moreover have "getCells g' ! index_in c (getCells g') = c"
  proof -
    have "xs ! index_in c xs = c" if "c \<in> set xs" for xs using that by (induction xs) auto
    then show ?thesis using m(2) c g'(3) by simp
  qed
  ultimately show ?thesis using g' m(2) by (simp add: grid_move_def)
qed

interpretation grid_cells: cell_collection grid_ok getCells nextId "grid_insert B html"
  "grid_remove B" "grid_move B" for B html
proof unfold_locales
  fix g assume ok: "grid_ok g"
  show "distinct (getCells g)" using distinct_getCells [OF ok] .
  show "nextId g \<notin> set (getCells g)"
    unfolding set_getCells [OF ok] using fresh_element(3) [OF ok] .
  show "grid_ok (grid_insert B html k g)" if "k \<le> length (getCells g)" for k
    using grid_insert_law [OF ok that] by blast
  show "getCells (grid_insert B html k g) = take k (getCells g) @ nextId g # drop k (getCells g)"
    if "k \<le> length (getCells g)" for k
    using grid_insert_law [OF ok that] by blast
  show "grid_ok (grid_remove B c g)" "getCells (grid_remove B c g) = removeAll c (getCells g)"
    if "c \<in> set (getCells g)" for c
    using grid_remove_law [OF ok that] by blast+
  show "grid_ok (grid_move B c k g)" "getCells (grid_move B c k g) ! k = c"
    "set (getCells (grid_move B c k g)) = set (getCells g)"
    if "c \<in> set (getCells g)" "k < length (getCells g)" for c k
    using grid_move_law [OF ok that] by blast+
qed

lemma remove_undoes_insert:
  "grid_ok g \<Longrightarrow> k \<le> length (getCells g) \<Longrightarrow>
     getCells (grid_remove B (nextId g) (grid_insert B html k g)) = getCells g"
  by (rule grid_cells.take_out_inserted)

section \<open>Padding\<close>

lemma count_placeholders:
  assumes "grid_ok g"
  shows "length (filter (is_placeholder g) (hiddenCells g)) =
         length (filter (\<lambda>c. hasClass g c Placeholder_Cell) (getCells g))"
proof -
  have "filter (is_placeholder g) (hiddenCells g) =
      filter (\<lambda>h. hasClass g (the (visibleOf g h)) Placeholder_Cell) (hiddenCells g)"
    by (rule filter_cong) (auto simp: is_placeholder_def set_hiddenCells [OF assms])
  then show ?thesis by (simp add: getCells_map [OF assms] filter_map comp_def)
qed

text \<open>
  C35. \<open>padWithNonContiguousCells\<close> returns when its callback turns false for grids of \<open>n\<close> cells or
  more: it has put placeholder cells behind the others, not past \<open>n\<close> cells, and the callback is
  false for the numbers of cells and placeholders there are now.
\<close>

theorem padding_ends:
  assumes "reachable g" "nonContiguousCellHtml (options g) = Some html"
    "\<forall>c p. n \<le> c \<longrightarrow> \<not> callback c p"
  shows "\<exists>g' pads. padWithNonContiguousCells B callback g = Some (None, g') \<and>
           getCells g' = getCells g @ pads \<and> (\<forall>c \<in> set pads. hasClass g' c Placeholder_Cell) \<and>
           (pads = [] \<or> length (getCells g') \<le> n) \<and>
           \<not> callback (length (getCells g'))
               (length (filter (\<lambda>c. hasClass g' c Placeholder_Cell) (getCells g')))"
proof -
  have ok: "grid_ok g" using reachable_ok [OF assms(1)] .
  let ?P = "\<lambda>g hs appending. (if \<not> appending then Inr False
              else Inr (callback (length hs) (length (filter (is_placeholder g) hs)))) :: js_error + bool"
  have P: "\<exists>b. ?P g (hiddenCells g) True = Inr b \<and> (b \<longrightarrow> length (getCells g) < n)"
    if "grid_ok g" for g
    using assms(3) length_getCells [OF that] by (auto simp: not_less [symmetric])
  obtain m g1 where m: "appendOrRemoveNonContiguousCellsWhile B ?P html g = Some (Inr (0 < m), g1)"
    "padded g m g1" "?P g1 (hiddenCells g1) True = Inr False" "0 < m \<longrightarrow> length (getCells g) + m \<le> n"
    using appendOrRemove_appends [of g ?P n B html, OF ok P] by auto
  have ok1: "grid_ok g1" and c1: "getCells g1 = getCells g @ placeholder_ids (nextId g) m"
    and pl: "\<forall>c \<in> set (placeholder_ids (nextId g) m). hasClass g1 c Placeholder_Cell"
    using m(2) by (simp_all add: padded_def)
  have "padWithNonContiguousCells B callback g = Some (None, g1)"
    using m(1) assms(2) by (simp add: padWithNonContiguousCells_def)
  moreover have "\<not> callback (length (getCells g1))
      (length (filter (\<lambda>c. hasClass g1 c Placeholder_Cell) (getCells g1)))"
    using m(3) length_getCells [OF ok1] count_placeholders [OF ok1] by simp
  moreover have "placeholder_ids (nextId g) m = [] \<or> length (getCells g1) \<le> n"
    using m(4) c1 by (auto simp: placeholder_ids_def)
  ultimately show ?thesis using c1 pl by blast
qed

theorem padding_ends_witness:
  "\<exists>g' pads. padWithNonContiguousCells flat_browser (\<lambda>c p. c < 5) (sample_grid placeholder_options)
      = Some (None, g') \<and> getCells g' = [1, 2, 3] @ pads \<and> 5 \<le> length (getCells g')"
proof -
  have "nonContiguousCellHtml (options (sample_grid placeholder_options)) = Some ''''"
    by (simp add: sample_options placeholder_options_def)
  moreover have "\<forall>c p :: nat. (5 :: nat) \<le> c \<longrightarrow> \<not> c < 5" by simp
  ultimately show ?thesis
    using padding_ends [OF sample_reachable, of placeholder_options "''''" 5 "\<lambda>c p. c < 5" flat_browser]
    by (auto simp: sample_cells not_less)
qed

section \<open>When handlers run\<close>

text \<open>
  C39. A function debounced by \<open>ms\<close> runs exactly for the calls that no other call follows within
  \<open>ms\<close>, each time \<open>ms\<close> after the call, so that two runs are at least \<open>ms\<close> apart; a callback given to
  \<open>Limit\<close> runs more than \<open>ms\<close> after the one before.
\<close>

theorem callbacks_spaced:
  assumes "0 < ms" "sorted (map fst cs)"
  shows "debounced ms False cs None = map (\<lambda>(t, a). (t + ms, a)) (settled ms cs) \<and>
         sorted_wrt (\<lambda>x y. fst x + ms \<le> fst y) (debounced ms False cs None) \<and>
         sorted_wrt (\<lambda>x y. x + ms < y) (limited ms ns limit)"
proof -
  have "sorted_wrt (\<lambda>x y. fst x + ms \<le> fst y) (settled ms cs)"
    using settled_spaced [OF assms(2)] assms(1) by simp
  then have "sorted_wrt (\<lambda>x y. fst x + ms \<le> fst y) (map (\<lambda>(t, a). (t + ms, a)) (settled ms cs))"
    unfolding sorted_wrt_map by (rule sorted_wrt_mono_rel [rotated]) (auto split: prod.splits)
  then show ?thesis using debounced_settled(1) [OF assms(1), of cs] limited_spaced [of ms ns limit] assms(1) by simp
qed

theorem callbacks_spaced_witness:
  "debounced 50 False [(0, 1), (10, 2), (100, 3 :: nat)] None = [(60, 2), (150, 3)] \<and>
   limited 150 [200, 300, 400, 600] None = [200, 400, 600] \<and>
   sorted_wrt (\<lambda>x y :: int. x + 150 < y) [200, 400, 600]"
  using callbacks_spaced [of 50 "[(0, 1), (10, 2), (100, 3 :: nat)]" "[]" None]
    callbacks_spaced [of 150 "[] :: (int \<times> nat) list" "[200, 300, 400, 600]" None]
  by (simp add: limit_passes_def)

end
