(* ===== verification/Grid_Drag.thy ===== *)
theory Grid_Drag
  imports Grid_Props
begin

text \<open>
  Dragging a cell of a grid with the mouse: pressing, moving, coming over another cell and
  releasing, with what the browser must answer when it is asked what is under the mouse.
\<close>

section \<open>The cell under the mouse\<close>

text \<open>The dragged and the resized cell.\<close>

lemma dragging_cell:
  assumes ok: "grid_ok g"
  shows "getDraggingCell g = find (\<lambda>c. hasClass g c Drag_Cell) (tree g In_Container)"
proof (cases "find (\<lambda>c. hasClass g c Drag_Cell) (tree g In_Container)")
  case (Some c)
  then have "c \<in> set (tree g In_Container)" by (auto simp: find_Some_iff)
  then have "closestGridstrap g (chain_of g c) = Some (el g)"
    using closest_cell(1) [OF ok] grid_okD(8) [OF ok] by simp
  then show ?thesis using Some by (simp add: getDraggingCell_def)
qed (simp add: getDraggingCell_def)

lemma find_only:
  "c \<in> set xs \<Longrightarrow> (\<And>x. x \<in> set xs \<Longrightarrow> P x \<longleftrightarrow> x = c) \<Longrightarrow> find P xs = Some c"
  by (induction xs) auto

text \<open>
  What a drag needs from the browser. Nobody prevents the plugin's drag events of the cell \<open>c\<close>;
  and in the states in which \<open>c\<close> is dragged, which differ from \<open>g\<close> only in the drag class and the
  position of \<open>c\<close> (and in data the page does not show), the mouse rests on the cell \<open>x\<close>, or on
  none, at the position of the event, when the dragged cell itself takes no pointer events; and
  the container is where it was on the page.
\<close>

definition unprevented :: "browser \<Rightarrow> nat \<Rightarrow> bool" where
  "unprevented B c \<longleftrightarrow> (\<forall>x y. \<not> prevented B (Cell_Drag x y c))"

definition only_drags :: "nat \<Rightarrow> grid \<Rightarrow> grid \<Rightarrow> bool" where
  "only_drags c g g' \<longleftrightarrow> same_cells (addClass c Drag_Cell g) g' \<and> inner g' = inner g \<and>
     (\<forall>e. e \<noteq> c \<longrightarrow> style g' e = style g e)"

definition rests_on :: "browser \<Rightarrow> nat \<Rightarrow> grid \<Rightarrow> mouse_event \<Rightarrow> nat option \<Rightarrow> bool" where
  "rests_on B c g m x \<longleftrightarrow>
     (\<forall>g'. only_drags c g g' \<longrightarrow> getCellOfElement g' (getNonDraggedElementFromPoint B m c g') = x)"

definition container_origin :: "browser \<Rightarrow> grid \<Rightarrow> rat \<times> rat" where
  "container_origin B g =
     (fst (page_offset B g (container g)) - pleft (box_of B g (container g)),
      snd (page_offset B g (container g)) - ptop (box_of B g (container g)))"

definition container_stays :: "browser \<Rightarrow> nat \<Rightarrow> rat \<times> rat \<Rightarrow> grid \<Rightarrow> bool" where
  "container_stays B c absolute g \<longleftrightarrow> (\<forall>g'. only_drags c g g' \<longrightarrow> container_origin B g' = absolute)"

lemma only_drags_simps:
  "only_drags c g (set_css c k n g') = only_drags c g g'"
  "only_drags c g (g'\<lparr>lastTarget := t\<rparr>) = only_drags c g g'"
  by (auto simp: only_drags_def set_css_def same_cells_def)

text \<open>Where the dragged cell is put.\<close>

definition drag_to :: "browser \<Rightarrow> mouse_event \<Rightarrow> nat \<Rightarrow> rat \<times> rat \<Rightarrow> grid \<Rightarrow> grid" where
  "drag_to B m c d g =
     set_css c Css_top (pageY m - snd (container_origin B g) - snd d)
       (set_css c Css_left (pageX m - fst (container_origin B g) - fst d) g)"

lemma drag_to_same: "same_cells g (drag_to B m c d g)"
  unfolding drag_to_def by (rule same_cells_trans [OF set_css_same set_css_same])

lemma drag_to_data [simp]:
  "downDiff (drag_to B m c d g) = downDiff g" "posSize (drag_to B m c d g) = posSize g"
  "limitTime (drag_to B m c d g) = limitTime g"
  "only_drags c g0 (drag_to B m c d g) = only_drags c g0 g"
  unfolding drag_to_def only_drags_simps by (simp_all add: set_css_def)

lemma place_result:
  assumes ok: "grid_ok g" and c: "c \<in> set (cellsArray g)" and B: "unprevented B c"
    and d: "downDiff g c = Some d"
  shows "placeDraggedCell B m c look g = look (drag_to B m c d g)"
proof -
  have "parent_of (tree g) c = Some In_Container"
    using parent_of_in [OF grid_okD(1) [OF ok]] c grid_okD(8) [OF ok] by simp
  then have "getAbsoluteOffset B m c (downDiff g c) g =
      Some (pageX m - fst (container_origin B g) - fst d, pageY m - snd (container_origin B g) - snd d)"
    using d by (cases d) (simp add: getAbsoluteOffset_def parent_absolute_def absoluteOffset_def
        container_origin_def Let_def mouse_point.truncate_def)
  then show ?thesis
    using B by (cases "look (drag_to B m c d g)")
      (simp add: placeDraggedCell_def js_defs unprevented_def drag_to_def)
qed

text \<open>Moving the dragged cell where no other cell is under the mouse.\<close>

lemma move_nowhere:
  assumes "grid_ok g" "c \<in> set (cellsArray g)" "unprevented B c" "downDiff g c = Some d"
    and "only_drags c g0 g" "rests_on B c g0 m None"
  shows "moveDraggedCell B m c g = (None, drag_to B m c d g)"
proof -
  have "getCellOfElement (drag_to B m c d g) (getNonDraggedElementFromPoint B m c (drag_to B m c d g)) = None"
    using assms(5,6) by (simp add: rests_on_def)
  then show ?thesis
    by (simp add: moveDraggedCell_def place_result [OF assms(1-4)] triggerMouseOver_def js_defs)
qed

lemma geometry_cells:
  assumes "same_cells g g'"
  shows "getResizedCell g' = getResizedCell g" "getDraggingCell g' = getDraggingCell g"
    "cellsArray g' = cellsArray g" "options g' = options g" "hasClass g' = hasClass g"
proof -
  note s = assms [unfolded same_cells_def]
  show h: "hasClass g' = hasClass g" using s by (intro ext) (simp add: hasClass_def)
  have "chain_of g' = chain_of g" using s by (intro ext) (simp add: chain_of_def cong: option.case_cong place.case_cong)
  then show "getDraggingCell g' = getDraggingCell g"
    using s by (simp add: getDraggingCell_def closestGridstrap_def h cong: option.case_cong)
qed (use assms in \<open>simp_all add: same_cells_def getResizedCell_def hasClass_def\<close>)

lemma start_drag:
  assumes ok: "grid_ok g" and c: "c \<in> set (cellsArray g)" and n: "getDraggingCell g = None"
    and r: "getResizedCell g = None"
  shows "getDraggingCell (addClass c Drag_Cell g) = Some c"
    "getResizedCell (addClass c Drag_Cell g) = None" "\<not> hasClass g c Drag_Cell"
proof -
  have none: "\<not> hasClass g x Drag_Cell" if "x \<in> set (tree g In_Container)" for x
    using n that unfolding dragging_cell [OF ok] by (auto simp: find_None_iff)
  have c1: "c \<in> set (tree g In_Container)" using c grid_okD(8) [OF ok] by simp
  show "\<not> hasClass g c Drag_Cell" using none c1 by simp
  have "find (\<lambda>x. hasClass (addClass c Drag_Cell g) x Drag_Cell) (tree g In_Container) = Some c"
    using none c1 by (intro find_only) (auto simp: hasClass_def addClass_def)
  then show "getDraggingCell (addClass c Drag_Cell g) = Some c"
    unfolding dragging_cell [OF addClass_ok [OF ok]] by (simp add: addClass_def)
  show "getResizedCell (addClass c Drag_Cell g) = None"
    using r by (auto simp: getResizedCell_def find_None_iff addClass_def hasClass_def split: if_splits)
qed

text \<open>The state after the mouse went down on a cell.\<close>

lemma mousedown_drags:
  assumes ok: "grid_ok g" and c: "c \<in> set (cellsArray g)" and B: "unprevented B c" "rests_on B c g m None"
    and opt: "draggable (options g)" "\<not> (resizeHandleSelector (options g) \<and> on_handle m)"
    and cl: "\<not> hasClass g c Placeholder_Cell" "getDraggingCell g = None" "getResizedCell g = None"
  obtains g1 where "onMousedown B m (Some c) g = (None, g1)" "only_drags c g g1"
    "downDiff g1 c = Some (pageX m - fst (page_offset B g c), pageY m - snd (page_offset B g c))"
    "posSize g1 = posSize g" "limitTime g1 = limitTime g"
proof -
  let ?d = "addClass c Drag_Cell (setMouseDownData B m c g)"
  have drags: "only_drags c g ?d"
    by (simp add: only_drags_def same_cells_def addClass_def setMouseDownData_def Let_def)
  then have okd: "grid_ok ?d" using same_cells_ok addClass_ok [OF ok] unfolding only_drags_def by metis
  have dd: "downDiff ?d c = Some (pageX m - fst (page_offset B g c), pageY m - snd (page_offset B g c))"
    by (simp add: addClass_def setMouseDownData_def Let_def)
  have cd: "c \<in> set (cellsArray ?d)" using c by (simp add: addClass_def setMouseDownData_def Let_def)
  note move = move_nowhere [OF okd cd B(1) dd drags B(2)]
  let ?g1 = "snd (moveDraggedCell B m c ?d)"
  have "onMousedown B m (Some c) g = (None, ?g1)"
    using opt cl(1) start_drag(3) [OF ok c cl(2,3)] move
    by (auto simp: onMousedown_def js_defs)
  moreover have "posSize ?d = posSize g" "limitTime ?d = limitTime g"
    by (simp_all add: addClass_def setMouseDownData_def Let_def)
  ultimately show thesis using that [of ?g1] drags dd by (simp add: move)
qed

lemma only_drags_facts:
  assumes "only_drags c g g1"
  shows "same_cells (addClass c Drag_Cell g) g1" "grid_ok g \<Longrightarrow> grid_ok g1"
    "cellsArray g1 = cellsArray g" "options g1 = options g" "getCells g1 = getCells g"
proof -
  show s: "same_cells (addClass c Drag_Cell g) g1" using assms by (simp add: only_drags_def)
  show "grid_ok g \<Longrightarrow> grid_ok g1" using same_cells_ok [OF s] addClass_ok by simp
  show "cellsArray g1 = cellsArray g" "options g1 = options g"
    using s by (simp_all add: same_cells_def addClass_def)
  show "getCells g1 = getCells g" using same_cells_getCells [OF s] addClass_hidden(2) by simp
qed

text \<open>
  C37. A cell that is dragged follows the mouse: pressed on the cell and moved, the mouse takes the
  cell by exactly the distance it has moved, wherever in the cell it was pressed; the cell is the
  dragged one, and the order of the cells is as before. Nobody prevents the drag, the container
  does not move, no other cell is under the mouse at the two positions, and no placeholders are
  used.
\<close>

theorem drag_follows_mouse:
  assumes "reachable g" "c \<in> set (getCells g)" "unprevented B c" "container_stays B c absolute g"
    "rests_on B c g m0 None" "rests_on B c g m1 None"
    "draggable (options g)" "\<not> (resizeHandleSelector (options g) \<and> on_handle m0)"
    "nonContiguousCellHtml (options g) = None" "\<not> hasClass g c Placeholder_Cell"
    "getDraggingCell g = None" "getResizedCell g = None"
  shows "\<exists>g1 g2. onMousedown B m0 (Some c) g = (None, g1) \<and> onMousemove B m1 g1 = Some (None, g2) \<and>
           style g2 c Css_left =
             Some (fst (page_offset B g c) - fst absolute + (pageX m1 - pageX m0)) \<and>
           style g2 c Css_top =
             Some (snd (page_offset B g c) - snd absolute + (pageY m1 - pageY m0)) \<and>
           getDraggingCell g2 = Some c \<and> getCells g2 = getCells g"
proof -
  have ok: "grid_ok g" using reachable_ok [OF assms(1)] .
  have c: "c \<in> set (cellsArray g)" using assms(2) set_getCells [OF ok] by simp
  obtain g1 where g1: "onMousedown B m0 (Some c) g = (None, g1)" "only_drags c g g1"
    "downDiff g1 c = Some (pageX m0 - fst (page_offset B g c), pageY m0 - snd (page_offset B g c))"
    by (rule mousedown_drags [OF ok c assms(3,5,7,8,10-12)])
  note f1 = only_drags_facts [OF g1(2)]
  have c1: "c \<in> set (cellsArray g1)" using c f1(3) by simp
  note move = move_nowhere [OF f1(2) [OF ok] c1 assms(3) g1(3,2) assms(6)]
  let ?g2 = "snd (moveDraggedCell B m1 c g1)"
  have same2: "same_cells g1 ?g2" unfolding move by (simp add: drag_to_same)
  note drag = start_drag [OF ok c assms(11,12)]
  have "getResizedCell g1 = None" "getDraggingCell g1 = Some c"
    using geometry_cells [OF f1(1)] drag by simp_all
  moreover have "nonContiguousCellHtml (options ?g2) = None"
    using assms(9) geometry_cells(4) [OF same2] f1(4) by simp
  ultimately have "onMousemove B m1 g1 = Some (None, ?g2)"
    using move by (simp add: onMousemove_def)
  moreover have "getDraggingCell ?g2 = Some c"
    using geometry_cells(2) [OF same2] geometry_cells(2) [OF f1(1)] drag by simp
  moreover have "getCells ?g2 = getCells g" using same_cells_getCells [OF same2] f1(5) by simp
  moreover have "container_origin B g1 = absolute" using assms(4) g1(2) by (simp add: container_stays_def)
  ultimately show ?thesis
    using g1(1) unfolding move by (auto simp: drag_to_def set_css_def)
qed

text \<open>Where the mouse is, for a concrete event.\<close>

definition mouse_at :: "rat \<Rightarrow> rat \<Rightarrow> mouse_event" where
  "mouse_at x y = \<lparr> pageX = x, pageY = y, clientX = x, clientY = y, target = [], on_handle = False,
                    now = 0 \<rparr>"

lemma sample_idle:
  "getDraggingCell (sample_grid opts) = None" "getResizedCell (sample_grid opts) = None"
  "c \<in> {1, 2, 3} \<Longrightarrow> \<not> hasClass (sample_grid opts) c Placeholder_Cell"
proof -
  have cl: "classes (fold (initCellsHiddenCopyAndSetAbsolutePosition B) es g) e \<inter>
              {Placeholder_Cell, Drag_Cell, Resize_Cell} = {}"
    if "\<forall>e. classes g e \<inter> {Placeholder_Cell, Drag_Cell, Resize_Cell} = {}" for B es g e
    using that
  proof (induction es arbitrary: g)
    case (Cons c es)
    have "\<forall>e. classes (initCellsHiddenCopyAndSetAbsolutePosition B c g) e \<inter>
               {Placeholder_Cell, Drag_Cell, Resize_Cell} = {}"
      using Cons.prems
      by (auto simp: initCellsHiddenCopyAndSetAbsolutePosition_def Let_def put_element_def
          create_element_def addClass_def detach_element_def setCellAbsolutePositionAndSize_def
          set_css_def)
    from Cons.IH [OF this] show ?case by simp
  qed simp
  have all: "classes (sample_grid opts) e \<inter> {Placeholder_Cell, Drag_Cell, Resize_Cell} = {}" for e
  proof -
    have "\<forall>e. classes ((setup_grid opts grid_page)\<lparr>cellsArray := []\<rparr>) e \<inter>
           {Placeholder_Cell, Drag_Cell, Resize_Cell} = {}"
      by (simp add: grid_page_def setup_grid_def Let_def create_element_def put_element_def)
    from cl [OF this] show ?thesis
      by (simp add: sample_grid_def gridstrap_def initOriginalCells_def) (simp add: grid_page_def)
  qed
  then have "\<not> hasClass (sample_grid opts) e Drag_Cell" "\<not> hasClass (sample_grid opts) e Resize_Cell"
    "\<not> hasClass (sample_grid opts) e Placeholder_Cell" for e
    by (auto simp: hasClass_def disjoint_iff)
  then show "getDraggingCell (sample_grid opts) = None" "getResizedCell (sample_grid opts) = None"
    "c \<in> {1, 2, 3} \<Longrightarrow> \<not> hasClass (sample_grid opts) c Placeholder_Cell"
    by (simp_all add: getDraggingCell_def getResizedCell_def find_None_iff option.case_eq_if)
qed

lemma flat_drag:
  "unprevented flat_browser c" "container_stays flat_browser c (0, 0) g" "rests_on flat_browser c g m None"
  by (simp_all add: unprevented_def container_stays_def container_origin_def rests_on_def
      getNonDraggedElementFromPoint_def flat_browser_def getCellOfElement_def getCellAndInternalIndex_def)

theorem drag_follows_mouse_witness:
  "\<exists>g1 g2. onMousedown flat_browser (mouse_at 3 4) (Some 2) (sample_grid defaultOptions) = (None, g1) \<and>
     onMousemove flat_browser (mouse_at 30 50) g1 = Some (None, g2) \<and>
     style g2 2 Css_left = Some 27 \<and> style g2 2 Css_top = Some 46 \<and> getCells g2 = [1, 2, 3]"
proof -
  let ?g = "sample_grid defaultOptions"
  have "draggable (options ?g)" "nonContiguousCellHtml (options ?g) = None"
    "\<not> (resizeHandleSelector (options ?g) \<and> on_handle (mouse_at 3 4))"
    by (simp_all add: sample_options defaultOptions_def)
  then show ?thesis
    using drag_follows_mouse [OF sample_reachable _ flat_drag(1,2)
        flat_drag(3) [where m = "mouse_at 3 4"] flat_drag(3) [where m = "mouse_at 30 50"], of 2 defaultOptions]
      sample_idle [where opts = defaultOptions]
    by (auto simp: sample_cells mouse_at_def flat_browser_def)
qed

section \<open>Dropping\<close>

text \<open>What moving cells does not touch.\<close>

definition drag_data :: "nat \<Rightarrow> nat option \<Rightarrow> (rat \<times> rat) option \<Rightarrow> grid \<Rightarrow> bool" where
  "drag_data c t d g \<longleftrightarrow> posSize g c \<noteq> None \<and> lastTarget g = t \<and> downDiff g c = d"

lemma drag_data_geometry:
  "drag_data c t d g \<Longrightarrow> drag_data c t d (set_css e p n g)"
  "drag_data c t d g \<Longrightarrow> drag_data c t d (setCellAbsolutePositionAndSize B e ps g)"
  "drag_data c t d g \<Longrightarrow> drag_data c t d (g\<lparr>tree := tr\<rparr>)"
  "drag_data c t d g \<Longrightarrow> drag_data c t d (g\<lparr>limitTime := l\<rparr>)"
  by (simp_all add: drag_data_def set_css_def setCellAbsolutePositionAndSize_def)

lemma keeps_drag_data: "keeps (drag_data c t d) (moveCellTo B e t')"
  unfolding moveCellTo_def internalMove_def updateVisibleCellCoordinates_def redraw_cell_def
  by (auto intro!: keeps_intros drag_data_geometry split: option.split)

definition home :: "grid \<Rightarrow> nat \<times> nat \<times> nat list \<times> nat list" where
  "home g = (el g, container g, above g, gridstraps g)"

lemma home_same: "same_cells g g' \<Longrightarrow> home g' = home g"
  by (simp add: home_def same_cells_def)

lemma keeps_home: "keeps (\<lambda>g. home g = k) (moveCellTo B e t)"
  unfolding moveCellTo_def internalMove_def updateVisibleCellCoordinates_def redraw_cell_def
  by (auto intro!: keeps_intros simp: home_def setCellAbsolutePositionAndSize_def set_css_def split: option.split)

text \<open>The mouse comes over another cell while \<open>c\<close> is dragged.\<close>

lemma hover_result:
  assumes ok: "grid_ok g" and c: "c \<in> set (cellsArray g)" and t: "t \<in> set (cellsArray g)" "c \<noteq> t"
    and d: "getDraggingCell g = Some c" "draggable (options g)" "downDiff g c = Some p" "posSize g c \<noteq> None"
    and lim: "rearrangeOnDrag (options g) \<Longrightarrow>
                limit_passes (dragMouseoverThrottle (options g)) (now m) (limitTime g)"
  obtains g' where "onMouseover B m (Some t) g = (None, g')" "grid_ok g'" "cellsArray g' = cellsArray g"
    "getCells g' = (if rearrangeOnDrag (options g) then moved (swapMode (options g)) c t (getCells g)
                    else getCells g)"
    "options g' = options g" "classes g' = classes g" "posSize g' c \<noteq> None" "lastTarget g' = Some t"
    "home g' = home g" "rearrangeOnDrag (options g) \<Longrightarrow> limitTime g' = Some (now m)"
proof -
  let ?h = "g\<lparr>lastTarget := Some t\<rparr>"
  have same: "same_cells g ?h" by (rule same_geometry)
  have okh: "grid_ok ?h" using same_cells_ok [OF same] ok by simp
  have dr: "getDraggingCell (g\<lparr>lastTarget := None\<rparr>) = Some c"
    using geometry_cells(2) [OF same_geometry(4)] d(1) by simp
  have "chain_of (g\<lparr>lastTarget := None\<rparr>) c = chain_of g c"
    by (simp add: chain_of_def cong: option.case_cong place.case_cong)
  then have out: "t \<notin> set (chain_of (g\<lparr>lastTarget := None\<rparr>) c)"
    using closest_cell(2) [OF ok c t(1)] t(2) by simp
  show thesis
  proof (cases "rearrangeOnDrag (options g)")
    case False
    let ?g' = "if limit_passes (dragMouseoverThrottle (options g)) (now m) (limitTime g)
               then ?h\<lparr>limitTime := Some (now m)\<rparr> else ?h"
    have "onMouseover B m (Some t) g = (None, ?g')"
      using dr out d(2) False by (simp add: onMouseover_def js_defs)
    moreover have same': "same_cells g ?g'" by (simp add: same_cells_def)
    then have "cellsArray ?g' = cellsArray g" "options ?g' = options g" "classes ?g' = classes g"
      unfolding same_cells_def by blast+
    moreover have "posSize ?g' c \<noteq> None" "lastTarget ?g' = Some t" using d(4) by simp_all
    moreover note same_cells_ok [OF same'] same_cells_getCells [OF same'] home_same [OF same']
    ultimately show thesis using that [of ?g'] False ok by simp
  next
    case True
    have cells: "c \<in> set (cellsArray ?h)" "t \<in> set (cellsArray ?h)" using c t by simp_all
    obtain g1 where g1: "moveCellTo B c (Some t) ?h = (None, g1)" "grid_ok g1"
      "getCells g1 = moved (swapMode (options ?h)) c t (getCells ?h)" "cellsArray g1 = cellsArray ?h"
      "options g1 = options ?h" "classes g1 = classes ?h"
      using moveCellTo_result [OF okh cells, of B] by metis
    have hm: "home g1 = home ?h"
      using keeps_home [of "home ?h" B c "Some t"] g1(1) by (auto simp: keeps_def dest: spec [of _ ?h])
    have data: "drag_data c (Some t) (Some p) g1"
      using keeps_drag_data [of c "Some t" "Some p" B c "Some t"] g1(1) d(3,4)
      by (auto simp: keeps_def drag_data_def dest: spec [of _ ?h])
    have "parent_of (tree g1) c = Some In_Container"
      using parent_of_in [OF grid_okD(1) [OF g1(2)], of c In_Container] cells g1(4)
        grid_okD(8) [OF g1(2)] by simp
    then obtain x y where off: "getAbsoluteOffset B m c (downDiff g1 c) g1 = Some (x, y)"
      using data by (simp add: getAbsoluteOffset_def parent_absolute_def drag_data_def absoluteOffset_def)
    define g2 where "g2 = (if prevented B (Cell_Drag x y c) then g1
                           else set_css c Css_top y (set_css c Css_left x g1))"
    have p: "placeDraggedCell B m c skip g1 = (None, g2)"
      using off by (simp add: placeDraggedCell_def js_defs g2_def)
    let ?g' = "g2\<lparr>limitTime := Some (now m)\<rparr>"
    have "onMouseover B m (Some t) g = (None, ?g')"
      using dr out d(2) True lim g1(1) p by (simp add: onMouseover_def js_defs)
    moreover have s2: "same_cells g1 ?g'"
      by (simp add: g2_def same_cells_def set_css_def)
    moreover have "drag_data c (Some t) (Some p) ?g'"
      using data by (auto simp: g2_def intro: drag_data_geometry)
    ultimately show thesis
      using that [of ?g'] True g1 same_cells_ok [OF s2] same_cells_getCells [OF s2]
        same_cells_getCells [OF same] home_same [OF s2] home_same [OF same] hm
      by (simp add: same_cells_def drag_data_def)
  qed
qed

text \<open>The mouse is released while \<open>c\<close> is dragged.\<close>

lemma drop_result:
  assumes ok: "grid_ok g" and c: "c \<in> set (cellsArray g)" and t: "t \<in> set (cellsArray g)"
    and d: "getDraggingCell g = Some c" "draggable (options g)" "posSize g c \<noteq> None"
      "lastTarget g = Some t" "getResizedCell g = None" "nonContiguousCellHtml (options g) = None"
    and only: "\<And>x. x \<in> set (cellsArray g) \<Longrightarrow> hasClass g x Drag_Cell \<Longrightarrow> x = c"
  obtains g' where "onMouseup B m g = Some (None, g')" "grid_ok g'"
    "getCells g' = (if rearrangeOnDrag (options g) then getCells g
                    else moved (swapMode (options g)) c t (getCells g))" "getDraggingCell g' = None"
proof -
  let ?r = "removeClass c Drag_Cell g"
  obtain p where p: "posSize g c = Some p" using d(3) by blast
  let ?h = "setCellAbsolutePositionAndSize B c p ?r"
  have same: "same_cells ?r ?h" by (rule setCell_same)
  have okr: "grid_ok ?r" using removeClass_ok [OF ok] by simp
  have okh: "grid_ok ?h" using same_cells_ok [OF same] okr by simp
  have cr: "getCells ?h = getCells g"
    using same_cells_getCells [OF same] removeClass_hidden(2) by simp
  have h: "cellsArray ?h = cellsArray g" "options ?h = options g" "lastTarget ?h = Some t"
    "classes ?h = classes ?r"
    using d(4) by (simp_all add: setCellAbsolutePositionAndSize_def set_css_def removeClass_def)
  have none: "getDraggingCell g1 = None"
    if "grid_ok g1" "cellsArray g1 = cellsArray g" "classes g1 = classes ?r" for g1
  proof -
    have "\<not> hasClass g1 x Drag_Cell" if "x \<in> set (tree g1 In_Container)" for x
      using that only [of x] \<open>cellsArray g1 = _\<close> \<open>classes g1 = _\<close> grid_okD(8) [OF \<open>grid_ok g1\<close>]
      by (auto simp: hasClass_def removeClass_def)
    then show ?thesis unfolding dragging_cell [OF \<open>grid_ok g1\<close>] by (simp add: find_None_iff)
  qed
  have up: "onMouseup B m g = Some (if rearrangeOnDrag (options g) then (None, ?h)
                                    else moveCellTo B c (Some t) ?h)"
  proof -
    have "posSize ?r c = Some p" using p by (simp add: removeClass_def)
    then have "endDrag B c g = (if rearrangeOnDrag (options g) then (None, ?h)
                                else moveCellTo B c (Some t) ?h)"
      using d(5) h(2,3) by (simp add: endDrag_def js_defs clearMouseDownData_def)
    then show ?thesis using d by (simp add: onMouseup_def split: bool.split)
  qed
  show thesis
  proof (cases "rearrangeOnDrag (options g)")
    case True
    then show thesis using that [of ?h] up okh cr none [OF okh h(1,4)] by simp
  next
    case False
    have cells: "c \<in> set (cellsArray ?h)" "t \<in> set (cellsArray ?h)" using c t h(1) by simp_all
    obtain g1 where g1: "moveCellTo B c (Some t) ?h = (None, g1)" "grid_ok g1"
      "getCells g1 = moved (swapMode (options ?h)) c t (getCells ?h)" "cellsArray g1 = cellsArray ?h"
      "classes g1 = classes ?h"
      using moveCellTo_result [OF okh cells, of B] by metis
    then show thesis using that [of g1] False up h cr none [of g1] by simp
  qed
qed

text \<open>Which cell is dragged, by the classes of the cells.\<close>

definition drags_only :: "nat \<Rightarrow> grid \<Rightarrow> bool" where
  "drags_only c g \<longleftrightarrow>
     (\<forall>x \<in> set (cellsArray g). (hasClass g x Drag_Cell \<longleftrightarrow> x = c) \<and> \<not> hasClass g x Resize_Cell)"

lemma drags_onlyD:
  assumes ok: "grid_ok g" and c: "c \<in> set (cellsArray g)" and d: "drags_only c g"
  shows "getDraggingCell g = Some c" "getResizedCell g = None"
    "x \<in> set (cellsArray g) \<Longrightarrow> hasClass g x Drag_Cell \<Longrightarrow> x = c"
proof -
  note cont = grid_okD(8) [OF ok]
  show "getDraggingCell g = Some c"
    unfolding dragging_cell [OF ok] using c d cont by (intro find_only) (simp_all add: drags_only_def)
  show "getResizedCell g = None"
    using d cont by (simp add: getResizedCell_def find_None_iff drags_only_def)
  show "x \<in> set (cellsArray g) \<Longrightarrow> hasClass g x Drag_Cell \<Longrightarrow> x = c"
    using d by (simp add: drags_only_def)
qed

lemma drags_only_start:
  assumes ok: "grid_ok g" and n: "getDraggingCell g = None" "getResizedCell g = None"
    and s: "same_cells (addClass c Drag_Cell g) g1"
  shows "drags_only c g1"
proof -
  note cont = grid_okD(8) [OF ok]
  have "\<not> hasClass g x Drag_Cell \<and> \<not> hasClass g x Resize_Cell" if "x \<in> set (cellsArray g)" for x
    using n that unfolding dragging_cell [OF ok] getResizedCell_def
    by (simp add: find_None_iff cont)
  moreover have "cellsArray g1 = cellsArray g" "classes g1 = classes (addClass c Drag_Cell g)"
    using s by (simp_all add: same_cells_def addClass_def)
  ultimately show ?thesis by (auto simp: drags_only_def hasClass_def addClass_def)
qed

text \<open>The event a move of the mouse triggers on the cell under it, and the handlers it reaches.\<close>

lemma cell_chain:
  assumes ok: "grid_ok g" and t: "t \<in> set (cellsArray g)"
  shows "chain_of g t = t # container g # el g # above g" "t \<noteq> el g" "t \<noteq> container g" "container g \<noteq> el g"
proof -
  note D = grid_okD [OF ok]
  have t1: "t \<in> set (tree g In_Container)" using t D(8) by simp
  show "chain_of g t = t # container g # el g # above g"
    using parent_of_in [OF D(1) t1] by (simp add: chain_of_def)
  show "t \<noteq> el g" "container g \<noteq> el g"
    using D(4) [OF t1] D(4) [OF D(2)] D(6) by (auto simp: outside_def)
  show "t \<noteq> container g" using t1 D(1,2) by (auto simp: proper_def)
qed

definition takes_mouse :: "grid \<Rightarrow> nat \<Rightarrow> bool" where
  "takes_mouse g t \<longleftrightarrow> (case dragCellHandleSelector (options g) of None \<Rightarrow> True | Some handle \<Rightarrow> handle t)"

lemma cell_delegates:
  assumes "grid_ok g" "t \<in> set (cellsArray g)" "takes_mouse g t"
  shows "delegates g (appendNamespace ''mouseover'') (chain_of g t) =
    (if dragCellHandleSelector (options g) = None then [t, container g] else [t])"
  using cell_chain [OF assms(1,2)] assms(3)
  by (auto simp: delegates_def lenient_def appendNamespace_def takes_mouse_def Let_def split: option.splits)

text \<open>
  A cell that does not match the handle selector is not reached at all: the event is named
  \<open>mouseover.gridstrap\<close>, which is not the \<open>mouseover\<close> the code means to be lenient about.
\<close>

lemma handle_blocks_mouseover:
  assumes "grid_ok g" "t \<in> set (cellsArray g)" "\<not> takes_mouse g t"
    and "\<And>handle. dragCellHandleSelector (options g) = Some handle \<Longrightarrow> \<not> handle (container g)"
  shows "delegates g (appendNamespace ''mouseover'') (chain_of g t) = []"
  using cell_chain [OF assms(1,2)] assms(3,4)
  by (auto simp: delegates_def lenient_def appendNamespace_def takes_mouse_def Let_def split: option.splits)

text \<open>A second call of the handler for the same event only notes the cell again.\<close>

lemma hover_again:
  assumes ok: "grid_ok g" and c: "c \<in> set (cellsArray g)" and t: "t \<in> set (cellsArray g)" "c \<noteq> t"
    and d: "getDraggingCell g = Some c"
    and lim: "rearrangeOnDrag (options g) \<Longrightarrow>
                \<not> limit_passes (dragMouseoverThrottle (options g)) (now m) (limitTime g)"
  obtains g' where "onMouseover B m (Some t) g = (None, g')" "same_cells g g'" "posSize g' = posSize g"
    "draggable (options g) \<Longrightarrow> lastTarget g' = Some t"
proof -
  have "chain_of (g\<lparr>lastTarget := None\<rparr>) c = chain_of g c"
    by (simp add: chain_of_def cong: option.case_cong place.case_cong)
  then have out: "t \<notin> set (chain_of (g\<lparr>lastTarget := None\<rparr>) c)"
    using closest_cell(2) [OF ok c t(1)] t(2) by simp
  have dr: "getDraggingCell (g\<lparr>lastTarget := None\<rparr>) = Some c"
    using geometry_cells(2) [OF same_geometry(4)] d by simp
  show thesis
    using that [of "snd (onMouseover B m (Some t) g)"] lim
    by (cases "rearrangeOnDrag (options g)")
      (auto simp: onMouseover_def js_defs dr out same_cells_def)
qed

lemma move_hovers:
  assumes ok: "grid_ok g" and c: "c \<in> set (cellsArray g)" and t: "t \<in> set (cellsArray g)" "c \<noteq> t"
    and B: "unprevented B c" and look: "only_drags c g0 g" "rests_on B c g0 m (Some t)"
    and d: "drags_only c g" "draggable (options g)" "downDiff g c = Some p" "posSize g c \<noteq> None"
    and handle: "takes_mouse g t" and ms: "0 \<le> dragMouseoverThrottle (options g)"
    and lim: "rearrangeOnDrag (options g) \<Longrightarrow>
                limit_passes (dragMouseoverThrottle (options g)) (now m) (limitTime g)"
  obtains g' where "moveDraggedCell B m c g = (None, g')" "grid_ok g'" "cellsArray g' = cellsArray g"
    "getCells g' = (if rearrangeOnDrag (options g) then moved (swapMode (options g)) c t (getCells g)
                    else getCells g)"
    "options g' = options g" "classes g' = classes g" "posSize g' c \<noteq> None" "lastTarget g' = Some t"
proof -
  define h where "h = drag_to B m c p g"
  have same: "same_cells g h" unfolding h_def by (rule drag_to_same)
  have h: "grid_ok h" "cellsArray h = cellsArray g" "options h = options g" "classes h = classes g"
    "getCells h = getCells g" "limitTime h = limitTime g"
    using ok same_cells_ok [OF same] same_cells_getCells [OF same] same
    by (simp_all add: same_cells_def h_def)
  have ch: "c \<in> set (cellsArray h)" "t \<in> set (cellsArray h)" using c t(1) h(2) by simp_all
  have dh: "drags_only c h" using d(1) h(2,4) by (simp add: drags_only_def hasClass_def)
  let ?chain = "chain_of h t"
  let ?m = "m\<lparr>target := ?chain\<rparr>"
  note over = hover_result [where B = B and m = ?m, OF h(1) ch t(2) drags_onlyD(1) [OF h(1) ch(1) dh]]
  obtain g1 where g1: "onMouseover B ?m (Some t) h = (None, g1)" "grid_ok g1" "cellsArray g1 = cellsArray h"
    "getCells g1 = (if rearrangeOnDrag (options h) then moved (swapMode (options h)) c t (getCells h)
                    else getCells h)"
    "options g1 = options h" "classes g1 = classes h" "posSize g1 c \<noteq> None" "lastTarget g1 = Some t"
    "home g1 = home h" "rearrangeOnDrag (options h) \<Longrightarrow> limitTime g1 = Some (now m)"
    by (rule over) (use d lim h in \<open>simp_all add: h_def\<close>)
  have c1: "c \<in> set (cellsArray g1)" "t \<in> set (cellsArray g1)" using ch g1(3) by simp_all
  have d1: "getDraggingCell g1 = Some c"
    by (rule drags_onlyD(1) [OF g1(2) c1(1)]) (use dh g1(3,6) in \<open>simp add: drags_only_def hasClass_def\<close>)
  obtain g2 where g2: "onMouseover B ?m (Some t) g1 = (None, g2)" "same_cells g1 g2" "posSize g2 = posSize g1"
    "draggable (options g1) \<Longrightarrow> lastTarget g2 = Some t"
    by (rule hover_again [OF g1(2) c1 t(2) d1, of ?m B])
      (use g1(5,10) ms h(3) in \<open>auto simp: limit_passes_def\<close>)
  have found: "getCellOfElement h ?chain = Some t" "getCellOfElement g1 ?chain = Some t"
  proof -
    show "getCellOfElement h ?chain = Some t" using getCell_managed(2) [OF h(1) ch(2)] .
    have "?chain = chain_of g1 t"
      using cell_chain(1) [OF h(1) ch(2)] cell_chain(1) [OF g1(2) c1(2)] g1(9) by (simp add: home_def)
    then show "getCellOfElement g1 ?chain = Some t" using getCell_managed(2) [OF g1(2) c1(2)] by simp
  qed
  have "getCellOfElement h (getNonDraggedElementFromPoint B m c h) = Some t"
    using look by (simp add: rests_on_def h_def)
  then have move: "moveDraggedCell B m c g =
      handleCellMouseEvent (appendNamespace ''mouseover'') False (onMouseover B) ?m h"
    by (simp add: moveDraggedCell_def place_result [OF ok c B d(3)] triggerMouseOver_def readThen_def
        flip: h_def)
  have th: "takes_mouse h t" using handle h(3) by (simp add: takes_mouse_def)
  let ?last = "if dragCellHandleSelector (options h) = None then g2 else g1"
  have "moveDraggedCell B m c g = (None, ?last)"
    using found g1(1) g2(1)
    by (simp add: move handleCellMouseEvent_def readThen_def cell_delegates [OF h(1) ch(2) th])
  moreover have "grid_ok g2" "cellsArray g2 = cellsArray g1" "getCells g2 = getCells g1"
    "options g2 = options g1" "classes g2 = classes g1" "lastTarget g2 = Some t"
    using same_cells_ok [OF g2(2)] g1(2,5) same_cells_getCells [OF g2(2)] g2(2,4) d(2) h(3)
    by (simp_all add: same_cells_def)
  ultimately show thesis using that [of ?last] g1 g2(3) h by simp
qed

text \<open>
  C36. Dragging one cell over another and releasing the mouse moves it to the index of the other, in
  both modes: the mouse goes down on a cell, moves to a point where another cell lies below the
  dragged one, which triggers \<open>mouseover\<close> on that cell, and is released anywhere. With
  \<open>rearrangeOnDrag\<close> the cell moves during the mouse move, if the last rearrangement is long enough
  ago, and without it at the release. The cells are those of before, and none is dragged any more.
  Nobody prevents the drag; the mouse goes down at a point where only the pressed cell lies; the
  other cell matches the handle selector, if there is one; no placeholders are used.
\<close>

theorem drag_and_drop:
  assumes "reachable g" "c \<in> set (getCells g)" "t \<in> set (getCells g)" "c \<noteq> t"
    "unprevented B c" "rests_on B c g m0 None" "rests_on B c g m1 (Some t)" "takes_mouse g t"
    "draggable (options g)" "\<not> (resizeHandleSelector (options g) \<and> on_handle m0)"
    "nonContiguousCellHtml (options g) = None" "\<not> hasClass g c Placeholder_Cell"
    "getDraggingCell g = None" "getResizedCell g = None" "posSize g c \<noteq> None"
    "0 \<le> dragMouseoverThrottle (options g)"
    "rearrangeOnDrag (options g) \<longrightarrow>
       limit_passes (dragMouseoverThrottle (options g)) (now m1) (limitTime g)"
  shows "\<exists>g1 g2 g3. onMousedown B m0 (Some c) g = (None, g1) \<and>
           onMousemove B m1 g1 = Some (None, g2) \<and> onMouseup B m2 g2 = Some (None, g3) \<and>
           getCells g3 = (if swapMode (options g) then map (exchange c t) (getCells g)
                          else reinsert c (index_in t (getCells g)) (getCells g)) \<and>
           getDraggingCell g3 = None"
proof -
  have ok: "grid_ok g" using reachable_ok [OF assms(1)] .
  have c: "c \<in> set (cellsArray g)" and t: "t \<in> set (cellsArray g)"
    using assms(2,3) unfolding set_getCells [OF ok] .
  obtain g1 where g1: "onMousedown B m0 (Some c) g = (None, g1)" "only_drags c g g1"
    "downDiff g1 c = Some (pageX m0 - fst (page_offset B g c), pageY m0 - snd (page_offset B g c))"
    "posSize g1 = posSize g" "limitTime g1 = limitTime g"
    by (rule mousedown_drags [OF ok c assms(5,6,9,10,12-14)])
  note f1 = only_drags_facts [OF g1(2)]
  note ok1 = f1(2) [OF ok]
  have c1: "c \<in> set (cellsArray g1)" and t1: "t \<in> set (cellsArray g1)" using c t f1(3) by simp_all
  note o1 = drags_only_start [OF ok assms(13,14) f1(1)]
  have p1: "draggable (options g1)" "posSize g1 c \<noteq> None" "takes_mouse g1 t"
    "0 \<le> dragMouseoverThrottle (options g1)"
    "rearrangeOnDrag (options g1) \<Longrightarrow>
       limit_passes (dragMouseoverThrottle (options g1)) (now m1) (limitTime g1)"
    using assms(8,9,15-17) f1(4) g1(4,5) by (simp_all add: takes_mouse_def)
  obtain g2 where g2: "moveDraggedCell B m1 c g1 = (None, g2)" "grid_ok g2" "cellsArray g2 = cellsArray g1"
    "getCells g2 = (if rearrangeOnDrag (options g1) then moved (swapMode (options g1)) c t (getCells g1)
                    else getCells g1)"
    "options g2 = options g1" "classes g2 = classes g1" "posSize g2 c \<noteq> None" "lastTarget g2 = Some t"
    by (rule move_hovers [OF ok1 c1 t1 assms(4,5) g1(2) assms(7) o1 p1(1) g1(3) p1(2-5)])
  have p2: "draggable (options g2)" "nonContiguousCellHtml (options g2) = None"
    using assms(9,11) f1(4) g2(5) by simp_all
  have move: "onMousemove B m1 g1 = Some (None, g2)"
    using drags_onlyD(1,2) [OF ok1 c1 o1] g2(1) p2(2) by (simp add: onMousemove_def)
  have c2: "c \<in> set (cellsArray g2)" and t2: "t \<in> set (cellsArray g2)" using c1 t1 g2(3) by simp_all
  have "drags_only c g2" using o1 g2(3,6) by (simp add: drags_only_def hasClass_def)
  note d2 = drags_onlyD [OF g2(2) c2 this]
  obtain g3 where g3: "onMouseup B m2 g2 = Some (None, g3)" "grid_ok g3"
    "getCells g3 = (if rearrangeOnDrag (options g2) then getCells g2
                    else moved (swapMode (options g2)) c t (getCells g2))" "getDraggingCell g3 = None"
    by (rule drop_result [OF g2(2) c2 t2 d2(1) p2(1) g2(7,8) d2(2) p2(2) d2(3)])
  have "getCells g3 = moved (swapMode (options g)) c t (getCells g)"
    using g3(3) g2(4,5) f1(4,5) by simp
  then show ?thesis using g1(1) move g3(1,4) assms(4) by (simp add: moved_def)
qed

lemma sample_posSize:
  assumes "c \<in> {1, 2, 3}"
  shows "posSize (sample_grid opts) c \<noteq> None"
proof -
  have one: "posSize (initCellsHiddenCopyAndSetAbsolutePosition flat_browser e g) =
      (posSize g)(nextId g := None, e := Some (box_of flat_browser g e))" for e g
    by (simp add: initCellsHiddenCopyAndSetAbsolutePosition_def Let_def put_element_def
        create_element_def addClass_def detach_element_def setCellAbsolutePositionAndSize_def
        set_css_def flat_browser_def)
  have n: "nextId (initCellsHiddenCopyAndSetAbsolutePosition flat_browser e g) = Suc (nextId g)" for e g
    by (simp add: initCellsHiddenCopyAndSetAbsolutePosition_def Let_def put_element_def
        create_element_def addClass_def detach_element_def setCellAbsolutePositionAndSize_def
        set_css_def)
  show ?thesis
    using assms
    by (auto simp: sample_grid_def gridstrap_def initOriginalCells_def one n)
      (auto simp: grid_page_def setup_grid_def Let_def create_element_def put_element_def one n)
qed

lemma sample_limit: "limitTime (sample_grid opts) = None"
proof -
  have "limitTime (initCellsHiddenCopyAndSetAbsolutePosition B e g) = limitTime g" for B e g
    by (simp add: initCellsHiddenCopyAndSetAbsolutePosition_def Let_def put_element_def
        create_element_def addClass_def detach_element_def setCellAbsolutePositionAndSize_def
        set_css_def)
  then have "limitTime (fold (initCellsHiddenCopyAndSetAbsolutePosition B) es g) = limitTime g"
    for B es g by (induction es arbitrary: g) simp_all
  then show ?thesis
    by (simp add: sample_grid_def gridstrap_def initOriginalCells_def setup_grid_def Let_def
        create_element_def put_element_def) (simp add: grid_page_def)
qed

text \<open>A browser in which the first cell lies under the points with a negative coordinate.\<close>

definition two_cell_browser :: browser where
  "two_cell_browser = flat_browser\<lparr>element_at := (\<lambda>g e p. if fst p < 0 then chain_of g 1 else [])\<rparr>"

theorem drag_and_drop_witness:
  "\<exists>g1 g2 g3. onMousedown two_cell_browser (mouse_at 3 4) (Some 3) (sample_grid defaultOptions) = (None, g1) \<and>
     onMousemove two_cell_browser (mouse_at (-5) 4\<lparr>now := 1000\<rparr>) g1 = Some (None, g2) \<and>
     onMouseup two_cell_browser (mouse_at 0 0) g2 = Some (None, g3) \<and> getCells g3 = [3, 1, 2]"
proof -
  let ?g = "sample_grid defaultOptions" and ?B = two_cell_browser and ?m = "mouse_at (-5) 4\<lparr>now := 1000\<rparr>"
  have ok: "grid_ok ?g" using reachable_ok [OF sample_reachable] .
  have one: "1 \<in> set (cellsArray ?g)" unfolding set_getCells [OF ok, symmetric] by (simp add: sample_cells)
  have "unprevented ?B 3" by (simp add: unprevented_def two_cell_browser_def flat_browser_def)
  moreover have "rests_on ?B 3 ?g (mouse_at 3 4) None"
    by (simp add: rests_on_def two_cell_browser_def mouse_at_def getNonDraggedElementFromPoint_def
        getCellOfElement_def getCellAndInternalIndex_def)
  moreover have "rests_on ?B 3 ?g ?m (Some 1)"
    unfolding rests_on_def
  proof (intro allI impI)
    fix g' assume "only_drags 3 ?g g'"
    note f = only_drags_facts [OF this]
    have "getCellOfElement g' (chain_of g' 1) = Some 1"
      by (rule getCell_managed(2) [OF f(2) [OF ok]]) (use one f(3) in simp)
    then show "getCellOfElement g' (getNonDraggedElementFromPoint ?B ?m 3 g') = Some 1"
      by (simp add: getNonDraggedElementFromPoint_def two_cell_browser_def mouse_at_def)
  qed
  ultimately show ?thesis
    using drag_and_drop [OF sample_reachable, of 3 defaultOptions 1 ?B "mouse_at 3 4" ?m "mouse_at 0 0"]
      sample_idle [where opts = defaultOptions] sample_posSize [of 3 defaultOptions]
      sample_limit [of defaultOptions]
    by (auto simp: sample_cells mouse_at_def sample_options defaultOptions_def limit_passes_def
        takes_mouse_def reinsert_def)
qed

text \<open>The padding of the release keeps the class of the dragged cell.\<close>

lemma release_throws:
  assumes ok: "grid_ok g" and c: "c \<in> set (cellsArray g)" and d: "getDraggingCell g = Some c"
    and opt: "draggable (options g)" "\<not> rearrangeOnDrag (options g)"
      "nonContiguousCellHtml (options g) = Some html" "autoPadNonContiguousCells (options g)"
    and r: "\<not> resizeHandleSelector (options g) \<or> getResizedCell g = None"
    and pl: "\<not> hasClass g c Placeholder_Cell"
    and up: "onMouseup B m g = Some (r, g')"
  shows "r \<noteq> None \<and> grid_ok g' \<and> hasClass g' c Drag_Cell"
proof -
  have c0: "hasClass g c Drag_Cell" "c \<in> set (getCells g)" "c < nextId g"
    using d c grid_okD(3) [OF ok, of c In_Container] unfolding dragging_cell [OF ok]
    by (auto simp: find_Some_iff set_getCells [OF ok] grid_okD(8) [OF ok])
  have u: "onMouseup B m g = (case updateNonContiguousCellsForDrag B html c m g of
       None \<Rightarrow> None
     | Some (Some e, g1) \<Rightarrow> Some (Some e, g1)
     | Some (None, g1) \<Rightarrow> Some (throw TypeError g1))"
    using opt d r by (auto simp: onMouseup_def split: bool.split)
  obtain x g1 where x: "updateNonContiguousCellsForDrag B html c m g = Some (x, g1)"
    using up u by (auto split: option.splits)
  have rx: "r \<noteq> None" "g' = g1"
    using up u x by (auto simp: throw_def split: option.splits)
  have "hasClass g1 c Drag_Cell"
  proof -
    obtain y g2 where y: "appendOrRemoveNonContiguousCellsWhile B (row_condition B (furthest B g c))
        html g = Some (y, g2)"
      using x by (auto simp: updateNonContiguousCellsForDrag_def split: option.splits)
    obtain k g3 where k: "padded g k g3" "grid_ok g2" "only_removed g3 g2"
      using appendOrRemove_safe [OF y ok] by blast
    have c3: "classes g3 c = classes g c" "c \<in> set (getCells g3)"
      using k(1) c0 by (auto simp: padded_def)
    then have "c \<in> set (getCells g2)"
      using k(3) pl by (auto simp: only_removed_def hasClass_def)
    then have c2: "hasClass g2 c Drag_Cell"
      using k(3) c3 c0(1) by (auto simp: only_removed_def hasClass_def)
    show ?thesis
    proof (cases y)
      case (Inl e)
      then show ?thesis using x y c2 by (simp add: updateNonContiguousCellsForDrag_def)
    next
      case (Inr ch)
      then have "g1 = snd (onlyIf ch (moveDraggedCell B m c) g2)"
        using x y by (simp add: updateNonContiguousCellsForDrag_def)
      moreover have "steady (cellsArray g2) (classes g2) (onlyIf ch (moveDraggedCell B m c))"
        by (rule keeps_onlyIf [OF steady_moveDraggedCell])
      ultimately have "classes g1 = classes g2"
        using k(2) by (auto simp: keeps_def holds_classes_def holds_def)
      then show ?thesis using c2 by (simp add: hasClass_def)
    qed
  qed
  then show ?thesis using rx updateNonContiguous_ok [OF x ok] by simp
qed

text \<open>
  C38. Without \<open>rearrangeOnDrag\<close> and with placeholder cells a drag cannot be ended: the release calls
  a method that does not exist, so that, whatever the padding before the call has done, it throws,
  and the cell keeps the class of a dragged cell.
\<close>

theorem release_never_ends_drag:
  assumes "grid_ok g" "getDraggingCell g = Some c" "\<not> hasClass g c Placeholder_Cell"
    "draggable (options g)" "\<not> rearrangeOnDrag (options g)"
    "nonContiguousCellHtml (options g) \<noteq> None" "autoPadNonContiguousCells (options g)"
    "getResizedCell g = None" "onMouseup B m g = Some (r, g')"
  shows "r \<noteq> None \<and> hasClass g' c Drag_Cell"
proof -
  obtain html where "nonContiguousCellHtml (options g) = Some html" using assms(6) by blast
  moreover have "c \<in> set (cellsArray g)"
    using assms(2) grid_okD(8) [OF assms(1)] unfolding dragging_cell [OF assms(1)]
    by (auto simp: find_Some_iff)
  ultimately show ?thesis
    using release_throws [OF assms(1) _ assms(2,4,5) _ assms(7) _ assms(3,9)] assms(8) by blast
qed

text \<open>In a browser without heights there is never a row too few or too many.\<close>

lemma flat_padding:
  assumes "hiddenCells g \<noteq> []"
  shows "updateNonContiguousCellsForDrag flat_browser html c m g = Some (None, g)"
proof -
  have f: "furthest flat_browser g c = \<lparr> pleft = 0, ptop = 0, pwidth = 0, pheight = 0 \<rparr>"
  proof -
    have "fold (\<lambda>h f. if \<not> is_placeholder g h \<and>
            compare_corner (box_of flat_browser g h) > compare_corner f
            then box_of flat_browser g h else f) hs \<lparr> pleft = 0, ptop = 0, pwidth = 0, pheight = 0 \<rparr> =
          \<lparr> pleft = 0, ptop = 0, pwidth = 0, pheight = 0 \<rparr>" for hs
      by (induction hs) (simp_all add: flat_browser_def)
    then show ?thesis by (simp add: furthest_def) (simp add: flat_browser_def)
  qed
  have P: "row_condition flat_browser (furthest flat_browser g c) g (hiddenCells g) b = Inr False" for b
    using assms by (simp add: row_condition_def f Let_def) (simp add: flat_browser_def)
  then have "appendWhile flat_browser (row_condition flat_browser (furthest flat_browser g c)) html
      (hiddenCells g) False g = Some (Inr (hiddenCells g, False), g)"
    by (subst appendWhile.simps) simp
  then show ?thesis
    using removeWhile_stops [of "row_condition flat_browser (furthest flat_browser g c)" g
        "hiddenCells g" flat_browser False] P
    by (simp add: updateNonContiguousCellsForDrag_def appendOrRemoveNonContiguousCellsWhile_def
        onlyIf_def skip_def)
qed

definition drop_options :: grid_options where
  "drop_options = placeholder_options\<lparr>rearrangeOnDrag := False\<rparr>"

theorem release_never_ends_drag_witness:
  "\<exists>g1 r g2. onMousedown flat_browser (mouse_at 3 4) (Some 2) (sample_grid drop_options) = (None, g1) \<and>
     onMouseup flat_browser (mouse_at 5 5) g1 = Some (r, g2) \<and> r \<noteq> None \<and> hasClass g2 2 Drag_Cell"
proof -
  let ?g = "sample_grid drop_options"
  have ok: "grid_ok ?g" using reachable_ok [OF sample_reachable] .
  have c: "2 \<in> set (cellsArray ?g)" unfolding set_getCells [OF ok, symmetric] by (simp add: sample_cells)
  have opt: "draggable (options ?g)" "\<not> (resizeHandleSelector (options ?g) \<and> on_handle (mouse_at 3 4))"
    by (simp_all add: sample_options drop_options_def placeholder_options_def defaultOptions_def)
  obtain g1 where g1: "onMousedown flat_browser (mouse_at 3 4) (Some 2) ?g = (None, g1)"
    "only_drags 2 ?g g1"
    by (rule mousedown_drags [OF ok c flat_drag(1,3) opt]) (use sample_idle [where opts = drop_options] in simp_all)
  note f1 = only_drags_facts [OF g1(2)]
  have ok1: "grid_ok g1" using f1(2) [OF ok] .
  note st = start_drag [OF ok c sample_idle(1,2)]
  have d: "getDraggingCell g1 = Some 2" "getResizedCell g1 = None"
    using geometry_cells(1,2) [OF f1(1)] st(1,2) by simp_all
  have o1: "options g1 = drop_options" using f1(4) by (simp add: sample_options)
  have "length (hiddenCells g1) = 3"
    using length_getCells [OF ok1] f1(5) by (simp add: sample_cells)
  then have "hiddenCells g1 \<noteq> []" by auto
  then have up: "onMouseup flat_browser (mouse_at 5 5) g1 = Some (Some TypeError, g1)"
    using d o1 flat_padding [of g1] by (simp add: onMouseup_def drop_options_def
        placeholder_options_def defaultOptions_def throw_def)
  have "\<not> hasClass g1 2 Placeholder_Cell"
    using geometry_cells(5) [OF f1(1)] sample_idle(3) [of 2 drop_options]
    by (simp add: hasClass_def addClass_def)
  then show ?thesis
    using release_never_ends_drag [OF ok1 d(1) _ _ _ _ _ d(2) up] g1(1) up
    by (auto simp: o1 drop_options_def placeholder_options_def defaultOptions_def)
qed

text \<open>The release of a resized cell reads variables that are not declared, unless \<open>resizeOnDrag\<close>.\<close>

lemma resize_release_throws:
  assumes "draggable (options g)" "resizeHandleSelector (options g)" "\<not> resizeOnDrag (options g)"
    "getResizedCell g = Some r"
  shows "onMouseup B m g =
           Some (Some (JsError ''originalMouseDownCellPosition is not defined''), g)"
  using assms by (simp add: onMouseup_def endResize_def js_defs)

text \<open>A resize cannot be ended at all when cells are not draggable.\<close>

lemma resize_never_ends: "\<not> draggable (options g) \<Longrightarrow> onMouseup B m g = Some (None, g)"
  by (simp add: onMouseup_def)

end
