(* ===== verification/Grid_Linked.thy ===== *)
theory Grid_Linked
  imports Grid_Events
begin

text \<open>
  Two grids of a page, the first linked to the second: \<open>setAdditionalGridstrapDragTarget\<close> and the
  branches of \<open>MoveCell\<close>, \<open>moveCell\<close>, \<open>MoveDraggedCell\<close> and \<open>onMouseover\<close> that take a cell of
  one grid to another.

  In the code both grids share the document. Here each has its own record, and an element belongs
  to the grid below whose element it is; what the document shares is the numbering of new elements
  and \<open>Utils.limit\<close>, which \<open>share\<close> carries over. An element that moves takes its classes, style,
  content and data along (\<open>hand_over\<close>). The layout of a grid may depend on the other grid, so the
  browser of a grid is a function of the other one. Grids are not nested, the second grid is not
  linked back, and a link of the first grid to itself has no effect in the model.
\<close>

section \<open>Two grids\<close>

record linked =
  this_grid :: grid
  that_grid :: grid
  additional :: "nat list option"  \<comment> \<open>\<open>AdditionalGridstrapDragTargetSelector\<close>: what it selects\<close>
  bound :: "nat list"  \<comment> \<open>the elements on which the handler of \<open>mouseover\<close> for this grid is bound\<close>

definition share :: "grid \<Rightarrow> grid \<Rightarrow> grid" where
  "share g g' = g'\<lparr>nextId := nextId g, limitTime := limitTime g\<rparr>"

definition in_this :: "(grid \<Rightarrow> browser) \<Rightarrow> (browser \<Rightarrow> grid stmt) \<Rightarrow> linked stmt" where
  "in_this L f s =
     (case f (L (that_grid s)) (this_grid s) of
        (e, g) \<Rightarrow> (e, s\<lparr>this_grid := g, that_grid := share g (that_grid s)\<rparr>))"

definition in_that :: "(grid \<Rightarrow> browser) \<Rightarrow> (browser \<Rightarrow> grid stmt) \<Rightarrow> linked stmt" where
  "in_that L f s =
     (case f (L (this_grid s)) (that_grid s) of
        (e, g) \<Rightarrow> (e, s\<lparr>this_grid := share g (this_grid s), that_grid := g\<rparr>))"

fun in_order :: "'s stmt list \<Rightarrow> 's stmt" where
  "in_order [] = skip"
| "in_order (a # as) = andThen a (in_order as)"

text \<open>
  Two grids created one after the other, on two elements of a page; both then know all elements
  that have a grid.
\<close>

definition two_grids ::
  "(grid \<Rightarrow> browser) \<Rightarrow> grid_options \<Rightarrow> grid_options \<Rightarrow> grid \<Rightarrow> grid \<Rightarrow> linked" where
  "two_grids L optsA optsB a b =
     (let a1 = gridstrap (L b) optsA a;
          b1 = gridstrap (L a1) optsB ((share a1 b)\<lparr>gridstraps := gridstraps a1\<rparr>)
      in \<lparr> this_grid = (share b1 a1)\<lparr>gridstraps := gridstraps b1\<rparr>, that_grid = b1,
           additional = None, bound = [] \<rparr>)"

section \<open>Elements of the page\<close>

definition in_grid :: "grid \<Rightarrow> nat \<Rightarrow> bool" where
  "in_grid g e \<longleftrightarrow> parent_of (tree g) e \<noteq> None"

definition page_chain :: "linked \<Rightarrow> nat \<Rightarrow> nat list" where
  "page_chain s e =
     (if in_grid (this_grid s) e then chain_of (this_grid s) e else chain_of (that_grid s) e)"

definition page_box :: "(grid \<Rightarrow> browser) \<Rightarrow> linked \<Rightarrow> nat \<Rightarrow> position_size" where
  "page_box L s e =
     (if in_grid (this_grid s) e then box_of (L (that_grid s)) (this_grid s) e
      else box_of (L (this_grid s)) (that_grid s) e)"

definition page_hidden :: "linked \<Rightarrow> nat \<Rightarrow> nat option" where
  "page_hidden s e =
     (if in_grid (this_grid s) e then hiddenOf (this_grid s) e else hiddenOf (that_grid s) e)"

definition hand_over :: "nat \<Rightarrow> grid \<Rightarrow> grid \<Rightarrow> grid" where
  "hand_over e g g' =
     g'\<lparr>classes := (classes g')(e := classes g e), style := (style g')(e := style g e),
        inner := (inner g')(e := inner g e), hiddenOf := (hiddenOf g')(e := hiddenOf g e),
        visibleOf := (visibleOf g')(e := visibleOf g e), posSize := (posSize g')(e := posSize g e),
        downDiff := (downDiff g')(e := downDiff g e), downSize := (downSize g')(e := downSize g e)\<rparr>"

text \<open>
  The two lists the moves of \<open>Utils\<close> work on are here the children of the two grids' elements. The
  elements among \<open>es\<close> that have changed sides take their data along.
\<close>

definition two_lists :: "linked \<Rightarrow> siblings" where
  "two_lists s = (\<lambda>p. case p of In_Element \<Rightarrow> tree (this_grid s) In_Element
                        | In_Container \<Rightarrow> tree (that_grid s) In_Element)"

definition arrivals :: "nat list \<Rightarrow> nat list \<Rightarrow> nat list \<Rightarrow> nat list" where
  "arrivals es old new = filter (\<lambda>e. e \<in> set new \<and> e \<notin> set old) es"

definition rearrange :: "nat list \<Rightarrow> (siblings \<Rightarrow> siblings) \<Rightarrow> linked \<Rightarrow> linked" where
  "rearrange es f s =
     (let a = this_grid s; b = that_grid s; d = f (two_lists s) in
      s\<lparr>this_grid := fold (\<lambda>e. hand_over e b) (arrivals es (tree a In_Element) (d In_Element))
                       (a\<lparr>tree := (tree a)(In_Element := d In_Element)\<rparr>),
        that_grid := fold (\<lambda>e. hand_over e a) (arrivals es (tree b In_Element) (d In_Container))
                       (b\<lparr>tree := (tree b)(In_Element := d In_Container)\<rparr>)\<rparr>)"

section \<open>Moving a cell to the other grid\<close>

definition detach_from_this :: "(grid \<Rightarrow> browser) \<Rightarrow> nat \<Rightarrow> linked stmt" where
  "detach_from_this L e = readThen (\<lambda>s. page_chain s e) (\<lambda>chain. in_this L (\<lambda>B. detachCell B chain))"

definition detach_from_that :: "(grid \<Rightarrow> browser) \<Rightarrow> nat \<Rightarrow> linked stmt" where
  "detach_from_that L e = readThen (\<lambda>s. page_chain s e) (\<lambda>chain. in_that L (\<lambda>B. detachCell B chain))"

definition swapAcross :: "(grid \<Rightarrow> browser) \<Rightarrow> nat \<Rightarrow> nat option \<Rightarrow> linked stmt" where
  "swapAcross L moving onto =
     (case onto of
        None \<Rightarrow> throw TypeError
      | Some t \<Rightarrow>
          readThen (\<lambda>s. page_box L s t) (\<lambda>preTarget.
          readThen (\<lambda>s. page_box L s moving) (\<lambda>preMoving.
            andThen (detach_from_that L t)
             (andThen (detach_from_this L moving)
               (readThen (\<lambda>s. hasClass (this_grid s) moving Drag_Cell) (\<lambda>wasDragging.
                 in_order
                  [onlyIf wasDragging (in_this L (\<lambda>B. upd (removeClass moving Drag_Cell))),
                   upd (rearrange [moving, t] (swapJQueryElements moving t)),
                   in_that L (\<lambda>B. attachCell B (Some moving)),
                   in_this L (\<lambda>B. attachCell B (Some t)),
                   in_that L (\<lambda>B. upd (clearAbsoluteCSS moving)),
                   in_this L (\<lambda>B. upd (clearAbsoluteCSS t)),
                   in_that L (\<lambda>B. upd (setCellAbsolutePositionAndSize B moving preMoving)),
                   in_this L (\<lambda>B. upd (setCellAbsolutePositionAndSize B t preTarget)),
                   in_that L (\<lambda>B. upd (setCellAbsolutePositionAndSize B moving preTarget)),
                   in_this L (\<lambda>B. upd (setCellAbsolutePositionAndSize B t preMoving)),
                   onlyIf wasDragging (in_that L (\<lambda>B. upd (addClass moving Drag_Cell)))]))))))"

definition insertAcross :: "(grid \<Rightarrow> browser) \<Rightarrow> nat \<Rightarrow> nat option \<Rightarrow> linked stmt" where
  "insertAcross L moving hiddenTarget =
     readThen (\<lambda>s. page_box L s moving) (\<lambda>preMoving.
       andThen (detach_from_this L moving)
        (readThen (\<lambda>s. hasClass (this_grid s) moving Drag_Cell) (\<lambda>wasDragging.
          in_order
           [onlyIf wasDragging (in_this L (\<lambda>B. upd (removeClass moving Drag_Cell))),
            (case hiddenTarget of
               None \<Rightarrow> throw TypeError
             | Some h \<Rightarrow> upd (rearrange [moving] (detachAndInsertInPlace moving h))),
            in_that L (\<lambda>B. attachCell B (Some moving)),
            in_that L (\<lambda>B. upd (removeClass moving Visible_Cell)),
            in_that L (\<lambda>B. upd (setCellAbsolutePositionAndSize B moving preMoving)),
            in_that L (\<lambda>B. upd (addClass moving Visible_Cell)),
            onlyIf wasDragging (in_that L (\<lambda>B. upd (addClass moving Drag_Cell)))])))"

definition is_linked :: "linked \<Rightarrow> bool" where
  "is_linked s =
     (case additional s of None \<Rightarrow> False | Some es \<Rightarrow> el (that_grid s) \<in> set es)"

text \<open>\<open>MoveCell\<close> with the second grid as \<open>gridstrapContext\<close>.\<close>

definition moveCellToGrid :: "(grid \<Rightarrow> browser) \<Rightarrow> nat \<Rightarrow> nat option \<Rightarrow> linked stmt" where
  "moveCellToGrid L moving onto =
     readThen (\<lambda>s. page_hidden s moving) (\<lambda>hiddenDragged.
     readThen (\<lambda>s. Option.bind onto (page_hidden s)) (\<lambda>hiddenTarget.
       case hiddenDragged of
         None \<Rightarrow> throw TypeError
       | Some d \<Rightarrow>
           if hiddenTarget = Some d then skip
           else readThen (\<lambda>s. (is_linked s, swapMode (options (this_grid s)))) (\<lambda>(linked, swap).
             onlyIf linked
              (in_order
                [if swap then swapAcross L moving onto else insertAcross L moving hiddenTarget,
                 in_that L updateVisibleCellCoordinates,
                 in_this L updateVisibleCellCoordinates]))))"

text \<open>\<open>moveCell\<close> with a target grid; the index is looked up in the grid it is called on.\<close>

definition moveIndexToGrid :: "(grid \<Rightarrow> browser) \<Rightarrow> nat list \<Rightarrow> int \<Rightarrow> linked stmt" where
  "moveIndexToGrid L chain toIndex =
     readThen (\<lambda>s. getCells (this_grid s)) (\<lambda>existing.
     readThen (\<lambda>s. getCellAndInternalIndex (this_grid s) chain) (\<lambda>cellNIndex.
       case cellNIndex of
         None \<Rightarrow> throw TypeError
       | Some (i, c) \<Rightarrow> moveCellToGrid L c (eq_at existing toIndex)))"

definition moveCellAcross ::
  "(grid \<Rightarrow> browser) \<Rightarrow> nat list \<Rightarrow> int \<Rightarrow> linked \<Rightarrow> (js_error option \<times> linked) option" where
  "moveCellAcross L chain toIndex s =
     (case nonContiguousCellHtml (options (this_grid s)) of
        Some html \<Rightarrow>
          if toIndex > int (length (getCells (this_grid s)))
             \<and> autoPadNonContiguousCells (options (this_grid s))
          then (case appendOrRemoveNonContiguousCellsWhile (L (that_grid s))
                       (\<lambda>g hs appending. Inr (appending \<and> int (length hs) \<le> toIndex))
                       html (this_grid s) of
                  None \<Rightarrow> None
                | Some (r, g) \<Rightarrow>
                    (let s1 = s\<lparr>this_grid := g, that_grid := share g (that_grid s)\<rparr> in
                     (case r of Inl e \<Rightarrow> Some (Some e, s1)
                      | Inr changed \<Rightarrow> Some (moveIndexToGrid L chain toIndex s1))))
          else Some (moveIndexToGrid L chain toIndex s)
      | None \<Rightarrow> Some (moveIndexToGrid L chain toIndex s))"

section \<open>Linking\<close>

text \<open>
  The argument is what the selector selects, \<open>None\<close> when it is falsy. An element without a grid
  has no \<open>DATA_GRIDSTRAP\<close>, and reading its options throws.
\<close>

definition unbind :: "nat \<Rightarrow> linked stmt" where
  "unbind e =
     readThen (\<lambda>s. e \<in> set (gridstraps (this_grid s))) (\<lambda>has_grid.
       if has_grid then upd (\<lambda>s. s\<lparr>bound := removeAll e (bound s)\<rparr>) else throw TypeError)"

definition bind_to :: "nat \<Rightarrow> linked stmt" where
  "bind_to e =
     readThen (\<lambda>s. e \<in> set (gridstraps (this_grid s))) (\<lambda>has_grid.
       if has_grid then upd (\<lambda>s. s\<lparr>bound := bound s @ [e]\<rparr>) else throw TypeError)"

definition setAdditionalGridstrapDragTarget :: "nat list option \<Rightarrow> linked stmt" where
  "setAdditionalGridstrapDragTarget element =
     andThen (readThen additional (\<lambda>old. case old of None \<Rightarrow> skip | Some es \<Rightarrow> forEach es unbind))
       (andThen (upd (\<lambda>s. s\<lparr>additional := element\<rparr>))
         (case element of None \<Rightarrow> skip | Some es \<Rightarrow> forEach es bind_to))"

section \<open>Dragging over the other grid\<close>

text \<open>
  \<open>MoveDraggedCell\<close> up to the question what is under the mouse. The \<open>celldrag\<close> event is triggered
  on the element of the first grid, whichever grid the cell is in.
\<close>

definition page_absolute ::
  "(grid \<Rightarrow> browser) \<Rightarrow> mouse_event \<Rightarrow> nat \<Rightarrow> linked \<Rightarrow> (rat \<times> rat) option" where
  "page_absolute L mouseEvent c s =
     (let a = this_grid s; b = that_grid s in
      if in_grid a c then getAbsoluteOffset (L b) mouseEvent c (downDiff a c) a
      else getAbsoluteOffset (L a) mouseEvent c (downDiff b c) b)"

definition set_position :: "nat \<Rightarrow> rat \<Rightarrow> rat \<Rightarrow> grid stmt" where
  "set_position c x y = upd (\<lambda>g. set_css c Css_top y (set_css c Css_left x g))"

definition placeAcross ::
  "(grid \<Rightarrow> browser) \<Rightarrow> mouse_event \<Rightarrow> nat \<Rightarrow> linked stmt \<Rightarrow> linked stmt" where
  "placeAcross L mouseEvent c look =
     readThen (page_absolute L mouseEvent c) (\<lambda>offset.
       case offset of
         None \<Rightarrow> throw TypeError
       | Some (x, y) \<Rightarrow>
           readThen (\<lambda>s. (prevented (L (that_grid s)) (Cell_Drag x y c), in_grid (this_grid s) c))
             (\<lambda>(stop, here).
               if stop then skip
               else andThen (if here then in_this L (\<lambda>B. set_position c x y)
                             else in_that L (\<lambda>B. set_position c x y)) look))"

text \<open>\<open>onMouseover\<close> of the first grid with the second one as \<open>gridstrapContext\<close>.\<close>

definition onMouseoverAcross :: "(grid \<Rightarrow> browser) \<Rightarrow> mouse_event \<Rightarrow> nat option \<Rightarrow> linked stmt" where
  "onMouseoverAcross L mouseEvent cell =
     andThen (in_this L (\<lambda>B. upd (\<lambda>g. g\<lparr>lastTarget := None\<rparr>)))
       (readThen (\<lambda>s. if draggable (options (that_grid s)) then getDraggingCell (this_grid s)
                      else None) (\<lambda>draggedCell.
          case (draggedCell, cell) of
            (Some d, Some c) \<Rightarrow>
              readThen (\<lambda>s. c \<in> set (page_chain s d)) (\<lambda>inside.
                if inside then skip
                else andThen (in_this L (\<lambda>B. upd (\<lambda>g. g\<lparr>lastTarget := Some c\<rparr>)))
                  (readThen (\<lambda>s. limit_passes (dragMouseoverThrottle (options (this_grid s)))
                                   (now mouseEvent) (limitTime (this_grid s))) (\<lambda>passes.
                     onlyIf passes
                       (andThen (readThen (\<lambda>s. rearrangeOnDrag (options (that_grid s))) (\<lambda>moves.
                                   onlyIf moves
                                     (andThen (moveCellToGrid L d (Some c))
                                              (placeAcross L mouseEvent d skip))))
                                (in_this L (\<lambda>B. upd (\<lambda>g. g\<lparr>limitTime := Some (now mouseEvent)\<rparr>)))))))
          | _ \<Rightarrow> skip))"

text \<open>
  A \<open>mouseover\<close> in the second grid: for every element the selector matches, the handler of the
  second grid runs and then the one the first grid has bound there. \<open>MoveDraggedCell\<close> triggers it
  on a cell when the mouse is over none of the first grid.
\<close>

definition mouseoverOn ::
  "(grid \<Rightarrow> browser) \<Rightarrow> mouse_event \<Rightarrow> nat list \<Rightarrow> (linked \<Rightarrow> nat option) \<Rightarrow> linked stmt" where
  "mouseoverOn L mouseEvent chain cellThere =
     readThen (\<lambda>s. delegates (that_grid s) (appendNamespace ''mouseover'') chain) (\<lambda>ds.
     readThen (\<lambda>s. filter (\<lambda>e. e = el (that_grid s)) (bound s)) (\<lambda>bs.
       forEach ds (\<lambda>d.
         andThen (readThen cellThere (\<lambda>cell. in_that L (\<lambda>B. onMouseover B mouseEvent cell)))
           (forEach bs (\<lambda>b. readThen cellThere (onMouseoverAcross L mouseEvent))))))"

definition page_cell :: "linked \<Rightarrow> nat \<Rightarrow> nat option" where
  "page_cell s e = getCellOfElement (that_grid s) (page_chain s e)"

definition mouseoverThat :: "(grid \<Rightarrow> browser) \<Rightarrow> mouse_event \<Rightarrow> nat \<Rightarrow> linked stmt" where
  "mouseoverThat L mouseEvent c =
     readThen (\<lambda>s. chain_of (that_grid s) c) (\<lambda>chain.
       mouseoverOn L mouseEvent chain (\<lambda>s. page_cell s c))"

definition lookAcross :: "(grid \<Rightarrow> browser) \<Rightarrow> mouse_event \<Rightarrow> nat \<Rightarrow> linked stmt" where
  "lookAcross L mouseEvent c =
     readThen (\<lambda>s. getNonDraggedElementFromPoint (L (that_grid s)) mouseEvent c (this_grid s))
       (\<lambda>overlappedElement.
         readThen (\<lambda>s. getCellOfElement (this_grid s) overlappedElement) (\<lambda>overlappedCell.
           if overlappedCell \<noteq> None then in_this L (\<lambda>B. triggerMouseOver B mouseEvent c)
           else readThen additional (\<lambda>targets.
             case targets of
               None \<Rightarrow> skip
             | Some es \<Rightarrow>
                 forEach es (\<lambda>e.
                   readThen (\<lambda>s. if e = el (that_grid s)
                                 then getCellOfElement (that_grid s) overlappedElement else None)
                     (\<lambda>cell. case cell of None \<Rightarrow> skip | Some t \<Rightarrow> mouseoverThat L mouseEvent t)))))"

definition moveDraggedCellAcross :: "(grid \<Rightarrow> browser) \<Rightarrow> mouse_event \<Rightarrow> nat \<Rightarrow> linked stmt" where
  "moveDraggedCellAcross L mouseEvent c = placeAcross L mouseEvent c (lookAcross L mouseEvent c)"

end
