(* ===== verification/Grid_Linked_Inv.thy ===== *)
theory Grid_Linked_Inv
  imports Grid_Linked Grid_Session
begin

text \<open>
  What a move between two linked grids does: the moves of \<open>Utils\<close> on two lists, the invariant of
  the two grids (\<open>linked_ok\<close>: both are well formed, they have no element in common and agree on the
  next new element), and \<open>MoveCell\<close> by its effect on the lists of the cells.
\<close>

section \<open>The moves between two lists\<close>

lemma spot_across:
  assumes d: "proper d" and l: "d p = xs @ e # ys" and f: "{e, f} = {a, b}" "f \<notin> set (d p)"
  shows "getInPlaceFunction a b d e =
           (if ys \<noteq> [] then Before (hd ys) else if xs \<noteq> [] then After (last xs) else Append (Some p))"
proof -
  have dist: "distinct (xs @ e # ys)" using proper_distinct [OF d, of p] l by simp
  have ef: "e \<noteq> f" using f(2) l by auto
  then have other: "(if e = a then b else a) = f" using f(1) by (auto simp: doubleton_eq_iff)
  have n: "next_of d e = (case ys of [] \<Rightarrow> None | y # _ \<Rightarrow> Some y)"
    using dist l next_in_append [of e xs ys] by (simp add: next_of_in [OF d, of e p])
  have p: "prev_of d e = (if xs = [] then None else Some (last xs))"
    using dist l prev_in_append [of e ys xs] by (simp add: prev_of_in [OF d, of e p])
  have ne: "ys \<noteq> [] \<Longrightarrow> hd ys \<noteq> f" "xs \<noteq> [] \<Longrightarrow> last xs \<noteq> f"
    using f(2) l by (cases ys; auto)+
  show ?thesis
    unfolding getInPlaceFunction_def Let_def other n p
    using ne by (cases ys) (auto simp: parent_of_in [OF d, of e p] l)
qed

lemma put_across:
  assumes l: "D p = xs @ ys" and dist: "distinct (xs @ ys)"
    and q: "\<And>q r. q \<noteq> p \<Longrightarrow> r \<in> set xs \<union> set ys \<Longrightarrow> r \<notin> set (D q)"
  shows "put (if ys \<noteq> [] then Before (hd ys) else if xs \<noteq> [] then After (last xs) else Append (Some p))
           x D = D(p := xs @ x # ys)"
proof (cases ys)
  case (Cons y ys')
  then show ?thesis using put_at(1) [of p y D xs ys' x] l dist q [of _ y] by simp
next
  case Nil
  show ?thesis
  proof (cases xs rule: rev_cases)
    case (snoc xs' z)
    then show ?thesis using put_at(2) [of p z D xs' "[]" x] l dist q [of _ z] Nil by simp
  qed (use Nil l in simp)
qed

lemma swap_across:
  assumes d: "proper d" and e: "d In_Element = xs @ c # ys" and t: "d In_Container = us @ t # vs"
  shows "swapJQueryElements c t d = d(In_Element := xs @ t # ys, In_Container := us @ c # vs)"
proof -
  have dist: "distinct (xs @ c # ys)" "distinct (us @ t # vs)"
    "set (xs @ c # ys) \<inter> set (us @ t # vs) = {}"
    using d e t by (simp_all add: proper_def)
  have c: "getInPlaceFunction c t d c =
      (if ys \<noteq> [] then Before (hd ys) else if xs \<noteq> [] then After (last xs)
       else Append (Some In_Element))"
    by (rule spot_across [where f = t, OF d e]) (use dist e in auto)
  have s: "getInPlaceFunction c t d t =
      (if vs \<noteq> [] then Before (hd vs) else if us \<noteq> [] then After (last us)
       else Append (Some In_Container))"
    by (rule spot_across [where f = c, OF d t]) (use dist t in auto)
  have D: "detach t (detach c d) = d(In_Element := xs @ ys, In_Container := us @ vs)"
  proof (rule ext)
    fix p show "detach t (detach c d) p = (d(In_Element := xs @ ys, In_Container := us @ vs)) p"
      using dist e t by (cases p) (auto simp: detach_def)
  qed
  have one: "put (getInPlaceFunction c t d t) c (d(In_Element := xs @ ys, In_Container := us @ vs)) =
      d(In_Element := xs @ ys, In_Container := us @ c # vs)"
    unfolding s using dist
    by (subst put_across [of _ In_Container us vs]) (auto simp: fun_eq_iff split: place.splits, (metis place.exhaust)+)
  have two: "put (getInPlaceFunction c t d c) t (d(In_Element := xs @ ys, In_Container := us @ c # vs)) =
      d(In_Element := xs @ t # ys, In_Container := us @ c # vs)"
    unfolding c using dist
    by (subst put_across [of _ In_Element xs ys]) (auto simp: fun_eq_iff split: place.splits, (metis place.exhaust)+)
  show ?thesis unfolding swapJQueryElements_def Let_def D one two by (rule refl)
qed

lemma insert_across:
  assumes d: "proper d" and e: "d In_Element = xs @ c # ys" and r: "d In_Container = us @ r # vs"
  shows "detachAndInsertInPlace c r d = d(In_Element := xs @ ys,
           In_Container := (if length us < length xs then us @ c # r # vs else us @ r # c # vs))"
proof -
  have dist: "distinct (xs @ c # ys)" "distinct (us @ r # vs)"
    "set (xs @ c # ys) \<inter> set (us @ r # vs) = {}"
    using d e r by (simp_all add: proper_def)
  have idx: "sibling_index d c = int (length xs)" "sibling_index d r = int (length us)"
    using parent_of_in [OF d, of c In_Element] parent_of_in [OF d, of r In_Container] e r
      index_in_append [of c xs ys] index_in_append [of r us vs] dist
    by (simp_all add: sibling_index_def)
  have D: "detach c d = d(In_Element := xs @ ys)"
  proof (rule ext)
    fix p show "detach c d p = (d(In_Element := xs @ ys)) p"
      using dist e r by (cases p) (auto simp: detach_def)
  qed
  have q: "r \<notin> set ((d(In_Element := xs @ ys)) q)" if "q \<noteq> In_Container" for q
    using that dist by (cases q) auto
  have "r \<notin> set us" using dist by simp
  from put_at [of In_Container r "d(In_Element := xs @ ys)", OF q _ this] r
  show ?thesis by (simp add: detachAndInsertInPlace_def idx D)
qed

section \<open>Steps that move nothing\<close>

text \<open>
  Two grids with the same cells in the same places, that agree on all classes but \<open>Visible_Cell\<close>;
  elements may have been created meanwhile.
\<close>

definition near :: "grid \<Rightarrow> grid \<Rightarrow> bool" where
  "near g g' \<longleftrightarrow>
     tree g' = tree g \<and> hiddenOf g' = hiddenOf g \<and> visibleOf g' = visibleOf g \<and>
     cellsArray g' = cellsArray g \<and> el g' = el g \<and> above g' = above g \<and>
     gridstraps g' = gridstraps g \<and> container g' = container g \<and> options g' = options g \<and>
     nextId g \<le> nextId g' \<and> downDiff g' = downDiff g \<and>
     (\<forall>e k. k \<noteq> Visible_Cell \<longrightarrow> hasClass g' e k = hasClass g e k)"

lemma near_refl [simp]: "near g g"
  by (simp add: near_def)

lemma near_trans: "near g g1 \<Longrightarrow> near g1 g2 \<Longrightarrow> near g g2"
  by (auto simp: near_def)

lemma near_ok: "near g g' \<Longrightarrow> grid_ok g \<Longrightarrow> grid_ok g'"
  unfolding near_def grid_ok_def tree_ok_def links_ok_def outside_def
  by (auto intro: less_le_trans)

lemma near_cells:
  assumes "near g g'"
  shows "getCells g' = getCells g" "cells_of g' zs = cells_of g zs" "plain g' e = plain g e"
    "in_grid g' e = in_grid g e" "outside g' = outside g"
proof -
  show "getCells g' = getCells g"
    using assms by (intro hiddenCells_cong(2)) (simp_all add: near_def)
  show "cells_of g' zs = cells_of g zs" using assms by (intro cells_of_cong) (simp add: near_def)
qed (use assms in \<open>simp_all add: near_def plain_def in_grid_def outside_def\<close>)

lemma near_simps [simp]:
  "near g (clearAbsoluteCSS e g)" "near g (setCellAbsolutePositionAndSize B e p g)"
  "near g (addClass e Visible_Cell g)" "near g (removeClass e Visible_Cell g)"
  "near g (g\<lparr>lastTarget := t\<rparr>)" "near g (g\<lparr>limitTime := l\<rparr>)" "near g (set_css e q n g)"
  by (auto simp: near_def clearAbsoluteCSS_def setCellAbsolutePositionAndSize_def set_css_def
      addClass_def removeClass_def hasClass_def)

lemma near_share: "nextId g \<le> nextId g' \<Longrightarrow> near g (share g' g)"
  by (simp add: near_def share_def hasClass_def)

lemma keeps_update_mouse: "keeps (\<lambda>g. downDiff g = d) (updateVisibleCellCoordinates B)"
  unfolding updateVisibleCellCoordinates_def redraw_cell_def
  by (auto intro!: keeps_intros simp: setCellAbsolutePositionAndSize_def set_css_def
      split: option.split)

lemma update_mouse: "updateVisibleCellCoordinates B g = (r, g') \<Longrightarrow> downDiff g' = downDiff g"
  using keeps_update_mouse [of "downDiff g" B] by (fastforce simp: keeps_def)

lemma same_near: "same_cells g g' \<Longrightarrow> downDiff g' = downDiff g \<Longrightarrow> near g g'"
  by (simp add: near_def same_cells_def hasClass_def)

lemma near_update:
  assumes "grid_ok g"
  shows "\<exists>g'. updateVisibleCellCoordinates B g = (None, g') \<and> near g g' \<and> nextId g' = nextId g"
proof -
  obtain g' where g': "updateVisibleCellCoordinates B g = (None, g')" "same_cells g g'"
    using update_ok [OF assms, of B] by blast
  then show ?thesis using same_near [OF g'(2) update_mouse [OF g'(1)]] by (auto simp: same_cells_def)
qed

section \<open>The invariant of two grids\<close>

definition synced :: "linked \<Rightarrow> bool" where
  "synced s \<longleftrightarrow> grid_ok (this_grid s) \<and> grid_ok (that_grid s) \<and>
     nextId (this_grid s) = nextId (that_grid s)"

definition separate :: "grid \<Rightarrow> grid \<Rightarrow> bool" where
  "separate a b \<longleftrightarrow> (\<forall>e. in_grid a e \<longrightarrow> \<not> in_grid b e \<and> e \<notin> outside b)"

definition linked_ok :: "linked \<Rightarrow> bool" where
  "linked_ok s \<longleftrightarrow> synced s \<and> separate (this_grid s) (that_grid s) \<and>
     separate (that_grid s) (this_grid s)"

lemma in_grid_iff: "in_grid g e \<longleftrightarrow> e \<in> set (tree g In_Element) \<or> e \<in> set (tree g In_Container)"
  by (simp add: in_grid_def parent_of_def)

definition near2 :: "linked \<Rightarrow> linked \<Rightarrow> bool" where
  "near2 s s' \<longleftrightarrow> near (this_grid s) (this_grid s') \<and> near (that_grid s) (that_grid s') \<and>
     additional s' = additional s \<and> bound s' = bound s \<and> synced s' \<and>
     nextId (this_grid s') = nextId (this_grid s)"

lemma near2_refl: "synced s \<Longrightarrow> near2 s s"
  by (simp add: near2_def)

lemma near2_trans: "near2 s s1 \<Longrightarrow> near2 s1 s2 \<Longrightarrow> near2 s s2"
  by (auto simp: near2_def intro: near_trans)

lemma near2_linked: "near2 s s' \<Longrightarrow> linked_ok s \<Longrightarrow> linked_ok s'"
  by (auto simp: near2_def linked_ok_def separate_def near_cells)

definition gentle :: "linked stmt \<Rightarrow> bool" where
  "gentle f \<longleftrightarrow> (\<forall>s. synced s \<longrightarrow> (\<exists>s'. f s = (None, s') \<and> near2 s s'))"

named_theorems gentle_intros \<open>statements that move nothing\<close>

lemma gentle_skip [gentle_intros]: "gentle skip"
  by (simp add: gentle_def skip_def near2_refl)

lemma gentle_in_order [gentle_intros]: "\<forall>f \<in> set fs. gentle f \<Longrightarrow> gentle (in_order fs)"
proof (induction fs)
  case (Cons f fs)
  then have f: "gentle f" and fs: "gentle (in_order fs)" by simp_all
  show ?case
    unfolding gentle_def
  proof (intro allI impI)
    fix s assume "synced s"
    then obtain s1 where s1: "f s = (None, s1)" "near2 s s1" using f by (auto simp: gentle_def)
    then have "synced s1" by (simp add: near2_def)
    then obtain s2 where "in_order fs s1 = (None, s2)" "near2 s1 s2"
      using fs by (auto simp: gentle_def)
    then show "\<exists>s'. in_order (f # fs) s = (None, s') \<and> near2 s s'"
      using s1 near2_trans by (auto simp: andThen_def)
  qed
qed (simp add: gentle_skip)

lemma near2_this:
  assumes "synced s" "near (this_grid s) g" "nextId g = nextId (this_grid s)"
  shows "near2 s (s\<lparr>this_grid := g, that_grid := share g (that_grid s)\<rparr>)"
  using assms near_share [of "that_grid s" g] near_ok [of "this_grid s" g]
    near_ok [of "that_grid s" "share g (that_grid s)"]
  by (simp add: near2_def synced_def) (simp add: share_def)

lemma near2_that:
  assumes "synced s" "near (that_grid s) g" "nextId g = nextId (that_grid s)"
  shows "near2 s (s\<lparr>this_grid := share g (this_grid s), that_grid := g\<rparr>)"
  using assms near_share [of "this_grid s" g] near_ok [of "that_grid s" g]
    near_ok [of "this_grid s" "share g (this_grid s)"]
  by (simp add: near2_def synced_def) (simp add: share_def)

lemma gentle_this:
  assumes "\<And>B g. grid_ok g \<Longrightarrow> \<exists>g'. f B g = (None, g') \<and> near g g' \<and> nextId g' = nextId g"
  shows "gentle (in_this L f)"
  unfolding gentle_def
proof (intro allI impI)
  fix s assume s: "synced s"
  then have "grid_ok (this_grid s)" by (simp add: synced_def)
  from assms [OF this] obtain g where "f (L (that_grid s)) (this_grid s) = (None, g)"
    "near (this_grid s) g" "nextId g = nextId (this_grid s)" by blast
  then show "\<exists>s'. in_this L f s = (None, s') \<and> near2 s s'"
    using near2_this [OF s] by (simp add: in_this_def)
qed

lemma gentle_that:
  assumes "\<And>B g. grid_ok g \<Longrightarrow> \<exists>g'. f B g = (None, g') \<and> near g g' \<and> nextId g' = nextId g"
  shows "gentle (in_that L f)"
  unfolding gentle_def
proof (intro allI impI)
  fix s assume s: "synced s"
  then have "grid_ok (that_grid s)" by (simp add: synced_def)
  from assms [OF this] obtain g where "f (L (this_grid s)) (that_grid s) = (None, g)"
    "near (that_grid s) g" "nextId g = nextId (that_grid s)" by blast
  then show "\<exists>s'. in_that L f s = (None, s') \<and> near2 s s'"
    using near2_that [OF s] by (simp add: in_that_def)
qed

lemma nextId_simps [simp]:
  "nextId (clearAbsoluteCSS e g) = nextId g" "nextId (addClass e k g) = nextId g"
  "nextId (setCellAbsolutePositionAndSize B e p g) = nextId g" "nextId (removeClass e k g) = nextId g"
  "nextId (set_css e q n g) = nextId g"
  by (simp_all add: clearAbsoluteCSS_def setCellAbsolutePositionAndSize_def set_css_def
      addClass_def removeClass_def)

lemma gentle_upd:
  assumes "\<And>B g. near g (f B g) \<and> nextId (f B g) = nextId g"
  shows "gentle (in_this L (\<lambda>B. upd (f B)))" "gentle (in_that L (\<lambda>B. upd (f B)))"
  using assms by (auto intro!: gentle_this gentle_that simp: upd_def)

lemma gentle_updates [gentle_intros]:
  "gentle (in_this L updateVisibleCellCoordinates)" "gentle (in_that L updateVisibleCellCoordinates)"
  by (auto intro!: gentle_this gentle_that near_update)

lemmas gentle_leaves [gentle_intros] =
  gentle_upd [where f = "\<lambda>B. clearAbsoluteCSS e" for e, simplified]
  gentle_upd [where f = "\<lambda>B. setCellAbsolutePositionAndSize B e p" for e p, simplified]
  gentle_upd [where f = "\<lambda>B. addClass e Visible_Cell" for e, simplified]
  gentle_upd [where f = "\<lambda>B. removeClass e Visible_Cell" for e, simplified]

section \<open>Leaving and joining a grid\<close>

text \<open>All that later steps need of a cell detached: it is a child of the element, in the place of its copy.\<close>

definition taken_out :: "nat \<Rightarrow> nat list \<Rightarrow> nat list \<Rightarrow> grid \<Rightarrow> grid \<Rightarrow> bool" where
  "taken_out c xs ys g g' \<longleftrightarrow>
     grid_ok g' \<and> plain g' c \<and> tree g' In_Element = xs @ c # ys \<and>
     tree g' In_Container = removeAll c (tree g In_Container) \<and>
     cellsArray g' = removeAll c (cellsArray g) \<and>
     (\<forall>zs. set zs \<subseteq> set xs \<union> set ys \<longrightarrow> cells_of g' zs = cells_of g zs) \<and>
     nextId g' = nextId g \<and> outside g' = outside g \<and> el g' = el g \<and> options g' = options g \<and>
     (\<forall>e k. k \<noteq> Visible_Cell \<longrightarrow> hasClass g' e k = hasClass g e k) \<and>
     downDiff g' c = downDiff g c"

lemma detach_mouse:
  assumes "detachCell B chain g = (None, g')" "getCellAndInternalIndex g chain = Some (i, c)"
    "hiddenOf g c = Some h" "e \<noteq> h"
  shows "downDiff g' e = downDiff g e"
  using assms
  by (auto simp: detachCell_def js_defs remove_element_def put_element_def removeClass_def
      clearAbsoluteCSS_def detach_element_def dest!: update_mouse)

lemma detachCell_takes_out:
  assumes ok: "grid_ok g" and c: "c \<in> set (cellsArray g)"
    and h: "hiddenOf g c = Some h" "visibleOf g h = Some c" and l: "tree g In_Element = xs @ h # ys"
  obtains g' where "detachCell B (chain_of g c) g = (None, g')" "taken_out c xs ys g g'"
proof -
  obtain g' where g': "detachCell B (chain_of g c) g = (None, g')" "grid_ok g'" "plain g' c"
    "same_cells (detached c h xs ys g) g'" "getCells g' = removeAll c (getCells g)"
    using detachCell_result [OF ok c h l] .
  have dist: "h \<notin> set xs \<union> set ys"
    using proper_distinct [OF grid_okD(1) [OF ok], of In_Element] l by simp
  have "c \<noteq> h" using grid_okD(1,8) [OF ok] c l by (auto simp: proper_def)
  then have "downDiff g' c = downDiff g c"
    using detach_mouse [OF g'(1) getCell_managed(1) [OF ok c] h(1)] by simp
  moreover have "cells_of g' zs = cells_of g zs" if "set zs \<subseteq> set xs \<union> set ys" for zs
    using that dist g'(4) by (intro cells_of_cong) (auto simp: same_cells_def detached_def)
  ultimately have "taken_out c xs ys g g'"
    using g'(2-4) by (auto simp: taken_out_def same_cells_def detached_def outside_def hasClass_def)
  then show thesis using that [OF g'(1)] by blast
qed

definition put_in :: "nat \<Rightarrow> nat list \<Rightarrow> nat list \<Rightarrow> grid \<Rightarrow> grid \<Rightarrow> bool" where
  "put_in e xs ys g g' \<longleftrightarrow>
     grid_ok g' \<and> getCells g' = cells_of g xs @ e # cells_of g ys \<and>
     tree g' In_Element = xs @ nextId g # ys \<and> tree g' In_Container = tree g In_Container @ [e] \<and>
     cellsArray g' = cellsArray g @ [e] \<and> nextId g' = Suc (nextId g) \<and> outside g' = outside g \<and>
     el g' = el g \<and> options g' = options g \<and>
     (\<forall>x k. k \<noteq> Visible_Cell \<longrightarrow> x \<noteq> nextId g \<longrightarrow> hasClass g' x k = hasClass g x k) \<and>
     (\<forall>x. x \<noteq> nextId g \<longrightarrow> downDiff g' x = downDiff g x)"

lemma attachCell_puts_in:
  assumes ok: "grid_ok g" and e: "plain g e" and l: "tree g In_Element = xs @ e # ys"
  obtains g' where "attachCell B (Some e) g = (None, g')" "put_in e xs ys g g'"
proof -
  obtain g' where g': "attachCell B (Some e) g = (None, g')" "grid_ok g'"
    "same_cells (attached e xs ys g) g'" "getCells g' = cells_of g xs @ e # cells_of g ys"
    using attachCell_result [OF assms] .
  have "downDiff g' x = downDiff g x" if "x \<noteq> nextId g" for x
    using g'(1) that
    by (auto simp: attachCell_def js_defs initCellsHiddenCopyAndSetAbsolutePosition_def Let_def
        setCellAbsolutePositionAndSize_def set_css_def put_element_def detach_element_def
        create_element_def addClass_def split: if_splits dest!: update_mouse)
  then have "put_in e xs ys g g'"
    using g'(2-4) by (auto simp: put_in_def same_cells_def attached_def outside_def hasClass_def)
  then show thesis using that [OF g'(1)] by blast
qed

text \<open>
  Other children for the grid's element: the container and the hidden copies stay, and what is new
  belongs to no other part of the page.
\<close>

lemma new_kids_ok:
  assumes ok: "grid_ok g" and d: "distinct ks"
    and stay: "\<And>e. e \<in> set (tree g In_Element) \<Longrightarrow> e = container g \<or> visibleOf g e \<noteq> None \<Longrightarrow> e \<in> set ks"
    and new: "\<And>e. e \<in> set ks \<Longrightarrow> e \<notin> set (tree g In_Element) \<Longrightarrow>
        \<not> in_grid g e \<and> e \<notin> outside g \<and> e < nextId g"
  shows "grid_ok (g\<lparr>tree := (tree g)(In_Element := ks)\<rparr>)"
    "getCells (g\<lparr>tree := (tree g)(In_Element := ks)\<rparr>) = cells_of g ks"
proof -
  let ?g = "g\<lparr>tree := (tree g)(In_Element := ks)\<rparr>"
  note D = grid_okD [OF ok]
  have "set ks \<inter> set (tree g In_Container) = {}"
    using new D(1) by (auto simp: in_grid_iff proper_def)
  then have p: "proper (tree ?g)" using D(1) d by (simp add: proper_def)
  have "e < nextId g \<and> e \<notin> outside g" if "e \<in> set (tree ?g q)" for e q
    using that new [of e] D(3,4) [of e] by (cases q) auto
  then have "tree_ok ?g"
    using p stay [OF D(2)] D(5,6) unfolding tree_ok_def by (simp add: outside_def)
  moreover have "links_ok ?g"
    using stay by (intro links_ok_sub [OF ok]) (auto simp: hasClass_def D(11,12)
      dest: visible_hidden(3) [OF ok])
  ultimately show ok': "grid_ok ?g" using D(7,8) by (simp add: grid_ok_def)
  show "getCells ?g = cells_of g ks"
    unfolding getCells_kids [OF ok'] by (simp add: cells_of_def)
qed

text \<open>An element that comes from another grid, where it was a plain child, brings no links.\<close>

lemma strangers:
  assumes ok: "grid_ok g" and e: "\<not> in_grid g e"
  shows "hiddenOf g e = None" "visibleOf g e = None"
proof -
  show "hiddenOf g e = None"
    using e grid_okD(8) [OF ok] grid_okD(12) [OF ok, of e] by (cases "hiddenOf g e") (auto simp: in_grid_iff)
  show "visibleOf g e = None"
    using e visible_hidden(1) [OF ok, of e] by (cases "visibleOf g e") (auto simp: in_grid_iff)
qed

lemma plain_links:
  assumes "grid_ok g" "plain g e"
  shows "hiddenOf g e = None" "visibleOf g e = None"
  using plain_unmanaged(1) [OF assms] grid_okD(12) [OF assms(1), of e] assms(2)
  by (cases "hiddenOf g e"; auto simp: plain_def)+

lemma hand_over_ok:
  assumes ok: "grid_ok (g\<lparr>tree := tr\<rparr>)" and e: "hiddenOf g e = None" "visibleOf g e = None"
    and e': "hiddenOf g' e = None" "visibleOf g' e = None"
  shows "grid_ok (hand_over e g' (g\<lparr>tree := tr\<rparr>))"
    "visibleOf (hand_over e g' (g\<lparr>tree := tr\<rparr>)) = visibleOf g"
proof -
  let ?g = "hand_over e g' (g\<lparr>tree := tr\<rparr>)"
  have l: "hiddenOf ?g = hiddenOf g" "visibleOf ?g = visibleOf g"
    using e e' by (auto simp: hand_over_def)
  show "visibleOf ?g = visibleOf g" by (rule l(2))
  have "links_ok ?g"
    using e e' by (intro links_ok_sub [OF ok])
      (auto simp: hasClass_def hand_over_def split: if_splits
        dest: visible_hidden(3) [OF ok, simplified] grid_okD(12) [OF ok, simplified]
        intro: grid_okD(11) [OF ok, simplified])
  then show "grid_ok ?g"
    using ok by (simp add: grid_ok_def tree_ok_def outside_def hand_over_def)
qed

text \<open>
  A grid \<open>g\<close> that \<open>e\<close>, a plain child in \<open>src\<close>, has joined between \<open>xs\<close> and \<open>ys\<close>, with the hidden
  copy \<open>n\<close>.
\<close>

definition joined ::
  "nat \<Rightarrow> nat \<Rightarrow> grid \<Rightarrow> nat list \<Rightarrow> nat list \<Rightarrow> grid \<Rightarrow> grid \<Rightarrow> bool" where
  "joined e n src xs ys g0 g \<longleftrightarrow>
     grid_ok g \<and> getCells g = cells_of g0 xs @ e # cells_of g0 ys \<and>
     (\<forall>x. in_grid g x \<longleftrightarrow> x = n \<or> x = e \<or> x \<in> set xs \<union> set ys \<union> set (tree g0 In_Container)) \<and>
     cellsArray g = cellsArray g0 @ [e] \<and> outside g = outside g0 \<and> el g = el g0 \<and>
     options g = options g0 \<and>
     (\<forall>x k. k \<noteq> Visible_Cell \<longrightarrow> x \<noteq> n \<longrightarrow>
        hasClass g x k = (if x = e then hasClass src e k else hasClass g0 x k)) \<and>
     downDiff g e = downDiff src e"

lemma joined_near: "joined e n src xs ys g0 g \<Longrightarrow> near g g' \<Longrightarrow> joined e n src xs ys g0 g'"
  using near_ok [of g g'] near_cells(1,4,5) [of g g']
  by (simp add: joined_def) (simp add: near_def)

lemma join_kid:
  assumes ok: "grid_ok g" and src: "grid_ok src" "plain src e"
    and e: "\<not> in_grid g e" "e \<notin> outside g" "e < nextId g"
    and kids: "distinct (xs @ ys)" "set (xs @ ys) \<subseteq> set (tree g In_Element)"
      "\<And>x. x \<in> set (tree g In_Element) \<Longrightarrow> x = container g \<or> visibleOf g x \<noteq> None \<Longrightarrow> x \<in> set (xs @ ys)"
  defines "g1 \<equiv> hand_over e src (g\<lparr>tree := (tree g)(In_Element := xs @ e # ys)\<rparr>)"
  shows "grid_ok g1" "visibleOf g1 = visibleOf g" "plain g1 e"
proof -
  have "e \<notin> set (xs @ ys)" using kids(2) e(1) by (auto simp: in_grid_iff)
  then have "grid_ok (g\<lparr>tree := (tree g)(In_Element := xs @ e # ys)\<rparr>)"
    using kids e by (intro new_kids_ok(1) [OF ok]) auto
  from hand_over_ok [OF this strangers [OF ok e(1)] plain_links [OF src]]
  show "grid_ok g1" and v: "visibleOf g1 = visibleOf g" by (simp_all add: g1_def)
  have "e \<noteq> container g" using e(1) grid_okD(2) [OF ok] by (auto simp: in_grid_iff)
  then show "plain g1 e"
    using strangers(2) [OF ok e(1)] by (simp add: plain_def v) (simp add: g1_def hand_over_def)
qed

lemma join_result:
  assumes ok: "grid_ok g" and src: "grid_ok src" "plain src e"
    and e: "\<not> in_grid g e" "e \<notin> outside g" "e < nextId g"
    and kids: "distinct (xs @ ys)" "set (xs @ ys) \<subseteq> set (tree g In_Element)"
      "\<And>x. x \<in> set (tree g In_Element) \<Longrightarrow> x = container g \<or> visibleOf g x \<noteq> None \<Longrightarrow> x \<in> set (xs @ ys)"
    and nr: "near (hand_over e src (g\<lparr>tree := (tree g)(In_Element := xs @ e # ys)\<rparr>)) g1"
  obtains g' where "attachCell B (Some e) g1 = (None, g')" "nextId g' = Suc (nextId g1)"
    "joined e (nextId g1) src xs ys g g'"
proof -
  note j = join_kid [OF assms(1-9)]
  have "grid_ok g1" "plain g1 e" using near_ok [OF nr j(1)] near_cells(3) [OF nr] j(3) by simp_all
  moreover have t: "tree g1 = (tree g)(In_Element := xs @ e # ys)"
    using nr by (simp add: near_def hand_over_def)
  ultimately obtain g' where g': "attachCell B (Some e) g1 = (None, g')" "put_in e xs ys g1 g'"
    using attachCell_puts_in [of g1 e xs ys B] by auto
  have v: "cells_of g1 zs = cells_of g zs" for zs
    unfolding near_cells(2) [OF nr] by (intro cells_of_cong) (simp only: j(2))
  have "e < nextId g1" using e(3) nr by (simp add: near_def hand_over_def)
  then have "joined e (nextId g1) src xs ys g g'"
    using g'(2) nr t unfolding joined_def
    by (simp add: put_in_def v in_grid_iff near_def)
      (auto simp: hand_over_def outside_def hasClass_def)
  then show thesis using that [OF g'(1)] g'(2) by (simp add: put_in_def)
qed

section \<open>Two grids step by step\<close>

definition pair_of :: "linked \<Rightarrow> grid \<Rightarrow> grid \<Rightarrow> linked" where
  "pair_of s a b = s\<lparr>this_grid := a, that_grid := b\<rparr>"

lemma pair_of_simps [simp]:
  "this_grid (pair_of s a b) = a" "that_grid (pair_of s a b) = b"
  "additional (pair_of s a b) = additional s" "bound (pair_of s a b) = bound s"
  "pair_of (pair_of s a b) a' b' = pair_of s a' b'" "pair_of s (this_grid s) (that_grid s) = s"
  by (simp_all add: pair_of_def)

lemma in_this_step: "f (L b) a = (None, a') \<Longrightarrow> in_this L f (pair_of s a b) = (None, pair_of s a' (share a' b))"
  by (simp add: in_this_def pair_of_def)

lemma in_that_step: "f (L a) b = (None, b') \<Longrightarrow> in_that L f (pair_of s a b) = (None, pair_of s (share b' a) b')"
  by (simp add: in_that_def pair_of_def)

lemma nextId_share [simp]: "nextId (share g g') = nextId g"
  by (simp add: share_def)

text \<open>The class that marks the dragged cell is taken away before the move and given back after it.\<close>

lemma undrag_step:
  assumes "nextId a = nextId b"
  obtains b' where "onlyIf (hasClass a c Drag_Cell) (in_this L (\<lambda>B. upd (removeClass c Drag_Cell)))
      (pair_of s a b) = (None, pair_of s (removeClass c Drag_Cell a) b')"
    "near b b'" "nextId b' = nextId b"
proof (cases "hasClass a c Drag_Cell")
  case True
  then show thesis
    using that [of "share (removeClass c Drag_Cell a) b"] assms
      in_this_step [of "\<lambda>B. upd (removeClass c Drag_Cell)" L b a "removeClass c Drag_Cell a" s]
      near_share [of b "removeClass c Drag_Cell a"]
    by (simp add: js_defs)
next
  case False
  then have "removeClass c Drag_Cell a = a"
    by (simp add: removeClass_def hasClass_def fun_upd_idem)
  then show thesis using that [of b] False by (simp add: js_defs)
qed

definition redrag :: "bool \<Rightarrow> nat \<Rightarrow> grid \<Rightarrow> grid" where
  "redrag w c g = (if w then addClass c Drag_Cell g else g)"

lemma redrag_step:
  assumes "nextId a = nextId b"
  obtains a' where "onlyIf w (in_that L (\<lambda>B. upd (addClass c Drag_Cell))) (pair_of s a b) =
      (None, pair_of s a' (redrag w c b))" "near a a'" "nextId a' = nextId a"
proof (cases w)
  case True
  then show thesis
    using that [of "share (addClass c Drag_Cell b) a"] assms near_share [of a "addClass c Drag_Cell b"]
      in_that_step [of "\<lambda>B. upd (addClass c Drag_Cell)" L a b "addClass c Drag_Cell b" s]
    by (simp add: js_defs redrag_def)
next
  case False
  then show thesis using that [of a] by (simp add: js_defs redrag_def)
qed

section \<open>Moving a cell across\<close>

lemma in_order_append: "in_order (fs @ gs) = andThen (in_order fs) (in_order gs)"
  by (induction fs) (auto simp: js_defs fun_eq_iff split: prod.splits option.splits)

lemma near2_pair:
  assumes "near2 (pair_of s a b) s'"
  shows "s' = pair_of s (this_grid s') (that_grid s')"
  using assms by (cases s'; cases s) (simp add: near2_def pair_of_def)

lemma gentle_steps:
  assumes "\<forall>f \<in> set fs. gentle f" "synced (pair_of s a b)"
  obtains a' b' where "in_order fs (pair_of s a b) = (None, pair_of s a' b')" "near a a'" "near b b'"
    "synced (pair_of s a' b')"
proof -
  obtain s' where s': "in_order fs (pair_of s a b) = (None, s')" "near2 (pair_of s a b) s'"
    using gentle_in_order [OF assms(1)] assms(2) by (auto simp: gentle_def)
  then show thesis
    using that [of "this_grid s'" "that_grid s'"] near2_pair [OF s'(2)] by (simp add: near2_def)
qed

text \<open>Two well-formed grids made of the elements of two linked ones and of new elements.\<close>

lemma linked_ok_pair:
  assumes ok: "linked_ok s" and "synced (pair_of s a b)"
    and from_page: "\<And>x. in_grid a x \<or> in_grid b x \<Longrightarrow>
        in_grid (this_grid s) x \<or> in_grid (that_grid s) x \<or> nextId (this_grid s) \<le> x"
    and apart: "\<And>x. in_grid a x \<Longrightarrow> \<not> in_grid b x"
    and outs: "outside a = outside (this_grid s)" "outside b = outside (that_grid s)"
  shows "linked_ok (pair_of s a b)"
proof -
  have s: "grid_ok (this_grid s)" "grid_ok (that_grid s)" "nextId (this_grid s) = nextId (that_grid s)"
    and sep: "separate (this_grid s) (that_grid s)" "separate (that_grid s) (this_grid s)"
    using ok by (simp_all add: linked_ok_def synced_def)
  have "x \<notin> outside (this_grid s) \<and> x \<notin> outside (that_grid s)" if m: "in_grid a x \<or> in_grid b x" for x
  proof -
    consider "in_grid (this_grid s) x" | "in_grid (that_grid s) x" | "nextId (this_grid s) \<le> x"
      using from_page [OF m] by blast
    then show ?thesis
    proof cases
      case 1
      then show ?thesis using sep(1) grid_okD(4) [OF s(1), of x] by (auto simp: separate_def in_grid_iff)
    next
      case 2
      then show ?thesis using sep(2) grid_okD(4) [OF s(2), of x] by (auto simp: separate_def in_grid_iff)
    next
      case 3
      then show ?thesis using grid_okD(5) [OF s(1), of x] grid_okD(5) [OF s(2), of x] s(3) by auto
    qed
  qed
  then show ?thesis
    using assms(2) apart outs unfolding linked_ok_def separate_def by auto
qed

text \<open>What the rest of the page sees of a cell \<open>c\<close> that has moved to the second grid.\<close>

definition crossed :: "nat \<Rightarrow> linked \<Rightarrow> linked \<Rightarrow> bool" where
  "crossed c s s' \<longleftrightarrow>
     linked_ok s' \<and> additional s' = additional s \<and> bound s' = bound s \<and>
     options (this_grid s') = options (this_grid s) \<and> options (that_grid s') = options (that_grid s) \<and>
     el (that_grid s') = el (that_grid s) \<and> c \<in> set (cellsArray (that_grid s')) \<and>
     hasClass (that_grid s') c Drag_Cell = hasClass (this_grid s) c Drag_Cell \<and>
     downDiff (that_grid s') c = downDiff (this_grid s) c \<and>
     (\<forall>e \<in> set (cellsArray (that_grid s')). e \<noteq> c \<longrightarrow> e \<in> set (cellsArray (that_grid s)) \<and>
        hasClass (that_grid s') e Drag_Cell = hasClass (that_grid s) e Drag_Cell) \<and>
     (\<forall>e \<in> set (cellsArray (this_grid s')).
        e \<in> set (cellsArray (this_grid s)) \<and> e \<noteq> c \<and>
          hasClass (this_grid s') e Drag_Cell = hasClass (this_grid s) e Drag_Cell \<or>
        e \<in> set (cellsArray (that_grid s)) \<and>
          hasClass (this_grid s') e Drag_Cell = hasClass (that_grid s) e Drag_Cell)"

lemma crossed_near:
  assumes "crossed c s s1" "near2 s1 s2"
  shows "crossed c s s2" "getCells (this_grid s2) = getCells (this_grid s1)"
    "getCells (that_grid s2) = getCells (that_grid s1)"
proof -
  have n: "near (this_grid s1) (this_grid s2)" "near (that_grid s1) (that_grid s2)"
    "additional s2 = additional s1" "bound s2 = bound s1"
    using assms(2) by (simp_all add: near2_def)
  show "getCells (this_grid s2) = getCells (this_grid s1)"
    "getCells (that_grid s2) = getCells (that_grid s1)"
    using near_cells(1) [OF n(1)] near_cells(1) [OF n(2)] by simp_all
  have "linked_ok s2" using near2_linked [OF assms(2)] assms(1) by (simp add: crossed_def)
  then show "crossed c s s2"
    using assms(1) n by (simp add: crossed_def) (simp add: near_def)
qed

text \<open>
  Both cells start in their grids; what the two proofs share are the places of the hidden copies.
\<close>

lemma linked_places:
  assumes ok: "linked_ok s" and c: "c \<in> set (cellsArray (this_grid s))"
    and t: "t \<in> set (cellsArray (that_grid s))"
  obtains h xs ys r us vs where
    "hiddenOf (this_grid s) c = Some h" "visibleOf (this_grid s) h = Some c"
    "tree (this_grid s) In_Element = xs @ h # ys"
    "hiddenOf (that_grid s) t = Some r" "visibleOf (that_grid s) r = Some t"
    "tree (that_grid s) In_Element = us @ r # vs"
    "page_chain s c = chain_of (this_grid s) c" "page_chain s t = chain_of (that_grid s) t"
    "page_hidden s c = Some h" "page_hidden s t = Some r"
    "\<not> in_grid (that_grid s) c" "c \<notin> outside (that_grid s)" "c < nextId (that_grid s)"
    "\<not> in_grid (this_grid s) t" "t \<notin> outside (this_grid s)" "t < nextId (this_grid s)"
proof -
  have s: "grid_ok (this_grid s)" "grid_ok (that_grid s)" "nextId (this_grid s) = nextId (that_grid s)"
    and sep: "separate (this_grid s) (that_grid s)" "separate (that_grid s) (this_grid s)"
    using ok by (simp_all add: linked_ok_def synced_def)
  obtain h xs ys where h: "hiddenOf (this_grid s) c = Some h" "visibleOf (this_grid s) h = Some c"
    "tree (this_grid s) In_Element = xs @ h # ys" using managed_links [OF s(1) c] by blast
  obtain r us vs where r: "hiddenOf (that_grid s) t = Some r" "visibleOf (that_grid s) r = Some t"
    "tree (that_grid s) In_Element = us @ r # vs" using managed_links [OF s(2) t] by blast
  have i: "in_grid (this_grid s) c" "in_grid (that_grid s) t"
    using c t grid_okD(8) [OF s(1)] grid_okD(8) [OF s(2)] by (simp_all add: in_grid_iff)
  then have n: "\<not> in_grid (that_grid s) c" "c \<notin> outside (that_grid s)"
    "\<not> in_grid (this_grid s) t" "t \<notin> outside (this_grid s)"
    using sep by (simp_all add: separate_def)
  have "c < nextId (this_grid s)" "t < nextId (that_grid s)"
    using i grid_okD(3) [OF s(1)] grid_okD(3) [OF s(2)] by (auto simp: in_grid_iff)
  then show thesis
    using that [OF h r] i n h(1) r(1) s(3) by (simp add: page_chain_def page_hidden_def)
qed

end
