(* ===== verification/Grid_Across.thy ===== *)
theory Grid_Across
  imports Grid_Linked_Inv
begin

text \<open>
  \<open>MoveCell\<close> between two linked grids, step by step: both modes leave the two grids well formed,
  and change the lists of their cells as on one list.
\<close>

section \<open>The first grid lets the cell go\<close>

definition ready :: "nat \<Rightarrow> nat list \<Rightarrow> nat list \<Rightarrow> grid \<Rightarrow> grid \<Rightarrow> bool" where
  "ready c xs ys g0 g \<longleftrightarrow>
     grid_ok g \<and> plain g c \<and> tree g In_Element = xs @ c # ys \<and>
     tree g In_Container = removeAll c (tree g0 In_Container) \<and>
     cellsArray g = removeAll c (cellsArray g0) \<and>
     (\<forall>zs. set zs \<subseteq> set xs \<union> set ys \<longrightarrow> cells_of g zs = cells_of g0 zs) \<and>
     outside g = outside g0 \<and> el g = el g0 \<and> options g = options g0 \<and>
     (\<forall>e k. k \<noteq> Visible_Cell \<longrightarrow> e \<noteq> c \<or> k \<noteq> Drag_Cell \<longrightarrow> hasClass g e k = hasClass g0 e k) \<and>
     downDiff g c = downDiff g0 c"

lemma taken_out_ready: "taken_out c xs ys g0 g \<Longrightarrow> ready c xs ys g0 g"
  by (simp add: taken_out_def ready_def)

lemma ready_near: "ready c xs ys g0 g \<Longrightarrow> near g g' \<Longrightarrow> ready c xs ys g0 g'"
  using near_ok [of g g'] near_cells(2,3,5) [of g g']
  by (simp add: ready_def) (simp add: near_def)

lemma ready_near_start:
  assumes "near g0 g1" "ready c xs ys g1 g"
  shows "ready c xs ys g0 g"
  using assms near_cells(2,5) [OF assms(1)] by (simp add: ready_def) (simp add: near_def)

lemma ready_undrag:
  assumes "ready c xs ys g0 g"
  shows "ready c xs ys g0 (removeClass c Drag_Cell g)"
proof -
  have "grid_ok (removeClass c Drag_Cell g)"
    using assms removeClass_ok [of g Drag_Cell c] by (simp add: ready_def)
  moreover have "cells_of (removeClass c Drag_Cell g) zs = cells_of g zs" for zs
    by (intro cells_of_cong) (simp add: removeClass_def)
  moreover have "outside (removeClass c Drag_Cell g) = outside g"
    by (simp add: outside_def removeClass_def)
  ultimately show ?thesis
    using assms by (simp add: ready_def) (simp add: removeClass_def plain_def hasClass_def)
qed

lemma detach_this_result:
  assumes ok: "linked_ok s" and c: "c \<in> set (cellsArray (this_grid s))"
    and h: "hiddenOf (this_grid s) c = Some h" "visibleOf (this_grid s) h = Some c"
      "tree (this_grid s) In_Element = xs @ h # ys"
    and near: "near (this_grid s) a" "nextId a = nextId b"
      "page_chain (pair_of s a b) c = chain_of a c"
  obtains a' b' where "detach_from_this L c (pair_of s a b) = (None, pair_of s a' b')"
    "taken_out c xs ys a a'" "ready c xs ys (this_grid s) a'" "near b b'" "nextId a' = nextId b'"
    "nextId a' = nextId a" "hasClass a' c Drag_Cell = hasClass (this_grid s) c Drag_Cell"
proof -
  have "grid_ok a" using near_ok [OF near(1)] ok by (simp add: linked_ok_def synced_def)
  moreover have "c \<in> set (cellsArray a)" "hiddenOf a c = Some h" "visibleOf a h = Some c"
    "tree a In_Element = xs @ h # ys" using near(1) c h by (simp_all add: near_def)
  ultimately obtain a' where a': "detachCell (L b) (chain_of a c) a = (None, a')"
    "taken_out c xs ys a a'" by (rule detachCell_takes_out)
  have n: "nextId a' = nextId a" using a'(2) by (simp add: taken_out_def)
  have "detach_from_this L c (pair_of s a b) = (None, pair_of s a' (share a' b))"
    using in_this_step [of "\<lambda>B. detachCell B (chain_of a c)" L b a a' s] a'(1) near(3) by (simp add: detach_from_this_def js_defs)
  moreover have "hasClass a' c Drag_Cell = hasClass (this_grid s) c Drag_Cell"
    using a'(2) near(1) by (simp add: taken_out_def near_def)
  ultimately show thesis
    using that [of a' "share a' b"] a'(2) n near(2) near_share [of b a']
      ready_near_start [OF near(1) taken_out_ready [OF a'(2)]] by simp
qed

section \<open>Between the lists of children\<close>

lemma arrivals_simps:
  assumes "distinct (xs @ c # ys)" "t \<notin> set (xs @ c # ys)"
  shows "arrivals [c] (xs @ c # ys) (xs @ ys) = []"
    "arrivals [c, t] (xs @ c # ys) (xs @ t # ys) = [t]"
    "arrivals [t, c] (xs @ c # ys) (xs @ t # ys) = [t]"
    "set zs = set (xs @ c # ys) \<Longrightarrow> arrivals [t] zs (xs @ c # t # ys) = [t]"
    "set zs = set (xs @ c # ys) \<Longrightarrow> arrivals [t] zs (xs @ t # c # ys) = [t]"
  using assms by (auto simp: arrivals_def)

lemma two_lists_pair [simp]:
  "two_lists (pair_of s a b) In_Element = tree a In_Element"
  "two_lists (pair_of s a b) In_Container = tree b In_Element"
  by (simp_all add: two_lists_def)

definition around :: "bool \<Rightarrow> nat list \<Rightarrow> nat \<Rightarrow> nat list \<Rightarrow> nat list \<times> nat list" where
  "around before us r vs = (if before then (us, r # vs) else (us @ [r], vs))"

lemma rearrange_insert:
  assumes l: "tree a In_Element = xs @ c # ys" "tree b In_Element = us @ r # vs"
    and d: "distinct (xs @ c # ys)" "distinct (us @ r # vs)"
      "set (xs @ c # ys) \<inter> set (us @ r # vs) = {}"
    and w: "around (length us < length xs) us r vs = (ws, zs)"
  shows "rearrange [c] (detachAndInsertInPlace c r) (pair_of s a b) =
     pair_of s (a\<lparr>tree := (tree a)(In_Element := xs @ ys)\<rparr>)
       (hand_over c a (b\<lparr>tree := (tree b)(In_Element := ws @ c # zs)\<rparr>))"
proof -
  have p: "proper (two_lists (pair_of s a b))" using d by (simp add: proper_def l)
  have m: "detachAndInsertInPlace c r (two_lists (pair_of s a b)) = (two_lists (pair_of s a b))
      (In_Element := xs @ ys, In_Container := ws @ c # zs)"
    using insert_across [OF p, of xs c ys us r vs] l w by (auto simp: around_def split: if_splits)
  have "c \<notin> set (us @ r # vs)" using d by auto
  then have arr: "arrivals [c] (us @ r # vs) (ws @ c # zs) = [c]"
    by (auto simp: arrivals_def)
  show ?thesis
    unfolding rearrange_def m Let_def
    using arrivals_simps(1) [of xs c ys r] d arr
    by (simp add: l pair_of_def)
qed

lemma rearrange_swap:
  assumes l: "tree a In_Element = xs @ c # ys" "tree b In_Element = us @ t # vs"
    and d: "distinct (xs @ c # ys)" "distinct (us @ t # vs)"
      "set (xs @ c # ys) \<inter> set (us @ t # vs) = {}"
  shows "rearrange [c, t] (swapJQueryElements c t) (pair_of s a b) =
     pair_of s (hand_over t b (a\<lparr>tree := (tree a)(In_Element := xs @ t # ys)\<rparr>))
       (hand_over c a (b\<lparr>tree := (tree b)(In_Element := us @ c # vs)\<rparr>))"
proof -
  have p: "proper (two_lists (pair_of s a b))" using d by (simp add: proper_def l)
  have m: "swapJQueryElements c t (two_lists (pair_of s a b)) = (two_lists (pair_of s a b))
      (In_Element := xs @ t # ys, In_Container := us @ c # vs)"
    using swap_across [OF p, of xs c ys us t vs] l by simp
  have "t \<notin> set (xs @ c # ys)" "c \<notin> set (us @ t # vs)" using d by auto
  then have "arrivals [c, t] (xs @ c # ys) (xs @ t # ys) = [t]"
    "arrivals [c, t] (us @ t # vs) (us @ c # vs) = [c]"
    using arrivals_simps(2) [of xs c ys t] arrivals_simps(3) [of us t vs c] d by simp_all
  then show ?thesis
    unfolding rearrange_def m Let_def by (simp add: l pair_of_def)
qed

section \<open>The last steps\<close>

lemma joined_redrag:
  assumes "joined c n src xs ys g0 g"
  shows "joined c n (redrag w c src) xs ys g0 (redrag w c g)"
proof (cases w)
  case True
  have "in_grid (addClass c Drag_Cell g) = in_grid g" "outside (addClass c Drag_Cell g) = outside g"
    by (simp_all add: fun_eq_iff in_grid_def addClass_def outside_def)
  then show ?thesis
    using assms True addClass_ok [of g c Drag_Cell] addClass_hidden(2) [of Drag_Cell c g]
    by (simp add: joined_def redrag_def) (simp add: addClass_def hasClass_def)
qed (use assms in \<open>simp add: redrag_def\<close>)

lemma nextId_redrag [simp]: "nextId (redrag w c g) = nextId g"
  by (simp add: redrag_def)

lemma last_steps:
  assumes fs: "\<forall>f \<in> set fs. gentle f"
    and ok: "grid_ok a" "joined c n src xs ys g0 b" "nextId a = nextId b"
  obtains a' b' where
    "in_order (fs @ [onlyIf w (in_that L (\<lambda>B. upd (addClass c Drag_Cell)))]) (pair_of s a b) =
       (None, pair_of s a' b')"
    "near a a'" "joined c n (redrag w c src) xs ys g0 b'" "synced (pair_of s a' b')"
proof -
  have "synced (pair_of s a b)" using ok by (simp add: synced_def joined_def)
  from gentle_steps [OF fs this] obtain a1 b1 where
    g: "in_order fs (pair_of s a b) = (None, pair_of s a1 b1)" "near a a1" "near b b1"
      "synced (pair_of s a1 b1)" .
  then have n: "nextId a1 = nextId b1" by (simp add: synced_def)
  obtain a' where r: "onlyIf w (in_that L (\<lambda>B. upd (addClass c Drag_Cell))) (pair_of s a1 b1) =
      (None, pair_of s a' (redrag w c b1))" "near a1 a'" "nextId a' = nextId a1"
    by (rule redrag_step [OF n])
  have j: "joined c n (redrag w c src) xs ys g0 (redrag w c b1)"
    by (rule joined_redrag [OF joined_near [OF ok(2) g(3)]])
  have "grid_ok a'" using near_ok [OF near_trans [OF g(2) r(2)] ok(1)] .
  then have "synced (pair_of s a' (redrag w c b1))"
    using j n r(3) by (simp add: synced_def joined_def)
  moreover have "in_order (fs @ [onlyIf w (in_that L (\<lambda>B. upd (addClass c Drag_Cell)))])
      (pair_of s a b) = (None, pair_of s a' (redrag w c b1))"
    using g(1) r(1) by (simp add: in_order_append) (simp add: js_defs)
  ultimately show thesis using that j near_trans [OF g(2) r(2)] by blast
qed

section \<open>Inserting into the other grid\<close>

text \<open>
  In insert mode the cell goes before or behind the target, depending on which of the two hidden
  copies has the smaller index among its siblings, although the siblings are those of two grids.
\<close>

definition lands_before :: "nat \<Rightarrow> nat \<Rightarrow> linked \<Rightarrow> bool" where
  "lands_before c t s \<longleftrightarrow>
     index_in (the (hiddenOf (that_grid s) t)) (tree (that_grid s) In_Element)
     < index_in (the (hiddenOf (this_grid s) c)) (tree (this_grid s) In_Element)"

definition arrived :: "bool \<Rightarrow> nat \<Rightarrow> nat \<Rightarrow> nat list \<Rightarrow> nat list" where
  "arrived before c t cs =
     (let k = index_in t cs + (if before then 0 else 1) in take k cs @ c # drop k cs)"

lemma cells_split:
  assumes ok: "grid_ok g" and r: "visibleOf g r = Some t" and l: "tree g In_Element = us @ r # vs"
  shows "getCells g = cells_of g us @ t # cells_of g vs" "t \<notin> set (cells_of g us)"
    "t \<notin> set (cells_of g vs)"
proof -
  show "getCells g = cells_of g us @ t # cells_of g vs"
    using r by (simp add: getCells_kids [OF ok] l)
  then show "t \<notin> set (cells_of g us)" "t \<notin> set (cells_of g vs)"
    using distinct_getCells [OF ok] by simp_all
qed

lemma cells_around:
  assumes ok: "grid_ok g" and r: "visibleOf g r = Some t" and l: "tree g In_Element = us @ r # vs"
    and w: "around before us r vs = (ws, zs)"
  shows "cells_of g ws @ c # cells_of g zs = arrived before c t (getCells g)"
  using cells_split [OF ok r l] r w
  by (cases before)
    (auto simp: around_def arrived_def index_in_append)

lemma around_sets:
  assumes "around before us r vs = (ws, zs)"
  shows "set (ws @ zs) = set (us @ r # vs)" "distinct (us @ r # vs) \<Longrightarrow> distinct (ws @ zs)"
  using assms by (auto simp: around_def split: if_splits)

text \<open>The first grid without the cell.\<close>

lemma gone_ok:
  assumes "ready c xs ys g0 a"
  defines "a' \<equiv> a\<lparr>tree := (tree a)(In_Element := xs @ ys)\<rparr>"
  shows "grid_ok a'" "getCells a' = cells_of g0 (xs @ ys)" "outside a' = outside g0"
proof -
  have "outside a' = outside a" by (simp add: a'_def outside_def)
  then show "outside a' = outside g0" using assms(1) by (simp add: ready_def)
  have r: "grid_ok a" "plain a c" "tree a In_Element = xs @ c # ys"
    "cells_of a (xs @ ys) = cells_of g0 (xs @ ys)"
    using assms(1) by (simp_all add: ready_def)
  have d: "distinct (xs @ c # ys)"
    using proper_distinct [OF grid_okD(1) [OF r(1)], of In_Element] r(3) by simp
  then have "distinct (xs @ ys)" by simp
  note k = new_kids_ok [OF r(1) this]
  show "grid_ok a'" unfolding a'_def
    by (rule k(1)) (use r(2,3) in \<open>auto simp: plain_def\<close>)
  show "getCells a' = cells_of g0 (xs @ ys)" unfolding a'_def r(4) [symmetric]
    by (rule k(2)) (use r(2,3) in \<open>auto simp: plain_def\<close>)
qed

lemma cells_removed:
  assumes ok: "grid_ok g" and h: "visibleOf g h = Some c" and l: "tree g In_Element = xs @ h # ys"
  shows "cells_of g (xs @ ys) = removeAll c (getCells g)"
  using cells_split [OF assms] by simp

lemma insert_started:
  assumes ok: "linked_ok s" and c: "c \<in> set (cellsArray (this_grid s))"
    and h: "hiddenOf (this_grid s) c = Some h" "visibleOf (this_grid s) h = Some c"
      "tree (this_grid s) In_Element = xs @ h # ys"
    and chain: "page_chain s c = chain_of (this_grid s) c"
  obtains a b where
    "insertAcross L c onto s = in_order
       [(case onto of None \<Rightarrow> throw TypeError
          | Some r \<Rightarrow> upd (rearrange [c] (detachAndInsertInPlace c r))),
        in_that L (\<lambda>B. attachCell B (Some c)),
        in_that L (\<lambda>B. upd (removeClass c Visible_Cell)),
        in_that L (\<lambda>B. upd (setCellAbsolutePositionAndSize B c (page_box L s c))),
        in_that L (\<lambda>B. upd (addClass c Visible_Cell)),
        onlyIf (hasClass (this_grid s) c Drag_Cell) (in_that L (\<lambda>B. upd (addClass c Drag_Cell)))]
       (pair_of s a b)"
    "ready c xs ys (this_grid s) a" "near (that_grid s) b" "nextId a = nextId (this_grid s)"
    "nextId b = nextId (this_grid s)" "\<not> hasClass a c Drag_Cell"
proof -
  have n: "nextId (this_grid s) = nextId (that_grid s)"
    using ok by (simp add: linked_ok_def synced_def)
  have pc: "page_chain (pair_of s (this_grid s) (that_grid s)) c = chain_of (this_grid s) c"
    using chain by simp
  obtain a1 b1 where s1: "detach_from_this L c (pair_of s (this_grid s) (that_grid s)) = (None, pair_of s a1 b1)"
    "taken_out c xs ys (this_grid s) a1" "ready c xs ys (this_grid s) a1" "near (that_grid s) b1"
    "nextId a1 = nextId b1" "nextId a1 = nextId (this_grid s)"
    "hasClass a1 c Drag_Cell = hasClass (this_grid s) c Drag_Cell"
    by (rule detach_this_result [where L = L, OF ok c h near_refl n pc])
  obtain b2 where s2: "onlyIf (hasClass (this_grid s) c Drag_Cell)
      (in_this L (\<lambda>B. upd (removeClass c Drag_Cell))) (pair_of s a1 b1) =
      (None, pair_of s (removeClass c Drag_Cell a1) b2)" "near b1 b2" "nextId b2 = nextId b1"
    using undrag_step [OF s1(5), of c L s] unfolding s1(7) by blast
  show thesis
  proof (rule that)
    show "insertAcross L c onto s = in_order
       [(case onto of None \<Rightarrow> throw TypeError
          | Some r \<Rightarrow> upd (rearrange [c] (detachAndInsertInPlace c r))),
        in_that L (\<lambda>B. attachCell B (Some c)),
        in_that L (\<lambda>B. upd (removeClass c Visible_Cell)),
        in_that L (\<lambda>B. upd (setCellAbsolutePositionAndSize B c (page_box L s c))),
        in_that L (\<lambda>B. upd (addClass c Visible_Cell)),
        onlyIf (hasClass (this_grid s) c Drag_Cell) (in_that L (\<lambda>B. upd (addClass c Drag_Cell)))]
       (pair_of s (removeClass c Drag_Cell a1) b2)"
      using s1(1) s2(1) by (simp add: insertAcross_def andThen_def readThen_def s1(7))
    show "ready c xs ys (this_grid s) (removeClass c Drag_Cell a1)" by (rule ready_undrag [OF s1(3)])
    show "near (that_grid s) b2" using near_trans [OF s1(4) s2(2)] .
    show "\<not> hasClass (removeClass c Drag_Cell a1) c Drag_Cell" by (simp add: hasClass_def removeClass_def)
  qed (use s1(5,6) s2(3) in simp_all)
qed

lemma insert_prepared:
  assumes "linked_ok s" "c \<in> set (cellsArray (this_grid s))" "hiddenOf (this_grid s) c = Some h"
    "visibleOf (this_grid s) h = Some c" "tree (this_grid s) In_Element = xs @ h # ys"
    "page_chain s c = chain_of (this_grid s) c"
  obtains a b where
    "insertAcross L c (Some r) s = in_order
       [upd (rearrange [c] (detachAndInsertInPlace c r)),
        in_that L (\<lambda>B. attachCell B (Some c)),
        in_that L (\<lambda>B. upd (removeClass c Visible_Cell)),
        in_that L (\<lambda>B. upd (setCellAbsolutePositionAndSize B c (page_box L s c))),
        in_that L (\<lambda>B. upd (addClass c Visible_Cell)),
        onlyIf (hasClass (this_grid s) c Drag_Cell) (in_that L (\<lambda>B. upd (addClass c Drag_Cell)))]
       (pair_of s a b)"
    "ready c xs ys (this_grid s) a" "near (that_grid s) b" "nextId a = nextId (this_grid s)"
    "nextId b = nextId (this_grid s)" "\<not> hasClass a c Drag_Cell"
  using insert_started [where L = L and onto = "Some r", OF assms] unfolding option.case by blast

text \<open>The children of the two grids while the cell is a plain child of the first one.\<close>

lemma page_lists:
  assumes sep: "separate (this_grid s) (that_grid s)"
    and a: "ready c xs ys (this_grid s) a" "tree (this_grid s) In_Element = xs @ h # ys"
    and b: "grid_ok b" "tree b In_Element = us @ r # vs"
      "\<And>x. x \<in> set (us @ r # vs) \<Longrightarrow> in_grid (that_grid s) x" "\<not> in_grid (that_grid s) c"
  shows "tree a In_Element = xs @ c # ys" "distinct (xs @ c # ys)" "distinct (us @ r # vs)"
    "set (xs @ c # ys) \<inter> set (us @ r # vs) = {}"
proof -
  show l: "tree a In_Element = xs @ c # ys" using a(1) by (simp add: ready_def)
  have "grid_ok a" using a(1) by (simp add: ready_def)
  from proper_distinct [OF grid_okD(1) [OF this], of In_Element] l
  show "distinct (xs @ c # ys)" by simp
  show "distinct (us @ r # vs)"
    using proper_distinct [OF grid_okD(1) [OF b(1)], of In_Element] b(2) by simp
  have "x \<notin> set (us @ r # vs)" if "x \<in> set (xs @ c # ys)" for x
    using that a(2) b(3) [of x] b(4) sep by (auto simp: separate_def in_grid_iff)
  then show "set (xs @ c # ys) \<inter> set (us @ r # vs) = {}" by blast
qed

lemma insert_rest:
  assumes a: "ready c xs ys g0 a" and b: "grid_ok b" "tree b In_Element = us @ r # vs"
    and c: "\<not> in_grid b c" "c \<notin> outside b" "c < nextId b" and n: "nextId a = nextId b"
    and d: "distinct (xs @ c # ys)" "distinct (us @ r # vs)"
      "set (xs @ c # ys) \<inter> set (us @ r # vs) = {}"
    and w: "around (length us < length xs) us r vs = (ws, zs)"
  obtains a' b' where
    "in_order
       [upd (rearrange [c] (detachAndInsertInPlace c r)),
        in_that L (\<lambda>B. attachCell B (Some c)),
        in_that L (\<lambda>B. upd (removeClass c Visible_Cell)),
        in_that L (\<lambda>B. upd (setCellAbsolutePositionAndSize B c box)),
        in_that L (\<lambda>B. upd (addClass c Visible_Cell)),
        onlyIf drag (in_that L (\<lambda>B. upd (addClass c Drag_Cell)))] (pair_of s a b) =
     (None, pair_of s a' b')"
    "near (a\<lparr>tree := (tree a)(In_Element := xs @ ys)\<rparr>) a'"
    "joined c (nextId b) (redrag drag c a) ws zs b b'" "synced (pair_of s a' b')"
proof -
  let ?a3 = "a\<lparr>tree := (tree a)(In_Element := xs @ ys)\<rparr>"
  let ?b3 = "hand_over c a (b\<lparr>tree := (tree b)(In_Element := ws @ c # zs)\<rparr>)"
  have ra: "grid_ok a" "plain a c" "tree a In_Element = xs @ c # ys" using a by (simp_all add: ready_def)
  have s3: "upd (rearrange [c] (detachAndInsertInPlace c r)) (pair_of s a b) = (None, pair_of s ?a3 ?b3)"
    unfolding upd_def rearrange_insert [OF ra(3) b(2) d w] ..
  note ws = around_sets [OF w]
  obtain b4 where s4: "attachCell (L ?a3) (Some c) ?b3 = (None, b4)" "nextId b4 = Suc (nextId ?b3)"
    "joined c (nextId ?b3) a ws zs b b4"
    by (rule join_result [OF b(1) ra(1,2) c ws(2) [OF d(2)]]) (use ws(1) b(2) in auto)
  have s4': "in_that L (\<lambda>B. attachCell B (Some c)) (pair_of s ?a3 ?b3) =
      (None, pair_of s (share b4 ?a3) b4)"
    by (rule in_that_step) (rule s4(1))
  have n3: "nextId ?b3 = nextId b" "nextId ?a3 = nextId b" using n by (simp_all add: hand_over_def)
  have na: "near ?a3 (share b4 ?a3)" using near_share n3 s4(2) by simp
  have a4: "grid_ok (share b4 ?a3)" "nextId (share b4 ?a3) = nextId b4"
    using near_ok [OF na gone_ok(1) [OF a]] by simp_all
  let ?fs = "[in_that L (\<lambda>B. upd (removeClass c Visible_Cell)),
      in_that L (\<lambda>B. upd (setCellAbsolutePositionAndSize B c box)),
      in_that L (\<lambda>B. upd (addClass c Visible_Cell))]"
  have fs: "\<forall>f \<in> set ?fs. gentle f" by (simp add: gentle_leaves)
  obtain a5 b5 where s5: "in_order (?fs @ [onlyIf drag (in_that L (\<lambda>B. upd (addClass c Drag_Cell)))])
      (pair_of s (share b4 ?a3) b4) = (None, pair_of s a5 b5)" "near (share b4 ?a3) a5"
    "joined c (nextId ?b3) (redrag drag c a) ws zs b b5" "synced (pair_of s a5 b5)"
    by (rule last_steps [OF fs a4(1) s4(3) a4(2)])
  show thesis
    by (rule that [of a5 b5])
      (use s3 s4' s5 n3(1) near_trans [OF na s5(2)] in \<open>simp_all add: andThen_def\<close>)
qed

lemma insert_crossed:
  assumes ok: "linked_ok s" and c: "c \<in> set (cellsArray (this_grid s))" "\<not> in_grid (that_grid s) c"
    and a: "ready c xs ys (this_grid s) a" "tree (this_grid s) In_Element = xs @ h # ys"
      "c \<notin> set (xs @ ys)" "near (a\<lparr>tree := (tree a)(In_Element := xs @ ys)\<rparr>) a'"
    and b: "near (that_grid s) b" "set (ws @ zs) = set (tree (that_grid s) In_Element)"
      "joined c (nextId b) (redrag (hasClass (this_grid s) c Drag_Cell) c a) ws zs b b'"
    and n: "nextId b = nextId (this_grid s)" and undragged: "\<not> hasClass a c Drag_Cell"
    and sync: "synced (pair_of s a' b')"
  shows "crossed c s (pair_of s a' b')"
proof -
  have g: "grid_ok (this_grid s)" "grid_ok (that_grid s)" "nextId (this_grid s) = nextId (that_grid s)"
    and sep: "separate (this_grid s) (that_grid s)"
    using ok by (simp_all add: linked_ok_def synced_def)
  have ing: "in_grid a' x \<longleftrightarrow> x \<in> set (xs @ ys) \<or> x \<in> set (tree (this_grid s) In_Container) - {c}" for x
    using near_cells(4) [OF a(4)] a(1) by (simp add: in_grid_iff ready_def)
  have inb: "in_grid b' x \<longleftrightarrow> x = nextId (this_grid s) \<or> x = c \<or> in_grid (that_grid s) x" for x
    using b n by (auto simp: joined_def in_grid_iff near_def)
  have this_x: "in_grid (this_grid s) x \<and> x \<noteq> c" if "in_grid a' x" for x
    using that a(2,3) unfolding ing by (auto simp: in_grid_iff)
  have "linked_ok (pair_of s a' b')"
  proof (rule linked_ok_pair [OF ok sync])
    show "in_grid (this_grid s) x \<or> in_grid (that_grid s) x \<or> nextId (this_grid s) \<le> x"
      if "in_grid a' x \<or> in_grid b' x" for x
      using that this_x [of x] c(1) grid_okD(8) [OF g(1)] unfolding inb by (auto simp: in_grid_iff)
    show "\<not> in_grid b' x" if "in_grid a' x" for x
      using this_x [OF that] sep grid_okD(3) [OF g(1), of x] unfolding inb
      by (auto simp: separate_def in_grid_iff)
    show "outside a' = outside (this_grid s)"
      using near_cells(5) [OF a(4)] gone_ok(3) [OF a(1)] by simp
    show "outside b' = outside (that_grid s)"
      using b(3) near_cells(5) [OF b(1)] by (simp add: joined_def)
  qed
  moreover have "hasClass b' e Drag_Cell =
      (if e = c then hasClass (this_grid s) c Drag_Cell else hasClass (that_grid s) e Drag_Cell)"
    "downDiff b' c = downDiff (this_grid s) c" if "e < nextId (this_grid s)" for e
    using that b(1,3) n a(1) undragged
    by (simp_all add: joined_def near_def redrag_def ready_def)
      (simp_all add: hasClass_def addClass_def)
  moreover have "hasClass a' e Drag_Cell = hasClass (this_grid s) e Drag_Cell" if "e \<noteq> c" for e
    using that a(1,4) by (simp add: near_def ready_def hasClass_def)
  moreover have "cellsArray b' = cellsArray (that_grid s) @ [c]" "options b' = options (that_grid s)"
    "el b' = el (that_grid s)" using b by (simp_all add: joined_def near_def)
  moreover have "cellsArray a' = removeAll c (cellsArray (this_grid s))"
    "options a' = options (this_grid s)" using a(1,4) by (simp_all add: near_def ready_def)
  moreover have "e < nextId (this_grid s)" if "e \<in> set (cellsArray (that_grid s))" for e
    using that grid_okD(3,8) [OF g(2)] g(3) by auto
  moreover have "c < nextId (this_grid s)" using c(1) grid_okD(3,8) [OF g(1)] by auto
  ultimately show ?thesis using g(3) by (simp add: crossed_def)
qed

lemma insertAcross_result:
  assumes ok: "linked_ok s" and c: "c \<in> set (cellsArray (this_grid s))"
    and t: "t \<in> set (cellsArray (that_grid s))" and r: "hiddenOf (that_grid s) t = Some r"
  obtains s' where "insertAcross L c (Some r) s = (None, s')" "crossed c s s'"
    "getCells (this_grid s') = removeAll c (getCells (this_grid s))"
    "getCells (that_grid s') = arrived (lands_before c t s) c t (getCells (that_grid s))"
proof -
  obtain h xs ys r' us vs where p: "hiddenOf (this_grid s) c = Some h"
    "visibleOf (this_grid s) h = Some c" "tree (this_grid s) In_Element = xs @ h # ys"
    "hiddenOf (that_grid s) t = Some r'" "visibleOf (that_grid s) r' = Some t"
    "tree (that_grid s) In_Element = us @ r' # vs"
    "page_chain s c = chain_of (this_grid s) c" "page_chain s t = chain_of (that_grid s) t"
    "page_hidden s c = Some h" "page_hidden s t = Some r'"
    "\<not> in_grid (that_grid s) c" "c \<notin> outside (that_grid s)" "c < nextId (that_grid s)"
    "\<not> in_grid (this_grid s) t" "t \<notin> outside (this_grid s)" "t < nextId (this_grid s)"
    by (rule linked_places [OF ok c t])
  have "r' = r" using r p(4) by simp
  note p = p [unfolded this]
  have g: "grid_ok (this_grid s)" "grid_ok (that_grid s)" "nextId (this_grid s) = nextId (that_grid s)"
    and sep: "separate (this_grid s) (that_grid s)"
    using ok by (simp_all add: linked_ok_def synced_def)
  from insert_prepared [OF ok c p(1-3,7), of L r] obtain a b where
    run: "insertAcross L c (Some r) s = in_order
       [upd (rearrange [c] (detachAndInsertInPlace c r)),
        in_that L (\<lambda>B. attachCell B (Some c)),
        in_that L (\<lambda>B. upd (removeClass c Visible_Cell)),
        in_that L (\<lambda>B. upd (setCellAbsolutePositionAndSize B c (page_box L s c))),
        in_that L (\<lambda>B. upd (addClass c Visible_Cell)),
        onlyIf (hasClass (this_grid s) c Drag_Cell) (in_that L (\<lambda>B. upd (addClass c Drag_Cell)))]
       (pair_of s a b)"
    and ab: "ready c xs ys (this_grid s) a" "near (that_grid s) b" "nextId a = nextId (this_grid s)"
    "nextId b = nextId (this_grid s)" "\<not> hasClass a c Drag_Cell" .
  have b: "grid_ok b" "tree b In_Element = us @ r # vs" "\<not> in_grid b c" "c \<notin> outside b"
    "c < nextId b" "nextId a = nextId b"
    using near_ok [OF ab(2) g(2)] near_cells(4,5) [OF ab(2)] p(6,11-13) g(3) ab
    by (simp_all add: near_def)
  have "in_grid (that_grid s) x" if "x \<in> set (us @ r # vs)" for x
    using that p(6) by (simp add: in_grid_iff)
  note d = page_lists [OF sep ab(1) p(3) b(1,2) this p(11)]
  obtain ws zs where w: "around (length us < length xs) us r vs = (ws, zs)" by fastforce
  from insert_rest [OF ab(1) b d(2-4) w] obtain a' b' where
    s': "insertAcross L c (Some r) s = (None, pair_of s a' b')"
      "near (a\<lparr>tree := (tree a)(In_Element := xs @ ys)\<rparr>) a'"
      "joined c (nextId b) (redrag (hasClass (this_grid s) c Drag_Cell) c a) ws zs b b'"
      "synced (pair_of s a' b')" unfolding run by blast
  have "length us < length xs \<longleftrightarrow> lands_before c t s"
    using d p(1,3,4,6) proper_distinct [OF grid_okD(1) [OF g(1)], of In_Element]
      index_in_append [of h xs ys] index_in_append [of r us vs] by (simp add: lands_before_def)
  then have "getCells b' = arrived (lands_before c t s) c t (getCells (that_grid s))"
    using s'(3) cells_around [OF g(2) p(5,6) w] near_cells(2) [OF ab(2)] by (simp add: joined_def)
  moreover have "getCells a' = removeAll c (getCells (this_grid s))"
    using near_cells(1) [OF s'(2)] gone_ok(2) [OF ab(1)] cells_removed [OF g(1) p(2,3)] by simp
  moreover have "crossed c s (pair_of s a' b')"
    by (rule insert_crossed [OF ok c p(11) ab(1) p(3) _ s'(2) ab(2) _ s'(3) ab(4,5) s'(4)])
      (use d(2) around_sets(1) [OF w] p(6) in simp_all)
  ultimately show thesis using that [OF s'(1)] by simp
qed

section \<open>Exchanging two cells\<close>

lemma detach_that_result:
  assumes ok: "linked_ok s" and t: "t \<in> set (cellsArray (that_grid s))"
    and r: "hiddenOf (that_grid s) t = Some r" "visibleOf (that_grid s) r = Some t"
      "tree (that_grid s) In_Element = us @ r # vs"
    and chain: "page_chain s t = chain_of (that_grid s) t"
  obtains a b where "detach_from_that L t s = (None, pair_of s a b)"
    "near (this_grid s) a" "taken_out t us vs (that_grid s) b" "nextId a = nextId b"
    "nextId b = nextId (this_grid s)"
proof -
  have g: "grid_ok (that_grid s)" "nextId (this_grid s) = nextId (that_grid s)"
    using ok by (simp_all add: linked_ok_def synced_def)
  obtain b where b: "detachCell (L (this_grid s)) (chain_of (that_grid s) t) (that_grid s) = (None, b)"
    "taken_out t us vs (that_grid s) b" by (rule detachCell_takes_out [OF g(1) t r])
  have n: "nextId b = nextId (that_grid s)" using b(2) by (simp add: taken_out_def)
  have "detach_from_that L t s = (None, pair_of s (share b (this_grid s)) b)"
    using in_that_step [of "\<lambda>B. detachCell B (chain_of (that_grid s) t)" L "this_grid s" "that_grid s" b s]
      b(1) chain by (simp add: detach_from_that_def js_defs)
  then show thesis
    using that [of "share b (this_grid s)" b] b(2) n g(2) near_share [of "this_grid s" b] by simp
qed

lemma swap_prepared:
  assumes ok: "linked_ok s" and c: "c \<in> set (cellsArray (this_grid s))"
    and h: "hiddenOf (this_grid s) c = Some h" "visibleOf (this_grid s) h = Some c"
      "tree (this_grid s) In_Element = xs @ h # ys"
    and t: "t \<in> set (cellsArray (that_grid s))"
    and r: "hiddenOf (that_grid s) t = Some r" "visibleOf (that_grid s) r = Some t"
      "tree (that_grid s) In_Element = us @ r # vs"
    and chain: "page_chain s t = chain_of (that_grid s) t"
  obtains a b where
    "swapAcross L c (Some t) s = in_order
       [upd (rearrange [c, t] (swapJQueryElements c t)),
        in_that L (\<lambda>B. attachCell B (Some c)), in_this L (\<lambda>B. attachCell B (Some t)),
        in_that L (\<lambda>B. upd (clearAbsoluteCSS c)), in_this L (\<lambda>B. upd (clearAbsoluteCSS t)),
        in_that L (\<lambda>B. upd (setCellAbsolutePositionAndSize B c (page_box L s c))),
        in_this L (\<lambda>B. upd (setCellAbsolutePositionAndSize B t (page_box L s t))),
        in_that L (\<lambda>B. upd (setCellAbsolutePositionAndSize B c (page_box L s t))),
        in_this L (\<lambda>B. upd (setCellAbsolutePositionAndSize B t (page_box L s c))),
        onlyIf (hasClass (this_grid s) c Drag_Cell) (in_that L (\<lambda>B. upd (addClass c Drag_Cell)))]
       (pair_of s a b)"
    "ready c xs ys (this_grid s) a" "ready t us vs (that_grid s) b"
    "nextId a = nextId (this_grid s)" "nextId b = nextId (this_grid s)" "\<not> hasClass a c Drag_Cell"
    "hasClass b t Drag_Cell = hasClass (that_grid s) t Drag_Cell"
proof -
  obtain a0 b0 where s0: "detach_from_that L t s = (None, pair_of s a0 b0)"
    "near (this_grid s) a0" "taken_out t us vs (that_grid s) b0" "nextId a0 = nextId b0"
    "nextId b0 = nextId (this_grid s)"
    by (rule detach_that_result [where L = L, OF ok t r chain])
  have "in_grid a0 c"
    using near_cells(4) [OF s0(2)] c ok grid_okD(8) [of "this_grid s"]
    by (simp add: in_grid_iff linked_ok_def synced_def)
  then have pc: "page_chain (pair_of s a0 b0) c = chain_of a0 c" by (simp add: page_chain_def)
  obtain a1 b1 where s1: "detach_from_this L c (pair_of s a0 b0) = (None, pair_of s a1 b1)"
    "taken_out c xs ys a0 a1" "ready c xs ys (this_grid s) a1" "near b0 b1"
    "nextId a1 = nextId b1" "nextId a1 = nextId a0"
    "hasClass a1 c Drag_Cell = hasClass (this_grid s) c Drag_Cell"
    by (rule detach_this_result [where L = L, OF ok c h s0(2,4) pc])
  obtain b2 where s2: "onlyIf (hasClass (this_grid s) c Drag_Cell)
      (in_this L (\<lambda>B. upd (removeClass c Drag_Cell))) (pair_of s a1 b1) =
      (None, pair_of s (removeClass c Drag_Cell a1) b2)" "near b1 b2" "nextId b2 = nextId b1"
    using undrag_step [OF s1(5), of c L s] unfolding s1(7) by blast
  note nb = near_trans [OF s1(4) s2(2)]
  show thesis
  proof (rule that)
    show "swapAcross L c (Some t) s = in_order
       [upd (rearrange [c, t] (swapJQueryElements c t)),
        in_that L (\<lambda>B. attachCell B (Some c)), in_this L (\<lambda>B. attachCell B (Some t)),
        in_that L (\<lambda>B. upd (clearAbsoluteCSS c)), in_this L (\<lambda>B. upd (clearAbsoluteCSS t)),
        in_that L (\<lambda>B. upd (setCellAbsolutePositionAndSize B c (page_box L s c))),
        in_this L (\<lambda>B. upd (setCellAbsolutePositionAndSize B t (page_box L s t))),
        in_that L (\<lambda>B. upd (setCellAbsolutePositionAndSize B c (page_box L s t))),
        in_this L (\<lambda>B. upd (setCellAbsolutePositionAndSize B t (page_box L s c))),
        onlyIf (hasClass (this_grid s) c Drag_Cell) (in_that L (\<lambda>B. upd (addClass c Drag_Cell)))]
       (pair_of s (removeClass c Drag_Cell a1) b2)"
      using s0(1) s1(1) s2(1) by (simp add: swapAcross_def andThen_def readThen_def s1(7))
    show "ready c xs ys (this_grid s) (removeClass c Drag_Cell a1)" by (rule ready_undrag [OF s1(3)])
    show "ready t us vs (that_grid s) b2" by (rule ready_near [OF taken_out_ready [OF s0(3)] nb])
    show "\<not> hasClass (removeClass c Drag_Cell a1) c Drag_Cell" by (simp add: hasClass_def removeClass_def)
    show "hasClass b2 t Drag_Cell = hasClass (that_grid s) t Drag_Cell"
      using s0(3) nb by (simp add: taken_out_def near_def)
  qed (use s0(4,5) s1(5,6) s2(3) in simp_all)
qed

lemma swap_rest:
  assumes a: "ready c xs ys g0 a" and b: "ready t us vs g1 b" and n: "nextId a = nextId b"
    and c: "\<not> in_grid b c" "c \<notin> outside b" "c < nextId b"
    and t: "\<not> in_grid a t" "t \<notin> outside a" "t < nextId a"
    and d: "distinct (xs @ c # ys)" "distinct (us @ t # vs)"
      "set (xs @ c # ys) \<inter> set (us @ t # vs) = {}"
  obtains a' b' where
    "in_order
       [upd (rearrange [c, t] (swapJQueryElements c t)),
        in_that L (\<lambda>B. attachCell B (Some c)), in_this L (\<lambda>B. attachCell B (Some t)),
        in_that L (\<lambda>B. upd (clearAbsoluteCSS c)), in_this L (\<lambda>B. upd (clearAbsoluteCSS t)),
        in_that L (\<lambda>B. upd (setCellAbsolutePositionAndSize B c boxc)),
        in_this L (\<lambda>B. upd (setCellAbsolutePositionAndSize B t boxt)),
        in_that L (\<lambda>B. upd (setCellAbsolutePositionAndSize B c boxt)),
        in_this L (\<lambda>B. upd (setCellAbsolutePositionAndSize B t boxc)),
        onlyIf drag (in_that L (\<lambda>B. upd (addClass c Drag_Cell)))] (pair_of s a b) =
     (None, pair_of s a' b')"
    "joined t (Suc (nextId b)) b xs ys a a'"
    "joined c (nextId b) (redrag drag c a) us vs b b'" "synced (pair_of s a' b')"
proof -
  let ?a3 = "hand_over t b (a\<lparr>tree := (tree a)(In_Element := xs @ t # ys)\<rparr>)"
  let ?b3 = "hand_over c a (b\<lparr>tree := (tree b)(In_Element := us @ c # vs)\<rparr>)"
  have ra: "grid_ok a" "plain a c" "tree a In_Element = xs @ c # ys" using a by (simp_all add: ready_def)
  have rb: "grid_ok b" "plain b t" "tree b In_Element = us @ t # vs" using b by (simp_all add: ready_def)
  have s3: "upd (rearrange [c, t] (swapJQueryElements c t)) (pair_of s a b) = (None, pair_of s ?a3 ?b3)"
    unfolding upd_def rearrange_swap [OF ra(3) rb(3) d] ..
  have du: "distinct (us @ vs)" "distinct (xs @ ys)" using d by simp_all
  obtain b4 where s4: "attachCell (L ?a3) (Some c) ?b3 = (None, b4)" "nextId b4 = Suc (nextId ?b3)"
    "joined c (nextId ?b3) a us vs b b4"
    by (rule join_result [OF rb(1) ra(1,2) c du(1)]) (use rb(2,3) in \<open>auto simp: plain_def\<close>)
  have s4': "in_that L (\<lambda>B. attachCell B (Some c)) (pair_of s ?a3 ?b3) =
      (None, pair_of s (share b4 ?a3) b4)"
    by (rule in_that_step) (rule s4(1))
  have n3: "nextId ?b3 = nextId b" "nextId ?a3 = nextId b" using n by (simp_all add: hand_over_def)
  have na: "near ?a3 (share b4 ?a3)" using near_share n3 s4(2) by simp
  obtain a5 where s5: "attachCell (L b4) (Some t) (share b4 ?a3) = (None, a5)"
    "nextId a5 = Suc (nextId (share b4 ?a3))" "joined t (nextId (share b4 ?a3)) b xs ys a a5"
    by (rule join_result [OF ra(1) rb(1,2) t du(2) _ _ na])
      (use ra(2,3) in \<open>auto simp: plain_def\<close>)
  have s5': "in_this L (\<lambda>B. attachCell B (Some t)) (pair_of s (share b4 ?a3) b4) =
      (None, pair_of s a5 (share a5 b4))"
    by (rule in_this_step) (rule s5(1))
  have j5: "joined t (Suc (nextId b)) b xs ys a a5" using s5(3) s4(2) n3(1) by simp
  have j6: "joined c (nextId b) a us vs b (share a5 b4)"
    using joined_near [OF s4(3) near_share [of b4 a5]] s5(2) n3(1) by simp
  let ?fs = "[in_that L (\<lambda>B. upd (clearAbsoluteCSS c)), in_this L (\<lambda>B. upd (clearAbsoluteCSS t)),
        in_that L (\<lambda>B. upd (setCellAbsolutePositionAndSize B c boxc)),
        in_this L (\<lambda>B. upd (setCellAbsolutePositionAndSize B t boxt)),
        in_that L (\<lambda>B. upd (setCellAbsolutePositionAndSize B c boxt)),
        in_this L (\<lambda>B. upd (setCellAbsolutePositionAndSize B t boxc))]"
  have fs: "\<forall>f \<in> set ?fs. gentle f" by (simp add: gentle_leaves)
  have a5: "grid_ok a5" "nextId a5 = nextId (share a5 b4)" using j5 by (simp_all add: joined_def)
  obtain a7 b7 where s7: "in_order (?fs @ [onlyIf drag (in_that L (\<lambda>B. upd (addClass c Drag_Cell)))])
      (pair_of s a5 (share a5 b4)) = (None, pair_of s a7 b7)" "near a5 a7"
    "joined c (nextId b) (redrag drag c a) us vs b b7" "synced (pair_of s a7 b7)"
    by (rule last_steps [OF fs a5(1) j6 a5(2)])
  show thesis
    by (rule that [of a7 b7])
      (use s3 s4' s5' s7 joined_near [OF j5 s7(2)] in \<open>simp_all add: andThen_def\<close>)
qed

lemma swap_crossed:
  assumes ok: "linked_ok s" and c: "c \<in> set (cellsArray (this_grid s))"
    and t: "t \<in> set (cellsArray (that_grid s))"
    and a: "ready c xs ys (this_grid s) a" "tree (this_grid s) In_Element = xs @ h # ys"
      "joined t (Suc (nextId (this_grid s))) b xs ys a a'"
    and b: "ready t us vs (that_grid s) b" "tree (that_grid s) In_Element = us @ r # vs"
      "joined c (nextId (this_grid s)) (redrag (hasClass (this_grid s) c Drag_Cell) c a) us vs b b'"
    and undragged: "\<not> hasClass a c Drag_Cell"
      "hasClass b t Drag_Cell = hasClass (that_grid s) t Drag_Cell"
    and d: "c \<notin> set (xs @ ys)" "t \<notin> set (us @ vs)"
    and sync: "synced (pair_of s a' b')"
  shows "crossed c s (pair_of s a' b')"
proof -
  let ?n = "nextId (this_grid s)"
  have g: "grid_ok (this_grid s)" "grid_ok (that_grid s)" "?n = nextId (that_grid s)"
    and sep: "separate (this_grid s) (that_grid s)" "separate (that_grid s) (this_grid s)"
    using ok by (simp_all add: linked_ok_def synced_def)
  have i: "in_grid (this_grid s) c" "in_grid (that_grid s) t"
    using c t grid_okD(8) [OF g(1)] grid_okD(8) [OF g(2)] by (simp_all add: in_grid_iff)
  have less: "x < ?n" if "in_grid (this_grid s) x \<or> in_grid (that_grid s) x" for x
    using that g(3) grid_okD(3) [OF g(1), of x] grid_okD(3) [OF g(2), of x] by (auto simp: in_grid_iff)
  have ing: "in_grid a' x \<Longrightarrow> x = Suc ?n \<or> x = t \<or> in_grid (this_grid s) x \<and> x \<noteq> c" for x
    using a d(1) by (auto simp: joined_def ready_def in_grid_iff)
  have inb: "in_grid b' x \<Longrightarrow> x = ?n \<or> x = c \<or> in_grid (that_grid s) x \<and> x \<noteq> t" for x
    using b d(2) by (auto simp: joined_def ready_def in_grid_iff)
  have apart: "\<not> (in_grid (this_grid s) x \<and> in_grid (that_grid s) x)" for x
    using sep(1) by (auto simp: separate_def)
  have "linked_ok (pair_of s a' b')"
  proof (rule linked_ok_pair [OF ok sync])
    show "in_grid (this_grid s) x \<or> in_grid (that_grid s) x \<or> ?n \<le> x"
      if "in_grid a' x \<or> in_grid b' x" for x
      using that ing [of x] inb [of x] i by auto
    show "\<not> in_grid b' x" if "in_grid a' x" for x
      using ing [OF that] inb [of x] less [of x] apart [of x] i by auto
    show "outside a' = outside (this_grid s)" "outside b' = outside (that_grid s)"
      using a(1,3) b(1,3) by (simp_all add: joined_def ready_def)
  qed
  moreover have "hasClass b' e Drag_Cell =
      (if e = c then hasClass (this_grid s) c Drag_Cell else hasClass (that_grid s) e Drag_Cell)"
    if "e < ?n" "e \<noteq> t" for e
    using that a(1) b(1,3) undragged(1)
    by (simp add: joined_def redrag_def ready_def) (simp add: hasClass_def addClass_def)
  moreover have "downDiff b' c = downDiff (this_grid s) c"
    using a(1) b(3) by (simp add: joined_def redrag_def ready_def) (simp add: addClass_def)
  moreover have "hasClass a' e Drag_Cell =
      (if e = t then hasClass (that_grid s) t Drag_Cell else hasClass (this_grid s) e Drag_Cell)"
    if "e < ?n" "e \<noteq> c" for e
    using that a(1,3) undragged(2) by (simp add: joined_def ready_def)
  moreover have "cellsArray b' = removeAll t (cellsArray (that_grid s)) @ [c]"
    "options b' = options (that_grid s)" "el b' = el (that_grid s)"
    using b(1,3) by (simp_all add: joined_def ready_def)
  moreover have "cellsArray a' = removeAll c (cellsArray (this_grid s)) @ [t]"
    "options a' = options (this_grid s)" using a(1,3) by (simp_all add: joined_def ready_def)
  moreover have "e < ?n" if "e \<in> set (cellsArray (this_grid s)) \<or> e \<in> set (cellsArray (that_grid s))" for e
    using that less [of e] grid_okD(8) [OF g(1)] grid_okD(8) [OF g(2)] by (auto simp: in_grid_iff)
  moreover have "c \<noteq> t" "t \<notin> set (cellsArray (this_grid s))"
    using i apart grid_okD(8) [OF g(1)] by (auto simp: in_grid_iff)
  ultimately show ?thesis using c t by (simp add: crossed_def)
qed

lemma exchange_one:
  "t \<notin> set us \<Longrightarrow> t \<notin> set vs \<Longrightarrow> c \<notin> set us \<Longrightarrow> c \<notin> set vs \<Longrightarrow>
     map (exchange c t) (us @ t # vs) = us @ c # vs \<and> map (exchange c t) (us @ c # vs) = us @ t # vs"
proof -
  assume "t \<notin> set us" "t \<notin> set vs" "c \<notin> set us" "c \<notin> set vs"
  moreover have "map (exchange c t) zs = zs" if "c \<notin> set zs" "t \<notin> set zs" for zs
    using that by (induction zs) (auto simp: exchange_def)
  ultimately show ?thesis by (simp add: exchange_def)
qed

lemma swapAcross_result:
  assumes ok: "linked_ok s" and c: "c \<in> set (cellsArray (this_grid s))"
    and t: "t \<in> set (cellsArray (that_grid s))"
  obtains s' where "swapAcross L c (Some t) s = (None, s')" "crossed c s s'"
    "getCells (this_grid s') = map (exchange c t) (getCells (this_grid s))"
    "getCells (that_grid s') = map (exchange c t) (getCells (that_grid s))"
proof -
  obtain h xs ys r us vs where p: "hiddenOf (this_grid s) c = Some h"
    "visibleOf (this_grid s) h = Some c" "tree (this_grid s) In_Element = xs @ h # ys"
    "hiddenOf (that_grid s) t = Some r" "visibleOf (that_grid s) r = Some t"
    "tree (that_grid s) In_Element = us @ r # vs"
    "page_chain s c = chain_of (this_grid s) c" "page_chain s t = chain_of (that_grid s) t"
    "page_hidden s c = Some h" "page_hidden s t = Some r"
    "\<not> in_grid (that_grid s) c" "c \<notin> outside (that_grid s)" "c < nextId (that_grid s)"
    "\<not> in_grid (this_grid s) t" "t \<notin> outside (this_grid s)" "t < nextId (this_grid s)"
    by (rule linked_places [OF ok c t])
  have g: "grid_ok (this_grid s)" "grid_ok (that_grid s)" "nextId (this_grid s) = nextId (that_grid s)"
    and sep: "separate (this_grid s) (that_grid s)"
    using ok by (simp_all add: linked_ok_def synced_def)
  from swap_prepared [OF ok c p(1-3) t p(4-6,8), of L] obtain a b where
    run: "swapAcross L c (Some t) s = in_order
       [upd (rearrange [c, t] (swapJQueryElements c t)),
        in_that L (\<lambda>B. attachCell B (Some c)), in_this L (\<lambda>B. attachCell B (Some t)),
        in_that L (\<lambda>B. upd (clearAbsoluteCSS c)), in_this L (\<lambda>B. upd (clearAbsoluteCSS t)),
        in_that L (\<lambda>B. upd (setCellAbsolutePositionAndSize B c (page_box L s c))),
        in_this L (\<lambda>B. upd (setCellAbsolutePositionAndSize B t (page_box L s t))),
        in_that L (\<lambda>B. upd (setCellAbsolutePositionAndSize B c (page_box L s t))),
        in_this L (\<lambda>B. upd (setCellAbsolutePositionAndSize B t (page_box L s c))),
        onlyIf (hasClass (this_grid s) c Drag_Cell) (in_that L (\<lambda>B. upd (addClass c Drag_Cell)))]
       (pair_of s a b)"
    and ab: "ready c xs ys (this_grid s) a" "ready t us vs (that_grid s) b"
    "nextId a = nextId (this_grid s)" "nextId b = nextId (this_grid s)" "\<not> hasClass a c Drag_Cell"
    "hasClass b t Drag_Cell = hasClass (that_grid s) t Drag_Cell" .
  have b: "grid_ok b" "tree b In_Element = us @ t # vs" using ab(2) by (simp_all add: ready_def)
  have bx: "in_grid (that_grid s) x" if "x \<in> set (us @ t # vs)" for x
    using that p(6) t grid_okD(8) [OF g(2)] by (auto simp: in_grid_iff)
  note d = page_lists [OF sep ab(1) p(3) b bx p(11)]
  have ct: "c \<noteq> t" using d(4) by auto
  have fc: "\<not> in_grid b c" "c \<notin> outside b" "c < nextId b"
    using p(6,11-13) ct g(3) ab(2,4) by (auto simp: in_grid_iff ready_def)
  have ft: "\<not> in_grid a t" "t \<notin> outside a" "t < nextId a"
    using p(3,14-16) ct ab(1,3) by (auto simp: in_grid_iff ready_def)
  have n: "nextId a = nextId b" using ab(3,4) by simp
  from swap_rest [OF ab(1,2) n fc ft d(2-4)] obtain a' b' where
    s': "swapAcross L c (Some t) s = (None, pair_of s a' b')"
      "joined t (Suc (nextId b)) b xs ys a a'"
      "joined c (nextId b) (redrag (hasClass (this_grid s) c Drag_Cell) c a) us vs b b'"
      "synced (pair_of s a' b')" unfolding run by blast
  have "crossed c s (pair_of s a' b')"
    by (rule swap_crossed [OF ok c t ab(1) p(3) _ ab(2) p(6) _ ab(5,6) _ _ s'(4)])
      (use s'(2,3) d(2,3) ab(4) in simp_all)
  moreover have "getCells a' = cells_of (this_grid s) xs @ t # cells_of (this_grid s) ys"
    "getCells b' = cells_of (that_grid s) us @ c # cells_of (that_grid s) vs"
    using s'(2,3) ab(1,2) by (simp_all add: joined_def ready_def)
  moreover have "t \<notin> set (getCells (this_grid s))" "c \<notin> set (getCells (that_grid s))"
    using p(11,14) grid_okD(8) [OF g(1)] grid_okD(8) [OF g(2)]
    by (auto simp: set_getCells [OF g(1)] set_getCells [OF g(2)] in_grid_iff)
  moreover note cells_split [OF g(1) p(2,3)] cells_split [OF g(2) p(5,6)]
  ultimately show thesis
    using that [OF s'(1)] exchange_one [of t "cells_of (this_grid s) xs" "cells_of (this_grid s) ys" c]
      exchange_one [of t "cells_of (that_grid s) us" "cells_of (that_grid s) vs" c] by simp
qed

section \<open>\<open>MoveCell\<close> between grids\<close>

text \<open>The lists of the cells after \<open>c\<close> was moved onto \<open>t\<close> of the other grid.\<close>

definition changed_sides :: "nat \<Rightarrow> nat \<Rightarrow> linked \<Rightarrow> linked \<Rightarrow> bool" where
  "changed_sides c t s s' \<longleftrightarrow>
     (if swapMode (options (this_grid s))
      then getCells (this_grid s') = map (exchange c t) (getCells (this_grid s)) \<and>
           getCells (that_grid s') = map (exchange c t) (getCells (that_grid s))
      else getCells (this_grid s') = removeAll c (getCells (this_grid s)) \<and>
           getCells (that_grid s') = arrived (lands_before c t s) c t (getCells (that_grid s)))"

lemma moveCellToGrid_result:
  assumes ok: "linked_ok s" and l: "is_linked s" and c: "c \<in> set (cellsArray (this_grid s))"
    and t: "t \<in> set (cellsArray (that_grid s))"
  obtains s' where "moveCellToGrid L c (Some t) s = (None, s')" "crossed c s s'"
    "changed_sides c t s s'"
proof -
  obtain h xs ys r us vs where p: "hiddenOf (this_grid s) c = Some h"
    "visibleOf (this_grid s) h = Some c" "tree (this_grid s) In_Element = xs @ h # ys"
    "hiddenOf (that_grid s) t = Some r" "visibleOf (that_grid s) r = Some t"
    "tree (that_grid s) In_Element = us @ r # vs"
    "page_chain s c = chain_of (this_grid s) c" "page_chain s t = chain_of (that_grid s) t"
    "page_hidden s c = Some h" "page_hidden s t = Some r"
    "\<not> in_grid (that_grid s) c" "c \<notin> outside (that_grid s)" "c < nextId (that_grid s)"
    "\<not> in_grid (this_grid s) t" "t \<notin> outside (this_grid s)" "t < nextId (this_grid s)"
    by (rule linked_places [OF ok c t])
  have "in_grid (this_grid s) h" "in_grid (that_grid s) r" using p(3,6) by (simp_all add: in_grid_iff)
  then have hr: "r \<noteq> h" using ok by (auto simp: linked_ok_def separate_def)
  let ?move = "if swapMode (options (this_grid s)) then swapAcross L c (Some t)
               else insertAcross L c (Some r)"
  have run: "moveCellToGrid L c (Some t) s = in_order
      [?move, in_that L updateVisibleCellCoordinates, in_this L updateVisibleCellCoordinates] s"
    using p(9,10) hr l by (simp add: moveCellToGrid_def readThen_def onlyIf_def)
  obtain s1 where s1: "?move s = (None, s1)" "crossed c s s1"
    "changed_sides c t s s1"
  proof (cases "swapMode (options (this_grid s))")
    case True
    from swapAcross_result [OF ok c t, of L] obtain s1 where "swapAcross L c (Some t) s = (None, s1)"
      "crossed c s s1" "getCells (this_grid s1) = map (exchange c t) (getCells (this_grid s))"
      "getCells (that_grid s1) = map (exchange c t) (getCells (that_grid s))" .
    then show thesis using that [of s1] True by (simp add: changed_sides_def)
  next
    case False
    from insertAcross_result [OF ok c t p(4), of L] obtain s1 where
      "insertAcross L c (Some r) s = (None, s1)" "crossed c s s1"
      "getCells (this_grid s1) = removeAll c (getCells (this_grid s))"
      "getCells (that_grid s1) = arrived (lands_before c t s) c t (getCells (that_grid s))" .
    then show thesis using that [of s1] False by (simp add: changed_sides_def)
  qed
  have "gentle (in_order [in_that L updateVisibleCellCoordinates, in_this L updateVisibleCellCoordinates])"
    by (intro gentle_in_order) (simp add: gentle_updates)
  moreover have "synced s1" using s1(2) by (simp add: crossed_def linked_ok_def)
  ultimately obtain s2 where s2: "in_order [in_that L updateVisibleCellCoordinates,
      in_this L updateVisibleCellCoordinates] s1 = (None, s2)" "near2 s1 s2"
    unfolding gentle_def by blast
  have "moveCellToGrid L c (Some t) s = (None, s2)"
    using s1(1) s2(1) unfolding run by (simp add: andThen_def)
  then show thesis using that crossed_near [OF s1(2) s2(2)] s1(3) by (simp add: changed_sides_def)
qed

end
