(* ===== verification/Grid_Crossing.thy ===== *)
theory Grid_Crossing
  imports Grid_Across Grid_Drag
begin

text \<open>
  The two ways to send a cell to another grid: \<open>moveCell\<close> with a target grid, which always throws,
  and dragging, which works.
\<close>

section \<open>\<open>moveCell\<close> to the other grid\<close>

lemma rearrange_here:
  assumes "proper (two_lists (pair_of s a b))" "c \<in> set (tree a In_Element)"
    "r \<in> set (tree a In_Element)" "c \<noteq> r"
  shows "rearrange [c] (detachAndInsertInPlace c r) (pair_of s a b) = pair_of s
    (a\<lparr>tree := (tree a)(In_Element := reinsert c (index_in r (tree a In_Element)) (tree a In_Element))\<rparr>) b"
proof -
  have m: "detachAndInsertInPlace c r (two_lists (pair_of s a b)) = (two_lists (pair_of s a b))
      (In_Element := reinsert c (index_in r (tree a In_Element)) (tree a In_Element))"
    using detachAndInsertInPlace_reinsert [OF assms(1), of c In_Element r] assms(2-4) by simp
  have "arrivals [c] (tree a In_Element) zs = []" "arrivals [c] zs zs = []" for zs
    using assms(2) by (simp_all add: arrivals_def)
  then show ?thesis unfolding rearrange_def m Let_def by simp
qed

lemma index_from_none: "(\<And>c. c \<in> set cs \<Longrightarrow> \<not> P c) \<Longrightarrow> index_from i cs P = None"
  by (induction cs arbitrary: i) auto

lemma cells_of_plain: "visibleOf g c = None \<Longrightarrow> cells_of g (removeAll c zs) = cells_of g zs"
  by (induction zs) (auto split: option.splits)

lemma in_that_pair:
  "in_that L f (pair_of s a b) = (case f (L a) b of (e, g) \<Rightarrow> (e, pair_of s (share g a) g))"
  by (simp add: in_that_def pair_of_def)

lemma attach_stranger: "\<not> in_grid g e \<Longrightarrow> attachCell B (Some e) g = (Some ERROR_INVALID_ATTACH_ELEMENT, g)"
  by (simp add: attachCell_def js_defs in_grid_def)

lemma linked_lists: "linked_ok s \<Longrightarrow> proper (two_lists s)"
  by (auto simp: proper_def two_lists_def linked_ok_def synced_def separate_def in_grid_iff
      dest: grid_okD(1) proper_distinct split: place.splits)

text \<open>Once the first grid has let go of the cell, it is a plain child of the grid's element.\<close>

lemma ready_pair:
  assumes ok: "linked_ok s" and a: "ready c xs ys (this_grid s) a"
    and h: "visibleOf (this_grid s) h = Some c" "tree (this_grid s) In_Element = xs @ h # ys"
    and c: "in_grid (this_grid s) c"
    and b: "near (that_grid s) b" and n: "nextId a = nextId b"
  shows "linked_ok (pair_of s a b)" "getCells a = removeAll c (getCells (this_grid s))"
    "getCells b = getCells (that_grid s)"
proof -
  have g: "grid_ok (this_grid s)" "grid_ok (that_grid s)" using ok by (simp_all add: linked_ok_def synced_def)
  have r: "grid_ok a" "plain a c" "tree a In_Element = xs @ c # ys" "outside a = outside (this_grid s)"
    "tree a In_Container = removeAll c (tree (this_grid s) In_Container)"
    "cells_of a (xs @ ys) = cells_of (this_grid s) (xs @ ys)" using a by (simp_all add: ready_def)
  have "in_grid (this_grid s) x" if "in_grid a x" for x
    using that c h(2) r(3,5) by (auto simp: in_grid_iff)
  then show "linked_ok (pair_of s a b)"
    using ok r(1,4) n near_ok [OF b g(2)] near_cells(4,5) [OF b]
    by (auto simp: linked_ok_def synced_def separate_def)
  have "visibleOf a c = None" using r(2) by (simp add: plain_def)
  then have "getCells a = cells_of a (xs @ ys)" using r(3) by (simp add: getCells_kids [OF r(1)])
  then show "getCells a = removeAll c (getCells (this_grid s))"
    using r(6) cells_removed [OF g(1) h] by simp
  show "getCells b = getCells (that_grid s)" using near_cells(1) [OF b] .
qed

lemma reordered_pair:
  assumes ok: "linked_ok (pair_of s a b)" and d: "distinct kids"
    and e: "set kids = set (tree a In_Element)"
  defines "a' \<equiv> a\<lparr>tree := (tree a)(In_Element := kids)\<rparr>"
  shows "linked_ok (pair_of s (share b a') b)" "getCells (share b a') = cells_of a kids"
proof -
  have g: "grid_ok a" "grid_ok b" "nextId a = nextId b" "separate a b" "separate b a"
    using ok by (simp_all add: linked_ok_def synced_def)
  have n: "near a' (share b a')" using near_share [of a' b] g(3) by (simp add: a'_def)
  have i: "in_grid (share b a') x = in_grid a x" "outside (share b a') = outside a" for x
    using near_cells(4,5) [OF n] e by (auto simp: a'_def in_grid_iff outside_def)
  show "linked_ok (pair_of s (share b a') b)"
    using near_ok [OF n] reorder_ok(1) [OF g(1) d e] g i
    unfolding linked_ok_def synced_def separate_def pair_of_simps a'_def by (simp add: share_def)
  show "getCells (share b a') = cells_of a kids"
    using near_cells(1) [OF n] reorder_ok(2) [OF g(1) d e] by (simp add: a'_def)
qed

lemma moveToGrid_insert_throws:
  assumes ok: "linked_ok s" and l: "is_linked s" and mode: "\<not> swapMode (options (this_grid s))"
    and c: "c \<in> set (cellsArray (this_grid s))" and t: "t \<in> set (cellsArray (this_grid s))" "c \<noteq> t"
  obtains s' where "moveCellToGrid L c (Some t) s = (Some ERROR_INVALID_ATTACH_ELEMENT, s')"
    "linked_ok s'" "getCells (this_grid s') = removeAll c (getCells (this_grid s))"
    "getCells (that_grid s') = getCells (that_grid s)"
proof -
  have g: "grid_ok (this_grid s)" "grid_ok (that_grid s)"
    and sep: "separate (this_grid s) (that_grid s)"
    using ok by (simp_all add: linked_ok_def synced_def)
  obtain h xs ys where h: "hiddenOf (this_grid s) c = Some h" "visibleOf (this_grid s) h = Some c"
    "tree (this_grid s) In_Element = xs @ h # ys" using managed_links [OF g(1) c] by blast
  obtain r where r: "hiddenOf (this_grid s) t = Some r" "visibleOf (this_grid s) r = Some t"
    "r \<in> set (tree (this_grid s) In_Element)" using visible_hidden(1) [OF g(1)] managed_links [OF g(1) t(1)] by blast
  have i: "in_grid (this_grid s) c" "in_grid (this_grid s) t"
    using c t grid_okD(8) [OF g(1)] by (simp_all add: in_grid_iff)
  have chain: "page_chain s c = chain_of (this_grid s) c" using i by (simp add: page_chain_def)
  from insert_prepared [OF ok c h chain, of L r] obtain a b where
    run: "insertAcross L c (Some r) s = in_order
       [upd (rearrange [c] (detachAndInsertInPlace c r)),
        in_that L (\<lambda>B. attachCell B (Some c)),
        in_that L (\<lambda>B. upd (removeClass c Visible_Cell)),
        in_that L (\<lambda>B. upd (setCellAbsolutePositionAndSize B c (page_box L s c))),
        in_that L (\<lambda>B. upd (addClass c Visible_Cell)),
        onlyIf (hasClass (this_grid s) c Drag_Cell) (in_that L (\<lambda>B. upd (addClass c Drag_Cell)))]
       (pair_of s a b)"
    and ab: "ready c xs ys (this_grid s) a" "near (that_grid s) b" "nextId a = nextId (this_grid s)"
    "nextId b = nextId (this_grid s)" "\<not> hasClass a c Drag_Cell" .
  have n: "nextId a = nextId b" using ab(3,4) by simp
  note k = ready_pair [OF ok ab(1) h(2,3) i(1) ab(2) n]
  have ra: "grid_ok a" "tree a In_Element = xs @ c # ys" using ab(1) by (simp_all add: ready_def)
  have rh: "r \<noteq> h" using h(2) r(2) t(2) by auto
  have cr: "c \<noteq> r" "r \<in> set (tree a In_Element)" "c \<in> set (tree a In_Element)"
    using rh r(3) h(3) ra(2) c grid_okD(1,8) [OF g(1)] by (auto simp: proper_def)
  have p: "proper (two_lists (pair_of s a b))"
    using linked_lists [OF k(1)] by (simp add: two_lists_pair)
  let ?ks = "reinsert c (index_in r (tree a In_Element)) (tree a In_Element)"
  let ?a = "a\<lparr>tree := (tree a)(In_Element := ?ks)\<rparr>"
  have "\<not> in_grid b c" using near_cells(4) [OF ab(2)] i(1) sep by (simp add: separate_def)
  then have "insertAcross L c (Some r) s = (Some ERROR_INVALID_ATTACH_ELEMENT, pair_of s (share b ?a) b)"
    unfolding run by (simp add: andThen_def upd_def rearrange_here [OF p cr(3,2,1)]
        in_that_pair attach_stranger)
  moreover have "page_hidden s c = Some h" "page_hidden s t = Some r"
    using i h(1) r(1) by (simp_all add: page_hidden_def)
  ultimately have run: "moveCellToGrid L c (Some t) s =
      (Some ERROR_INVALID_ATTACH_ELEMENT, pair_of s (share b ?a) b)"
    using rh l mode by (simp add: moveCellToGrid_def readThen_def onlyIf_def andThen_def)
  have d: "distinct (tree a In_Element)" using proper_distinct [OF grid_okD(1) [OF ra(1)]] .
  note q = reordered_pair [OF k(1) distinct_reinsert [OF d] set_reinsert [OF cr(3)],
      of "index_in r (tree a In_Element)"]
  have v: "visibleOf a c = None" using ab(1) by (simp add: ready_def plain_def)
  have "cells_of a ?ks = cells_of a (removeAll c (tree a In_Element))"
    using cells_of_plain [OF v, of ?ks] by (simp only: removeAll_reinsert)
  also have "\<dots> = getCells a" using cells_of_plain [OF v] getCells_kids [OF ra(1)] by simp
  finally show thesis using that [OF run] q k(2,3) by simp
qed

text \<open>Without a target the cell is let go and then the plugin throws, in insert mode.\<close>

lemma moveToGrid_nowhere:
  assumes ok: "linked_ok s" and l: "is_linked s" and c: "c \<in> set (cellsArray (this_grid s))"
  obtains s' where "moveCellToGrid L c None s = (Some TypeError, s')" "linked_ok s'"
proof -
  have g: "grid_ok (this_grid s)" using ok by (simp add: linked_ok_def synced_def)
  obtain h xs ys where h: "hiddenOf (this_grid s) c = Some h" "visibleOf (this_grid s) h = Some c"
    "tree (this_grid s) In_Element = xs @ h # ys" using managed_links [OF g c] by blast
  have i: "in_grid (this_grid s) c" using c grid_okD(8) [OF g] by (simp add: in_grid_iff)
  then have hid: "page_hidden s c = Some h" and chain: "page_chain s c = chain_of (this_grid s) c"
    using h(1) by (simp_all add: page_hidden_def page_chain_def)
  show thesis
  proof (cases "swapMode (options (this_grid s))")
    case True
    then show thesis
      using that [of s] ok hid l
      by (simp add: moveCellToGrid_def swapAcross_def js_defs)
  next
    case False
    obtain a b where ab: "insertAcross L c None s = in_order
       [(case None of None \<Rightarrow> throw TypeError
          | Some r \<Rightarrow> upd (rearrange [c] (detachAndInsertInPlace c r))),
        in_that L (\<lambda>B. attachCell B (Some c)),
        in_that L (\<lambda>B. upd (removeClass c Visible_Cell)),
        in_that L (\<lambda>B. upd (setCellAbsolutePositionAndSize B c (page_box L s c))),
        in_that L (\<lambda>B. upd (addClass c Visible_Cell)),
        onlyIf (hasClass (this_grid s) c Drag_Cell) (in_that L (\<lambda>B. upd (addClass c Drag_Cell)))]
       (pair_of s a b)" "ready c xs ys (this_grid s) a" "near (that_grid s) b"
      "nextId a = nextId (this_grid s)" "nextId b = nextId (this_grid s)" "\<not> hasClass a c Drag_Cell"
      by (rule insert_started [where L = L and onto = None, OF ok c h chain])
    have "nextId a = nextId b" using ab(4,5) by simp
    then have "linked_ok (pair_of s a b)" using ready_pair(1) [OF ok ab(2) h(2,3) i ab(3)] by simp
    moreover have "insertAcross L c None s = (Some TypeError, pair_of s a b)"
      unfolding ab(1) by (simp add: andThen_def throw_def)
    ultimately show thesis
      using that [of "pair_of s a b"] False hid l
      by (simp add: moveCellToGrid_def readThen_def onlyIf_def andThen_def)
  qed
qed

lemma moveToGrid_swap_throws:
  assumes ok: "linked_ok s" and l: "is_linked s" and mode: "swapMode (options (this_grid s))"
    and c: "c \<in> set (cellsArray (this_grid s))" and t: "t \<in> set (cellsArray (this_grid s))" "c \<noteq> t"
  obtains s' where "moveCellToGrid L c (Some t) s = (Some TypeError, s')" "linked_ok s'"
    "getCells (this_grid s') = getCells (this_grid s)"
    "getCells (that_grid s') = getCells (that_grid s)"
proof -
  have g: "grid_ok (this_grid s)" "grid_ok (that_grid s)" "nextId (this_grid s) = nextId (that_grid s)"
    and sep: "separate (this_grid s) (that_grid s)" "separate (that_grid s) (this_grid s)"
    using ok by (simp_all add: linked_ok_def synced_def)
  obtain h r where h: "hiddenOf (this_grid s) c = Some h" "hiddenOf (this_grid s) t = Some r" "r \<noteq> h"
  proof -
    obtain h where "hiddenOf (this_grid s) c = Some h" "visibleOf (this_grid s) h = Some c"
      using managed_links [OF g(1) c] by blast
    moreover obtain r where "hiddenOf (this_grid s) t = Some r" "visibleOf (this_grid s) r = Some t"
      using managed_links [OF g(1) t(1)] by blast
    ultimately show thesis using that [of h r] t(2) by (cases "r = h") auto
  qed
  have i: "in_grid (this_grid s) c" "in_grid (this_grid s) t"
    "parent_of (tree (this_grid s)) t = Some In_Container"
    using c t grid_okD(8) [OF g(1)] parent_of_in [OF grid_okD(1) [OF g(1)], of t In_Container]
    by (simp_all add: in_grid_iff)
  have "x \<notin> set (page_chain s t)" if "x \<in> set (cellsArray (that_grid s))" for x
  proof -
    have x: "in_grid (that_grid s) x" using that grid_okD(8) [OF g(2)] by (simp add: in_grid_iff)
    then have "\<not> in_grid (this_grid s) x" "x \<notin> outside (this_grid s)"
      using sep(2) by (simp_all add: separate_def)
    then show ?thesis
      using i(2,3) grid_okD(2) [OF g(1)]
      by (auto simp: page_chain_def chain_of_def in_grid_iff outside_def)
  qed
  then have "index_from 0 (cellsArray (that_grid s)) (\<lambda>x. x \<in> set (page_chain s t) \<and>
      closestGridstrap (that_grid s) (page_chain s t) = Some (el (that_grid s))) = None"
    by (intro index_from_none) simp
  then have "getCellAndInternalIndex (that_grid s) (page_chain s t) = None"
    by (simp add: getCellAndInternalIndex_def)
  then have "detach_from_that L t s = (Some TypeError,
      pair_of s (share (that_grid s) (this_grid s)) (that_grid s))"
    by (simp add: detach_from_that_def readThen_def in_that_def detachCell_def throw_def pair_of_def)
  then have "moveCellToGrid L c (Some t) s = (Some TypeError,
      pair_of s (share (that_grid s) (this_grid s)) (that_grid s))"
    using i(1,2) h l mode
    by (simp add: moveCellToGrid_def readThen_def onlyIf_def andThen_def swapAcross_def page_hidden_def)
  moreover have sh: "near (this_grid s) (share (that_grid s) (this_grid s))"
    using near_share [of "this_grid s" "that_grid s"] g(3) by simp
  moreover have "near2 s (pair_of s (share (that_grid s) (this_grid s)) (that_grid s))"
    using sh g near_ok [OF sh g(1)] by (simp add: near2_def synced_def share_def)
  ultimately show thesis
    using that near2_linked [OF _ ok] near_cells(1) [OF sh] by simp
qed

section \<open>Dragging into the other grid\<close>

lemma near2_set_this:
  assumes "synced s" "near (this_grid s) (f (this_grid s))"
    "nextId (f (this_grid s)) = nextId (this_grid s)"
  obtains s' where "in_this L (\<lambda>B. upd f) s = (None, s')" "near2 s s'"
    "limitTime (this_grid s') = limitTime (f (this_grid s))"
  using that near2_this [OF assms] by (simp add: in_this_def upd_def)

lemma near2_set_that:
  assumes "synced s" "near (that_grid s) (f (that_grid s))"
    "nextId (f (that_grid s)) = nextId (that_grid s)"
  obtains s' where "in_that L (\<lambda>B. upd f) s = (None, s')" "near2 s s'"
  using that near2_that [OF assms] by (simp add: in_that_def upd_def)

text \<open>The dragged cell is put under the mouse in the grid it has come to.\<close>

lemma placeAcross_result:
  assumes ok: "linked_ok s" and c: "c \<in> set (cellsArray (that_grid s))"
    and d: "downDiff (that_grid s) c \<noteq> None"
  obtains s' where "placeAcross L m c skip s = (None, s')" "near2 s s'"
proof -
  have g: "grid_ok (that_grid s)" and sy: "synced s" and sep: "separate (that_grid s) (this_grid s)"
    using ok by (simp_all add: linked_ok_def synced_def)
  have ct: "c \<in> set (tree (that_grid s) In_Container)" using c grid_okD(8) [OF g] by simp
  then have "parent_of (tree (that_grid s)) c = Some In_Container"
    using parent_of_in [OF grid_okD(1) [OF g]] by simp
  moreover have here: "\<not> in_grid (this_grid s) c"
    using sep ct by (auto simp: separate_def in_grid_iff)
  ultimately obtain x y where a: "page_absolute L m c s = Some (x, y)"
    using d by (auto simp: page_absolute_def Let_def getAbsoluteOffset_def parent_absolute_def
        absoluteOffset_def split: option.splits)
  show thesis
  proof (cases "prevented (L (that_grid s)) (Cell_Drag x y c)")
    case True
    then show thesis using that [of s] near2_refl [OF sy] a here
      by (simp add: placeAcross_def js_defs)
  next
    case False
    let ?f = "\<lambda>g. set_css c Css_top y (set_css c Css_left x g)"
    have "near (that_grid s) (?f (that_grid s))"
      by (rule near_trans [OF near_simps(7) near_simps(7)])
    then obtain s' where "in_that L (\<lambda>B. upd ?f) s = (None, s')" "near2 s s'"
      using near2_set_that [OF sy, of ?f L] by auto
    then show thesis using that [of s'] False a here
      by (simp add: placeAcross_def set_position_def readThen_def andThen_def skip_def)
  qed
qed

text \<open>Only \<open>c\<close>, a cell of the first grid, is dragged on the page.\<close>

definition page_drags_only :: "nat \<Rightarrow> linked \<Rightarrow> bool" where
  "page_drags_only c s \<longleftrightarrow>
     (\<forall>x \<in> set (getCells (this_grid s)). hasClass (this_grid s) x Drag_Cell \<longleftrightarrow> x = c) \<and>
     (\<forall>x \<in> set (getCells (that_grid s)). \<not> hasClass (that_grid s) x Drag_Cell)"

lemma page_drags:
  assumes ok: "linked_ok s" and c: "c \<in> set (cellsArray (this_grid s))" and d: "page_drags_only c s"
  shows "getDraggingCell (this_grid s) = Some c" "hasClass (this_grid s) c Drag_Cell"
proof -
  have g: "grid_ok (this_grid s)" using ok by (simp add: linked_ok_def synced_def)
  show "hasClass (this_grid s) c Drag_Cell"
    using d c by (simp add: page_drags_only_def set_getCells [OF g])
  show "getDraggingCell (this_grid s) = Some c"
    unfolding dragging_cell [OF g] using d c grid_okD(8) [OF g]
    by (intro find_only) (simp_all add: page_drags_only_def set_getCells [OF g])
qed

lemma page_drags_crossed:
  assumes ok: "linked_ok s" and d: "page_drags_only c s" "hasClass (this_grid s) c Drag_Cell"
    and s': "crossed c s s'"
  shows "getDraggingCell (that_grid s') = Some c" "getDraggingCell (this_grid s') = None"
proof -
  have g: "grid_ok (this_grid s)" "grid_ok (that_grid s)" "grid_ok (this_grid s')" "grid_ok (that_grid s')"
    using ok s' by (simp_all add: crossed_def linked_ok_def synced_def)
  note d = d [unfolded page_drags_only_def set_getCells [OF g(1)] set_getCells [OF g(2)]]
  note s' = s' [unfolded crossed_def]
  show "getDraggingCell (that_grid s') = Some c"
    unfolding dragging_cell [OF g(4)] using d s' grid_okD(8) [OF g(4)] by (intro find_only) auto
  show "getDraggingCell (this_grid s') = None"
    unfolding dragging_cell [OF g(3)] using d s' grid_okD(8) [OF g(3)] by (auto simp: find_None_iff)
qed

lemma crossed_start:
  assumes "near2 s s1" "crossed c s1 s'"
  shows "crossed c s s'"
  using assms by (simp add: crossed_def near2_def) (simp add: near_def)

lemma near2_facts:
  assumes "near2 s s'"
  shows "page_drags_only c s' = page_drags_only c s" "is_linked s' = is_linked s"
    "lands_before c t s' = lands_before c t s" "getCells (this_grid s') = getCells (this_grid s)"
    "getCells (that_grid s') = getCells (that_grid s)" "options (this_grid s') = options (this_grid s)"
    "options (that_grid s') = options (that_grid s)" "downDiff (this_grid s') = downDiff (this_grid s)"
    "cellsArray (this_grid s') = cellsArray (this_grid s)"
    "cellsArray (that_grid s') = cellsArray (that_grid s)"
proof -
  have n: "near (this_grid s) (this_grid s')" "near (that_grid s) (that_grid s')"
    "additional s' = additional s" using assms by (simp_all add: near2_def)
  show c: "getCells (this_grid s') = getCells (this_grid s)" "getCells (that_grid s') = getCells (that_grid s)"
    using near_cells(1) [OF n(1)] near_cells(1) [OF n(2)] by simp_all
  show "page_drags_only c s' = page_drags_only c s"
    unfolding page_drags_only_def c using n by (simp add: near_def)
qed (use assms in \<open>simp_all add: near2_def near_def is_linked_def lands_before_def cong: option.case_cong\<close>)

text \<open>The cell under the mouse is not part of the dragged one, which is in the other grid.\<close>

lemma not_inside:
  assumes ok: "linked_ok s" and c: "c \<in> set (cellsArray (this_grid s))"
    and t: "t \<in> set (cellsArray (that_grid s))"
  shows "t \<notin> set (page_chain s c)"
proof -
  have g: "grid_ok (this_grid s)" "grid_ok (that_grid s)" and sep: "separate (that_grid s) (this_grid s)"
    using ok by (simp_all add: linked_ok_def synced_def)
  have "in_grid (that_grid s) t" using t grid_okD(8) [OF g(2)] by (simp add: in_grid_iff)
  then have t': "\<not> in_grid (this_grid s) t" "t \<notin> outside (this_grid s)"
    using sep by (simp_all add: separate_def)
  have "c \<in> set (tree (this_grid s) In_Container)" using c grid_okD(8) [OF g(1)] by simp
  moreover from this have "parent_of (tree (this_grid s)) c = Some In_Container"
    by (rule parent_of_in [OF grid_okD(1) [OF g(1)]])
  ultimately show ?thesis
    using t' grid_okD(2) [OF g(1)]
    by (auto simp: page_chain_def chain_of_def in_grid_iff outside_def)
qed

lemma hover_crosses:
  assumes ok: "linked_ok s" and l: "is_linked s"
    and c: "c \<in> set (cellsArray (this_grid s))" and t: "t \<in> set (cellsArray (that_grid s))"
    and d: "page_drags_only c s" "downDiff (this_grid s) c \<noteq> None"
    and o': "draggable (options (that_grid s))" "rearrangeOnDrag (options (that_grid s))"
    and lim: "limit_passes (dragMouseoverThrottle (options (this_grid s))) (now m) (limitTime (this_grid s))"
  obtains s' where "onMouseoverAcross L m (Some t) s = (None, s')" "crossed c s s'"
    "changed_sides c t s s'"
proof -
  have sy: "synced s" using ok by (simp add: linked_ok_def)
  obtain s1 where s1: "in_this L (\<lambda>B. upd (\<lambda>g. g\<lparr>lastTarget := None\<rparr>)) s = (None, s1)" "near2 s s1"
    "limitTime (this_grid s1) = limitTime (this_grid s)"
    using near2_set_this [OF sy, of "\<lambda>g. g\<lparr>lastTarget := None\<rparr>" L] by auto
  have "synced s1" using s1(2) by (simp add: near2_def)
  then obtain s2 where s2: "in_this L (\<lambda>B. upd (\<lambda>g. g\<lparr>lastTarget := Some t\<rparr>)) s1 = (None, s2)"
    "near2 s1 s2" "limitTime (this_grid s2) = limitTime (this_grid s1)"
    using near2_set_this [of s1 "\<lambda>g. g\<lparr>lastTarget := Some t\<rparr>" L] by auto
  note n = near2_trans [OF s1(2) s2(2)]
  note f1 = near2_facts [OF s1(2)] and f = near2_facts [OF n]
  have ok2: "linked_ok s1" "linked_ok s2" using near2_linked [OF s1(2) ok] near2_linked [OF n ok] .
  have dr: "getDraggingCell (this_grid s1) = Some c"
    by (rule page_drags(1) [OF ok2(1)]) (use c d f1 in simp_all)
  have ins: "t \<notin> set (page_chain s1 c)" by (rule not_inside [OF ok2(1)]) (use c t f1 in simp_all)
  have at2: "is_linked s2" "c \<in> set (cellsArray (this_grid s2))" "t \<in> set (cellsArray (that_grid s2))"
    using l c t f by simp_all
  obtain s3 where s3: "moveCellToGrid L c (Some t) s2 = (None, s3)" "crossed c s2 s3"
    "changed_sides c t s2 s3"
    by (rule moveCellToGrid_result [where L = L, OF ok2(2) at2])
  have ok3: "linked_ok s3" "c \<in> set (cellsArray (that_grid s3))" "downDiff (that_grid s3) c \<noteq> None"
    using s3(2) d(2) f(8) by (simp_all add: crossed_def)
  obtain s4 where s4: "placeAcross L m c skip s3 = (None, s4)" "near2 s3 s4"
    by (rule placeAcross_result [OF ok3])
  have "synced s4" using s4(2) by (simp add: near2_def)
  then obtain s5 where s5: "in_this L (\<lambda>B. upd (\<lambda>g. g\<lparr>limitTime := Some (now m)\<rparr>)) s4 = (None, s5)"
    "near2 s4 s5"
    using near2_set_this [of s4 "\<lambda>g. g\<lparr>limitTime := Some (now m)\<rparr>" L] by auto
  have "onMouseoverAcross L m (Some t) s = (None, s5)"
    using s1(1,3) dr ins s2(1,3) s3(1) s4(1) s5(1) o' lim f f1
    by (simp add: onMouseoverAcross_def andThen_def readThen_def onlyIf_def)
  moreover note cr = crossed_near [OF s3(2) near2_trans [OF s4(2) s5(2)]]
  ultimately show thesis
    using that [of s5] crossed_start [OF n cr(1)] cr(2,3) s3(3) f by (simp add: changed_sides_def)
qed

end
