(* ===== verification/Grid_Page.thy ===== *)
theory Grid_Page
  imports Grid_Linked Grid_Session
begin

text \<open>
  A page with two grids, the first linked to the second: the events of either grid, whose handlers
  look beyond it for what is under the mouse, and a session in which the two grids' operations,
  the events and the linking come in any order.

  The handlers of \<open>Grid_Events\<close> are those of a page with one grid. They are the same code as the
  ones here; the difference is in \<open>MoveDraggedCell\<close>, which may find a cell of the second grid or
  trigger the handler the first grid has bound there, and in \<open>onMouseup\<close>, whose target may be a
  cell of the other grid.
\<close>

section \<open>Either grid\<close>

datatype side = This | That

definition own :: "side \<Rightarrow> linked \<Rightarrow> grid" where
  "own side s = (case side of This \<Rightarrow> this_grid s | That \<Rightarrow> that_grid s)"

definition browser_on :: "(grid \<Rightarrow> browser) \<Rightarrow> side \<Rightarrow> linked \<Rightarrow> browser" where
  "browser_on L side s = L (case side of This \<Rightarrow> that_grid s | That \<Rightarrow> this_grid s)"

definition put_grid :: "side \<Rightarrow> grid \<Rightarrow> linked \<Rightarrow> linked" where
  "put_grid side g s =
     (case side of
        This \<Rightarrow> s\<lparr>this_grid := g, that_grid := share g (that_grid s)\<rparr>
      | That \<Rightarrow> s\<lparr>this_grid := share g (this_grid s), that_grid := g\<rparr>)"

definition run_on :: "(grid \<Rightarrow> browser) \<Rightarrow> side \<Rightarrow> (browser \<Rightarrow> grid stmt) \<Rightarrow> linked stmt" where
  "run_on L side f = (case side of This \<Rightarrow> in_this L f | That \<Rightarrow> in_that L f)"

section \<open>Dragging\<close>

text \<open>\<open>MoveDraggedCell\<close> of the second grid, on a cell of its own.\<close>

definition moveDraggedThat :: "(grid \<Rightarrow> browser) \<Rightarrow> mouse_event \<Rightarrow> nat \<Rightarrow> linked stmt" where
  "moveDraggedThat L mouseEvent c =
     readThen (\<lambda>s. getAbsoluteOffset (L (this_grid s)) mouseEvent c (downDiff (that_grid s) c) (that_grid s))
       (\<lambda>offset.
         case offset of
           None \<Rightarrow> throw TypeError
         | Some (x, y) \<Rightarrow>
             readThen (\<lambda>s. prevented (L (this_grid s)) (Cell_Drag x y c)) (\<lambda>stop.
               if stop then skip
               else andThen (in_that L (\<lambda>B. set_position c x y))
                 (readThen (\<lambda>s. getCellOfElement (that_grid s)
                       (getNonDraggedElementFromPoint (L (this_grid s)) mouseEvent c (that_grid s)))
                   (\<lambda>overlappedCell.
                     case overlappedCell of
                       None \<Rightarrow> skip
                     | Some t \<Rightarrow> mouseoverThat L mouseEvent t))))"

definition drag_on :: "(grid \<Rightarrow> browser) \<Rightarrow> side \<Rightarrow> mouse_event \<Rightarrow> nat \<Rightarrow> linked stmt" where
  "drag_on L side mouseEvent c =
     (case side of
        This \<Rightarrow> moveDraggedCellAcross L mouseEvent c
      | That \<Rightarrow> moveDraggedThat L mouseEvent c)"

definition mousedown_on ::
  "(grid \<Rightarrow> browser) \<Rightarrow> side \<Rightarrow> mouse_event \<Rightarrow> nat option \<Rightarrow> linked stmt" where
  "mousedown_on L side mouseEvent cell =
     (case cell of
        None \<Rightarrow> skip
      | Some c \<Rightarrow>
          readThen (\<lambda>s. hasClass (own side s) c Placeholder_Cell) (\<lambda>placeholder.
            if placeholder then skip
            else readThen (\<lambda>s. resizeHandleSelector (options (own side s)) \<and> on_handle mouseEvent)
              (\<lambda>resizing.
                if resizing
                then readThen (\<lambda>s. hasClass (own side s) c Resize_Cell) (\<lambda>already.
                       if already then skip
                       else run_on L side (\<lambda>B. upd (\<lambda>g.
                              setMouseDownData B mouseEvent c (addClass c Resize_Cell g))))
                else readThen (\<lambda>s. draggable (options (own side s)) \<and> \<not> hasClass (own side s) c Drag_Cell)
                       (\<lambda>drags.
                         onlyIf drags
                           (andThen (run_on L side (\<lambda>B. upd (\<lambda>g.
                                      addClass c Drag_Cell (setMouseDownData B mouseEvent c g))))
                                    (drag_on L side mouseEvent c))))))"

text \<open>\<open>HandleCellMouseEvent\<close> for the events that must hit a cell.\<close>

definition cell_event_on ::
  "side \<Rightarrow> string \<Rightarrow> (mouse_event \<Rightarrow> nat option \<Rightarrow> linked stmt) \<Rightarrow> mouse_event \<Rightarrow> linked stmt" where
  "cell_event_on side eventName callback mouseEvent =
     readThen (\<lambda>s. delegates (own side s) eventName (target mouseEvent)) (\<lambda>ds.
       forEach ds (\<lambda>d.
         readThen (\<lambda>s. getCellOfElement (own side s) (target mouseEvent)) (\<lambda>managedCell.
           if managedCell = None then skip else callback mouseEvent managedCell)))"

definition mouseover_on :: "(grid \<Rightarrow> browser) \<Rightarrow> side \<Rightarrow> mouse_event \<Rightarrow> linked stmt" where
  "mouseover_on L side mouseEvent =
     (case side of
        This \<Rightarrow> in_this L (\<lambda>B.
          handleCellMouseEvent (appendNamespace ''mouseover'') False (onMouseover B) mouseEvent)
      | That \<Rightarrow> mouseoverOn L mouseEvent (target mouseEvent)
                  (\<lambda>s. getCellOfElement (that_grid s) (target mouseEvent)))"

section \<open>Moving the mouse\<close>

definition pad_on ::
  "(grid \<Rightarrow> browser) \<Rightarrow> side \<Rightarrow> string \<Rightarrow> nat \<Rightarrow> mouse_event \<Rightarrow> linked \<Rightarrow>
     (js_error option \<times> linked) option" where
  "pad_on L side html d mouseEvent s =
     (let B = browser_on L side s in
      case appendOrRemoveNonContiguousCellsWhile B (row_condition B (furthest B (own side s) d))
             html (own side s) of
        None \<Rightarrow> None
      | Some (Inl e, g) \<Rightarrow> Some (Some e, put_grid side g s)
      | Some (Inr changed, g) \<Rightarrow>
          Some (onlyIf changed (drag_on L side mouseEvent d) (put_grid side g s)))"

definition mousemove_on ::
  "(grid \<Rightarrow> browser) \<Rightarrow> side \<Rightarrow> mouse_event \<Rightarrow> linked \<Rightarrow> (js_error option \<times> linked) option" where
  "mousemove_on L side mouseEvent s =
     (case getResizedCell (own side s) of
        Some r \<Rightarrow> Some (run_on L side (\<lambda>B. resizeByMouse B mouseEvent r) s)
      | None \<Rightarrow>
          (case getDraggingCell (own side s) of
             None \<Rightarrow> Some (None, s)
           | Some d \<Rightarrow>
               (case drag_on L side mouseEvent d s of
                  (Some e, s1) \<Rightarrow> Some (Some e, s1)
                | (None, s1) \<Rightarrow>
                    (case nonContiguousCellHtml (options (own side s1)) of
                       Some html \<Rightarrow>
                         if rearrangeOnDrag (options (own side s1))
                            \<and> autoPadNonContiguousCells (options (own side s1))
                         then pad_on L side html d mouseEvent s1
                         else Some (None, s1)
                     | None \<Rightarrow> Some (None, s1)))))"

section \<open>Releasing the mouse\<close>

text \<open>
  \<open>MoveCell\<close> as \<open>onMouseup\<close> calls it, always inside the grid: the hidden copy of the dragged cell
  goes next to that of the target, wherever this one is.
\<close>

definition drop_on :: "(grid \<Rightarrow> browser) \<Rightarrow> side \<Rightarrow> nat \<Rightarrow> nat \<Rightarrow> linked stmt" where
  "drop_on L side d t =
     readThen (\<lambda>s. (in_grid (own side s) t, hiddenOf (own side s) d, page_hidden s t))
       (\<lambda>(mine, hiddenDragged, hiddenTarget).
         if mine then run_on L side (\<lambda>B. moveCellTo B d (Some t))
         else (case (hiddenDragged, hiddenTarget) of
                 (Some h, Some r) \<Rightarrow>
                   readThen (\<lambda>s. swapMode (options (own side s))) (\<lambda>swap.
                     andThen (upd (if swap then rearrange [h, r] (swapJQueryElements h r)
                                   else rearrange [h] (detachAndInsertInPlace h r)))
                       (run_on L side updateVisibleCellCoordinates))
               | _ \<Rightarrow> throw TypeError))"

definition end_drag_on :: "(grid \<Rightarrow> browser) \<Rightarrow> side \<Rightarrow> nat \<Rightarrow> linked stmt" where
  "end_drag_on L side d =
     andThen
       (run_on L side (\<lambda>B.
          andThen (readThen getResizedCell (\<lambda>r.
                     upd (\<lambda>g. clearMouseDownData r (removeClass d Drag_Cell g))))
            (readThen (\<lambda>g. posSize g d) (\<lambda>p.
               case p of None \<Rightarrow> throw TypeError
               | Some p \<Rightarrow> upd (setCellAbsolutePositionAndSize B d p)))))
       (readThen (\<lambda>s. (lastTarget (own side s), rearrangeOnDrag (options (own side s)))) (\<lambda>t.
          case t of (Some t, False) \<Rightarrow> drop_on L side d t | _ \<Rightarrow> skip))"

definition mouseup_on ::
  "(grid \<Rightarrow> browser) \<Rightarrow> side \<Rightarrow> mouse_event \<Rightarrow> linked \<Rightarrow> (js_error option \<times> linked) option" where
  "mouseup_on L side mouseEvent s =
     (if \<not> draggable (options (own side s)) then Some (None, s)
      else (case (resizeHandleSelector (options (own side s)), getResizedCell (own side s)) of
              (True, Some r) \<Rightarrow> Some (run_on L side (\<lambda>B. endResize B r) s)
            | _ \<Rightarrow>
                (case getDraggingCell (own side s) of
                   None \<Rightarrow> Some (None, s)
                 | Some d \<Rightarrow>
                     (case nonContiguousCellHtml (options (own side s)) of
                        Some html \<Rightarrow>
                          if \<not> rearrangeOnDrag (options (own side s))
                             \<and> autoPadNonContiguousCells (options (own side s))
                          then (case pad_on L side html d mouseEvent s of
                                  None \<Rightarrow> None
                                | Some (Some e, s1) \<Rightarrow> Some (Some e, s1)
                                | Some (None, s1) \<Rightarrow> Some (throw TypeError s1))
                          else Some (end_drag_on L side d s)
                      | None \<Rightarrow> Some (end_drag_on L side d s)))))"

section \<open>Sessions\<close>

definition touch_on ::
  "(int \<times> mouse_point) list \<Rightarrow> mouse_event \<Rightarrow>
     (mouse_event \<Rightarrow> linked \<Rightarrow> (js_error option \<times> linked) option) \<Rightarrow>
     linked \<Rightarrow> (js_error option \<times> linked) option" where
  "touch_on changedTouches touchEvent handler s =
     (case touch_event changedTouches touchEvent of
        Inl e \<Rightarrow> Some (Some e, s)
      | Inr m \<Rightarrow> handler m s)"

definition touchstart_on ::
  "(grid \<Rightarrow> browser) \<Rightarrow> side \<Rightarrow> nat \<Rightarrow> (int \<times> mouse_point) list \<Rightarrow> mouse_event \<Rightarrow> nat option \<Rightarrow>
     linked stmt" where
  "touchstart_on L side touches changedTouches touchEvent cell =
     (if touches = 0 then skip
      else (case touch_event changedTouches touchEvent of
              Inl e \<Rightarrow> throw e
            | Inr m \<Rightarrow> mousedown_on L side m cell))"

text \<open>Events go through the handlers above, the other operations of a grid concern it alone.\<close>

fun perform_on ::
  "(grid \<Rightarrow> browser) \<Rightarrow> side \<Rightarrow> grid_op \<Rightarrow> linked \<Rightarrow> (js_error option \<times> linked) option" where
  "perform_on L side (Mouse_Down m) s =
     Some (cell_event_on side (appendNamespace ''mousedown'') (mousedown_on L side) m s)"
| "perform_on L side (Mouse_Over m) s = Some (mouseover_on L side m s)"
| "perform_on L side (Mouse_Move m) s = mousemove_on L side m s"
| "perform_on L side (Mouse_Up m) s = mouseup_on L side m s"
| "perform_on L side (Touch_Start n ts m) s =
     Some (cell_event_on side (appendNamespace ''touchstart'') (touchstart_on L side n ts) m s)"
| "perform_on L side (Touch_Move ts m) s = touch_on ts m (mousemove_on L side) s"
| "perform_on L side (Touch_End m) s = mouseup_on L side m s"
| "perform_on L side q s =
     map_option (\<lambda>(e, g). (e, put_grid side g s)) (perform (browser_on L side s) q (own side s))"

datatype linked_op =
    On side grid_op
  | Link "nat list option"
  | Move_Across "nat list" int

fun perform_linked ::
  "(grid \<Rightarrow> browser) \<Rightarrow> linked_op \<Rightarrow> linked \<Rightarrow> (js_error option \<times> linked) option" where
  "perform_linked L (On side q) s = perform_on L side q s"
| "perform_linked L (Link element) s = Some (setAdditionalGridstrapDragTarget element s)"
| "perform_linked L (Move_Across chain i) s = moveCellAcross L chain i s"

end
