(* ===== verification/Grid_Elements.thy ===== *)
theory Grid_Elements
  imports Grid_Linked Grid_Session
begin

text \<open>
  No operation of a grid reaches for elements of the rest of the page: what is in a grid was there
  before or is new. A predicate that holds of the elements of a grid and of all new ones
  (\<open>made_of\<close>) is kept by every operation, whatever it does and whether or not it throws.
\<close>

section \<open>Elements of a grid\<close>

definition made_of :: "(nat \<Rightarrow> bool) \<Rightarrow> nat set \<Rightarrow> grid \<Rightarrow> bool" where
  "made_of Q out g \<longleftrightarrow>
     (\<forall>p. \<forall>x \<in> set (tree g p). Q x) \<and> (\<forall>x \<in> set (cellsArray g). Q x) \<and>
     (\<forall>c h. hiddenOf g c = Some h \<longrightarrow> Q h) \<and> (\<forall>x \<ge> nextId g. Q x) \<and> outside g = out"

lemma made_of_cong:
  assumes "tree g' = tree g" "cellsArray g' = cellsArray g" "hiddenOf g' = hiddenOf g"
    "nextId g' = nextId g" "el g' = el g" "above g' = above g" "gridstraps g' = gridstraps g"
  shows "made_of Q out g' = made_of Q out g"
  using assms by (simp add: made_of_def outside_def)

lemma made_of_geometry [simp]:
  "made_of Q out (set_css e p n g) = made_of Q out g"
  "made_of Q out (setMouseDownData B m c g) = made_of Q out g"
  "made_of Q out (clearMouseDownData o' g) = made_of Q out g"
  "made_of Q out (setCellAbsolutePositionAndSize B c ps g) = made_of Q out g"
  "made_of Q out (change_inner o' f g) = made_of Q out g"
  "made_of Q out (g\<lparr>lastTarget := t\<rparr>) = made_of Q out g"
  "made_of Q out (g\<lparr>limitTime := l\<rparr>) = made_of Q out g"
  "made_of Q out (g\<lparr>inner := i\<rparr>) = made_of Q out g"
  "made_of Q out (addClass e k g) = made_of Q out g"
  "made_of Q out (removeClass e k g) = made_of Q out g"
  "made_of Q out (clearAbsoluteCSS e g) = made_of Q out g"
  "made_of Q out (updateOptions o'' g) = made_of Q out g"
  by (rule made_of_cong; simp add: set_css_def setMouseDownData_def Let_def clearMouseDownData_def
      setCellAbsolutePositionAndSize_def change_inner_def addClass_def removeClass_def
      clearAbsoluteCSS_def updateOptions_def split: option.splits)+

lemma set_put: "x \<in> set (put s e d p) \<Longrightarrow> x = e \<or> x \<in> set (d p)"
proof (induction s e d rule: put.induct)
  case (1 n e d)
  then show ?case by (auto simp: set_ins_before split: if_splits)
next
  case (2 n e d)
  then show ?case by (auto simp: set_ins_after split: if_splits)
qed (auto split: if_splits)

lemma set_detach: "x \<in> set (detach e d p) \<Longrightarrow> x \<in> set (d p)"
  by (simp add: detach_def)

lemma made_of_tree:
  "made_of Q out g \<Longrightarrow> (\<And>p x. x \<in> set (tr p) \<Longrightarrow> Q x) \<Longrightarrow> made_of Q out (g\<lparr>tree := tr\<rparr>)"
  by (simp add: made_of_def outside_def)

lemma made_of_put: "made_of Q out g \<Longrightarrow> Q e \<Longrightarrow> made_of Q out (put_element s e g)"
  unfolding put_element_def by (rule made_of_tree) (auto simp: made_of_def dest!: set_put)

lemma made_of_detach: "made_of Q out g \<Longrightarrow> made_of Q out (detach_element e g)"
  unfolding detach_element_def by (rule made_of_tree) (auto simp: made_of_def dest!: set_detach)

lemma made_of_remove: "made_of Q out g \<Longrightarrow> made_of Q out (remove_element e g)"
  using made_of_detach [of Q out g e]
  by (simp add: remove_element_def made_of_def outside_def)

lemma made_of_create: "made_of Q out g \<Longrightarrow> made_of Q out (create_element cs st html g)"
  by (auto simp: made_of_def create_element_def Let_def outside_def split: if_splits)

lemma made_of_new: "made_of Q out g \<Longrightarrow> Q (nextId g)"
  by (simp add: made_of_def)

section \<open>Every operation\<close>

lemma made_of_update [keeps_intros]: "keeps (made_of Q out) (updateVisibleCellCoordinates B)"
  unfolding updateVisibleCellCoordinates_def redraw_cell_def
  by (auto intro!: keeps_intros split: option.split)

lemma made_of_link:
  "made_of Q out g \<Longrightarrow> Q n \<Longrightarrow> made_of Q out (g\<lparr>hiddenOf := (hiddenOf g)(e \<mapsto> n), visibleOf := v\<rparr>)"
  by (auto simp: made_of_def outside_def)

lemma made_of_init:
  assumes "made_of Q out g" "Q e"
  shows "made_of Q out (initCellsHiddenCopyAndSetAbsolutePosition B e g)"
proof -
  have "made_of Q out (g\<lparr>cellsArray := cellsArray g @ [e]\<rparr>)"
    using assms by (auto simp: made_of_def outside_def)
  then show ?thesis
    using assms made_of_new [OF assms(1)]
    by (auto simp: initCellsHiddenCopyAndSetAbsolutePosition_def Let_def
        intro!: made_of_put made_of_detach made_of_create made_of_link)
qed

lemma made_of_attach [keeps_intros]: "keeps (made_of Q out) (attachCell B e)"
  unfolding attachCell_def
  by (auto intro!: keeps_intros made_of_init split: option.split)
    (auto simp: made_of_def parent_of_def split: if_splits)

lemma remove_at_subset: "x \<in> set (remove_at i xs) \<Longrightarrow> x \<in> set xs"
  by (induction i xs rule: remove_at.induct) auto

lemma made_of_found:
  "getCellAndInternalIndex g chain = Some (i, c) \<Longrightarrow> made_of Q out g \<Longrightarrow> Q c"
  using index_from_found by (fastforce simp: getCellAndInternalIndex_def made_of_def split: if_splits)

lemma made_of_detachCell [keeps_intros]: "keeps (made_of Q out) (detachCell B chain)"
proof -
  have h: "made_of Q out (g\<lparr>hiddenOf := (hiddenOf g0)(c := None)\<rparr>)"
    if "made_of Q out g" "made_of Q out g0" for g g0 c
    using that by (auto simp: made_of_def outside_def split: if_splits)
  have a: "made_of Q out (g\<lparr>cellsArray := remove_at i (cellsArray g)\<rparr>)" if "made_of Q out g" for g i
    using that by (auto simp: made_of_def outside_def dest: remove_at_subset)
  show ?thesis
    unfolding detachCell_def
    by (auto intro!: keeps_intros made_of_put made_of_remove made_of_detach h a
        dest!: made_of_found [where Q = Q and out = out] split: option.split)
qed

lemma made_of_removeCell [keeps_intros]: "keeps (made_of Q out) (removeCell B chain)"
  unfolding removeCell_def by (auto intro!: keeps_intros made_of_remove split: option.split)

lemma made_of_insertHere [keeps_intros]: "keeps (made_of Q out) (insertHere B html i)"
  unfolding insertHere_def
  by (auto intro!: keeps_intros made_of_put made_of_create split: option.split)
    (auto simp: made_of_def)

lemma swap_subset:
  assumes "x \<in> set (swapJQueryElements a b d p)"
  shows "x = a \<or> x = b \<or> x \<in> set (d p)"
proof -
  have "x = b \<or> x = a \<or> x \<in> set (detach b (detach a d) p)"
    using assms unfolding swapJQueryElements_def Let_def by (blast dest: set_put)
  then show ?thesis by (auto dest: set_detach)
qed

lemma insert_subset:
  assumes "x \<in> set (detachAndInsertInPlace c r d p)"
  shows "x = c \<or> x \<in> set (d p)"
proof -
  have "x \<in> set (put (Before r) c (detach c d) p) \<or> x \<in> set (put (After r) c (detach c d) p)"
    using assms unfolding detachAndInsertInPlace_def Let_def by (simp split: if_splits)
  then have "x = c \<or> x \<in> set (detach c d p)" by (blast dest: set_put)
  then show ?thesis by (auto dest: set_detach)
qed

lemma made_of_internalMove [keeps_intros]:
  "Q a \<Longrightarrow> Q b \<Longrightarrow> keeps (made_of Q out) (internalMove B a b)"
  unfolding internalMove_def
  by (auto intro!: keeps_intros made_of_tree)
    (auto simp: made_of_def dest!: swap_subset insert_subset split: if_splits)

lemma made_of_moveCellTo [keeps_intros]: "keeps (made_of Q out) (moveCellTo B c t)"
  unfolding moveCellTo_def
  by (auto intro!: keeps_intros split: option.split) (auto simp: made_of_def bind_eq_Some_conv)

lemma made_of_moveToIndex [keeps_intros]: "keeps (made_of Q out) (moveToIndex B chain k)"
  unfolding moveToIndex_def by (auto intro!: keeps_intros split: option.split)

lemma made_of_resize [keeps_intros]: "keeps (made_of Q out) (resizeCell B c w h)"
  unfolding resizeCell_def by (auto intro!: keeps_intros split: option.split)

lemma made_of_modify [keeps_intros]: "keeps (made_of Q out) (modifyCell B i f h)"
  unfolding modifyCell_def by (auto intro!: keeps_intros split: option.split)

lemma made_of_onMouseover [keeps_intros]: "keeps (made_of Q out) (onMouseover B m cell)"
  unfolding onMouseover_def by (auto intro!: keeps_intros split: option.split)

lemma made_of_moveDragged [keeps_intros]: "keeps (made_of Q out) (moveDraggedCell B m c)"
  unfolding moveDraggedCell_def triggerMouseOver_def
  by (auto intro!: keeps_intros split: option.split)

lemma made_of_onMousedown [keeps_intros]: "keeps (made_of Q out) (onMousedown B m c)"
  unfolding onMousedown_def by (auto intro!: keeps_intros split: option.split)

lemma made_of_touch [keeps_intros]: "keeps (made_of Q out) (onTouchStart B n ts m c)"
  unfolding onTouchStart_def by (auto intro!: keeps_intros split: sum.split)

lemma made_of_release [keeps_intros]:
  "keeps (made_of Q out) (resizeByMouse B m r)" "keeps (made_of Q out) (endResize B r)"
  "keeps (made_of Q out) (endDrag B d)"
  unfolding resizeByMouse_def endResize_def endDrag_def Let_def
  by (auto intro!: keeps_intros split: option.split bool.split)

lemma keepsD: "keeps J f \<Longrightarrow> f g = (r, g') \<Longrightarrow> J g \<Longrightarrow> J g'"
  unfolding keeps_def by (metis snd_conv)

section \<open>The loops\<close>

lemma made_of_appendWhile:
  assumes "appendWhile B P html hs changed g = Some x" "made_of Q out g"
  shows "made_of Q out (snd x)"
proof -
  have "(\<lambda>(((((B, P), html), hs), ch), g). \<lambda>x. made_of Q out g \<longrightarrow> made_of Q out (snd x))
          (((((B, P), html), hs), changed), g) x"
  proof (rule appendWhile.raw_induct [OF _ assms(1), rotated], goal_cases)
    case (1 rec B P html hs changed g x)
    have ih: "made_of Q out (snd x)"
      if "rec B P html hs' True g' = Some x" "made_of Q out g'" for hs' g'
      using 1(1) [OF that(1)] that(2) by simp
    obtain r g1 where i: "insertHere B html (int (length hs)) g = (r, g1)" by fastforce
    have "made_of Q out g1" if "made_of Q out g" using keepsD [OF made_of_insertHere i that] .
    then show ?case
      using 1(2) ih i by (auto split: sum.splits if_splits option.splits)
  qed
  then show ?thesis using assms(2) by simp
qed

lemma made_of_removeWhile: "made_of Q out g \<Longrightarrow> made_of Q out (snd (removeWhile B P hs changed g))"
proof (induction B P hs changed g rule: removeWhile.induct)
  case (1 B P hs changed g)
  have step: "made_of Q out g1" if "removeCell B (chain_of g v) g = (r, g1)" for v r g1
    using keepsD [OF made_of_removeCell that 1(2)] .
  show ?case
    using 1(2) step
    by (subst removeWhile.simps) (auto split: sum.splits option.splits prod.splits intro!: 1(1))
qed

lemma made_of_pad:
  assumes "appendOrRemoveNonContiguousCellsWhile B P html g = Some (r, g')" "made_of Q out g"
  shows "made_of Q out g'"
proof -
  obtain x g1 where x: "appendWhile B P html (hiddenCells g) False g = Some (x, g1)"
    using assms(1) by (auto simp: appendOrRemoveNonContiguousCellsWhile_def split: option.splits)
  then have "made_of Q out g1" using made_of_appendWhile assms(2) by fastforce
  then show ?thesis
    using assms(1) x made_of_removeWhile [of Q out g1 B P]
    by (auto simp: appendOrRemoveNonContiguousCellsWhile_def split: sum.splits)
      (metis snd_conv)
qed

lemma made_of_handle [keeps_intros]: "made_of Q out g \<Longrightarrow> made_of Q out (g\<lparr>options := o'\<rparr>)"
  by (simp add: made_of_def outside_def)

lemma made_of_dragging:
  assumes "updateNonContiguousCellsForDrag B html d m g = Some (r, g')" "made_of Q out g"
  shows "made_of Q out g'"
proof -
  obtain x g1 where x: "appendOrRemoveNonContiguousCellsWhile B (row_condition B (furthest B g d))
      html g = Some (x, g1)"
    using assms(1) by (auto simp: updateNonContiguousCellsForDrag_def split: option.splits)
  have g1: "made_of Q out g1" using made_of_pad [OF x assms(2)] .
  show ?thesis
  proof (cases x)
    case (Inl e)
    then show ?thesis using assms(1) x g1 by (simp add: updateNonContiguousCellsForDrag_def)
  next
    case (Inr ch)
    then have "onlyIf ch (moveDraggedCell B m d) g1 = (r, g')"
      using assms(1) x by (simp add: updateNonContiguousCellsForDrag_def)
    from keepsD [OF keeps_onlyIf [OF made_of_moveDragged] this g1] show ?thesis .
  qed
qed

lemma made_of_insertCell:
  assumes "insertCell B html i g = Some (r, g')" "made_of Q out g"
  shows "made_of Q out g'"
proof -
  have here: "made_of Q out g'" if "insertHere B html k g1 = (r, g')" "made_of Q out g1" for k g1
    using keepsD [OF made_of_insertHere that] .
  show ?thesis
    using assms here
    by (auto simp: insertCell_def Let_def dest: made_of_pad split: option.splits if_splits sum.splits)
qed

lemma made_of_moveCell:
  assumes "moveCell B chain i g = Some (r, g')" "made_of Q out g"
  shows "made_of Q out g'"
proof -
  have here: "made_of Q out g'" if "moveToIndex B chain i g1 = (r, g')" "made_of Q out g1" for g1
    using keepsD [OF made_of_moveToIndex that] .
  show ?thesis
    using assms here
    by (auto simp: moveCell_def dest: made_of_pad split: option.splits if_splits sum.splits)
qed

lemma made_of_padWith:
  assumes "padWithNonContiguousCells B f g = Some (r, g')" "made_of Q out g"
  shows "made_of Q out g'"
  using assms
  by (auto simp: padWithNonContiguousCells_def dest: made_of_pad split: option.splits sum.splits)

lemma made_of_onMousemove:
  assumes "onMousemove B m g = Some (r, g')" "made_of Q out g"
  shows "made_of Q out g'"
proof (cases "getResizedCell g")
  case (Some c)
  then show ?thesis
    using assms(1) keepsD [OF made_of_release(1) _ assms(2), of B m c r g'] by (simp add: onMousemove_def)
next
  case None
  show ?thesis
  proof (cases "getDraggingCell g")
    case (Some d)
    obtain r1 g1 where m: "moveDraggedCell B m d g = (r1, g1)" by fastforce
    have "made_of Q out g1" using keepsD [OF made_of_moveDragged m assms(2)] .
    then show ?thesis
      using assms(1) None Some m
      by (auto simp: onMousemove_def dest: made_of_dragging split: option.splits if_splits)
  qed (use assms None in \<open>simp add: onMousemove_def\<close>)
qed

lemma made_of_onMouseup:
  assumes "onMouseup B m g = Some (r, g')" "made_of Q out g"
  shows "made_of Q out g'"
proof -
  have e: "made_of Q out g'" if "endResize B c g = (r, g')" for c
    using keepsD [OF made_of_release(2) that assms(2)] .
  have d: "made_of Q out g'" if "endDrag B c g = (r, g')" for c
    using keepsD [OF made_of_release(3) that assms(2)] .
  show ?thesis
    using assms e d
    by (auto simp: onMouseup_def throw_def dest: made_of_dragging
        split: option.splits if_splits bool.splits)
qed

theorem made_of_perform:
  assumes "perform B q g = Some (r, g')" "made_of Q out g"
  shows "made_of Q out g'"
proof -
  have k: "made_of Q out g'" if "Some (f g) = Some (r, g')" "keeps (made_of Q out) f" for f
    using keepsD [OF that(2), of g r g'] that(1) assms(2) by simp
  show ?thesis
  proof (cases q)
    case (Touch_Move ts m)
    then show ?thesis
      using assms by (auto simp: onTouchmove_def dest: made_of_onMousemove split: sum.splits)
  qed (use assms in \<open>auto simp: onTouchend_def intro: k keeps_intros
      dest: made_of_insertCell made_of_moveCell made_of_padWith made_of_onMousemove
        made_of_onMouseup\<close>)
qed

end
