(* ===== verification/Grid_Page_Inv.thy ===== *)
theory Grid_Page_Inv
  imports Grid_Page Grid_Crossing Grid_Elements
begin

text \<open>
  Whatever is done with two linked grids, throwing or not, both stay well formed and keep apart. A
  statement on one grid does not disturb the other when it keeps its grid well formed and takes
  elements from nowhere (\<open>tame\<close>); what takes a cell across is treated in \<open>Grid_Crossing\<close>.
\<close>

section \<open>Statements on one grid\<close>

definition tame :: "grid stmt \<Rightarrow> bool" where
  "tame f \<longleftrightarrow> keeps grid_ok f \<and> (\<forall>Q out. keeps (made_of Q out) f)"

lemma tame_safe:
  assumes "\<And>C. safe C f" "\<And>Q out. keeps (made_of Q out) f"
  shows "tame f"
proof -
  have "keeps grid_ok f" unfolding keeps_def using safe_ok [OF assms(1)] by blast
  then show ?thesis using assms(2) by (simp add: tame_def)
qed

lemma tame_same:
  assumes "\<And>g. same_cells g (f g)"
  shows "tame (upd f)"
proof -
  have "keeps grid_ok (upd f)" by (rule keeps_upd) (simp add: same_cells_ok [OF assms])
  moreover have "made_of Q out (f g) = made_of Q out g" for Q out g
    by (rule made_of_cong) (use assms [of g] in \<open>simp_all add: same_cells_def\<close>)
  then have "keeps (made_of Q out) (upd f)" for Q out by (intro keeps_upd) simp
  ultimately show ?thesis by (simp add: tame_def)
qed

lemma same_then_same: "same_cells g g1 \<Longrightarrow> same_cells g1 g2 \<Longrightarrow> same_cells g g2"
  by (simp add: same_cells_def)

lemma tame_steps:
  "tame (upd (\<lambda>g. g\<lparr>lastTarget := t\<rparr>))" "tame (upd (\<lambda>g. g\<lparr>limitTime := l\<rparr>))"
  "tame (set_position c x y)"
  "tame (upd (\<lambda>g. setMouseDownData B m c (addClass c Resize_Cell g)))"
  "tame (upd (\<lambda>g. addClass c Drag_Cell (setMouseDownData B m c g)))"
proof -
  show "tame (upd (\<lambda>g. g\<lparr>lastTarget := t\<rparr>))" "tame (upd (\<lambda>g. g\<lparr>limitTime := l\<rparr>))"
    by (rule tame_same; rule same_geometry)+
  show "tame (set_position c x y)"
    unfolding set_position_def by (rule tame_same, rule same_then_same; rule same_geometry)
  show "tame (upd (\<lambda>g. setMouseDownData B m c (addClass c Resize_Cell g)))"
    "tame (upd (\<lambda>g. addClass c Drag_Cell (setMouseDownData B m c g)))"
    by (rule tame_safe; rule keeps_upd; simp add: holds_geometry holds_class)+
qed

lemma tame_events:
  "tame (onMouseover B m cell)" "tame (triggerMouseOver B m c)" "tame (resizeByMouse B m c)"
  "tame (endResize B c)" "tame (updateVisibleCellCoordinates B)" "tame (moveCellTo B c t)"
  "tame (handleCellMouseEvent e only (onMouseover B) m)"
proof -
  show "tame (onMouseover B m cell)" by (rule tame_safe) (intro keeps_intros)+
  show "tame (triggerMouseOver B m c)"
    unfolding triggerMouseOver_def by (rule tame_safe; auto intro!: keeps_intros split: option.split)
  show "tame (resizeByMouse B m c)" by (rule tame_safe [OF safe_resizeByMouse made_of_release(1)])
  show "tame (endResize B c)" by (rule tame_safe [OF safe_endResize made_of_release(2)])
  show "tame (updateVisibleCellCoordinates B)" by (rule tame_safe) (intro keeps_intros)+
  show "tame (moveCellTo B c t)" by (rule tame_safe) (intro keeps_intros)+
  show "tame (handleCellMouseEvent e only (onMouseover B) m)"
    by (rule tame_safe) (intro keeps_intros)+
qed

lemma tame_release:
  "tame (andThen (readThen getResizedCell (\<lambda>r. upd (\<lambda>g. clearMouseDownData r (removeClass d Drag_Cell g))))
     (readThen (\<lambda>g. posSize g d) (\<lambda>p. case p of None \<Rightarrow> throw TypeError
        | Some p \<Rightarrow> upd (setCellAbsolutePositionAndSize B d p))))"
  by (rule tame_safe; auto intro!: keeps_intros holds_geometry holds_class split: option.split)

section \<open>One grid beside the other\<close>

lemma made_of_start:
  assumes "grid_ok g" "\<And>x. in_grid g x \<Longrightarrow> Q x" "\<And>x. nextId g \<le> x \<Longrightarrow> Q x"
  shows "made_of Q (outside g) g"
proof -
  have "x \<in> set (tree g p) \<Longrightarrow> in_grid g x" for p x by (cases p) (simp_all add: in_grid_iff)
  moreover have "in_grid g h" if h: "hiddenOf g c = Some h" for c h
  proof -
    have "c \<in> set (cellsArray g)" using h assms(1) by (auto simp: grid_ok_def links_ok_def)
    from managed_links [OF assms(1) this] obtain h' xs ys where
      "hiddenOf g c = Some h'" "tree g In_Element = xs @ h' # ys" .
    then show ?thesis using h by (simp add: in_grid_iff)
  qed
  moreover have "in_grid g x" if "x \<in> set (cellsArray g)" for x
    using that grid_okD(8) [OF assms(1)] by (simp add: in_grid_iff)
  ultimately show ?thesis using assms(2,3) unfolding made_of_def by blast
qed

lemma share_ok:
  assumes "grid_ok b" "\<And>x. in_grid b x \<or> x \<in> outside b \<Longrightarrow> x < nextId g"
  shows "grid_ok (share g b)"
proof -
  have "x \<in> set (tree b p) \<Longrightarrow> in_grid b x" for p x by (cases p) (simp_all add: in_grid_iff)
  then show ?thesis
    using assms
    by (simp add: grid_ok_def tree_ok_def links_ok_def share_def outside_def hasClass_def)
qed

lemma beside:
  assumes a: "grid_ok a" "separate a b" "separate b a" and b: "grid_ok b" "nextId a = nextId b"
    and g: "grid_ok g" and from_a: "\<And>Q out. made_of Q out a \<Longrightarrow> made_of Q out g"
  shows "grid_ok (share g b)" "separate g (share g b)" "separate (share g b) g"
proof -
  let ?Q = "\<lambda>x. \<not> in_grid b x \<and> x \<notin> outside b"
  have old: "x < nextId b" if "in_grid b x \<or> x \<in> outside b" for x
    using that b(1) by (auto simp: in_grid_iff grid_ok_def tree_ok_def)
  have "made_of ?Q (outside a) a"
  proof (rule made_of_start [OF a(1)])
    show "?Q x" if "in_grid a x" for x using that a(2) by (simp add: separate_def)
    show "?Q x" if "nextId a \<le> x" for x using that old [of x] b(2) by auto
  qed
  from from_a [OF this]
  have Q: "\<And>x. in_grid g x \<Longrightarrow> ?Q x" "\<And>x. nextId g \<le> x \<Longrightarrow> ?Q x" "outside g = outside a"
    by (auto simp: made_of_def in_grid_iff)
  have sh: "in_grid (share g b) x = in_grid b x" "outside (share g b) = outside b" for x
    by (simp_all add: share_def in_grid_def outside_def)
  show "grid_ok (share g b)" by (rule share_ok [OF b(1)]) (use Q(2) leI in blast)
  show "separate g (share g b)" using Q(1) by (simp add: separate_def sh)
  show "separate (share g b) g" using Q(1,3) a(3) by (auto simp: separate_def sh)
qed

lemma put_grid_ok:
  assumes "linked_ok s" "grid_ok g" "\<And>Q out. made_of Q out (own side s) \<Longrightarrow> made_of Q out g"
  shows "linked_ok (put_grid side g s)"
proof -
  have s: "grid_ok (this_grid s)" "grid_ok (that_grid s)" "nextId (this_grid s) = nextId (that_grid s)"
    "separate (this_grid s) (that_grid s)" "separate (that_grid s) (this_grid s)"
    using assms(1) by (simp_all add: linked_ok_def synced_def)
  have n: "nextId (share g b) = nextId g" for b by (simp add: share_def)
  show ?thesis
  proof (cases side)
    case This
    then have "made_of Q out g" if "made_of Q out (this_grid s)" for Q out
      using assms(3) that by (simp add: own_def)
    from beside [OF s(1,4,5,2,3) assms(2) this] show ?thesis
      using This assms(2) n by (simp add: put_grid_def linked_ok_def synced_def)
  next
    case That
    then have "made_of Q out g" if "made_of Q out (that_grid s)" for Q out
      using assms(3) that by (simp add: own_def)
    from beside [OF s(2,5,4,1) s(3) [symmetric] assms(2) this] show ?thesis
      using That assms(2) n by (simp add: put_grid_def linked_ok_def synced_def)
  qed
qed

lemma run_on_put:
  "run_on L side f s = (case f (browser_on L side s) (own side s) of (e, g) \<Rightarrow> (e, put_grid side g s))"
  by (simp add: run_on_def in_this_def in_that_def browser_on_def own_def put_grid_def split: side.split)

lemma keeps_run: "(\<And>B. tame (f B)) \<Longrightarrow> keeps linked_ok (run_on L side f)"
  unfolding keeps_def
proof (intro allI impI)
  fix s assume t: "\<And>B. tame (f B)" and s: "linked_ok s"
  obtain e g where r: "f (browser_on L side s) (own side s) = (e, g)" by fastforce
  have "grid_ok (own side s)" using s by (simp add: own_def linked_ok_def synced_def split: side.split)
  then have "grid_ok g" using keepsD [of grid_ok "f (browser_on L side s)" "own side s" e g] t r by (simp add: tame_def)
  moreover have "made_of Q out g" if "made_of Q out (own side s)" for Q out
    using keepsD [of "made_of Q out" "f (browser_on L side s)" "own side s" e g] t r that
    by (simp add: tame_def)
  ultimately show "linked_ok (snd (run_on L side f s))"
    using put_grid_ok [OF s] by (simp add: run_on_put r)
qed

lemma keeps_in:
  assumes "\<And>B. tame (f B)"
  shows "keeps linked_ok (in_this L f)" "keeps linked_ok (in_that L f)"
  using keeps_run [OF assms, of L This] keeps_run [OF assms, of L That] by (simp_all add: run_on_def)

section \<open>Statements on both\<close>

lemma keeps_read_here: "(\<And>s. J s \<Longrightarrow> J (snd (k (r s) s))) \<Longrightarrow> keeps J (readThen r k)"
  by (simp add: keeps_def readThen_def)

lemma linked_grids:
  assumes "linked_ok s"
  shows "grid_ok (this_grid s)" "grid_ok (that_grid s)" "grid_ok (own side s)"
  using assms by (simp_all add: linked_ok_def synced_def own_def split: side.split)

lemma found_cell: "getCellOfElement g chain = Some c \<Longrightarrow> c \<in> set (cellsArray g)"
  by (auto simp: getCellOfElement_def dest: found_managed)

lemma dragged_cell: "grid_ok g \<Longrightarrow> getDraggingCell g = Some d \<Longrightarrow> d \<in> set (cellsArray g)"
  using grid_okD(8) by (fastforce simp: getDraggingCell_def find_Some_iff split: option.splits if_splits)

lemma keeps_place_across [keeps_intros]:
  "keeps linked_ok look \<Longrightarrow> keeps linked_ok (placeAcross L m c look)"
  unfolding placeAcross_def
  by (auto intro!: keeps_intros keeps_in tame_steps split: option.split)

text \<open>A cell changes sides only when it is moved onto a cell of the other grid.\<close>

lemma move_keeps:
  assumes ok: "linked_ok s" and c: "c \<in> set (cellsArray (this_grid s))"
    and t: "t \<in> set (cellsArray (that_grid s))"
  shows "linked_ok (snd (moveCellToGrid L c (Some t) s))"
proof (cases "is_linked s")
  case True
  show ?thesis
  proof (rule moveCellToGrid_result [where L = L, OF ok True c t])
    fix s' assume "moveCellToGrid L c (Some t) s = (None, s')" "crossed c s s'"
    then show ?thesis by (simp add: crossed_def)
  qed
next
  case False
  then show ?thesis
    using ok by (simp add: moveCellToGrid_def js_defs split: option.split)
qed

lemma hover_keeps:
  assumes ok: "linked_ok s" and t: "\<And>t. cell = Some t \<Longrightarrow> t \<in> set (cellsArray (that_grid s))"
  shows "linked_ok (snd (onMouseoverAcross L m cell s))"
proof -
  have sy: "synced s" using ok by (simp add: linked_ok_def)
  obtain s1 where s1: "in_this L (\<lambda>B. upd (\<lambda>g. g\<lparr>lastTarget := None\<rparr>)) s = (None, s1)" "near2 s s1"
    using near2_set_this [OF sy, of "\<lambda>g. g\<lparr>lastTarget := None\<rparr>" L] by auto
  have ok1: "linked_ok s1" using near2_linked [OF s1(2) ok] .
  define d where "d = (if draggable (options (that_grid s1)) then getDraggingCell (this_grid s1) else None)"
  show ?thesis
  proof (cases "d = None \<or> cell = None")
    case True
    then show ?thesis
      using s1(1) ok1
      by (auto simp: onMouseoverAcross_def andThen_def readThen_def skip_def d_def split: option.splits)
  next
    case False
    then obtain c t where ct: "d = Some c" "cell = Some t" by auto
    then have dr: "getDraggingCell (this_grid s1) = Some c" "draggable (options (that_grid s1))"
      by (simp_all add: d_def split: if_splits)
    have at1: "c \<in> set (cellsArray (this_grid s1))" "t \<in> set (cellsArray (that_grid s1))"
      using dragged_cell [OF linked_grids(1) [OF ok1] dr(1)] t ct(2) near2_facts(10) [OF s1(2)] by simp_all
    have "synced s1" using ok1 by (simp add: linked_ok_def)
    then obtain s2 where s2: "in_this L (\<lambda>B. upd (\<lambda>g. g\<lparr>lastTarget := Some t\<rparr>)) s1 = (None, s2)" "near2 s1 s2"
      using near2_set_this [of s1 "\<lambda>g. g\<lparr>lastTarget := Some t\<rparr>" L] by auto
    have ok2: "linked_ok s2" using near2_linked [OF s2(2) ok1] .
    have at2: "c \<in> set (cellsArray (this_grid s2))" "t \<in> set (cellsArray (that_grid s2))"
      using at1 near2_facts(9,10) [OF s2(2)] by simp_all
    let ?move = "readThen (\<lambda>s. rearrangeOnDrag (options (that_grid s))) (\<lambda>moves.
      onlyIf moves (andThen (moveCellToGrid L c (Some t)) (placeAcross L m c skip)))"
    let ?stamp = "in_this L (\<lambda>B. upd (\<lambda>g. g\<lparr>limitTime := Some (now m)\<rparr>))"
    have run: "onMouseoverAcross L m cell s =
        onlyIf (limit_passes (dragMouseoverThrottle (options (this_grid s2))) (now m) (limitTime (this_grid s2)))
          (andThen ?move ?stamp) s2"
      using s1(1) s2(1) ct dr not_inside [OF ok1 at1]
      by (simp add: onMouseoverAcross_def andThen_def readThen_def)
    obtain e3 s3 where s3: "?move s2 = (e3, s3)" by fastforce
    have "linked_ok s3"
    proof (cases "rearrangeOnDrag (options (that_grid s2))")
      case True
      obtain e s' where m: "moveCellToGrid L c (Some t) s2 = (e, s')" by fastforce
      then have "linked_ok s'" using move_keeps [OF ok2 at2, of L] by simp
      moreover obtain e' s'' where p: "placeAcross L m c skip s' = (e', s'')" by fastforce
      ultimately have "linked_ok s''" using keepsD [OF keeps_place_across [OF keeps_skip] p] by simp
      then show ?thesis
        using s3 True m p \<open>linked_ok s'\<close> by (simp add: readThen_def onlyIf_def andThen_def split: option.splits)
    qed (use s3 ok2 in \<open>simp add: readThen_def onlyIf_def skip_def\<close>)
    moreover have "keeps linked_ok ?stamp" by (intro keeps_in tame_steps)
    ultimately show ?thesis
      unfolding run using ok2 s3
      by (simp add: onlyIf_def andThen_def skip_def keeps_def split: option.split)
  qed
qed

lemma keeps_mouseover_on:
  assumes "\<And>s t. cellThere s = Some t \<Longrightarrow> t \<in> set (cellsArray (that_grid s))"
  shows "keeps linked_ok (mouseoverOn L m chain cellThere)"
proof -
  have "keeps linked_ok (readThen cellThere (onMouseoverAcross L m))"
    by (rule keeps_read_here) (rule hover_keeps, use assms in simp_all)
  moreover have "keeps linked_ok (readThen cellThere (\<lambda>cell. in_that L (\<lambda>B. onMouseover B m cell)))"
    by (intro keeps_readThen keeps_in tame_events)
  ultimately have "keeps linked_ok (forEach ds (\<lambda>d.
      andThen (readThen cellThere (\<lambda>cell. in_that L (\<lambda>B. onMouseover B m cell)))
        (forEach bs (\<lambda>b. readThen cellThere (onMouseoverAcross L m)))))" for ds bs :: "nat list"
    by (intro keeps_forEach keeps_andThen)
  then show ?thesis unfolding mouseoverOn_def by (intro keeps_readThen)
qed

lemma keeps_mouseover [keeps_intros]:
  "keeps linked_ok (mouseoverThat L m c)" "keeps linked_ok (mouseover_on L side m)"
proof -
  show "keeps linked_ok (mouseoverThat L m c)"
    unfolding mouseoverThat_def
    by (intro keeps_readThen keeps_mouseover_on) (simp add: page_cell_def found_cell)
  show "keeps linked_ok (mouseover_on L side m)"
    unfolding mouseover_on_def
    by (cases side) (auto intro!: keeps_in tame_events keeps_mouseover_on found_cell)
qed

lemma keeps_drag [keeps_intros]: "keeps linked_ok (drag_on L side m c)"
proof -
  have "keeps linked_ok (lookAcross L m c)"
    unfolding lookAcross_def
    by (auto intro!: keeps_intros keeps_in tame_events split: option.split)
  then have "keeps linked_ok (moveDraggedCellAcross L m c)"
    unfolding moveDraggedCellAcross_def by (rule keeps_place_across)
  moreover have "keeps linked_ok (moveDraggedThat L m c)"
    unfolding moveDraggedThat_def
    by (auto intro!: keeps_intros keeps_in tame_steps split: option.split)
  ultimately show ?thesis by (simp add: drag_on_def split: side.split)
qed

lemma keeps_mousedown [keeps_intros]: "keeps linked_ok (mousedown_on L side m cell)"
  unfolding mousedown_on_def
  by (auto intro!: keeps_intros keeps_run tame_steps split: option.split)

lemma keeps_touchstart [keeps_intros]: "keeps linked_ok (touchstart_on L side n ts m cell)"
  unfolding touchstart_on_def by (auto intro!: keeps_intros split: sum.split)

lemma keeps_cell_event:
  "(\<And>m c. keeps linked_ok (callback m c)) \<Longrightarrow> keeps linked_ok (cell_event_on side e callback m)"
  unfolding cell_event_on_def by (auto intro!: keeps_intros)

section \<open>Events that may pad or drop\<close>

lemma own_pad:
  assumes "linked_ok s"
    "appendOrRemoveNonContiguousCellsWhile B P html (own side s) = Some (r, g)"
  shows "linked_ok (put_grid side g s)"
  by (rule put_grid_ok [OF assms(1) appendOrRemove_ok [OF assms(2) linked_grids(3) [OF assms(1)]]])
    (rule made_of_pad [OF assms(2)])

lemma pad_on_ok:
  assumes "pad_on L side html d m s = Some (r, s')" "linked_ok s"
  shows "linked_ok s'"
proof -
  let ?B = "browser_on L side s"
  obtain x g where x: "appendOrRemoveNonContiguousCellsWhile ?B (row_condition ?B (furthest ?B (own side s) d))
      html (own side s) = Some (x, g)"
    using assms(1) by (auto simp: pad_on_def Let_def split: option.splits)
  note ok = own_pad [OF assms(2) x]
  show ?thesis
  proof (cases x)
    case (Inl e)
    then show ?thesis using assms(1) x ok by (simp add: pad_on_def Let_def)
  next
    case (Inr ch)
    then have "onlyIf ch (drag_on L side m d) (put_grid side g s) = (r, s')"
      using assms(1) x by (simp add: pad_on_def Let_def)
    from keepsD [OF keeps_onlyIf [OF keeps_drag] this ok] show ?thesis .
  qed
qed

lemma mousemove_on_ok:
  assumes "mousemove_on L side m s = Some (r, s')" "linked_ok s"
  shows "linked_ok s'"
proof (cases "getResizedCell (own side s)")
  case (Some c)
  have "keeps linked_ok (run_on L side (\<lambda>B. resizeByMouse B m c))" by (intro keeps_run tame_events)
  then show ?thesis
    using assms Some by (auto simp: mousemove_on_def keeps_def dest!: spec [of _ s])
next
  case None
  show ?thesis
  proof (cases "getDraggingCell (own side s)")
    case (Some d)
    obtain e s1 where m: "drag_on L side m d s = (e, s1)" by fastforce
    have "linked_ok s1" using keepsD [OF keeps_drag m assms(2)] .
    then show ?thesis
      using assms(1) None Some m pad_on_ok
      by (auto simp: mousemove_on_def split: option.splits if_splits)
  qed (use assms None in \<open>simp add: mousemove_on_def\<close>)
qed

text \<open>The target of a release without rearranging is in the grid.\<close>

definition drops_inside :: "side \<Rightarrow> linked \<Rightarrow> bool" where
  "drops_inside side s \<longleftrightarrow>
     (\<forall>t. lastTarget (own side s) = Some t \<longrightarrow> \<not> rearrangeOnDrag (options (own side s)) \<longrightarrow>
        in_grid (own side s) t)"

lemma own_put [simp]: "own side (put_grid side g s) = g"
  by (simp add: own_def put_grid_def split: side.split)

lemma end_drag_ok:
  assumes ok: "linked_ok s" and i: "drops_inside side s"
  shows "linked_ok (snd (end_drag_on L side d s))"
proof -
  let ?f = "\<lambda>B. andThen (readThen getResizedCell (\<lambda>r. upd (\<lambda>g. clearMouseDownData r (removeClass d Drag_Cell g))))
     (readThen (\<lambda>g. posSize g d) (\<lambda>p. case p of None \<Rightarrow> throw TypeError
        | Some p \<Rightarrow> upd (setCellAbsolutePositionAndSize B d p)))"
  obtain e g where r: "?f (browser_on L side s) (own side s) = (e, g)" by fastforce
  have run: "run_on L side ?f s = (e, put_grid side g s)" unfolding run_on_put r by simp
  have k: "keeps linked_ok (run_on L side ?f)" by (intro keeps_run tame_release)
  have ok1: "linked_ok (put_grid side g s)" using keepsD [OF k run ok] .
  let ?J = "\<lambda>g'. lastTarget g' = lastTarget (own side s) \<and> options g' = options (own side s) \<and>
      tree g' = tree (own side s)"
  have "keeps ?J (?f (browser_on L side s))"
    by (auto intro!: keeps_intros simp: clearMouseDownData_def removeClass_def
        setCellAbsolutePositionAndSize_def set_css_def split: option.split)
  from keepsD [OF this r] have j: "?J g" by simp
  have drop: "keeps linked_ok (run_on L side (\<lambda>B. moveCellTo B d (Some t)))" for t
    by (intro keeps_run tame_events)
  show ?thesis
  proof (cases "\<exists>t. lastTarget g = Some t \<and> \<not> rearrangeOnDrag (options g)")
    case True
    then obtain t where t: "lastTarget g = Some t" "\<not> rearrangeOnDrag (options g)" by blast
    then have "in_grid g t" using i j by (simp add: drops_inside_def in_grid_def)
    then have "drop_on L side d t (put_grid side g s) =
        run_on L side (\<lambda>B. moveCellTo B d (Some t)) (put_grid side g s)"
      by (simp add: drop_on_def readThen_def)
    then show ?thesis
      using ok1 drop [of t] run t
      by (simp add: end_drag_on_def andThen_def readThen_def keeps_def split: option.split)
  next
    case False
    then have "(case (lastTarget g, rearrangeOnDrag (options g)) of
        (Some t, False) \<Rightarrow> drop_on L side d t | _ \<Rightarrow> skip) = skip"
      by (auto split: option.split bool.split)
    then show ?thesis
      using ok1 run by (simp add: end_drag_on_def andThen_def readThen_def skip_def split: option.split)
  qed
qed

lemma mouseup_on_ok:
  assumes "mouseup_on L side m s = Some (r, s')" "linked_ok s" "drops_inside side s"
  shows "linked_ok s'"
proof -
  have "keeps linked_ok (run_on L side (\<lambda>B. endResize B c))" for c by (intro keeps_run tame_events)
  then have rs: "linked_ok s'" if "run_on L side (\<lambda>B. endResize B c) s = (r, s')" for c
    using keepsD [of linked_ok "run_on L side (\<lambda>B. endResize B c)" s r s'] that assms(2) by simp
  have dr: "linked_ok s'" if "end_drag_on L side d s = (r, s')" for d
    using end_drag_ok [OF assms(2,3), of L d] that by simp
  show ?thesis
    using assms(1,2) rs dr pad_on_ok
    by (auto simp: mouseup_on_def throw_def split: option.splits if_splits bool.splits)
qed

section \<open>Sessions\<close>

lemma keeps_link: "keeps linked_ok (setAdditionalGridstrapDragTarget element)"
proof -
  have u: "linked_ok (s\<lparr>bound := bs\<rparr>) = linked_ok s" "linked_ok (s\<lparr>additional := x\<rparr>) = linked_ok s" for s bs x
    by (simp_all add: linked_ok_def synced_def)
  have "keeps linked_ok (unbind e)" "keeps linked_ok (bind_to e)" for e
    unfolding unbind_def bind_to_def by (auto intro!: keeps_intros simp: u)
  then show ?thesis
    unfolding setAdditionalGridstrapDragTarget_def
    by (auto intro!: keeps_intros simp: u split: option.split)
qed

text \<open>\<open>moveCell\<close> to the other grid; the target is a cell of the first one, or none.\<close>

lemma eq_at_in: "eq_at xs i = Some x \<Longrightarrow> x \<in> set xs"
  by (auto simp: eq_at_def Let_def split: if_splits)

lemma index_move_ok:
  assumes ok: "linked_ok s"
  shows "linked_ok (snd (moveIndexToGrid L chain i s))"
proof (cases "getCellAndInternalIndex (this_grid s) chain")
  case (Some p)
  then obtain j c where p: "getCellAndInternalIndex (this_grid s) chain = Some (j, c)" by (cases p) simp
  have g: "grid_ok (this_grid s)" using linked_grids [OF ok] by simp
  have c: "c \<in> set (cellsArray (this_grid s))" using found_managed [OF p] .
  define onto where "onto = eq_at (getCells (this_grid s)) i"
  have run: "moveIndexToGrid L chain i s = moveCellToGrid L c onto s"
    by (simp add: moveIndexToGrid_def readThen_def p onto_def)
  consider (apart) "\<not> is_linked s" | (none) "is_linked s" "onto = None" | (same) "is_linked s" "onto = Some c"
    | (other) t where "is_linked s" "onto = Some t" "t \<noteq> c" "t \<in> set (cellsArray (this_grid s))"
    using eq_at_in [of "getCells (this_grid s)" i] set_getCells [OF g] unfolding onto_def
    by (cases "eq_at (getCells (this_grid s)) i") auto
  then show ?thesis
  proof cases
    case apart
    then show ?thesis using ok by (simp add: run moveCellToGrid_def js_defs split: option.split)
  next
    case none
    obtain s' where "moveCellToGrid L c None s = (Some TypeError, s')" "linked_ok s'"
      by (rule moveToGrid_nowhere [where L = L, OF ok none(1) c])
    then show ?thesis using none(2) by (simp add: run)
  next
    case same
    then show ?thesis using ok by (simp add: run moveCellToGrid_def js_defs split: option.split)
  next
    case other
    show ?thesis
    proof (cases "swapMode (options (this_grid s))")
      case True
      show ?thesis
        by (rule moveToGrid_swap_throws [where L = L, OF ok other(1) True c other(4) other(3) [symmetric]])
          (simp add: run other(2))
    next
      case False
      show ?thesis
        by (rule moveToGrid_insert_throws [where L = L, OF ok other(1) False c other(4) other(3) [symmetric]])
          (simp add: run other(2))
    qed
  qed
qed (use ok in \<open>simp add: moveIndexToGrid_def js_defs\<close>)

lemma move_across_ok:
  assumes "moveCellAcross L chain i s = Some (r, s')" "linked_ok s"
  shows "linked_ok s'"
proof -
  have move: "linked_ok s'" if "moveIndexToGrid L chain i s1 = (r, s')" "linked_ok s1" for s1
    using index_move_ok [OF that(2), of L chain i] that(1) by simp
  have pad: "linked_ok (s\<lparr>this_grid := g, that_grid := share g (that_grid s)\<rparr>)"
    if "appendOrRemoveNonContiguousCellsWhile B P html (this_grid s) = Some (x, g)" for B P html x g
    using own_pad [of s B P html This x g] assms(2) that by (simp add: own_def put_grid_def)
  show ?thesis
    using assms move pad
    by (auto simp: moveCellAcross_def Let_def split: option.splits if_splits sum.splits)
qed

text \<open>
  What a session leaves out: attaching an element that is managed already, and releasing the mouse
  over a cell of the other grid in a grid that rearranges on release (\<open>drop_outside\<close> says what the
  code does then).
\<close>

definition permitted_linked :: "linked_op \<Rightarrow> linked \<Rightarrow> bool" where
  "permitted_linked op s =
     (case op of
        On side q \<Rightarrow> permitted q (own side s) \<and>
          (case q of Mouse_Up m \<Rightarrow> drops_inside side s | Touch_End m \<Rightarrow> drops_inside side s | _ \<Rightarrow> True)
      | _ \<Rightarrow> True)"

lemma on_grid_ok:
  assumes ok: "linked_ok s" and p: "permitted q (own side s)"
    and r: "perform (browser_on L side s) q (own side s) = Some (e, g)"
  shows "linked_ok (put_grid side g s)"
  by (rule put_grid_ok [OF ok perform_ok [OF linked_grids(3) [OF ok] p r] made_of_perform [OF r]])

lemma perform_linked_ok:
  assumes ok: "linked_ok s" and p: "permitted_linked op s"
    and r: "perform_linked L op s = Some (e, s')"
  shows "linked_ok s'"
proof (cases op)
  case (Link element)
  then show ?thesis
    using r keepsD [of linked_ok "setAdditionalGridstrapDragTarget element" s e s'] keeps_link ok by simp
next
  case (Move_Across chain i)
  then show ?thesis using r move_across_ok ok by simp
next
  case (On side q)
  have p: "permitted q (own side s)" using p On by (simp add: permitted_linked_def)
  have event: "linked_ok s'" if "f s = (e, s')" "keeps linked_ok f" for f
    using keepsD [of linked_ok f s e s'] that ok by simp
  have alone: "linked_ok s'" if "perform_on L side q s =
      map_option (\<lambda>(e, g). (e, put_grid side g s)) (perform (browser_on L side s) q (own side s))"
    using that r On on_grid_ok [OF ok p] by auto
  have cell_events: "keeps linked_ok (cell_event_on side n (mousedown_on L side) m)"
    "keeps linked_ok (cell_event_on side n (touchstart_on L side k ts) m)" for n m k ts
    by (rule keeps_cell_event, intro keeps_intros)+
  show ?thesis
  proof (cases q)
    case (Mouse_Down m)
    then show ?thesis using r On by (auto intro: event cell_events)
  next
    case (Mouse_Over m)
    then show ?thesis using r On by (auto intro: event keeps_mouseover)
  next
    case (Mouse_Move m)
    then show ?thesis using r On mousemove_on_ok ok by simp
  next
    case (Mouse_Up m)
    then show ?thesis using r On mouseup_on_ok ok assms(2) by (simp add: permitted_linked_def)
  next
    case (Touch_Start n ts m)
    then show ?thesis using r On by (auto intro: event cell_events)
  next
    case (Touch_Move ts m)
    then show ?thesis using r On mousemove_on_ok ok by (auto simp: touch_on_def split: sum.splits)
  next
    case (Touch_End m)
    then show ?thesis using r On mouseup_on_ok ok assms(2) by (simp add: permitted_linked_def)
  qed (use alone in \<open>simp_all del: perform.simps\<close>)
qed

end
