(* ===== verification/Grid_Linked_Props.thy ===== *)
theory Grid_Linked_Props
  imports Grid_Crossing Grid_Page_Inv
begin

text \<open>
  Two linked grids of a page: how they are created, what a release over the other grid does, and
  what holds in every state that operations, events and linking lead to.
\<close>

section \<open>Two grids of one page\<close>









section \<open>Releasing over the other grid\<close>

definition shown :: "grid \<Rightarrow> nat \<Rightarrow> bool" where
  "shown g h \<longleftrightarrow> hasClass g h Hidden_Cell \<and>
     (case visibleOf g h of None \<Rightarrow> False | Some v \<Rightarrow> v \<in> set (cellsArray g))"

lemma getCells_shown:
  assumes "\<And>e. e \<in> set (tree g In_Container) \<Longrightarrow> visibleOf g e = None"
  shows "getCells g = List.map_filter (visibleOf g) (filter (shown g) (tree g In_Element))"
proof -
  have "hiddenCells g = filter (shown g) (document_order g)"
    unfolding hiddenCells_def by (rule filter_cong) (simp_all add: shown_def)
  also have "\<dots> = filter (shown g) (tree g In_Element)"
    by (rule filter_document_order) (simp add: shown_def assms)
  finally show ?thesis by (simp add: getCells_def)
qed

lemma container_visible:
  assumes "grid_ok g" "e \<in> set (tree g In_Container)"
  shows "visibleOf g e = None"
proof (rule ccontr)
  assume "visibleOf g e \<noteq> None"
  then obtain v where "visibleOf g e = Some v" by blast
  from not_in_container [OF assms(1) this] assms(2) show False by simp
qed

lemma without_hidden:
  assumes ok: "grid_ok g" and h: "visibleOf g h = Some c" and l: "tree g In_Element = xs @ h # ys"
  shows "getCells (g\<lparr>tree := (tree g)(In_Element := xs @ ys)\<rparr>) = removeAll c (getCells g)"
proof -
  let ?g = "g\<lparr>tree := (tree g)(In_Element := xs @ ys)\<rparr>"
  let ?k = "\<lambda>ks. List.map_filter (visibleOf g) (filter (shown g) ks)"
  have s: "shown ?g = shown g" by (intro ext) (simp add: shown_def hasClass_def cong: option.case_cong)
  have "getCells ?g = ?k (xs @ ys)"
    using getCells_shown [of ?g] container_visible [OF ok] by (simp add: s)
  moreover have "getCells g = ?k xs @ c # ?k ys"
    using getCells_shown [of g] container_visible [OF ok] l h visible_hidden [OF ok h]
    by (simp add: shown_def List.map_filter_def)
  moreover have "distinct (getCells g)" by (rule distinct_getCells [OF ok])
  ultimately show ?thesis by (simp add: List.map_filter_def)
qed

lemma map_filter_same:
  "(\<And>x. x \<in> set xs \<Longrightarrow> f x = g x) \<Longrightarrow> List.map_filter f xs = List.map_filter g xs"
  by (induction xs) (simp_all add: List.map_filter_simps cong: option.case_cong)

text \<open>A hidden copy of a cell that is not managed does not count.\<close>

lemma with_foreign:
  assumes ok: "grid_ok g" and l: "set (ws @ zs) = set (tree g In_Element)" "ws @ zs = tree g In_Element"
    and h: "\<not> in_grid g h" "visibleOf a h = Some c" "c \<notin> set (cellsArray g)"
  shows "getCells (hand_over h a (g\<lparr>tree := (tree g)(In_Element := ws @ h # zs)\<rparr>)) = getCells g"
proof -
  let ?g = "hand_over h a (g\<lparr>tree := (tree g)(In_Element := ws @ h # zs)\<rparr>)"
  have n: "h \<notin> set (tree g p)" for p using h(1) by (cases p) (auto simp: in_grid_iff)
  have v: "visibleOf ?g x = visibleOf g x" "shown ?g x = shown g x" if "x \<noteq> h" for x
    using that by (simp_all add: hand_over_def shown_def hasClass_def cong: option.case_cong)
  have "\<not> shown ?g h" using h(2,3) by (simp add: hand_over_def shown_def)
  moreover have "filter (shown ?g) xs = filter (shown g) xs" if "set xs \<subseteq> set (ws @ zs)" for xs
    by (rule filter_cong [OF refl], rule v(2)) (use that n [of In_Element] l(2) in auto)
  ultimately have f: "filter (shown ?g) (ws @ h # zs) = filter (shown g) (ws @ zs)" by simp
  have "visibleOf ?g e = None" if "e \<in> set (tree ?g In_Container)" for e
    using that container_visible [OF ok, of e] n [of In_Container] v(1) [of e]
    by (cases "e = h") (simp_all add: hand_over_def)
  then have "getCells ?g = List.map_filter (visibleOf ?g) (filter (shown ?g) (tree ?g In_Element))"
    by (rule getCells_shown)
  also have "tree ?g In_Element = ws @ h # zs" by (simp add: hand_over_def)
  also have "List.map_filter (visibleOf ?g) (filter (shown ?g) (ws @ h # zs)) =
      List.map_filter (visibleOf g) (filter (shown g) (ws @ zs))"
    unfolding f by (rule map_filter_same, rule v(1)) (use n [of In_Element] l(2) in auto)
  also have "\<dots> = getCells g"
    using getCells_shown [of g] container_visible [OF ok] l(2) by simp
  finally show ?thesis .
qed

text \<open>
  A release over a cell of the other grid moves only the hidden copy of the cell there: the cell
  stays in its container but is in neither grid's \<open>$getCells\<close> any more.
\<close>

lemma drop_outside:
  assumes ok: "linked_ok s" and c: "c \<in> set (cellsArray (this_grid s))"
    and t: "t \<in> set (cellsArray (that_grid s))" and mode: "\<not> swapMode (options (this_grid s))"
  obtains s' where "drop_on L This c t s = (None, s')"
    "getCells (this_grid s') = removeAll c (getCells (this_grid s))"
    "getCells (that_grid s') = getCells (that_grid s)"
    "cellsArray (this_grid s') = cellsArray (this_grid s)"
    "tree (this_grid s') In_Container = tree (this_grid s) In_Container"
proof -
  obtain h xs ys r us vs where p: "hiddenOf (this_grid s) c = Some h"
    "visibleOf (this_grid s) h = Some c" "tree (this_grid s) In_Element = xs @ h # ys"
    "hiddenOf (that_grid s) t = Some r" "visibleOf (that_grid s) r = Some t"
    "tree (that_grid s) In_Element = us @ r # vs"
    "page_chain s c = chain_of (this_grid s) c" "page_chain s t = chain_of (that_grid s) t"
    "page_hidden s c = Some h" "page_hidden s t = Some r"
    "\<not> in_grid (that_grid s) c" "c \<notin> outside (that_grid s)" "c < nextId (that_grid s)"
    "\<not> in_grid (this_grid s) t" "t \<notin> outside (this_grid s)" "t < nextId (this_grid s)"
    by (rule linked_places [OF ok c t])
  let ?a = "this_grid s" and ?b = "that_grid s"
  note g = linked_grids(1,2) [OF ok]
  have d: "distinct (xs @ h # ys)" "distinct (us @ r # vs)"
    "set (xs @ h # ys) \<inter> set (us @ r # vs) = {}"
    using linked_lists [OF ok] p(3,6) by (simp_all add: proper_def two_lists_def)
  obtain ws zs where w: "around (length us < length xs) us r vs = (ws, zs)" by fastforce
  then have wz: "ws @ zs = tree ?b In_Element" using p(6) by (auto simp: around_def split: if_splits)
  define a2 where "a2 = ?a\<lparr>tree := (tree ?a)(In_Element := xs @ ys)\<rparr>"
  define b2 where "b2 = hand_over h ?a (?b\<lparr>tree := (tree ?b)(In_Element := ws @ h # zs)\<rparr>)"
  have re: "rearrange [h] (detachAndInsertInPlace h r) s = pair_of s a2 b2"
    using rearrange_insert [OF p(3,6) d w, of s] by (simp add: a2_def b2_def)
  have "in_grid ?a h" using p(3) by (simp add: in_grid_iff)
  then have "\<not> in_grid ?b h" using ok unfolding linked_ok_def separate_def by blast
  moreover have "c \<notin> set (cellsArray ?b)" using p(11) grid_okD(8) [OF g(2)] unfolding in_grid_iff by blast
  ultimately have h: "\<not> in_grid ?b h" "c \<notin> set (cellsArray ?b)" .
  have cells: "getCells a2 = removeAll c (getCells ?a)"
    unfolding a2_def by (rule without_hidden [OF g(1) p(2,3)])
  have "set (ws @ zs) = set (tree ?b In_Element)" by (simp only: wz)
  from with_foreign [OF g(2) this wz h(1) p(2) h(2)] have cells': "getCells b2 = getCells ?b"
    unfolding b2_def .
  have "\<forall>x \<in> set (cellsArray a2). hiddenOf a2 x \<noteq> None"
    using grid_okD(9) [OF g(1)] by (auto simp: links_ok_def a2_def)
  from forEach_redraw [OF this, of "L b2"] obtain a3 where
    a3: "updateVisibleCellCoordinates (L b2) a2 = (None, a3)" "same_cells a2 a3"
    by (auto simp: updateVisibleCellCoordinates_def readThen_def)
  have "drop_on L This c t s = (None, pair_of s a3 (share a3 b2))"
    using p(1,10,14) mode re a3(1)
    by (simp add: drop_on_def readThen_def own_def andThen_def upd_def run_on_def in_this_def pair_of_def)
  moreover have "getCells (share a3 b2) = getCells b2"
    by (rule hiddenCells_cong(2)) (simp_all add: share_def hasClass_def)
  ultimately show thesis
    using that [of "pair_of s a3 (share a3 b2)"] cells cells' same_cells_getCells [OF a3(2)] a3(2)
    by (simp add: same_cells_def a2_def)
qed

section \<open>Every state of two linked grids\<close>










end
