(* ===== verification/Spec2Isabelle.thy ===== *)
theory Spec2Isabelle
  imports Session_Props Requests Chart Config_Props Canvas_Page Help_Pages Editor_Props Control_Samples Grid_Drag
    Grid_Linked_Props
begin

text \<open>
  The web front ends of the data acquisition system, whose logic is in six scripts. Under
  \<open>scripts/ConfigurationGUI/daqConfig/static/js\<close>: \<open>drag.js\<close> is a graphical editor of configuration files
  (modules are boxes, their senders and receivers are dots, connections are lines), \<open>input.js\<close> a
  text editor of the same files, \<open>menu.js\<close> the start page of both. \<open>scripts.js\<close>, under
  \<open>scripts/ControlGUI/daqControl/static/scripts\<close>, is the page from which a running system is
  controlled; \<open>jquery.gridstrap.js\<close>, in the same directory, is the plugin for grids of cells that
  can be dragged and resized which that page loads. \<open>scripts/Web/templates/addGraph.js\<close> draws the
  chart of a monitoring page.

  \<^bold>\<open>How the parts interact.\<close> The canvas keeps modules and connections in global arrays and
  answers mouse events; forms and buttons send requests that read the working copy of the file,
  transform it and write it back. The modules and connections of the canvas are not the file:
  loading the page builds the canvas from the file, the callbacks of the requests carry the
  canvas into the file, and most properties below say how the two follow each other. The editor
  page reads and writes whole files. The control page shows the tree of nodes of one
  configuration and their states, and sends commands. A grid keeps the order of its cells in hidden
  copies of them that the browser lays out, and puts the visible cells where the copies are.

  \<^bold>\<open>Conventions.\<close> A handler is a function on the state of its page that also returns the
  exception it throws, \<open>js_error option \<times> 's\<close> (\<open>'s stmt\<close>, with \<open>andThen\<close>, \<open>forEach\<close>, \<open>upd\<close>,
  \<open>readThen\<close>); what was done before an exception stays done. The success callback of a request is
  a function of the answer. An object \<open>this\<close> of class \<open>Module\<close> is its position in \<open>moduleArray\<close>.
  Objects are association lists in the order of their keys, an absent property is \<open>None\<close>, numbers
  are integers (coordinates on the canvas and on a page rationals).

  \<^bold>\<open>Theories.\<close>
  \<^item> \<open>Js_Prelude\<close>, \<open>Js_Strings\<close>: statements, JSON values, numerals, objects, string methods, and the
    lemmas about them the components share.
  \<^item> \<open>Conn_Names\<close>: connection names \<open>a:b:c:d\<close> and \<open>split\<close>; the locale \<open>id_text\<close> states what the parts
    must satisfy for a name to be read back, and is interpreted on decimal numerals.
  \<^item> \<open>Ports\<close>: \<open>portRange\<close>; the locale \<open>port_supply\<close> (a draw returns a port above the counter and
    moves the counter there) is interpreted for both counters.
  \<^item> \<open>Canvas\<close>: the globals, \<open>Module\<close> and its methods that create connectors, hover listeners.
    \<open>Lines\<close>: \<open>updateLines\<close>, \<open>drawLine\<close>, the listeners that pull lines and move modules.
    \<open>Connections\<close>: \<open>connectLines\<close>, \<open>deleteConnection\<close>, \<open>checkConnection\<close>, \<open>cancelConnection\<close>, and the
    invariant \<open>canvas_ok\<close>: the lists of the senders, the lists of the receivers, the keys of
    \<open>overallConnections\<close> and the lines on the stage are four copies of one set of edges.
    \<open>Dragging\<close>: the invariant that every line joins its two connectors.
    \<open>Graph_Props\<close>: the operations as insertion, deletion and lookup in the set of edges.
  \<^item> \<open>Config_File\<close>: the callbacks of \<open>writeJSON\<close>, \<open>copyConnectors\<close>, \<open>submitNewConnection\<close> and
    \<open>saveModulesPosition\<close>, from the file read to the file posted. \<open>Load\<close>: \<open>readJSON\<close> and
    \<open>readJSON_helper\<close>. \<open>Load_Props\<close>, \<open>Load_Graph\<close>: the canvas a file is loaded to, described by the file
    alone. \<open>Config_Props\<close>, \<open>Copy_Props\<close>: round trips and effects of the callbacks.
  \<^item> \<open>Gestures\<close>, \<open>Gesture_Props\<close>: the page (canvas, form, requests sent) and complete gestures from one
    connector to another. \<open>Naming\<close>: \<open>submitNewMultiModules\<close>. \<open>Canvas_Page\<close>: canvas size, form schemas.
  \<^item> \<open>Sessions\<close>: the events of the canvas page and its requests as a state machine: an event runs a
    handler, a request reads the working copy, and its answer is transformed and posted back, in
    any order (\<open>session_step\<close>). \<open>Session_Canvas\<close>, \<open>Session_Props\<close>: what every handler keeps, and what
    holds in every session that can be reached. An event must be possible (\<open>enabled\<close>: the mouse
    leaves a connector before it enters another one, connectors that are clicked exist), and the
    bounds of a text do not depend on its colour. The handlers draw an existing connection a second
    time when \<open>checkConnection\<close> misses it; the steps contain that release, but what is proved of the
    reachable sessions is proved up to it, because the canvas is not consistent afterwards
    (\<open>check_misses_existing_connection\<close>, \<open>redrawn_connection_throws\<close>). The messages between page and
    server are a model of the transport; only the callbacks they carry are code of the scripts.
    \<open>Requests\<close>: requests that overlap may lose data.
  \<^item> \<open>Widgets\<close>, \<open>Help_Pages\<close>: elements with fixed ids and the help button (locale \<open>help_button\<close>), which the
    canvas page, the start page and the editor page interpret. \<open>Editor_Page\<close>, \<open>Editor_Props\<close>:
    \<open>input.js\<close> and its reachable states (\<open>editor_reachable\<close>).
  \<^item> \<open>Dom\<close>: pages whose elements are created by the script. \<open>Control\<close>, \<open>Control_Tree\<close>, \<open>Control_Log\<close>:
    \<open>scripts.js\<close> in three parts; \<open>Control_Nodes\<close>, \<open>Control_Lists\<close>: its properties; \<open>Control_Samples\<close>: a page
    with two nodes on which the properties are applied, and situations the code does not foresee.
  \<^item> \<open>Chart\<close>: \<open>addGraph.js\<close>: the series, their histories and the timer. What \<open>addPoint\<close> of the chart
    library does to a series is a parameter.
  \<^item> \<open>Grid_Order\<close>, \<open>Grid_Timing\<close>: the class \<open>Utils\<close> of the grid plugin: elements among their siblings,
    \<open>Debounce\<close> and \<open>Limit\<close>, offsets. \<open>Grid\<close>: the state of a grid, the classes \<open>Setup\<close>, \<open>Internal\<close> and
    \<open>Methods\<close>. \<open>Grid_Events\<close>: the class \<open>Handlers\<close>. \<open>Grid_Inv\<close>: the invariant \<open>grid_ok\<close> (the cells are
    the elements of the container, each linked with one hidden copy) and insertion; \<open>Grid_Cells\<close>:
    detaching and moving, as functions on the list of the cells; \<open>Grid_Padding\<close>: the loops that
    append and remove placeholder cells; \<open>Grid_Session\<close>: operations and events in any order;
    \<open>Grid_Props\<close>: what the operations do, and the locale \<open>cell_collection\<close>, the contract of a client
    that sees a grid as a list of cells, interpreted on the model; \<open>Grid_Drag\<close>: complete drags, with
    what they need from the browser at the points where the mouse is pressed and moved to.
  \<^item> \<open>Grid_Linked\<close>, \<open>Grid_Page\<close>: two grids of a page, the first linked to the second, with one record
    each and a shared numbering of elements: moving a cell to the other grid, linking, and the
    handlers of either grid, which look beyond it. \<open>Grid_Linked_Inv\<close>, \<open>Grid_Across\<close>: the invariant
    \<open>linked_ok\<close> (both grids well-formed, no element in both) through the steps of a crossing;
    \<open>Grid_Elements\<close>: the elements of a grid are those it had, or new; \<open>Grid_Crossing\<close>: \<open>moveCell\<close> with
    a target grid always throws, dragging into the other grid works; \<open>Grid_Page_Inv\<close>: every event and
    operation keeps the invariant; \<open>Grid_Linked_Props\<close>: creation, and every reachable state.

  \<^bold>\<open>Loops.\<close> Loops over arrays are structural recursions and no function has fuel. \<open>pad\<close> terminates
  because the list grows towards its bound; \<open>getObjects\<close> and \<open>childrenTree\<close> because JSON values are
  finite trees; the loop that removes placeholder cells because each round removes one. The loop
  that appends placeholder cells runs as long as its condition holds, perhaps forever: it is a
  \<open>partial_function\<close> whose result is \<open>None\<close> then, and it is proved to return when the condition fails
  for large grids.

  \<^bold>\<open>Parameters.\<close> \<open>env\<close> holds what \<open>createjs\<close> and the browser answer (\<open>getBounds\<close> of a text, the window's
  \<open>name\<close>); the validator of the editor library is a function from documents to errors; the icon
  of a status (\<open>returnIcon\<close>, generated by the template) is a function argument. \<open>browser\<close> holds what a
  grid asks: the layout, the element under a point, whether a listener prevents an event.

  \<^bold>\<open>Not modelled.\<close> The C++ core (\<open>src/\<close>) and the Python servers and tools are other programs; the
  scripts see their answers, which are arguments here. The libraries in minified or bundled form
  (\<open>create.js\<close>, \<open>jsoneditor.js\<close>, jQuery, \<open>jstree\<close>, \<open>jquery-machine\<close>) are third-party. Of the grid
  plugin, which is of another author too but present as source: grids inside cells, more than two
  linked grids, a grid linked to itself or back, cell selectors other than the default, random identifiers, and the delay
  of the debounced handlers (\<open>Grid_Timing\<close> says when they run, with timers that fire exactly when
  they are due; \<open>setTimeout\<close> only promises not earlier). Of the scripts themselves:
  reloading the page, dialogs, colours, fonts and markup that only affects the look, and node names
  that are not valid in a jQuery selector.
\<close>

end
